(* ===== verification/Opex_Prelude.thy ===== *)
theory Opex_Prelude
  imports Main "HOL-Library.Word" "HOL-Library.Sublist"
begin

text \<open>
  Shared vocabulary of the OPEX development: the types every component uses, the part of
  Rust's \<open>str\<close>, \<open>Vec\<close> and integer API that the modelled code calls, and the lemmas about
  them that the component theories rely on.

  A Rust \<open>&str\<close> or \<open>String\<close> is its sequence of UTF-8 bytes, so \<^typ>\<open>string\<close> (a list of
  8-bit characters) stands for it: \<open>len\<close> is \<^const>\<open>length\<close>, equality, \<open>split('\n')\<close>,
  \<open>strip_prefix\<close> and the like are byte operations.  Only \<open>trim\<close> and its kin look at whole
  code points; they are written over the UTF-8 encodings of the code points with the Unicode
  \<open>White_Space\<close> property, so they agree with Rust on every valid string.
\<close>

section \<open>Types and collections of facts\<close>

named_theorems opex_defs \<open>definitions of one-line operations\<close>
named_theorems rust_str \<open>equations of the string operations\<close>

text \<open>Identifiers (\<open>uuid::Uuid\<close>), points in time and durations are numbers of their own
  unit; each theory says which.  An identifier is only ever compared for equality.\<close>

type_synonym uuid = nat
type_synonym timestamp = int
type_synonym instant = nat

text \<open>\<open>serde_json::Value\<close>.  Numbers are kept as their literal text: no modelled code does
  arithmetic on them.  An object is the list of its members.\<close>

datatype json =
    JNull
  | JBool bool
  | JNum string
  | JStr string
  | JArr "json list"
  | JObj "(string \<times> json) list"

fun json_get :: "json \<Rightarrow> string \<Rightarrow> json option" where
  "json_get (JObj ms) k = map_of ms k"
| "json_get _ k = None"

fun as_str :: "json \<Rightarrow> string option" where
  "as_str (JStr s) = Some s"
| "as_str _ = None"

fun as_array :: "json \<Rightarrow> json list option" where
  "as_array (JArr xs) = Some xs"
| "as_array _ = None"

lemma json_get_Some: "json_get j k = Some v \<longleftrightarrow> (\<exists>ms. j = JObj ms \<and> map_of ms k = Some v)"
  by (cases j) auto

lemma as_str_Some: "as_str j = Some s \<longleftrightarrow> j = JStr s"
  by (cases j) auto

lemma as_array_Some: "as_array j = Some xs \<longleftrightarrow> j = JArr xs"
  by (cases j) auto

lemma set_map_filter: "set (List.map_filter f xs) = {y. \<exists>x \<in> set xs. f x = Some y}"
  by (induction xs) (auto simp: List.map_filter_simps split: option.splits)

lemmas json_Some = json_get_Some as_str_Some as_array_Some

section \<open>Strings\<close>

fun strip_prefix :: "string \<Rightarrow> string \<Rightarrow> string option" where
  "strip_prefix [] s = Some s"
| "strip_prefix (p # ps) [] = None"
| "strip_prefix (p # ps) (c # cs) = (if p = c then strip_prefix ps cs else None)"

definition starts_with :: "string \<Rightarrow> string \<Rightarrow> bool" where
  "starts_with p s \<longleftrightarrow> strip_prefix p s \<noteq> None"

definition ends_with :: "string \<Rightarrow> string \<Rightarrow> bool" where
  "ends_with p s \<longleftrightarrow> strip_prefix (rev p) (rev s) \<noteq> None"

fun contains_str :: "string \<Rightarrow> string \<Rightarrow> bool" where
  "contains_str p [] = starts_with p []"
| "contains_str p (c # cs) = (starts_with p (c # cs) \<or> contains_str p cs)"

text \<open>\<open>s.split(c)\<close>: one piece more than there are separators, never an empty list.\<close>

fun split_on :: "char \<Rightarrow> string \<Rightarrow> string list" where
  "split_on d [] = [[]]"
| "split_on d (c # cs) =
     (if c = d then [] # split_on d cs
      else (case split_on d cs of [] \<Rightarrow> [[c]] | w # ws \<Rightarrow> (c # w) # ws))"

text \<open>\<open>xs.join(sep)\<close>.\<close>

fun join :: "string \<Rightarrow> string list \<Rightarrow> string" where
  "join sep [] = []"
| "join sep [w] = w"
| "join sep (w # v # ws) = w @ sep @ join sep (v # ws)"

text \<open>The UTF-8 encodings of the code points with the property \<open>White_Space\<close>.\<close>

definition ws_encodings :: "string list" where
  "ws_encodings =
     map (\<lambda>b. [char_of (b :: nat)]) [9, 10, 11, 12, 13, 32]
     @ map (map (char_of :: nat \<Rightarrow> char))
        ([[194, 133], [194, 160], [225, 154, 128]]
         @ map (\<lambda>b. [226, 128, b]) [128, 129, 130, 131, 132, 133, 134, 135, 136, 137, 138, 168, 169, 175]
         @ [[226, 129, 159], [227, 128, 128]])"

fun strip_any :: "string list \<Rightarrow> string \<Rightarrow> string option" where
  "strip_any [] s = None"
| "strip_any (e # es) s = (case strip_prefix e s of Some r \<Rightarrow> Some r | None \<Rightarrow> strip_any es s)"

lemma strip_prefix_Some: "strip_prefix p s = Some r \<longleftrightarrow> s = p @ r"
  by (induction p s rule: strip_prefix.induct) auto

lemma strip_prefix_append [simp]: "strip_prefix p (p @ r) = Some r"
  by (simp add: strip_prefix_Some)

lemma starts_with_iff: "starts_with p s \<longleftrightarrow> (\<exists>r. s = p @ r)"
  unfolding starts_with_def using strip_prefix_Some by auto

lemma ends_with_iff: "ends_with p s \<longleftrightarrow> (\<exists>r. s = r @ p)"
proof -
  have "strip_prefix (rev p) (rev s) = Some r \<longleftrightarrow> s = rev r @ p" for r
    unfolding strip_prefix_Some by (metis rev_append rev_rev_ident)
  then show ?thesis unfolding ends_with_def
    by (metis not_Some_eq rev_rev_ident)
qed

lemma strip_any_Some:
  "strip_any es s = Some r \<Longrightarrow> \<exists>e \<in> set es. s = e @ r"
  by (induction es s rule: strip_any.induct)
     (auto split: option.splits simp: strip_prefix_Some)

lemma strip_any_length:
  "\<lbrakk>strip_any es s = Some r; [] \<notin> set es\<rbrakk> \<Longrightarrow> length r < length s"
  by (drule strip_any_Some) (metis length_append less_add_same_cancel2 length_greater_0_conv)

lemma ws_encodings_nonempty: "[] \<notin> set ws_encodings"
  by (simp add: ws_encodings_def)

text \<open>Strip leading encodings of \<open>es\<close> as long as there is one.  An empty encoding is never in
  the lists used; the guard keeps the function total.\<close>

function strip_while :: "string list \<Rightarrow> string \<Rightarrow> string" where
  "strip_while es s =
     (if [] \<in> set es then s
      else case strip_any es s of Some r \<Rightarrow> strip_while es r | None \<Rightarrow> s)"
  by pat_completeness auto
termination
  by (relation "measure (\<lambda>(es, s). length s)") (auto dest: strip_any_length)

declare strip_while.simps [simp del]

definition trim_start :: "string \<Rightarrow> string" where
  "trim_start s = strip_while ws_encodings s"

definition trim_end :: "string \<Rightarrow> string" where
  "trim_end s = rev (strip_while (map rev ws_encodings) (rev s))"

definition trim :: "string \<Rightarrow> string" where
  "trim s = trim_end (trim_start s)"

text \<open>\<open>to_ascii_lowercase\<close>, and \<open>trim_end_matches(c)\<close> for one character.\<close>

definition ascii_lower :: "char \<Rightarrow> char" where
  "ascii_lower c =
     (let n = of_char c :: nat in if 65 \<le> n \<and> n \<le> 90 then char_of (n + 32) else c)"

definition to_ascii_lowercase :: "string \<Rightarrow> string" where
  "to_ascii_lowercase s = map ascii_lower s"

definition trim_end_matches :: "char \<Rightarrow> string \<Rightarrow> string" where
  "trim_end_matches c s = rev (dropWhile (\<lambda>d. d = c) (rev s))"

text \<open>\<open>is_char_boundary\<close>: both ends, and every byte that does not continue a code point.\<close>

definition is_char_boundary :: "string \<Rightarrow> nat \<Rightarrow> bool" where
  "is_char_boundary s i \<longleftrightarrow>
     i = 0 \<or> i = length s \<or> (i < length s \<and> \<not> (128 \<le> (of_char (s ! i) :: nat) \<and> (of_char (s ! i) :: nat) < 192))"

text \<open>The loop \<open>while end > 0 && !s.is_char_boundary(end) { end -= 1 }\<close>.\<close>

fun floor_char_boundary :: "string \<Rightarrow> nat \<Rightarrow> nat" where
  "floor_char_boundary s 0 = 0"
| "floor_char_boundary s (Suc e) =
     (if is_char_boundary s (Suc e) then Suc e else floor_char_boundary s e)"

text \<open>\<open>format!("{}", n)\<close> of an unsigned number.\<close>

fun nat_str :: "nat \<Rightarrow> string" where
  "nat_str n =
     (if n < 10 then [char_of (48 + n)] else nat_str (n div 10) @ [char_of (48 + n mod 10)])"

declare nat_str.simps [simp del]

text \<open>The value of a string of decimal digits.\<close>

definition digits_val :: "string \<Rightarrow> nat" where
  "digits_val s = foldl (\<lambda>n c. 10 * n + (of_char c - 48)) 0 s"

text \<open>A literal given by its UTF-8 bytes.\<close>

definition utf8 :: "nat list \<Rightarrow> string" where
  "utf8 bs = map char_of bs"

text \<open>\<open>s.chars().take(n)\<close>: the bytes of the first \<open>n\<close> code points.\<close>

fun take_chars :: "nat \<Rightarrow> string \<Rightarrow> string" where
  "take_chars n [] = []"
| "take_chars n (c # cs) =
     (if 128 \<le> (of_char c :: nat) \<and> (of_char c :: nat) < 192 then c # take_chars n cs
      else case n of 0 \<Rightarrow> [] | Suc k \<Rightarrow> c # take_chars k cs)"

section \<open>Lemmas on strings\<close>

lemma digits_val_snoc: "digits_val (s @ [c]) = 10 * digits_val s + (of_char c - 48)"
  by (simp add: digits_val_def)

lemma digits_val_nat_str [simp]: "digits_val (nat_str n) = n"
proof (induction n rule: nat_str.induct)
  case (1 n)
  show ?case
  proof (cases "n < 10")
    case True
    then show ?thesis by (subst nat_str.simps) (simp add: digits_val_def)
  next
    case False
    then show ?thesis using 1 by (subst nat_str.simps) (simp add: digits_val_snoc)
  qed
qed


lemma split_on_ne [simp]: "split_on d s \<noteq> []"
  by (induction s) (auto split: list.splits)

lemma join_Cons_Cons_ne: "ws \<noteq> [] \<Longrightarrow> join sep (w # ws) = w @ sep @ join sep ws"
  by (cases ws) auto

lemma join_split [simp]: "join [d] (split_on d s) = s"
proof (induction s)
  case (Cons c cs)
  then show ?case
  proof (cases "split_on d cs")
    case (Cons w ws)
    then have *: "join [d] (w # ws) = cs" using Cons.IH by simp
    show ?thesis
      using * Cons by (cases ws) auto
  qed simp
qed simp

lemma split_on_free: "d \<notin> set w \<Longrightarrow> split_on d w = [w]"
  by (induction w) auto

lemma split_on_append:
  "d \<notin> set w \<Longrightarrow> split_on d (w @ d # s) = w # split_on d s"
  by (induction w) auto

lemma split_join:
  "\<lbrakk>ws \<noteq> []; \<forall>w \<in> set ws. d \<notin> set w\<rbrakk> \<Longrightarrow> split_on d (join [d] ws) = ws"
  by (induction ws rule: induct_list012) (auto simp: split_on_free split_on_append)

lemma split_on_pieces: "w \<in> set (split_on d s) \<Longrightarrow> d \<notin> set w"
  by (induction s arbitrary: w) (auto split: if_splits list.splits)

lemma strip_while_suffix: "suffix (strip_while es s) s"
proof (induction es s rule: strip_while.induct)
  case (1 es s)
  show ?case
  proof (cases "[] \<in> set es \<or> strip_any es s = None")
    case True
    then show ?thesis by (subst strip_while.simps) (auto split: option.splits)
  next
    case False
    then obtain r where r: "strip_any es s = Some r" and ne: "[] \<notin> set es" by auto
    then have "suffix (strip_while es r) r" using "1.IH" by simp
    moreover have "suffix r s" using strip_any_Some [OF r] by (auto simp: suffix_def)
    ultimately show ?thesis using r ne
      by (subst strip_while.simps) (auto intro: suffix_order.trans)
  qed
qed

lemma strip_while_Nil [simp]: "strip_while es [] = []"
  using strip_while_suffix [of es "[]"] by (simp add: suffix_def)

lemma trim_end_prefix: "prefix (trim_end s) s"
  using strip_while_suffix [of "map rev ws_encodings" "rev s"]
  by (simp add: trim_end_def suffix_to_prefix)

lemma floor_char_boundary_le: "floor_char_boundary s e \<le> e"
  by (induction e) auto

lemma floor_char_boundary_ok: "is_char_boundary s (floor_char_boundary s e)"
  by (induction e) (auto simp: is_char_boundary_def)

lemma floor_char_boundary_greatest:
  "\<lbrakk>i \<le> e; is_char_boundary s i\<rbrakk> \<Longrightarrow> i \<le> floor_char_boundary s e"
  by (induction e) (auto simp: le_Suc_eq)

lemma dropWhile_idem_rev: "trim_end_matches c (trim_end_matches c s) = trim_end_matches c s"
  by (simp add: trim_end_matches_def)

section \<open>Runs of a machine\<close>

text \<open>A component whose operations are steps \<open>'s \<Rightarrow> 'e \<Rightarrow> 's\<close> keeps an invariant through every
  sequence of operations as soon as each single one keeps it.\<close>

locale step_machine =
  fixes step :: "'s \<Rightarrow> 'e \<Rightarrow> 's"
    and inv :: "'s \<Rightarrow> bool"
  assumes step_inv: "inv s \<Longrightarrow> inv (step s e)"
begin

lemma run_inv: "inv s \<Longrightarrow> inv (foldl step s es)"
  by (induction es arbitrary: s) (auto intro: step_inv)

lemma run_prefix_inv: "inv s \<Longrightarrow> inv (foldl step s (take n es))"
  by (rule run_inv)

end

text \<open>A machine whose state is determined by a history: each event adds entries to the history, and
  a relation between history and state is kept by every step.\<close>

locale history_machine =
  fixes step :: "'s \<Rightarrow> 'e \<Rightarrow> 's"
    and adds :: "'e \<Rightarrow> 'h list"
    and tracks :: "'h list \<Rightarrow> 's \<Rightarrow> bool"
  assumes step_tracks: "tracks hs s \<Longrightarrow> tracks (hs @ adds e) (step s e)"
begin

lemma run_tracks: "tracks hs s \<Longrightarrow> tracks (hs @ concat (map adds es)) (foldl step s es)"
proof (induction es arbitrary: hs s)
  case (Cons e es)
  then show ?case using Cons.IH [OF step_tracks [OF Cons.prems, of e]] by simp
qed simp

end


end
