(* ===== verification/Session_Status.thy ===== *)
theory Session_Status
  imports Opex_Prelude
begin

text \<open>
  The session life cycle of \<open>crates/opex-db/src/session_status.rs\<close> and the classification of a
  re-entry of \<open>crates/opex-db/src/reentry_mode.rs\<close>: the two enumerations, their operations, and
  what the state machine allows.  The store of \<open>Db_Tables\<close> keeps statuses as text
  (\<open>run_status TEXT\<close>) and goes through \<open>as_status_str\<close> and \<open>parse_status\<close>.
\<close>

section \<open>SessionStatus\<close>

datatype SessionStatus = Running | Done | Failed | Interrupted | Timeout | Cancelled

definition is_terminal :: "SessionStatus \<Rightarrow> bool" where
  "is_terminal s \<longleftrightarrow> s \<noteq> Running"

fun can_transition_to :: "SessionStatus \<Rightarrow> SessionStatus \<Rightarrow> bool" where
  "can_transition_to Done to = False"
| "can_transition_to Running to = True"
| "can_transition_to _ to = (to = Running)"

fun as_status_str :: "SessionStatus \<Rightarrow> string" where
  "as_status_str Running = ''running''"
| "as_status_str Done = ''done''"
| "as_status_str Failed = ''failed''"
| "as_status_str Interrupted = ''interrupted''"
| "as_status_str Timeout = ''timeout''"
| "as_status_str Cancelled = ''cancelled''"

definition parse_status :: "string \<Rightarrow> SessionStatus option" where
  "parse_status s =
     (if s = ''running'' then Some Running
      else if s = ''done'' then Some Done
      else if s = ''failed'' then Some Failed
      else if s = ''interrupted'' then Some Interrupted
      else if s = ''timeout'' then Some Timeout
      else if s = ''cancelled'' then Some Cancelled
      else None)"

section \<open>ReentryMode\<close>

datatype ReentryMode = NewSession | NewTurnAfterDone | ResumeRunning | ExplicitResume

fun warm_loop_detector :: "ReentryMode \<Rightarrow> bool" where
  "warm_loop_detector ResumeRunning = True"
| "warm_loop_detector ExplicitResume = True"
| "warm_loop_detector _ = False"

fun classify_reentry :: "SessionStatus option \<Rightarrow> ReentryMode" where
  "classify_reentry None = NewSession"
| "classify_reentry (Some Running) = ResumeRunning"
| "classify_reentry (Some Done) = NewTurnAfterDone"
| "classify_reentry (Some other) = NewSession"

section \<open>Lemmas\<close>

lemma parse_as_str [simp]: "parse_status (as_status_str s) = Some s"
  by (cases s) (simp_all add: parse_status_def)

lemma parse_status_Some: "parse_status t = Some s \<longleftrightarrow> t = as_status_str s"
  by (cases s) (auto simp: parse_status_def split: if_splits)

lemma as_status_str_inj [simp]: "as_status_str a = as_status_str b \<longleftrightarrow> a = b"
  by (metis option.inject parse_as_str)

text \<open>The transitions of a run: a path in the graph of \<^const>\<open>can_transition_to\<close>.\<close>

inductive status_path :: "SessionStatus \<Rightarrow> SessionStatus \<Rightarrow> bool" where
  path_refl: "status_path s s"
| path_step: "status_path s t \<Longrightarrow> can_transition_to t u \<Longrightarrow> status_path s u"

lemma done_absorbing: "status_path s t \<Longrightarrow> s = Done \<Longrightarrow> t = Done"
  by (induction rule: status_path.induct) auto

lemma soft_terminal_reaches_all:
  "s \<noteq> Done \<Longrightarrow> status_path s t"
proof -
  assume s: "s \<noteq> Done"
  have "status_path s Running"
    using s by (cases s) (auto intro: status_path.intros)
  then show ?thesis
    by (auto intro: status_path.intros)
qed

text \<open>The state machine of the session status: the status text round-trips, no terminal
  status changes directly into another terminal one (every continuation passes through
  \<open>running\<close>), a session that left \<open>running\<close> for a status other than \<open>done\<close> can reach every
  status again, and from \<open>done\<close> the enum allows no transition at all.\<close>

theorem session_status_fsm:
  "parse_status (as_status_str s) = Some s
   \<and> \<not> (is_terminal s \<and> is_terminal t \<and> can_transition_to s t)
   \<and> {u. status_path s u} = (if s = Done then {Done} else UNIV)"
proof (intro conjI)
  show "parse_status (as_status_str s) = Some s" by simp
  show "\<not> (is_terminal s \<and> is_terminal t \<and> can_transition_to s t)"
    by (cases s; cases t) (simp_all add: is_terminal_def)
  show "{u. status_path s u} = (if s = Done then {Done} else UNIV)"
    using done_absorbing soft_terminal_reaches_all path_refl by auto
qed

end
