(* ===== verification/Db_Tables.thy ===== *)
theory Db_Tables
  imports Session_Status "HOL-Library.Multiset"
begin

text \<open>
  The three PostgreSQL tables behind a session (\<open>sessions\<close>, \<open>messages\<close>, \<open>session_timeline\<close>; schema in
  \<open>migrations/001_init.sql\<close> and the later \<open>ALTER TABLE\<close>s) and the meaning of the SQL statements
  that \<open>crates/opex-db\<close> sends to them.

  A table is the list of its rows in insertion order.  \<open>UPDATE .. WHERE\<close>, \<open>DELETE .. WHERE\<close>,
  \<open>ORDER BY .. LIMIT\<close> are the functions below; \<open>ON DELETE CASCADE\<close>, \<open>ON DELETE SET NULL\<close>, the
  primary keys, the foreign keys, the trigger that maintains \<open>last_message_at\<close> and PostgreSQL's
  refusal of a NUL byte in \<open>text\<close> and \<open>jsonb\<close> are part of the insert and delete functions.
  \<open>now()\<close> and the identifiers drawn by \<open>gen_random_uuid()\<close> or \<open>Uuid::new_v4()\<close> are arguments.
  A lost connection is not modelled: each operation is one statement or one transaction, so a
  failure of the link leaves the tables as they were.

  Times are microseconds since the epoch.
\<close>

section \<open>Rows\<close>

record session_row =
  s_id :: uuid
  s_agent_id :: string
  s_user_id :: string
  s_channel :: string
  s_chat_scope :: "string option"
  s_started_at :: timestamp
  s_last_message_at :: timestamp
  s_title :: "string option"
  s_metadata :: "json option"
  s_run_status :: "string option"
  s_activity_at :: "timestamp option"
  s_participants :: "string list"
  s_retry_count :: int
  s_parent_session_id :: "uuid option"
  s_end_reason :: "string option"
  s_last_extracted_at :: "timestamp option"
  s_chat_id :: "int option"

record message_row =
  m_id :: uuid
  m_session_id :: uuid
  m_role :: string
  m_content :: string
  m_tool_calls :: "json option"
  m_tool_call_id :: "string option"
  m_created_at :: timestamp
  m_agent_id :: "string option"
  m_status :: string
  m_thinking_blocks :: "json option"
  m_parent_message_id :: "uuid option"
  m_branch_from_message_id :: "uuid option"
  m_abort_reason :: "string option"
  m_is_mirror :: bool
  m_compressed :: bool
  m_parallel_batch_id :: "uuid option"
  m_step_id :: "int option"
  m_bookmarked_at :: "timestamp option"

record timeline_row =
  t_id :: nat
  t_session_id :: uuid
  t_event_type :: string
  t_payload :: "json option"
  t_created_at :: timestamp

record db =
  sessions :: "session_row list"
  messages :: "message_row list"
  timeline :: "timeline_row list"
  timeline_seq :: nat

datatype db_error =
    NulInText
  | UniqueViolation
  | ForeignKeyViolation
  | RowNotFound
  | ArrayLengthOfScalar
  | IntegerOutOfRange
  | SessionNotFound uuid
  | BatchSizeNotPositive int
  | InvalidTextRepresentation
  | NegativeLimit

section \<open>Statements\<close>

definition update_where :: "('r \<Rightarrow> bool) \<Rightarrow> ('r \<Rightarrow> 'r) \<Rightarrow> 'r list \<Rightarrow> 'r list" where
  "update_where P f rows = map (\<lambda>r. if P r then f r else r) rows"

definition rows_affected :: "('r \<Rightarrow> bool) \<Rightarrow> 'r list \<Rightarrow> nat" where
  "rows_affected P rows = length (filter P rows)"

definition order_desc :: "('r \<Rightarrow> int) \<Rightarrow> 'r list \<Rightarrow> 'r list" where
  "order_desc key rows = sort_key (\<lambda>r. - key r) rows"

definition order_asc :: "('r \<Rightarrow> int) \<Rightarrow> 'r list \<Rightarrow> 'r list" where
  "order_asc key rows = sort_key key rows"

text \<open>\<open>fetch_optional\<close> of a query ordered and limited to one row.\<close>

fun first_row :: "'r list \<Rightarrow> 'r option" where
  "first_row [] = None"
| "first_row (r # rs) = Some r"

definition lookup_session :: "db \<Rightarrow> uuid \<Rightarrow> session_row option" where
  "lookup_session d sid = first_row (filter (\<lambda>s. s_id s = sid) (sessions d))"

definition lookup_message :: "db \<Rightarrow> uuid \<Rightarrow> message_row option" where
  "lookup_message d i = first_row (filter (\<lambda>m. m_id m = i) (messages d))"

text \<open>\<open>UPDATE sessions SET .. WHERE id = $1 AND guard\<close>, with the number of rows it changed.\<close>

definition update_session ::
  "uuid \<Rightarrow> (session_row \<Rightarrow> bool) \<Rightarrow> (session_row \<Rightarrow> session_row) \<Rightarrow> db \<Rightarrow> db" where
  "update_session sid P f d =
     d\<lparr>sessions := update_where (\<lambda>s. s_id s = sid \<and> P s) f (sessions d)\<rparr>"

text \<open>Text that PostgreSQL can store.\<close>

definition pg_text_ok :: "string \<Rightarrow> bool" where
  "pg_text_ok s \<longleftrightarrow> CHR 0x00 \<notin> set s"

fun json_text_ok :: "json \<Rightarrow> bool" where
  "json_text_ok (JStr s) = pg_text_ok s"
| "json_text_ok (JArr xs) = list_all json_text_ok xs"
| "json_text_ok (JObj ms) = list_all (\<lambda>(k, v). pg_text_ok k \<and> json_text_ok v) ms"
| "json_text_ok _ = True"

definition opt_ok :: "('a \<Rightarrow> bool) \<Rightarrow> 'a option \<Rightarrow> bool" where
  "opt_ok P x = (case x of None \<Rightarrow> True | Some v \<Rightarrow> P v)"

definition message_text_ok :: "message_row \<Rightarrow> bool" where
  "message_text_ok m \<longleftrightarrow>
     pg_text_ok (m_role m) \<and> pg_text_ok (m_content m) \<and> opt_ok json_text_ok (m_tool_calls m)
     \<and> opt_ok pg_text_ok (m_tool_call_id m) \<and> opt_ok pg_text_ok (m_agent_id m)
     \<and> opt_ok json_text_ok (m_thinking_blocks m) \<and> opt_ok pg_text_ok (m_abort_reason m)"

text \<open>A message row with the column defaults of the schema.\<close>

definition new_message :: "uuid \<Rightarrow> uuid \<Rightarrow> string \<Rightarrow> string \<Rightarrow> timestamp \<Rightarrow> message_row" where
  "new_message i sid role content now =
     \<lparr>m_id = i, m_session_id = sid, m_role = role, m_content = content, m_tool_calls = None,
      m_tool_call_id = None, m_created_at = now, m_agent_id = None, m_status = ''complete'',
      m_thinking_blocks = None, m_parent_message_id = None, m_branch_from_message_id = None,
      m_abort_reason = None, m_is_mirror = False, m_compressed = False,
      m_parallel_batch_id = None, m_step_id = None, m_bookmarked_at = None\<rparr>"

definition new_session_row :: "uuid \<Rightarrow> string \<Rightarrow> string \<Rightarrow> string \<Rightarrow> timestamp \<Rightarrow> session_row" where
  "new_session_row i agent user channel now =
     \<lparr>s_id = i, s_agent_id = agent, s_user_id = user, s_channel = channel, s_chat_scope = None,
      s_started_at = now, s_last_message_at = now, s_title = None, s_metadata = None,
      s_run_status = None, s_activity_at = None, s_participants = [agent], s_retry_count = 0,
      s_parent_session_id = None, s_end_reason = None, s_last_extracted_at = None,
      s_chat_id = None\<rparr>"

text \<open>The trigger \<open>trg_update_session_last_message\<close>.\<close>

definition touch_last_message :: "message_row \<Rightarrow> db \<Rightarrow> db" where
  "touch_last_message m d =
     update_session (m_session_id m) (\<lambda>_. True)
       (\<lambda>s. s\<lparr>s_last_message_at := m_created_at m\<rparr>) d"

definition message_exists :: "db \<Rightarrow> uuid \<Rightarrow> bool" where
  "message_exists d i \<longleftrightarrow> i \<in> m_id ` set (messages d)"

definition session_exists :: "db \<Rightarrow> uuid \<Rightarrow> bool" where
  "session_exists d i \<longleftrightarrow> i \<in> s_id ` set (sessions d)"

text \<open>\<open>INSERT INTO messages\<close>: text encoding, primary key, foreign keys, then the row and the
  trigger.  A row may name itself as its parent (the key is checked after the insert), but no
  caller does: the parent is always an existing row.\<close>

definition insert_message :: "message_row \<Rightarrow> db \<Rightarrow> db_error + db" where
  "insert_message m d =
     (if \<not> message_text_ok m then Inl NulInText
      else if message_exists d (m_id m) then Inl UniqueViolation
      else if \<not> session_exists d (m_session_id m) then Inl ForeignKeyViolation
      else if \<not> opt_ok (message_exists d) (m_parent_message_id m) then Inl ForeignKeyViolation
      else if \<not> opt_ok (message_exists d) (m_branch_from_message_id m) then Inl ForeignKeyViolation
      else Inr (touch_last_message m (d\<lparr>messages := messages d @ [m]\<rparr>)))"

definition insert_session :: "session_row \<Rightarrow> db \<Rightarrow> db_error + db" where
  "insert_session s d =
     (if \<not> (pg_text_ok (s_agent_id s) \<and> pg_text_ok (s_user_id s) \<and> pg_text_ok (s_channel s)
            \<and> opt_ok pg_text_ok (s_chat_scope s) \<and> opt_ok pg_text_ok (s_title s)) then Inl NulInText
      else if session_exists d (s_id s) then Inl UniqueViolation
      else if \<not> opt_ok (session_exists d) (s_parent_session_id s) then Inl ForeignKeyViolation
      else Inr (d\<lparr>sessions := sessions d @ [s]\<rparr>))"

text \<open>\<open>ON DELETE SET NULL\<close> for a reference that may point at a deleted row.\<close>

definition clear_ref :: "('a \<Rightarrow> bool) \<Rightarrow> 'a option \<Rightarrow> 'a option" where
  "clear_ref gone x = (case x of None \<Rightarrow> None | Some v \<Rightarrow> if gone v then None else Some v)"

definition delete_messages :: "(message_row \<Rightarrow> bool) \<Rightarrow> db \<Rightarrow> db" where
  "delete_messages P d =
     (let gone = (\<lambda>i. \<exists>m \<in> set (messages d). m_id m = i \<and> P m)
      in d\<lparr>messages :=
             map (\<lambda>m. m\<lparr>m_parent_message_id := clear_ref gone (m_parent_message_id m),
                        m_branch_from_message_id := clear_ref gone (m_branch_from_message_id m)\<rparr>)
                 (filter (\<lambda>m. \<not> P m) (messages d))\<rparr>)"

definition delete_sessions :: "(session_row \<Rightarrow> bool) \<Rightarrow> db \<Rightarrow> db" where
  "delete_sessions P d =
     (let gone = (\<lambda>i. \<exists>s \<in> set (sessions d). s_id s = i \<and> P s);
          d1 = delete_messages (\<lambda>m. gone (m_session_id m)) d
      in d1\<lparr>sessions :=
              map (\<lambda>s. s\<lparr>s_parent_session_id := clear_ref gone (s_parent_session_id s)\<rparr>)
                  (filter (\<lambda>s. \<not> P s) (sessions d)),
            timeline := filter (\<lambda>t. \<not> gone (t_session_id t)) (timeline d)\<rparr>)"

definition insert_timeline :: "uuid \<Rightarrow> string \<Rightarrow> json option \<Rightarrow> timestamp \<Rightarrow> db \<Rightarrow> db_error + db" where
  "insert_timeline sid event payload now d =
     (if \<not> (pg_text_ok event \<and> opt_ok json_text_ok payload) then Inl NulInText
      else if \<not> session_exists d sid then Inl ForeignKeyViolation
      else Inr (d\<lparr>timeline := timeline d @
                    [\<lparr>t_id = timeline_seq d, t_session_id = sid, t_event_type = event,
                      t_payload = payload, t_created_at = now\<rparr>],
                  timeline_seq := Suc (timeline_seq d)\<rparr>))"

section \<open>Consistency of the tables\<close>

text \<open>Primary keys are unique, references are not dangling, and a parent message was inserted
  before its children, so the parent relation has no cycle.\<close>

fun parents_before :: "uuid set \<Rightarrow> message_row list \<Rightarrow> bool" where
  "parents_before seen [] = True"
| "parents_before seen (m # ms) =
     (opt_ok (\<lambda>p. p \<in> seen) (m_parent_message_id m)
      \<and> opt_ok (\<lambda>p. p \<in> seen) (m_branch_from_message_id m)
      \<and> parents_before (insert (m_id m) seen) ms)"

definition db_ok :: "db \<Rightarrow> bool" where
  "db_ok d \<longleftrightarrow>
     distinct (map s_id (sessions d)) \<and> distinct (map m_id (messages d))
     \<and> (\<forall>m \<in> set (messages d). session_exists d (m_session_id m))
     \<and> (\<forall>t \<in> set (timeline d). session_exists d (t_session_id t))
     \<and> (\<forall>s \<in> set (sessions d). opt_ok (session_exists d) (s_parent_session_id s))
     \<and> parents_before {} (messages d)
     \<and> list_all message_text_ok (messages d)
     \<and> distinct (map t_id (timeline d)) \<and> (\<forall>t \<in> set (timeline d). t_id t < timeline_seq d)"

definition empty_db :: db where
  "empty_db = \<lparr>sessions = [], messages = [], timeline = [], timeline_seq = 0\<rparr>"

section \<open>Every statement keeps the tables consistent\<close>

text \<open>A row update that leaves the keys alone.\<close>

definition keeps_session_keys :: "(session_row \<Rightarrow> session_row) \<Rightarrow> bool" where
  "keeps_session_keys f \<longleftrightarrow>
     (\<forall>s. s_id (f s) = s_id s \<and> s_parent_session_id (f s) = s_parent_session_id s)"

definition keeps_message_keys :: "(message_row \<Rightarrow> message_row) \<Rightarrow> bool" where
  "keeps_message_keys f \<longleftrightarrow>
     (\<forall>m. m_id (f m) = m_id m \<and> m_session_id (f m) = m_session_id m
        \<and> m_parent_message_id (f m) = m_parent_message_id m
        \<and> m_branch_from_message_id (f m) = m_branch_from_message_id m)"

lemma update_where_Nil [simp]: "update_where P f [] = []"
  by (simp add: update_where_def)

lemma update_where_Cons [simp]:
  "update_where P f (r # rs) = (if P r then f r else r) # update_where P f rs"
  by (simp add: update_where_def)

lemma length_update_where [simp]: "length (update_where P f rs) = length rs"
  by (simp add: update_where_def)

lemma update_where_key:
  "(\<And>r. k (f r) = k r) \<Longrightarrow> map k (update_where P f rs) = map k rs"
  by (induction rs) auto

lemma set_update_where:
  "set (update_where P f rs) = (\<lambda>r. if P r then f r else r) ` set rs"
  by (simp add: update_where_def)

lemma in_update_where: "r \<in> set (update_where P f rs) \<longleftrightarrow> (\<exists>x \<in> set rs. r = (if P x then f x else x))"
  unfolding set_update_where image_iff ..

lemma ball_update_where: "(\<forall>r \<in> set (update_where P f rs). Q r) \<longleftrightarrow> (\<forall>x \<in> set rs. Q (if P x then f x else x))"
  by (induction rs) simp_all

lemma session_keys_update:
  assumes "keeps_session_keys f"
  shows "map s_id (update_where P f rs) = map s_id rs"
    and "map s_parent_session_id (update_where P f rs) = map s_parent_session_id rs"
  using assms by (auto simp: keeps_session_keys_def intro: update_where_key)

lemma message_keys_update:
  assumes "keeps_message_keys f"
  shows "map m_id (update_where P f rs) = map m_id rs"
    and "map m_session_id (update_where P f rs) = map m_session_id rs"
  using assms by (auto simp: keeps_message_keys_def intro: update_where_key)

lemma session_exists_cong:
  "map s_id (sessions d) = map s_id (sessions d') \<Longrightarrow> session_exists d = session_exists d'"
  unfolding session_exists_def fun_eq_iff by (metis set_map)

lemma session_exists_update [simp]:
  "keeps_session_keys f \<Longrightarrow> session_exists (update_session sid P f d) = session_exists d"
  by (rule session_exists_cong) (simp add: update_session_def session_keys_update)

lemma session_exists_upd_fields [simp]:
  "session_exists (d\<lparr>messages := ms\<rparr>) = session_exists d"
  "session_exists (d\<lparr>timeline := ts\<rparr>) = session_exists d"
  "session_exists (d\<lparr>timeline_seq := n\<rparr>) = session_exists d"
  by (auto simp: session_exists_def fun_eq_iff)

lemma messages_update_session [simp]: "messages (update_session sid P f d) = messages d"
  and timeline_update_session [simp]: "timeline (update_session sid P f d) = timeline d"
  and timeline_seq_update_session [simp]:
    "timeline_seq (update_session sid P f d) = timeline_seq d"
  by (simp_all add: update_session_def)

lemma parents_before_mono: "parents_before A ms \<Longrightarrow> A \<subseteq> B \<Longrightarrow> parents_before B ms"
  by (induction ms arbitrary: A B)
     (auto simp: opt_ok_def split: option.splits dest: insert_mono)

lemma parents_before_append:
  "parents_before A (ms @ ns) \<longleftrightarrow>
     parents_before A ms \<and> parents_before (A \<union> m_id ` set ms) ns"
  by (induction ms arbitrary: A) auto

lemma parents_before_update:
  "keeps_message_keys f \<Longrightarrow> parents_before A (update_where P f ms) = parents_before A ms"
  by (induction ms arbitrary: A) (auto simp: keeps_message_keys_def)

lemma db_ok_update_session_table:
  assumes ok: "db_ok d" and f: "keeps_session_keys f"
  shows "db_ok (d\<lparr>sessions := update_where P f (sessions d)\<rparr>)"
proof -
  let ?d = "d\<lparr>sessions := update_where P f (sessions d)\<rparr>"
  have ex: "session_exists ?d = session_exists d"
    by (rule session_exists_cong) (simp add: session_keys_update f)
  have "s_parent_session_id ` set (sessions ?d) = s_parent_session_id ` set (sessions d)"
    using session_keys_update(2) [OF f] by (metis select_convs(1) set_map surjective update_convs(1))
  then have "(\<forall>s \<in> set (sessions ?d). opt_ok (session_exists d) (s_parent_session_id s))
     = (\<forall>s \<in> set (sessions d). opt_ok (session_exists d) (s_parent_session_id s))"
    by (metis (no_types, lifting) image_iff)
  then show ?thesis
    using ok ex by (simp add: db_ok_def session_keys_update f)
qed

lemma db_ok_update_session:
  "db_ok d \<Longrightarrow> keeps_session_keys f \<Longrightarrow> db_ok (update_session sid P f d)"
  unfolding update_session_def by (rule db_ok_update_session_table)

lemma db_ok_update_messages:
  assumes ok: "db_ok d" and f: "keeps_message_keys f"
    and textok: "\<And>m. m \<in> set (messages d) \<Longrightarrow> P m \<Longrightarrow> message_text_ok m \<Longrightarrow> message_text_ok (f m)"
  shows "db_ok (d\<lparr>messages := update_where P f (messages d)\<rparr>)"
proof -
  let ?d = "d\<lparr>messages := update_where P f (messages d)\<rparr>"
  have sess: "m_session_id ` set (messages ?d) = m_session_id ` set (messages d)"
    using message_keys_update(2) [OF f, of P "messages d"] by (metis select_convs(2) set_map surjective update_convs(2))
  have "(\<forall>m \<in> set (messages ?d). session_exists d (m_session_id m))"
    using ok sess unfolding db_ok_def by (metis (no_types, lifting) image_iff)
  moreover have "list_all message_text_ok (messages ?d)"
    using ok textok by (auto simp: db_ok_def list_all_iff set_update_where)
  ultimately show ?thesis
    using ok by (simp add: db_ok_def message_keys_update f parents_before_update)
qed

lemma keeps_last_message [simp]: "keeps_session_keys (\<lambda>s. s\<lparr>s_last_message_at := t\<rparr>)"
  by (simp add: keeps_session_keys_def)

lemma insert_message_Inr:
  "insert_message m d = Inr d' \<longleftrightarrow>
     message_text_ok m \<and> \<not> message_exists d (m_id m) \<and> session_exists d (m_session_id m)
     \<and> opt_ok (message_exists d) (m_parent_message_id m)
     \<and> opt_ok (message_exists d) (m_branch_from_message_id m)
     \<and> d' = touch_last_message m (d\<lparr>messages := messages d @ [m]\<rparr>)"
  by (auto simp: insert_message_def)

lemma db_ok_insert_message:
  assumes ok: "db_ok d" and ins: "insert_message m d = Inr d'"
  shows "db_ok d'"
proof -
  have i: "message_text_ok m" "\<not> message_exists d (m_id m)" "session_exists d (m_session_id m)"
    "opt_ok (message_exists d) (m_parent_message_id m)"
    "opt_ok (message_exists d) (m_branch_from_message_id m)"
    and d': "d' = touch_last_message m (d\<lparr>messages := messages d @ [m]\<rparr>)"
    using ins by (simp_all add: insert_message_Inr)
  have "db_ok (d\<lparr>messages := messages d @ [m]\<rparr>)"
    using ok i
    by (auto simp: db_ok_def message_exists_def parents_before_append opt_ok_def
        split: option.splits)
  then show ?thesis
    unfolding d' touch_last_message_def by (rule db_ok_update_session) simp
qed

lemma insert_session_Inr:
  "insert_session s d = Inr d' \<Longrightarrow>
     \<not> session_exists d (s_id s) \<and> opt_ok (session_exists d) (s_parent_session_id s)
     \<and> d' = d\<lparr>sessions := sessions d @ [s]\<rparr>"
  by (auto simp: insert_session_def split: if_splits)

lemma db_ok_insert_session:
  "db_ok d \<Longrightarrow> insert_session s d = Inr d' \<Longrightarrow> db_ok d'"
  by (drule insert_session_Inr)
     (auto simp: db_ok_def session_exists_def opt_ok_def split: option.splits)

lemma db_ok_insert_timeline:
  assumes ok: "db_ok d" and ins: "insert_timeline sid e p now d = Inr d'"
  shows "db_ok d'"
proof -
  have sid: "session_exists d sid" and d': "d' = d\<lparr>timeline := timeline d @
      [\<lparr>t_id = timeline_seq d, t_session_id = sid, t_event_type = e, t_payload = p, t_created_at = now\<rparr>],
      timeline_seq := Suc (timeline_seq d)\<rparr>"
    using ins by (auto simp: insert_timeline_def split: if_splits)
  have fresh: "timeline_seq d \<notin> t_id ` set (timeline d)"
    using ok by (auto simp: db_ok_def)
  then show ?thesis
    using ok sid unfolding d' by (auto simp: db_ok_def less_Suc_eq)
qed

text \<open>Deletion: the filtered list keeps the order, and references to what is gone are cleared.\<close>

lemma parents_before_delete:
  assumes "parents_before A ms"
    and "\<forall>i \<in> A. gone i \<or> i \<in> B" and "\<forall>m \<in> set ms. P m \<longrightarrow> gone (m_id m)"
  shows "parents_before B
     (map (\<lambda>m. m\<lparr>m_parent_message_id := clear_ref gone (m_parent_message_id m),
                 m_branch_from_message_id := clear_ref gone (m_branch_from_message_id m)\<rparr>)
          (filter (\<lambda>m. \<not> P m) ms))"
  using assms
proof (induction ms arbitrary: A B)
  case (Cons m ms)
  have ref: "opt_ok (\<lambda>p. p \<in> A) x \<Longrightarrow> opt_ok (\<lambda>p. p \<in> B) (clear_ref gone x)" for x
    using Cons.prems(2) by (auto simp: opt_ok_def clear_ref_def split: option.splits)
  show ?case
  proof (cases "P m")
    case True
    then show ?thesis using Cons.prems Cons.IH [of "insert (m_id m) A" B] by auto
  next
    case False
    then show ?thesis
      using Cons.prems Cons.IH [of "insert (m_id m) A" "insert (m_id m) B"] ref by auto
  qed
qed simp

lemma sessions_delete_messages [simp]: "sessions (delete_messages P d) = sessions d"
  and timeline_delete_messages [simp]: "timeline (delete_messages P d) = timeline d"
  and timeline_seq_delete_messages [simp]: "timeline_seq (delete_messages P d) = timeline_seq d"
  by (simp_all add: delete_messages_def Let_def)

lemma message_text_ok_clear [simp]:
  "message_text_ok (m\<lparr>m_parent_message_id := x, m_branch_from_message_id := y\<rparr>) = message_text_ok m"
  by (simp add: message_text_ok_def)

lemma session_exists_delete_messages [simp]:
  "session_exists (delete_messages P d) = session_exists d"
  by (simp add: session_exists_def fun_eq_iff)

lemma db_ok_delete_messages: "db_ok d \<Longrightarrow> db_ok (delete_messages P d)"
proof -
  assume ok: "db_ok d"
  let ?gone = "\<lambda>i. \<exists>m \<in> set (messages d). m_id m = i \<and> P m"
  have "parents_before {} (messages (delete_messages P d))"
    using parents_before_delete [of "{}" "messages d" ?gone "{}" P] ok
    by (auto simp: delete_messages_def Let_def db_ok_def)
  moreover have "distinct (map m_id (messages (delete_messages P d)))"
    using ok by (simp add: delete_messages_def Let_def db_ok_def comp_def distinct_map_filter)
  ultimately show ?thesis
    using ok by (simp add: db_ok_def) (auto simp: delete_messages_def Let_def list_all_iff)
qed

lemma set_messages_delete:
  "m' \<in> set (messages (delete_messages P d)) \<Longrightarrow>
     \<exists>m \<in> set (messages d). \<not> P m \<and> m_session_id m' = m_session_id m"
  by (auto simp: delete_messages_def Let_def)

lemma db_ok_delete_sessions: "db_ok d \<Longrightarrow> db_ok (delete_sessions P d)"
proof -
  assume ok: "db_ok d"
  let ?gone = "\<lambda>i. \<exists>s \<in> set (sessions d). s_id s = i \<and> P s"
  let ?d1 = "delete_messages (\<lambda>m. ?gone (m_session_id m)) d"
  let ?d = "delete_sessions P d"
  have d1: "db_ok ?d1" using ok by (rule db_ok_delete_messages)
  have flds: "messages ?d = messages ?d1" "timeline_seq ?d = timeline_seq d"
    "timeline ?d = filter (\<lambda>t. \<not> ?gone (t_session_id t)) (timeline d)"
    by (simp_all add: delete_sessions_def Let_def)
  have uniq: "s = s'" if "s \<in> set (sessions d)" "s' \<in> set (sessions d)" "s_id s = s_id s'" for s s'
    using that ok by (auto simp: db_ok_def distinct_map inj_on_def)
  have ids: "set (map s_id (sessions ?d)) = {i. session_exists d i \<and> \<not> ?gone i}"
    using uniq by (auto simp: delete_sessions_def Let_def session_exists_def image_iff)
  have ex: "session_exists ?d i \<longleftrightarrow> session_exists d i \<and> \<not> ?gone i" for i
    using ids by (auto simp: session_exists_def)
  have "distinct (map s_id (sessions ?d))"
    using ok by (simp add: delete_sessions_def Let_def db_ok_def comp_def distinct_map_filter)
  moreover have "\<forall>m \<in> set (messages ?d). session_exists ?d (m_session_id m)"
    using d1 unfolding flds(1) ex
    by (auto simp: db_ok_def dest!: set_messages_delete)
  moreover have "\<forall>t \<in> set (timeline ?d). session_exists ?d (t_session_id t)"
    using ok unfolding flds(3) ex by (auto simp: db_ok_def)
  moreover have "\<forall>s \<in> set (sessions ?d). opt_ok (session_exists ?d) (s_parent_session_id s)"
    using ok unfolding ex opt_ok_def
    by (auto simp: delete_sessions_def Let_def clear_ref_def db_ok_def opt_ok_def split: option.splits)
  ultimately show ?thesis
    using ok d1 unfolding db_ok_def flds
    by (auto simp: distinct_map_filter)
qed

lemmas db_ok_statements =
  db_ok_update_session db_ok_update_session_table db_ok_update_messages db_ok_insert_message
  db_ok_insert_session db_ok_insert_timeline db_ok_delete_messages db_ok_delete_sessions

lemma db_ok_empty [simp]: "db_ok empty_db"
  by (simp add: db_ok_def empty_db_def)

end
