(* ===== verification/Session_Claims.thy ===== *)
theory Session_Claims
  imports Db_Tables
begin

text \<open>
  Finding, creating and claiming a session: the part of \<open>crates/opex-db/src/sessions.rs\<close> that reads
  and writes the \<open>sessions\<close> table.  A read returns its result, a write the new tables with its
  result; \<open>now\<close> is the transaction's \<open>now()\<close>.  The \<open>run_status\<close> column is text; every writer of
  it in the file is here or in \<open>Session_Repair\<close>.
\<close>

section \<open>Lookup and creation\<close>

definition dm_scope_keys ::
  "string \<Rightarrow> string \<Rightarrow> string \<Rightarrow> string option \<Rightarrow> string \<times> string \<times> string option" where
  "dm_scope_keys user channel dm_scope chat_scope =
     (if dm_scope = ''shared'' \<or> dm_scope = ''per-peer'' then (user, ''*'', None)
      else if dm_scope = ''per-chat'' then (''*'', channel, chat_scope)
      else (user, channel, chat_scope))"

definition four_hours :: int where "four_hours = 4 * 3600 * 1000000"

text \<open>The \<open>WHERE\<close> clause shared by the three lookups.\<close>

definition active_match ::
  "timestamp \<Rightarrow> string \<Rightarrow> string \<times> string \<times> string option \<Rightarrow> session_row \<Rightarrow> bool" where
  "active_match now agent k s \<longleftrightarrow>
     s_agent_id s = agent \<and> s_user_id s = fst k \<and> s_channel s = fst (snd k)
     \<and> s_chat_scope s = snd (snd k) \<and> s_last_message_at s > now - four_hours"

definition latest_active ::
  "timestamp \<Rightarrow> string \<Rightarrow> string \<times> string \<times> string option \<Rightarrow> db \<Rightarrow> session_row option" where
  "latest_active now agent k d =
     first_row (order_desc s_last_message_at (filter (active_match now agent k) (sessions d)))"

definition resolve_active_dm_session ::
  "timestamp \<Rightarrow> string \<Rightarrow> string \<Rightarrow> string \<Rightarrow> string \<Rightarrow> string option \<Rightarrow> db
     \<Rightarrow> (uuid \<times> SessionStatus option) option" where
  "resolve_active_dm_session now agent user channel dm_scope chat_scope d =
     map_option (\<lambda>s. (s_id s, Option.bind (s_run_status s) parse_status))
       (latest_active now agent (dm_scope_keys user channel dm_scope chat_scope) d)"

definition find_active_session ::
  "timestamp \<Rightarrow> string \<Rightarrow> string \<Rightarrow> string \<Rightarrow> string \<Rightarrow> string option \<Rightarrow> db \<Rightarrow> uuid option" where
  "find_active_session now agent user channel dm_scope chat_scope d =
     map_option s_id (latest_active now agent (dm_scope_keys user channel dm_scope chat_scope) d)"

fun reuse_mode :: "SessionStatus option \<Rightarrow> ReentryMode" where
  "reuse_mode (Some s) =
     (if is_terminal s \<and> s \<noteq> Done then ExplicitResume else classify_reentry (Some s))"
| "reuse_mode None = NewTurnAfterDone"

definition get_or_create_session ::
  "uuid \<Rightarrow> timestamp \<Rightarrow> string \<Rightarrow> string \<Rightarrow> string \<Rightarrow> string \<Rightarrow> string option \<Rightarrow> db
     \<Rightarrow> db_error + ((uuid \<times> ReentryMode) \<times> db)" where
  "get_or_create_session fresh now agent user channel dm_scope chat_scope d =
     (let k = dm_scope_keys user channel dm_scope chat_scope
      in case latest_active now agent k d of
           Some s \<Rightarrow> Inr ((s_id s, reuse_mode (Option.bind (s_run_status s) parse_status)), d)
         | None \<Rightarrow>
             (case insert_session
                     ((new_session_row fresh agent (fst k) (fst (snd k)) now)
                        \<lparr>s_chat_scope := snd (snd k)\<rparr>) d of
                Inl e \<Rightarrow> Inl e
              | Inr d' \<Rightarrow> Inr ((fresh, NewSession), d')))"

definition get_session_for_chain ::
  "uuid \<Rightarrow> db \<Rightarrow> (string \<times> string \<times> string \<times> string option) option" where
  "get_session_for_chain sid d =
     map_option (\<lambda>s. (s_agent_id s, s_user_id s, s_channel s, s_title s)) (lookup_session d sid)"

definition create_new_session ::
  "uuid \<Rightarrow> timestamp \<Rightarrow> string \<Rightarrow> string \<Rightarrow> string \<Rightarrow> db \<Rightarrow> db_error + (uuid \<times> db)" where
  "create_new_session fresh now agent user channel d =
     (case insert_session (new_session_row fresh agent user channel now) d of
        Inl e \<Rightarrow> Inl e | Inr d' \<Rightarrow> Inr (fresh, d'))"

text \<open>\<open>ON CONFLICT (id) DO NOTHING\<close>: a taken identifier is not an error.\<close>

definition create_new_session_with_id ::
  "uuid \<Rightarrow> timestamp \<Rightarrow> string \<Rightarrow> string \<Rightarrow> string \<Rightarrow> db \<Rightarrow> db_error + (uuid \<times> db)" where
  "create_new_session_with_id i now agent user channel d =
     (case insert_session (new_session_row i agent user channel now) d of
        Inl UniqueViolation \<Rightarrow> Inr (i, d) | Inl e \<Rightarrow> Inl e | Inr d' \<Rightarrow> Inr (i, d'))"

definition create_chain_session ::
  "uuid \<Rightarrow> timestamp \<Rightarrow> uuid \<Rightarrow> string \<Rightarrow> string \<Rightarrow> string \<Rightarrow> string option \<Rightarrow> db
     \<Rightarrow> db_error + (uuid \<times> db)" where
  "create_chain_session fresh now parent agent user channel title d =
     (case insert_session
             ((new_session_row fresh agent user channel now)
                \<lparr>s_parent_session_id := Some parent, s_title := title\<rparr>) d of
        Inl e \<Rightarrow> Inl e | Inr d' \<Rightarrow> Inr (fresh, d'))"

definition set_session_end_reason :: "uuid \<Rightarrow> string \<Rightarrow> db \<Rightarrow> db_error + db" where
  "set_session_end_reason sid reason d =
     (if \<not> pg_text_ok reason then Inl NulInText
      else Inr (update_session sid (\<lambda>_. True) (\<lambda>s. s\<lparr>s_end_reason := Some reason\<rparr>) d))"

text \<open>The recursive query of \<open>get_session_chain\<close>: at depth \<open>n\<close> the row, then its parent at
  \<open>n + 1\<close>, stopping below depth 20; ordered by descending depth, so the root comes first.\<close>

fun chain_up :: "nat \<Rightarrow> nat \<Rightarrow> uuid \<Rightarrow> db \<Rightarrow> (nat \<times> session_row) list" where
  "chain_up fuel depth sid d =
     (case lookup_session d sid of
        None \<Rightarrow> []
      | Some s \<Rightarrow>
          (depth, s) #
          (case (fuel, s_parent_session_id s) of
             (Suc n, Some p) \<Rightarrow> chain_up n (Suc depth) p d
           | _ \<Rightarrow> []))"

declare chain_up.simps [simp del]

definition get_session_chain :: "uuid \<Rightarrow> db \<Rightarrow> (nat \<times> session_row) list" where
  "get_session_chain sid d = rev (chain_up 19 0 sid d)"

text \<open>The title cut of \<open>auto_title_session\<close>: at most 60 bytes, back to a character boundary, then
  to the last space, with an ellipsis (three bytes in UTF-8).\<close>

definition ellipsis :: string where
  "ellipsis = map char_of [226, 128, 166 :: nat]"

fun rfind_space :: "string \<Rightarrow> nat option" where
  "rfind_space [] = None"
| "rfind_space (c # cs) =
     (case rfind_space cs of Some i \<Rightarrow> Some (Suc i) | None \<Rightarrow> if c = CHR '' '' then Some 0 else None)"

definition auto_title :: "string \<Rightarrow> string" where
  "auto_title user_text =
     (let trimmed = trim user_text
      in if length trimmed \<le> 60 then trimmed
         else let cut = take (floor_char_boundary trimmed 60) trimmed
              in (case rfind_space cut of
                    Some pos \<Rightarrow> take pos trimmed @ ellipsis
                  | None \<Rightarrow> cut @ ellipsis))"

definition auto_title_session :: "uuid \<Rightarrow> string \<Rightarrow> db \<Rightarrow> db_error + db" where
  "auto_title_session sid user_text d =
     (if trim user_text = [] then Inr d
      else case lookup_session d sid of
        None \<Rightarrow> Inr d
      | Some s \<Rightarrow>
          (if s_title s \<noteq> None then Inr d
           else if \<not> pg_text_ok (auto_title user_text) then Inl NulInText
           else Inr (update_session sid (\<lambda>s. s_title s = None)
                       (\<lambda>s. s\<lparr>s_title := Some (auto_title user_text)\<rparr>) d)))"

definition resume_session :: "timestamp \<Rightarrow> uuid \<Rightarrow> db \<Rightarrow> db_error + (uuid \<times> db)" where
  "resume_session now sid d =
     (if rows_affected (\<lambda>s. s_id s = sid) (sessions d) = 0 then Inl (SessionNotFound sid)
      else Inr (sid, update_session sid (\<lambda>_. True) (\<lambda>s. s\<lparr>s_last_message_at := now\<rparr>) d))"

definition get_last_extracted_at :: "uuid \<Rightarrow> db \<Rightarrow> timestamp option" where
  "get_last_extracted_at sid d = Option.bind (lookup_session d sid) s_last_extracted_at"

definition set_last_extracted_at :: "uuid \<Rightarrow> timestamp \<Rightarrow> db \<Rightarrow> db" where
  "set_last_extracted_at sid ts d =
     update_session sid (\<lambda>_. True) (\<lambda>s. s\<lparr>s_last_extracted_at := Some ts\<rparr>) d"

definition set_session_chat_id :: "uuid \<Rightarrow> int \<Rightarrow> db \<Rightarrow> db" where
  "set_session_chat_id sid chat d =
     update_session sid (\<lambda>_. True) (\<lambda>s. s\<lparr>s_chat_id := Some chat\<rparr>) d"

definition add_participant :: "uuid \<Rightarrow> string \<Rightarrow> db \<Rightarrow> db_error + (string list \<times> db)" where
  "add_participant sid name d =
     (if \<not> pg_text_ok name then Inl NulInText
      else let P = (\<lambda>s. name \<notin> set (s_participants s));
               d' = update_session sid P (\<lambda>s. s\<lparr>s_participants := s_participants s @ [name]\<rparr>) d
           in case lookup_session d' sid of
                None \<Rightarrow> Inl RowNotFound
              | Some s \<Rightarrow> Inr (s_participants s, d'))"

definition get_participants :: "uuid \<Rightarrow> db \<Rightarrow> db_error + string list" where
  "get_participants sid d =
     (case lookup_session d sid of None \<Rightarrow> Inl RowNotFound | Some s \<Rightarrow> Inr (s_participants s))"

section \<open>Writers of run_status\<close>

definition get_session_run_status :: "uuid \<Rightarrow> db \<Rightarrow> string option" where
  "get_session_run_status sid d = Option.bind (lookup_session d sid) s_run_status"

definition set_session_run_status :: "uuid \<Rightarrow> string \<Rightarrow> db \<Rightarrow> db" where
  "set_session_run_status sid status d =
     update_session sid (\<lambda>s. s_run_status s = None \<or> s_run_status s = Some ''running'')
       (\<lambda>s. s\<lparr>s_run_status := Some status\<rparr>) d"

fun allowed_from :: "ReentryMode \<Rightarrow> string option \<Rightarrow> bool" where
  "allowed_from NewSession st = (st = None)"
| "allowed_from NewTurnAfterDone st = (st = Some ''done'')"
| "allowed_from ResumeRunning st = (st = Some ''running'')"
| "allowed_from ExplicitResume st = True"

definition set_running :: "session_row \<Rightarrow> session_row" where
  "set_running s = s\<lparr>s_run_status := Some ''running''\<rparr>"

definition claim_session_for_reentry :: "uuid \<Rightarrow> ReentryMode \<Rightarrow> db \<Rightarrow> bool \<times> db" where
  "claim_session_for_reentry sid mode d =
     (let P = (\<lambda>s. allowed_from mode (s_run_status s))
      in (rows_affected (\<lambda>s. s_id s = sid \<and> P s) (sessions d) > 0,
          update_session sid P set_running d))"

text \<open>The retry runs three statements outside a transaction; \<open>env1\<close> and \<open>env2\<close> are what other
  connections do to the tables between them.\<close>

definition claim_session_with_retry ::
  "(db \<Rightarrow> db) \<Rightarrow> (db \<Rightarrow> db) \<Rightarrow> uuid \<Rightarrow> ReentryMode \<Rightarrow> db \<Rightarrow> bool \<times> db" where
  "claim_session_with_retry env1 env2 sid initial_mode d =
     (let (claimed, d1) = claim_session_for_reentry sid initial_mode d
      in if claimed then (True, d1)
         else if \<not> session_exists (env1 d1) sid then (False, env1 d1)
         else claim_session_for_reentry sid ExplicitResume (env2 (env1 d1)))"

definition ten_seconds :: int where "ten_seconds = 10 * 1000000"

definition touch_session_activity :: "timestamp \<Rightarrow> uuid \<Rightarrow> db \<Rightarrow> db" where
  "touch_session_activity now sid d =
     update_session sid
       (\<lambda>s. s_run_status s = Some ''running''
          \<and> (case s_activity_at s of None \<Rightarrow> True | Some a \<Rightarrow> a < now - ten_seconds))
       (\<lambda>s. s\<lparr>s_activity_at := Some now\<rparr>) d"

definition i32_max :: int where "i32_max = 2147483647"

text \<open>\<open>RETURNING retry_count\<close>: the new value when the row matched.  \<open>retry_count\<close> is an
  \<open>INTEGER\<close>; PostgreSQL refuses to count past its maximum.\<close>

definition charge_retry ::
  "uuid \<Rightarrow> (session_row \<Rightarrow> bool) \<Rightarrow> db \<Rightarrow> db_error + (int option \<times> db)" where
  "charge_retry sid P d =
     (case first_row (filter (\<lambda>s. s_id s = sid \<and> P s) (sessions d)) of
        None \<Rightarrow> Inr (None, d)
      | Some s \<Rightarrow>
          (if s_retry_count s \<ge> i32_max then Inl IntegerOutOfRange
           else Inr (Some (s_retry_count s + 1),
                     update_session sid P
                       (\<lambda>s. s\<lparr>s_retry_count := s_retry_count s + 1,
                              s_run_status := Some ''running''\<rparr>) d)))"

definition increment_retry_count :: "uuid \<Rightarrow> db \<Rightarrow> db_error + (int option \<times> db)" where
  "increment_retry_count sid d =
     charge_retry sid (\<lambda>s. s_run_status s \<in> {Some ''running'', Some ''done''}) d"

definition claim_redrive :: "uuid \<Rightarrow> int \<Rightarrow> db \<Rightarrow> db_error + (int option \<times> db)" where
  "claim_redrive sid max_retries d =
     charge_retry sid
       (\<lambda>s. s_run_status s \<in> {Some ''interrupted'', Some ''done''} \<and> s_retry_count s < max_retries) d"

definition mark_session_failed :: "uuid \<Rightarrow> db \<Rightarrow> db" where
  "mark_session_failed sid d =
     update_session sid (\<lambda>s. s_run_status s = Some ''running'')
       (\<lambda>s. s\<lparr>s_run_status := Some ''failed''\<rparr>) d"

section \<open>Stale sessions\<close>

definition last_sign :: "session_row \<Rightarrow> timestamp" where
  "last_sign s = (case s_activity_at s of Some a \<Rightarrow> a | None \<Rightarrow> s_last_message_at s)"

definition finalize_truly_stale_sessions :: "timestamp \<Rightarrow> int \<Rightarrow> db \<Rightarrow> nat \<times> db" where
  "finalize_truly_stale_sessions now threshold_secs d =
     (let P = (\<lambda>s. s_run_status s = Some ''running'' \<and> last_sign s < now - threshold_secs * 1000000)
      in (rows_affected P (sessions d),
          d\<lparr>sessions := update_where P (\<lambda>s. s\<lparr>s_run_status := Some ''interrupted''\<rparr>) (sessions d)\<rparr>))"

text \<open>\<open>EXTRACT(EPOCH ..)::BIGINT\<close>: whole seconds, rounded half away from zero.\<close>

definition epoch_bigint :: "int \<Rightarrow> int" where
  "epoch_bigint us =
     (if us \<ge> 0 then (us + 500000) div 1000000 else - ((- us + 500000) div 1000000))"

text \<open>The watchdog's query: an agent without a threshold of its own gets the default, in the
  empty-map branch as in the joined one.\<close>

definition find_stale_running_sessions_per_agent ::
  "timestamp \<Rightarrow> (string \<rightharpoonup> int) \<Rightarrow> int \<Rightarrow> db \<Rightarrow> (uuid \<times> string \<times> int) list" where
  "find_stale_running_sessions_per_agent now thresholds default_secs d =
     map (\<lambda>s. (s_id s, s_agent_id s, epoch_bigint (now - last_sign s)))
       (filter (\<lambda>s. s_run_status s = Some ''running''
                  \<and> last_sign s < now -
                      (case thresholds (s_agent_id s) of Some t \<Rightarrow> t | None \<Rightarrow> default_secs) * 1000000)
         (sessions d))"

definition latest_message :: "db \<Rightarrow> uuid \<Rightarrow> message_row option" where
  "latest_message d sid =
     first_row (order_desc m_created_at (filter (\<lambda>m. m_session_id m = sid) (messages d)))"

definition empty_tool_calls :: "message_row \<Rightarrow> bool" where
  "empty_tool_calls m \<longleftrightarrow> m_tool_calls m = None \<or> m_tool_calls m = Some (JArr [])"

definition find_stuck_sessions :: "timestamp \<Rightarrow> int \<Rightarrow> int \<Rightarrow> db \<Rightarrow> (uuid \<times> string) list" where
  "find_stuck_sessions now stale_secs max_retries d =
     map (\<lambda>s. (s_id s, s_agent_id s))
       (filter (\<lambda>s. s_retry_count s < max_retries \<and> last_sign s < now - stale_secs * 1000000
                  \<and> (case latest_message d (s_id s) of
                       None \<Rightarrow> False
                     | Some m \<Rightarrow>
                         s_run_status s = Some ''running'' \<and> m_role m = ''user''
                         \<or> s_run_status s = Some ''done'' \<and> m_role m = ''assistant''
                            \<and> m_content m = [] \<and> empty_tool_calls m))
         (sessions d))"

section \<open>Retention\<close>

definition delete_session :: "uuid \<Rightarrow> db \<Rightarrow> db" where
  "delete_session sid d = delete_sessions (\<lambda>s. s_id s = sid) d"

definition one_day :: int where "one_day = 24 * 3600 * 1000000"

definition cleanup_old_sessions :: "timestamp \<Rightarrow> nat \<Rightarrow> db \<Rightarrow> nat \<times> db" where
  "cleanup_old_sessions now ttl_days d =
     (if ttl_days = 0 then (0, d)
      else let P = (\<lambda>s. s_last_message_at s < now - int ttl_days * one_day)
           in (rows_affected P (sessions d), delete_sessions P d))"

text \<open>\<open>ROW_NUMBER() OVER (PARTITION BY agent_id ORDER BY last_message_at DESC)\<close> over the sessions
  that are not running; the rows numbered above the cap go.\<close>

definition ranked_sessions :: "db \<Rightarrow> string \<Rightarrow> session_row list" where
  "ranked_sessions d agent =
     order_desc s_last_message_at
       (filter (\<lambda>s. s_agent_id s = agent \<and> s_run_status s \<noteq> Some ''running'') (sessions d))"

definition cleanup_excess_sessions_per_agent :: "nat \<Rightarrow> db \<Rightarrow> nat \<times> db" where
  "cleanup_excess_sessions_per_agent max_per_agent d =
     (if max_per_agent = 0 then (0, d)
      else let P = (\<lambda>s. s_id s \<in> s_id ` set (drop max_per_agent (ranked_sessions d (s_agent_id s))))
           in (rows_affected P (sessions d), delete_sessions P d))"

section \<open>Lemmas on the queries\<close>

lemma first_row_None [simp]: "first_row xs = None \<longleftrightarrow> xs = []"
  by (cases xs) auto

lemma first_row_Some: "first_row xs = Some r \<Longrightarrow> r \<in> set xs"
  by (cases xs) auto

lemma set_order_desc [simp]: "set (order_desc k xs) = set xs"
  by (simp add: order_desc_def)

lemma order_desc_Nil [simp]: "order_desc k xs = [] \<longleftrightarrow> xs = []"
  by (metis order_desc_def length_0_conv length_sort)

lemma length_order_desc [simp]: "length (order_desc k xs) = length xs"
  by (simp add: order_desc_def)

lemma sorted_order_desc: "sorted_wrt (\<lambda>a b. k b \<le> k a) (order_desc k xs)"
proof -
  have "sorted (map (\<lambda>r. - k r) (order_desc k xs))"
    by (simp add: order_desc_def)
  then show ?thesis by (simp add: sorted_wrt_map)
qed

lemma first_order_desc:
  assumes "first_row (order_desc k xs) = Some r"
  shows "r \<in> set xs \<and> (\<forall>x \<in> set xs. k x \<le> k r)"
proof -
  obtain ys where ys: "order_desc k xs = r # ys"
    using assms by (cases "order_desc k xs") auto
  have "set (r # ys) = set xs" using ys set_order_desc [of k xs] by simp
  moreover have "\<forall>y \<in> set ys. k y \<le> k r"
    using sorted_order_desc [of k xs] ys by simp
  ultimately show ?thesis by auto
qed

lemma filter_take_prefix:
  "distinct xs \<Longrightarrow> filter (\<lambda>x. x \<in> set (take n xs)) xs = take n xs"
proof (induction xs arbitrary: n)
  case (Cons x xs)
  show ?case
  proof (cases n)
    case (Suc m)
    have "filter (\<lambda>y. y = x \<or> y \<in> set (take m xs)) xs = filter (\<lambda>y. y \<in> set (take m xs)) xs"
      using Cons.prems by (intro filter_cong) auto
    then show ?thesis using Cons Suc by simp
  qed simp
qed simp

lemma unique_session:
  "\<lbrakk>db_ok d; s \<in> set (sessions d); t \<in> set (sessions d); s_id s = s_id t\<rbrakk> \<Longrightarrow> s = t"
  by (auto simp: db_ok_def distinct_map inj_on_def)

lemma lookup_session_Some: "lookup_session d i = Some s \<Longrightarrow> s \<in> set (sessions d) \<and> s_id s = i"
  by (auto simp: lookup_session_def dest!: first_row_Some)

lemma lookup_session_None: "lookup_session d i = None \<longleftrightarrow> \<not> session_exists d i"
  by (auto simp: lookup_session_def session_exists_def filter_empty_conv)

lemma lookup_session_iff:
  "db_ok d \<Longrightarrow> lookup_session d i = Some s \<longleftrightarrow> s \<in> set (sessions d) \<and> s_id s = i"
  using lookup_session_Some lookup_session_None unique_session
  by (metis image_eqI not_Some_eq session_exists_def)

lemma first_filter_update:
  assumes "\<And>r. k (f r) = k r"
  shows "first_row (filter (\<lambda>r. k r = i) (update_where P f rs))
       = map_option (\<lambda>r. if P r then f r else r) (first_row (filter (\<lambda>r. k r = i) rs))"
  using assms by (induction rs) auto

lemma lookup_update_session:
  assumes "keeps_session_keys f"
  shows "lookup_session (update_session sid P f d) i =
     map_option (\<lambda>s. if s_id s = sid \<and> P s then f s else s) (lookup_session d i)"
  using assms
  by (simp add: lookup_session_def update_session_def keeps_session_keys_def first_filter_update)

lemma lookup_update_other:
  "keeps_session_keys f \<Longrightarrow> i \<noteq> sid \<Longrightarrow>
     lookup_session (update_session sid P f d) i = lookup_session d i"
  by (cases "lookup_session d i") (auto simp: lookup_update_session dest: lookup_session_Some)

lemma keeps_set_running [simp]: "keeps_session_keys set_running"
  by (simp add: keeps_session_keys_def set_running_def)

lemma rows_affected_pos: "rows_affected P rs > 0 \<longleftrightarrow> (\<exists>r \<in> set rs. P r)"
  by (auto simp: rows_affected_def filter_empty_conv)

section \<open>Finding or creating a session\<close>

lemma latest_active_Some:
  "latest_active now a k d = Some s \<Longrightarrow> s \<in> set (sessions d) \<and> active_match now a k s"
  by (auto simp: latest_active_def dest!: first_order_desc)

lemma latest_active_insert:
  assumes "latest_active now a k d = None" and "active_match now a k s"
  shows "latest_active now a k (d\<lparr>sessions := sessions d @ [s]\<rparr>) = Some s"
proof -
  have "filter (active_match now a k) (sessions d) = []"
    using assms(1) by (simp add: latest_active_def)
  then show ?thesis
    using assms(2) by (simp add: latest_active_def order_desc_def)
qed

lemma get_or_create_cases:
  assumes g: "get_or_create_session fresh now a u c ds cs d = Inr ((i, mode), d')"
  defines "k \<equiv> dm_scope_keys u c ds cs"
  shows "\<exists>s. latest_active now a k d' = Some s \<and> s_id s = i \<and> active_match now a k s
     \<and> (mode = NewSession \<and> s_run_status s = None \<and> \<not> session_exists d i \<and> i = fresh
        \<or> d' = d \<and> mode = reuse_mode (Option.bind (s_run_status s) parse_status))"
proof (cases "latest_active now a k d")
  case (Some s)
  then show ?thesis
    using g latest_active_Some [OF Some] by (auto simp: get_or_create_session_def k_def)
next
  case None
  let ?row = "(new_session_row fresh a (fst k) (fst (snd k)) now)\<lparr>s_chat_scope := snd (snd k)\<rparr>"
  have i: "i = fresh" "mode = NewSession" and ins: "insert_session ?row d = Inr d'"
    using g None by (auto simp: get_or_create_session_def k_def Let_def split: sum.splits)
  have m: "active_match now a k ?row"
    by (simp add: active_match_def new_session_row_def four_hours_def)
  have "latest_active now a k d' = Some ?row"
    using latest_active_insert [OF None m] insert_session_Inr [OF ins] by simp
  then show ?thesis
    using i m insert_session_Inr [OF ins] by (auto simp: new_session_row_def)
qed

text \<open>Finding or creating a session is stable: whatever row \<open>get_or_create_session\<close> returns,
  the read-only lookups of the same message (\<open>resolve_active_dm_session\<close>, \<open>find_active_session\<close>)
  now resolve to exactly that row, and asking again creates nothing: same row, tables
  unchanged, no matter which identifier the second insert would have drawn.\<close>

theorem get_or_create_stable:
  assumes "get_or_create_session fresh now a u c ds cs d = Inr ((i, mode), d')"
  shows "find_active_session now a u c ds cs d' = Some i
     \<and> (\<exists>st. resolve_active_dm_session now a u c ds cs d' = Some (i, st))
     \<and> (\<exists>m. get_or_create_session fresh' now a u c ds cs d' = Inr ((i, m), d'))"
  using get_or_create_cases [OF assms]
  by (auto simp: find_active_session_def resolve_active_dm_session_def get_or_create_session_def)

theorem get_or_create_stable_witness:
  "\<exists>i mode d'. get_or_create_session 7 0 ''a'' ''u'' ''tg'' ''per-chat'' (Some ''42'') empty_db
       = Inr ((i, mode), d')
     \<and> find_active_session 0 ''a'' ''u'' ''tg'' ''per-chat'' (Some ''42'') d' = Some i"
proof -
  let ?g = "get_or_create_session 7 0 ''a'' ''u'' ''tg'' ''per-chat'' (Some ''42'') empty_db"
  obtain d' where g: "?g = Inr ((7, NewSession), d')"
    by (simp add: get_or_create_session_def latest_active_def empty_db_def insert_session_def
        new_session_row_def dm_scope_keys_def pg_text_ok_def opt_ok_def session_exists_def Let_def
        order_desc_def)
  then show ?thesis using get_or_create_stable [OF g, of 8] by blast
qed

text \<open>C29. No context leaks between chats: unless the agent's scope is \<open>shared\<close> or \<open>per-peer\<close>, two
  messages from different chats never land in the same session, in whichever order they come
  and whatever other sessions exist.\<close>

theorem chats_are_isolated:
  assumes ok: "db_ok d"
    and ds: "ds \<notin> {''shared'', ''per-peer''}" and cs: "cs \<noteq> cs'"
    and g1: "get_or_create_session f1 now a u c ds cs d = Inr ((i, m1), d1)"
    and g2: "get_or_create_session f2 now a u' c ds cs' d1 = Inr ((j, m2), d2)"
  shows "i \<noteq> j"
proof -
  let ?k = "dm_scope_keys u c ds cs" and ?k' = "dm_scope_keys u' c ds cs'"
  obtain s where s: "latest_active now a ?k d1 = Some s" "s_id s = i" "active_match now a ?k s"
    using get_or_create_cases [OF g1] by blast
  obtain t where t: "latest_active now a ?k' d2 = Some t" "s_id t = j" "active_match now a ?k' t"
    and new: "\<not> session_exists d1 j \<or> d2 = d1"
    using get_or_create_cases [OF g2] by blast
  have ok1: "db_ok d1"
    using g1 ok by (auto simp: get_or_create_session_def Let_def db_ok_insert_session
        split: option.splits sum.splits)
  have sin: "s \<in> set (sessions d1)" using latest_active_Some [OF s(1)] by simp
  have ne: "s \<noteq> t"
    using s(3) t(3) ds cs by (auto simp: active_match_def dm_scope_keys_def split: if_splits)
  show ?thesis
  proof (cases "d2 = d1")
    case True
    then have "t \<in> set (sessions d1)" using latest_active_Some [OF t(1)] by simp
    then show ?thesis using unique_session [OF ok1 sin] ne s(2) t(2) by auto
  next
    case False
    then show ?thesis using new sin s(2) by (auto simp: session_exists_def)
  qed
qed

theorem chats_are_isolated_witness:
  "\<exists>d1 d2 m1 m2 i j.
      get_or_create_session 1 0 ''a'' ''u'' ''tg'' ''per-chat'' (Some ''42'') empty_db = Inr ((i, m1), d1)
    \<and> get_or_create_session 2 0 ''a'' ''u'' ''tg'' ''per-chat'' (Some ''43'') d1 = Inr ((j, m2), d2)
    \<and> i \<noteq> j"
proof -
  let ?g1 = "get_or_create_session 1 0 ''a'' ''u'' ''tg'' ''per-chat'' (Some ''42'') empty_db"
  let ?d1 = "empty_db\<lparr>sessions := [(new_session_row 1 ''a'' ''*'' ''tg'' 0)\<lparr>s_chat_scope := Some ''42''\<rparr>]\<rparr>"
  let ?g2 = "get_or_create_session 2 0 ''a'' ''u'' ''tg'' ''per-chat'' (Some ''43'') ?d1"
  note evals = get_or_create_session_def latest_active_def empty_db_def insert_session_def
    new_session_row_def dm_scope_keys_def pg_text_ok_def opt_ok_def session_exists_def Let_def
    order_desc_def active_match_def
  have g1: "?g1 = Inr ((1, NewSession), ?d1)" by (simp add: evals)
  obtain d2 where g2: "?g2 = Inr ((2, NewSession), d2)" by (simp add: evals)
  have "(1::nat) \<noteq> 2"
    by (rule chats_are_isolated [OF db_ok_empty _ _ g1 g2]) simp_all
  then show ?thesis using g1 g2 by blast
qed

section \<open>Claiming a session\<close>

lemma claim_for_reentry_result:
  "fst (claim_session_for_reentry sid mode d) \<longleftrightarrow>
     (\<exists>s \<in> set (sessions d). s_id s = sid \<and> allowed_from mode (s_run_status s))"
  by (simp add: claim_session_for_reentry_def Let_def rows_affected_pos)

lemma claim_for_reentry_lookup:
  "lookup_session (snd (claim_session_for_reentry sid mode d)) i =
     map_option (\<lambda>s. if s_id s = sid \<and> allowed_from mode (s_run_status s) then set_running s else s)
       (lookup_session d i)"
  by (simp add: claim_session_for_reentry_def Let_def lookup_update_session)

lemma claim_for_reentry_ok: "db_ok d \<Longrightarrow> db_ok (snd (claim_session_for_reentry sid mode d))"
  by (simp add: claim_session_for_reentry_def Let_def db_ok_update_session)

lemma claimed_is_running:
  assumes "db_ok d" and "fst (claim_session_for_reentry sid mode d)"
  shows "get_session_run_status sid (snd (claim_session_for_reentry sid mode d)) = Some ''running''"
proof -
  obtain s where s: "s \<in> set (sessions d)" "s_id s = sid" "allowed_from mode (s_run_status s)"
    using assms(2) by (auto simp: claim_for_reentry_result)
  then have "lookup_session d sid = Some s" using lookup_session_iff [OF assms(1)] by simp
  then show ?thesis
    using s by (simp add: get_session_run_status_def claim_for_reentry_lookup set_running_def)
qed

text \<open>Claiming with the retry never loses a message to a race: for every entry mode and
  whatever other connections do between the three statements (as long as they keep the tables
  consistent and do not delete this session), the claim succeeds and the session is \<open>running\<close>.
  In particular the mode \<open>NewTurnAfterDone\<close> that \<open>get_or_create_session\<close> gives to a found row
  without a status, which the first statement refuses, still ends in a claim.\<close>

theorem claim_with_retry_succeeds:
  assumes ok: "db_ok d" and ex: "session_exists d sid"
    and env1: "\<And>x. db_ok x \<Longrightarrow> session_exists x sid \<Longrightarrow> db_ok (env1 x) \<and> session_exists (env1 x) sid"
    and env2: "\<And>x. db_ok x \<Longrightarrow> session_exists x sid \<Longrightarrow> db_ok (env2 x) \<and> session_exists (env2 x) sid"
  shows "\<exists>d'. claim_session_with_retry env1 env2 sid mode d = (True, d')
     \<and> get_session_run_status sid d' = Some ''running''"
proof (cases "fst (claim_session_for_reentry sid mode d)")
  case True
  then show ?thesis
    using claimed_is_running [OF ok True]
    by (auto simp: claim_session_with_retry_def split: prod.splits)
next
  case False
  let ?d1 = "snd (claim_session_for_reentry sid mode d)"
  let ?d3 = "env2 (env1 ?d1)"
  have "session_exists ?d1 sid" using ex by (simp add: claim_session_for_reentry_def Let_def)
  then have e1: "db_ok (env1 ?d1)" "session_exists (env1 ?d1) sid"
    using env1 claim_for_reentry_ok [OF ok] by auto
  then have e2: "db_ok ?d3" "session_exists ?d3 sid" using env2 by auto
  have cl: "fst (claim_session_for_reentry sid ExplicitResume ?d3)"
    using e2(2) by (auto simp: claim_for_reentry_result session_exists_def)
  have "claim_session_with_retry env1 env2 sid mode d = claim_session_for_reentry sid ExplicitResume ?d3"
    using False e1(2) by (simp add: claim_session_with_retry_def case_prod_beta Let_def)
  then show ?thesis
    using claimed_is_running [OF e2(1) cl] cl by (metis prod.collapse)
qed

theorem claim_with_retry_succeeds_witness:
  "\<exists>d'. claim_session_with_retry id id 1 NewTurnAfterDone
          (empty_db\<lparr>sessions := [new_session_row 1 ''a'' ''u'' ''web'' 0]\<rparr>) = (True, d')
     \<and> get_session_run_status 1 d' = Some ''running''"
  by (rule claim_with_retry_succeeds)
     (simp_all add: db_ok_def empty_db_def session_exists_def new_session_row_def opt_ok_def)

text \<open>Re-driving is exclusive and within budget: a successful \<open>claim_redrive\<close> leaves the
  session \<open>running\<close> with a retry count that is one higher and at most the budget, touches no
  other session, and an immediate second claim of the same session gets nothing.\<close>

theorem claim_redrive_exclusive:
  assumes ok: "db_ok d" and c: "claim_redrive sid maxr d = Inr (Some n, d')"
  shows "n \<le> maxr \<and> get_session_run_status sid d' = Some ''running''
     \<and> (\<exists>s. lookup_session d sid = Some s \<and> n = s_retry_count s + 1)
     \<and> (\<forall>i. i \<noteq> sid \<longrightarrow> lookup_session d' i = lookup_session d i)
     \<and> claim_redrive sid maxr' d' = Inr (None, d')"
proof -
  let ?P = "\<lambda>s. s_run_status s \<in> {Some ''interrupted'', Some ''done''} \<and> s_retry_count s < maxr"
  let ?f = "\<lambda>s. s\<lparr>s_retry_count := s_retry_count s + 1, s_run_status := Some ''running''\<rparr>"
  have k: "keeps_session_keys ?f" by (simp add: keeps_session_keys_def)
  obtain s where s: "first_row (filter (\<lambda>s. s_id s = sid \<and> ?P s) (sessions d)) = Some s"
    and n: "n = s_retry_count s + 1" and d': "d' = update_session sid ?P ?f d"
    using c by (auto simp: claim_redrive_def charge_retry_def split: option.splits if_splits)
  have m: "s \<in> set (sessions d)" "s_id s = sid" "?P s"
    using first_row_Some [OF s] by auto
  then have l: "lookup_session d sid = Some s" using lookup_session_iff [OF ok] by simp
  then have l': "lookup_session d' sid = Some (?f s)"
    using m by (simp add: d' lookup_update_session [OF k])
  have "db_ok d'" unfolding d' using ok k by (rule db_ok_update_session)
  then have uniq: "t = ?f s" if "t \<in> set (sessions d')" "s_id t = sid" for t
    using l' that lookup_session_iff by (metis option.inject)
  have "\<not> (\<exists>t \<in> set (sessions d'). s_id t = sid
      \<and> s_run_status t \<in> {Some ''interrupted'', Some ''done''} \<and> s_retry_count t < maxr')"
    using uniq by fastforce
  then have "first_row (filter (\<lambda>t. s_id t = sid
      \<and> s_run_status t \<in> {Some ''interrupted'', Some ''done''} \<and> s_retry_count t < maxr') (sessions d')) = None"
    by (simp add: filter_empty_conv)
  then have "claim_redrive sid maxr' d' = Inr (None, d')"
    by (simp add: claim_redrive_def charge_retry_def)
  then show ?thesis
    using m n l l' by (auto simp: get_session_run_status_def d' lookup_update_other [OF k])
qed

definition interrupted_example :: db where
  "interrupted_example = empty_db\<lparr>sessions :=
     [(new_session_row 1 ''a'' ''u'' ''cron'' 0)\<lparr>s_run_status := Some ''interrupted''\<rparr>]\<rparr>"

theorem claim_redrive_exclusive_witness:
  "\<exists>n d'. claim_redrive 1 3 interrupted_example = Inr (Some n, d') \<and> n \<le> 3
     \<and> claim_redrive 1 3 d' = Inr (None, d')"
proof -
  have ok: "db_ok interrupted_example"
    by (simp add: interrupted_example_def db_ok_def empty_db_def new_session_row_def opt_ok_def)
  obtain d' where c: "claim_redrive 1 3 interrupted_example = Inr (Some 1, d')"
    by (simp add: claim_redrive_def charge_retry_def interrupted_example_def new_session_row_def
        empty_db_def i32_max_def)
  show ?thesis using c claim_redrive_exclusive [OF ok c, of 3] by blast
qed

section \<open>Retention\<close>

lemma set_sessions_delete_sessions:
  "s_id ` set (sessions (delete_sessions P d)) = s_id ` {s \<in> set (sessions d). \<not> P s}"
  by (auto simp: delete_sessions_def Let_def image_iff)

lemma ranked_mem:
  "s \<in> set (ranked_sessions d a) \<longleftrightarrow>
     s \<in> set (sessions d) \<and> s_agent_id s = a \<and> s_run_status s \<noteq> Some ''running''"
  by (auto simp: ranked_sessions_def)

lemma distinct_ranked: "db_ok d \<Longrightarrow> distinct (map s_id (ranked_sessions d a))"
  by (simp add: ranked_sessions_def order_desc_def db_ok_def distinct_map)
     (auto intro: inj_on_subset)

lemma kept_iff:
  assumes ok: "db_ok d" and s: "s \<in> set (sessions d)"
  shows "s_id s \<in> s_id ` set (drop n (ranked_sessions d a)) \<longleftrightarrow> s \<in> set (drop n (ranked_sessions d a))"
    (is "?l \<longleftrightarrow> ?r")
proof
  assume ?l
  then obtain t where t: "s_id s = s_id t" "t \<in> set (drop n (ranked_sessions d a))" by (rule imageE)
  then have "t \<in> set (ranked_sessions d a)" by (simp add: in_set_dropD)
  then have "t \<in> set (sessions d)" by (simp add: ranked_mem)
  then show ?r using unique_session [OF ok s] t by simp
qed simp

text \<open>The per-agent cap does what it says.  After \<open>cleanup_excess_sessions_per_agent\<close> with a
  cap \<open>n > 0\<close>: every running session is still there, each agent keeps at most \<open>n\<close> sessions that
  are not running (exactly the smaller of \<open>n\<close> and what it had), and no session that was deleted
  had a newer last message than one that was kept.\<close>

theorem excess_cleanup_keeps_newest:
  assumes ok: "db_ok d" and n: "0 < n"
    and c: "cleanup_excess_sessions_per_agent n d = (k, d')"
  defines "kept \<equiv> \<lambda>s. s_id s \<in> s_id ` set (sessions d')"
  shows "(\<forall>s \<in> set (sessions d). s_run_status s = Some ''running'' \<longrightarrow> kept s)
     \<and> length (filter kept (ranked_sessions d a)) = min n (length (ranked_sessions d a))
     \<and> (\<forall>s \<in> set (ranked_sessions d a). \<forall>t \<in> set (ranked_sessions d a).
          \<not> kept s \<longrightarrow> kept t \<longrightarrow> s_last_message_at s \<le> s_last_message_at t)
     \<and> db_ok d'"
proof -
  let ?P = "\<lambda>s. s_id s \<in> s_id ` set (drop n (ranked_sessions d (s_agent_id s)))"
  let ?R = "ranked_sessions d a"
  have d': "d' = delete_sessions ?P d"
    using c n by (auto simp: cleanup_excess_sessions_per_agent_def Let_def)
  have kept: "kept s \<longleftrightarrow> \<not> ?P s" if "s \<in> set (sessions d)" for s
    using unique_session [OF ok that] that
    unfolding kept_def d' set_sessions_delete_sessions by (auto simp: image_iff)
  have kept_take: "kept s \<longleftrightarrow> s \<in> set (take n ?R)" if s: "s \<in> set ?R" for s
  proof -
    have "distinct (take n ?R @ drop n ?R)"
      using distinct_ranked [OF ok, of a] distinct_map append_take_drop_id by metis
    then have "set (take n ?R) \<inter> set (drop n ?R) = {}" by (simp only: distinct_append)
    moreover have "set ?R = set (take n ?R) \<union> set (drop n ?R)"
      by (metis append_take_drop_id set_append)
    moreover have "kept s \<longleftrightarrow> s \<notin> set (drop n ?R)"
      using s kept kept_iff [OF ok] ranked_mem by metis
    ultimately show ?thesis using s by blast
  qed
  have run: "kept s" if "s \<in> set (sessions d)" "s_run_status s = Some ''running''" for s
    using that kept kept_iff [OF ok] ranked_mem in_set_dropD by metis
  have dist: "distinct ?R" using distinct_ranked [OF ok, of a] by (simp add: distinct_map)
  have "filter kept ?R = filter (\<lambda>s. s \<in> set (take n ?R)) ?R"
    using kept_take by (intro filter_cong) auto
  also have "\<dots> = take n ?R" using dist by (rule filter_take_prefix)
  finally have len: "length (filter kept ?R) = min n (length ?R)" by simp
  have newer: "s_last_message_at s \<le> s_last_message_at t"
    if "s \<in> set ?R" "t \<in> set ?R" "\<not> kept s" "kept t" for s t
  proof -
    have "sorted_wrt (\<lambda>a b. s_last_message_at b \<le> s_last_message_at a) (take n ?R @ drop n ?R)"
      unfolding append_take_drop_id unfolding ranked_sessions_def by (rule sorted_order_desc)
    moreover have "t \<in> set (take n ?R)" "s \<in> set (drop n ?R)"
      using that kept_take by (auto, metis Un_iff append_take_drop_id set_append)
    ultimately show ?thesis by (simp only: sorted_wrt_append)
  qed
  show ?thesis
    using run len newer db_ok_delete_sessions [OF ok] d' by blast
qed

definition two_sessions_example :: db where
  "two_sessions_example = empty_db\<lparr>sessions :=
     [new_session_row 1 ''a'' ''u'' ''web'' 10, new_session_row 2 ''a'' ''u'' ''web'' 20]\<rparr>"

theorem excess_cleanup_keeps_newest_witness:
  "\<exists>k d'. cleanup_excess_sessions_per_agent 1 two_sessions_example = (k, d') \<and> db_ok d'
     \<and> length (filter (\<lambda>s. s_id s \<in> s_id ` set (sessions d')) (ranked_sessions two_sessions_example ''a'')) = 1"
proof -
  have ok: "db_ok two_sessions_example"
    by (simp add: two_sessions_example_def db_ok_def empty_db_def new_session_row_def opt_ok_def)
  have len: "length (ranked_sessions two_sessions_example ''a'') = 2"
    by (simp add: ranked_sessions_def two_sessions_example_def new_session_row_def order_desc_def)
  obtain k d' where c: "cleanup_excess_sessions_per_agent 1 two_sessions_example = (k, d')"
    by (rule prod.exhaust)
  show ?thesis
    using c len excess_cleanup_keeps_newest [OF ok _ c, of "''a''"] by auto
qed

section \<open>Titles and chains\<close>

lemma rfind_space_less: "rfind_space s = Some i \<Longrightarrow> i < length s"
  by (induction s arbitrary: i) (auto split: option.splits if_splits)

lemma auto_title_length: "length (auto_title t) \<le> 63"
proof (cases "length (trim t) \<le> 60")
  case False
  let ?e = "floor_char_boundary (trim t) 60"
  have e: "?e \<le> 60" by (rule floor_char_boundary_le)
  show ?thesis
  proof (cases "rfind_space (take ?e (trim t))")
    case None
    then show ?thesis using False e by (simp add: auto_title_def Let_def ellipsis_def)
  next
    case (Some pos)
    then have "pos \<le> ?e" using rfind_space_less [OF Some] by simp
    then show ?thesis using Some False e by (simp add: auto_title_def Let_def ellipsis_def)
  qed
qed (simp add: auto_title_def Let_def)

lemma chain_up_linked:
  assumes "chain_up fuel depth sid d = (n, s) # rest"
  shows "n = depth \<and> s_id s = sid \<and> s \<in> set (sessions d)"
  using assms by (subst (asm) chain_up.simps) (auto split: option.splits dest: lookup_session_Some)

lemma chain_up_depths:
  "map fst (chain_up fuel depth sid d) = [depth ..< depth + length (chain_up fuel depth sid d)]
   \<and> length (chain_up fuel depth sid d) \<le> Suc fuel"
proof (induction fuel arbitrary: depth sid)
  case 0
  show ?case by (subst (1 2 3) chain_up.simps) (simp split: option.split)
next
  case (Suc n)
  show ?case
  proof (cases "lookup_session d sid")
    case None
    then show ?thesis by (simp add: chain_up.simps [of "Suc n"])
  next
    case (Some s)
    then show ?thesis
      using Suc.IH [of "Suc depth"]
      by (cases "s_parent_session_id s")
         (simp_all add: chain_up.simps [of "Suc n"] upt_rec)
  qed
qed

end
