(* ===== verification/Message_Store.thy ===== *)
theory Message_Store
  imports Session_Claims
begin

text \<open>
  The message side of \<open>crates/opex-db/src/sessions.rs\<close>: saving, streaming, branching, compression,
  trimming and the delivery mirror.  The identifiers that the database or \<open>Uuid::new_v4()\<close> draws
  are arguments named \<open>fresh\<close>.
\<close>

section \<open>Saving\<close>

definition sanitize_pg_text :: "string \<Rightarrow> string" where
  "sanitize_pg_text s = filter (\<lambda>c. c \<noteq> CHR 0x00) s"

definition message_exists_in_session :: "uuid \<Rightarrow> uuid \<Rightarrow> db \<Rightarrow> bool" where
  "message_exists_in_session i sid d \<longleftrightarrow>
     (\<exists>m \<in> set (messages d). m_id m = i \<and> m_session_id m = sid)"

definition save_message_ex ::
  "uuid \<Rightarrow> timestamp \<Rightarrow> uuid \<Rightarrow> string \<Rightarrow> string \<Rightarrow> json option \<Rightarrow> string option \<Rightarrow> string option
     \<Rightarrow> json option \<Rightarrow> uuid option \<Rightarrow> db \<Rightarrow> db_error + (uuid \<times> db)" where
  "save_message_ex fresh now sid role content tool_calls tool_call_id agent thinking parent d =
     (case insert_message
             ((new_message fresh sid role (sanitize_pg_text content) now)
                \<lparr>m_tool_calls := tool_calls, m_tool_call_id := tool_call_id, m_agent_id := agent,
                 m_thinking_blocks := thinking, m_parent_message_id := parent\<rparr>) d of
        Inl e \<Rightarrow> Inl e | Inr d' \<Rightarrow> Inr (fresh, d'))"

definition save_message ::
  "uuid \<Rightarrow> timestamp \<Rightarrow> uuid \<Rightarrow> string \<Rightarrow> string \<Rightarrow> json option \<Rightarrow> string option \<Rightarrow> db
     \<Rightarrow> db_error + (uuid \<times> db)" where
  "save_message fresh now sid role content tool_calls tool_call_id d =
     save_message_ex fresh now sid role content tool_calls tool_call_id None None None d"

text \<open>\<open>ON CONFLICT (id) DO NOTHING\<close>.\<close>

definition save_message_ex_with_id ::
  "uuid \<Rightarrow> timestamp \<Rightarrow> uuid \<Rightarrow> string \<Rightarrow> string \<Rightarrow> json option \<Rightarrow> string option \<Rightarrow> string option
     \<Rightarrow> json option \<Rightarrow> uuid option \<Rightarrow> uuid option \<Rightarrow> int option \<Rightarrow> db \<Rightarrow> db_error + db" where
  "save_message_ex_with_id i now sid role content tool_calls tool_call_id agent thinking parent batch step d =
     (case insert_message
             ((new_message i sid role (sanitize_pg_text content) now)
                \<lparr>m_tool_calls := tool_calls, m_tool_call_id := tool_call_id, m_agent_id := agent,
                 m_thinking_blocks := thinking, m_parent_message_id := parent,
                 m_parallel_batch_id := batch, m_step_id := step\<rparr>) d of
        Inl UniqueViolation \<Rightarrow> Inr d | Inl e \<Rightarrow> Inl e | Inr d' \<Rightarrow> Inr d')"

definition update_message ::
  "uuid \<Rightarrow> (message_row \<Rightarrow> message_row) \<Rightarrow> db \<Rightarrow> db" where
  "update_message i f d = d\<lparr>messages := update_where (\<lambda>m. m_id m = i) f (messages d)\<rparr>"

definition update_message_step_id :: "uuid \<Rightarrow> int \<Rightarrow> db \<Rightarrow> db" where
  "update_message_step_id i step d = update_message i (\<lambda>m. m\<lparr>m_step_id := Some step\<rparr>) d"

definition prepend_message_content :: "uuid \<Rightarrow> string \<Rightarrow> db \<Rightarrow> db_error + db" where
  "prepend_message_content i pre d =
     (if \<not> pg_text_ok pre then Inl NulInText
      else Inr (update_message i (\<lambda>m. m\<lparr>m_content := pre @ m_content m\<rparr>) d))"

text \<open>\<open>insert_seed_messages\<close>: one insert per message, each stamped with the clock at its own turn
  plus its index in microseconds; the first failing insert ends the loop, and the rows before it
  stay, since the loop is not a transaction.\<close>

datatype MessageRole = System | User | Assistant | Tool

fun role_str :: "MessageRole \<Rightarrow> string" where
  "role_str System = ''system''"
| "role_str User = ''user''"
| "role_str Assistant = ''assistant''"
| "role_str Tool = ''tool''"

record seed_message =
  seed_role :: MessageRole
  seed_content :: string
  seed_tool_calls :: "json option"
  seed_tool_call_id :: "string option"

fun insert_seed_from ::
  "nat \<Rightarrow> (nat \<Rightarrow> uuid) \<Rightarrow> (nat \<Rightarrow> timestamp) \<Rightarrow> uuid \<Rightarrow> string \<Rightarrow> seed_message list \<Rightarrow> db
     \<Rightarrow> db_error option \<times> db" where
  "insert_seed_from i fresh clock sid agent [] d = (None, d)"
| "insert_seed_from i fresh clock sid agent (msg # ms) d =
     (case insert_message
             ((new_message (fresh i) sid (role_str (seed_role msg)) (seed_content msg) (clock i + int i))
                \<lparr>m_agent_id := Some agent, m_tool_calls := seed_tool_calls msg,
                 m_tool_call_id := seed_tool_call_id msg\<rparr>) d of
        Inl e \<Rightarrow> (Some e, d)
      | Inr d' \<Rightarrow> insert_seed_from (Suc i) fresh clock sid agent ms d')"

definition insert_seed_messages ::
  "(nat \<Rightarrow> uuid) \<Rightarrow> (nat \<Rightarrow> timestamp) \<Rightarrow> uuid \<Rightarrow> string \<Rightarrow> seed_message list \<Rightarrow> db
     \<Rightarrow> db_error option \<times> db" where
  "insert_seed_messages fresh clock sid agent ms d = insert_seed_from 0 fresh clock sid agent ms d"

section \<open>Reading\<close>

definition live_messages :: "uuid \<Rightarrow> db \<Rightarrow> message_row list" where
  "live_messages sid d = filter (\<lambda>m. m_session_id m = sid \<and> \<not> m_compressed m) (messages d)"

definition load_messages :: "uuid \<Rightarrow> nat option \<Rightarrow> db \<Rightarrow> message_row list" where
  "load_messages sid limit d =
     (case limit of
        Some lim \<Rightarrow> order_asc m_created_at (take lim (order_desc m_created_at (live_messages sid d)))
      | None \<Rightarrow> order_asc m_created_at (live_messages sid d))"

definition count_messages :: "uuid \<Rightarrow> db \<Rightarrow> nat" where
  "count_messages sid d = rows_affected (\<lambda>m. m_session_id m = sid) (messages d)"

definition latest_user_message :: "uuid \<Rightarrow> db \<Rightarrow> message_row option" where
  "latest_user_message sid d =
     first_row (order_desc m_created_at
       (filter (\<lambda>m. m_session_id m = sid \<and> m_role m = ''user'') (messages d)))"

definition get_last_user_message_with_id :: "uuid \<Rightarrow> db \<Rightarrow> (uuid \<times> string) option" where
  "get_last_user_message_with_id sid d =
     map_option (\<lambda>m. (m_id m, m_content m)) (latest_user_message sid d)"

section \<open>Streaming\<close>

definition upsert_streaming_message ::
  "timestamp \<Rightarrow> uuid \<Rightarrow> uuid \<Rightarrow> string \<Rightarrow> string \<Rightarrow> json option \<Rightarrow> db \<Rightarrow> db_error + db" where
  "upsert_streaming_message now i sid agent content tool_calls d =
     (let row = (new_message i sid ''assistant'' content now)
            \<lparr>m_tool_calls := tool_calls, m_agent_id := Some agent, m_status := ''streaming'',
             m_parent_message_id := map_option m_id (latest_user_message sid d)\<rparr>
      in case insert_message row d of
           Inl UniqueViolation \<Rightarrow>
             Inr (touch_session_activity now sid
                    (update_message i (\<lambda>m. m\<lparr>m_content := content, m_tool_calls := tool_calls\<rparr>) d))
         | Inl e \<Rightarrow> Inl e
         | Inr d' \<Rightarrow> Inr (touch_session_activity now sid d'))"

definition finalize_streaming_message :: "uuid \<Rightarrow> db \<Rightarrow> db" where
  "finalize_streaming_message i d =
     delete_messages (\<lambda>m. m_id m = i \<and> m_status m = ''streaming'') d"

section \<open>Deleting\<close>

definition delete_empty_assistant_messages :: "uuid \<Rightarrow> db \<Rightarrow> nat \<times> db" where
  "delete_empty_assistant_messages sid d =
     (let P = (\<lambda>m. m_session_id m = sid \<and> m_role m = ''assistant'' \<and> m_content m = [] \<and> empty_tool_calls m)
      in (rows_affected P (messages d), delete_messages P d))"

definition trim_session_messages :: "uuid \<Rightarrow> nat \<Rightarrow> db \<Rightarrow> nat \<times> db" where
  "trim_session_messages sid max_messages d =
     (if max_messages = 0 then (0, d)
      else let keep = m_id ` set (take max_messages
                 (order_desc m_created_at (filter (\<lambda>m. m_session_id m = sid) (messages d))));
               P = (\<lambda>m. m_session_id m = sid \<and> m_id m \<notin> keep)
           in (rows_affected P (messages d), delete_messages P d))"

text \<open>The call identifiers that a message's \<open>tool_calls\<close> declares, as the two readers see them:
  \<open>call.get("id").as_str()\<close> in Rust, and \<open>elem->>'id'\<close> in SQL, which also renders a number or a
  boolean as text (an identifier that is an array or an object, which \<open>->>\<close> would print as JSON,
  is left out).\<close>

definition call_ids :: "json \<Rightarrow> string list" where
  "call_ids j =
     (case as_array j of
        None \<Rightarrow> []
      | Some calls \<Rightarrow> List.map_filter (\<lambda>c. Option.bind (json_get c ''id'') as_str) calls)"

fun scalar_text :: "json \<Rightarrow> string option" where
  "scalar_text (JStr s) = Some s"
| "scalar_text (JNum n) = Some n"
| "scalar_text (JBool b) = Some (if b then ''true'' else ''false'')"
| "scalar_text _ = None"

definition sql_call_ids :: "json \<Rightarrow> string list" where
  "sql_call_ids j =
     (case as_array j of
        None \<Rightarrow> []
      | Some calls \<Rightarrow> List.map_filter (\<lambda>c. Option.bind (json_get c ''id'') scalar_text) calls)"

definition declares_call :: "message_row \<Rightarrow> string \<Rightarrow> bool" where
  "declares_call m c \<longleftrightarrow>
     m_role m = ''assistant'' \<and> (case m_tool_calls m of None \<Rightarrow> False | Some j \<Rightarrow> c \<in> set (sql_call_ids j))"

definition orphan_tool_result :: "db \<Rightarrow> message_row \<Rightarrow> bool" where
  "orphan_tool_result d t \<longleftrightarrow>
     m_role t = ''tool''
     \<and> (case m_tool_call_id t of
          None \<Rightarrow> False
        | Some c \<Rightarrow> \<not> (\<exists>a \<in> set (messages d). m_session_id a = m_session_id t \<and> declares_call a c))"

definition sweep_orphan_tool_results :: "db \<Rightarrow> nat \<times> db" where
  "sweep_orphan_tool_results d =
     (rows_affected (orphan_tool_result d) (messages d), delete_messages (orphan_tool_result d) d)"

definition sweep_orphan_tool_results_for_session :: "uuid \<Rightarrow> db \<Rightarrow> nat \<times> db" where
  "sweep_orphan_tool_results_for_session sid d =
     (let P = (\<lambda>t. m_session_id t = sid \<and> orphan_tool_result d t)
      in (rows_affected P (messages d), delete_messages P d))"

section \<open>Branches\<close>

text \<open>The recursive query walks \<open>parent_message_id\<close> from the leaf; on a cyclic table PostgreSQL
  would not return.\<close>

partial_function (option) branch_up ::
  "db \<Rightarrow> uuid \<Rightarrow> uuid \<Rightarrow> message_row list option" where
  "branch_up d sid i =
     (case first_row (filter (\<lambda>m. m_id m = i \<and> m_session_id m = sid) (messages d)) of
        None \<Rightarrow> Some []
      | Some m \<Rightarrow>
          (case m_parent_message_id m of
             None \<Rightarrow> Some [m]
           | Some p \<Rightarrow> Option.bind (branch_up d sid p) (\<lambda>ms. Some (m # ms))))"

definition load_branch_messages :: "uuid \<Rightarrow> uuid \<Rightarrow> db \<Rightarrow> message_row list option" where
  "load_branch_messages sid leaf d =
     map_option (\<lambda>ms. order_asc m_created_at (filter (\<lambda>m. \<not> m_compressed m) ms)) (branch_up d sid leaf)"

definition find_parent_of_message :: "uuid \<Rightarrow> uuid \<Rightarrow> db \<Rightarrow> uuid option" where
  "find_parent_of_message sid i d =
     (case first_row (filter (\<lambda>m. m_id m = i \<and> m_session_id m = sid) (messages d)) of
        Some m \<Rightarrow> m_parent_message_id m
      | None \<Rightarrow>
          (case lookup_message d i of
             None \<Rightarrow> None
           | Some x \<Rightarrow>
               map_option m_id (first_row (order_desc m_created_at
                 (filter (\<lambda>m. m_session_id m = sid \<and> m_created_at m < m_created_at x) (messages d))))))"

definition save_message_branched ::
  "uuid \<Rightarrow> timestamp \<Rightarrow> uuid \<Rightarrow> string \<Rightarrow> string \<Rightarrow> json option \<Rightarrow> string option \<Rightarrow> string option
     \<Rightarrow> json option \<Rightarrow> uuid option \<Rightarrow> uuid option \<Rightarrow> db \<Rightarrow> db_error + (uuid \<times> db)" where
  "save_message_branched fresh now sid role content tool_calls tool_call_id agent thinking parent branch_from d =
     (case insert_message
             ((new_message fresh sid role content now)
                \<lparr>m_tool_calls := tool_calls, m_tool_call_id := tool_call_id, m_agent_id := agent,
                 m_thinking_blocks := thinking, m_parent_message_id := parent,
                 m_branch_from_message_id := branch_from\<rparr>) d of
        Inl e \<Rightarrow> Inl e | Inr d' \<Rightarrow> Inr (fresh, d'))"

section \<open>Partials, mirrors, compression, bookmarks\<close>

definition MAX_PARTIAL_BYTES :: nat where "MAX_PARTIAL_BYTES = 256 * 1024"

definition truncate_partial :: "string \<Rightarrow> string" where
  "truncate_partial content =
     (if length content \<le> MAX_PARTIAL_BYTES then content
      else take (floor_char_boundary content MAX_PARTIAL_BYTES) content)"

definition insert_assistant_partial ::
  "uuid \<Rightarrow> timestamp \<Rightarrow> uuid \<Rightarrow> string option \<Rightarrow> string \<Rightarrow> string option \<Rightarrow> uuid option \<Rightarrow> db
     \<Rightarrow> db_error + (uuid \<times> db)" where
  "insert_assistant_partial fresh now sid agent content abort_reason parent d =
     (case insert_message
             ((new_message fresh sid ''assistant'' (truncate_partial content) now)
                \<lparr>m_agent_id := agent, m_status := ''aborted'', m_abort_reason := abort_reason,
                 m_parent_message_id := parent\<rparr>) d of
        Inl e \<Rightarrow> Inl e | Inr d' \<Rightarrow> Inr (fresh, d'))"

definition mirror_to_session ::
  "uuid \<Rightarrow> timestamp \<Rightarrow> string \<Rightarrow> string \<Rightarrow> string \<Rightarrow> string option \<Rightarrow> string \<Rightarrow> db
     \<Rightarrow> db_error + (bool \<times> db)" where
  "mirror_to_session fresh now agent channel participant chat_scope text d =
     (if participant = ''*'' then Inr (False, d)
      else case resolve_active_dm_session now agent participant channel ''per-channel-peer'' chat_scope d of
        None \<Rightarrow> Inr (False, d)
      | Some (sid, _) \<Rightarrow>
          (case insert_message
                  ((new_message fresh sid ''assistant'' text now)
                     \<lparr>m_agent_id := Some agent, m_is_mirror := True\<rparr>) d of
             Inl e \<Rightarrow> Inl e | Inr d' \<Rightarrow> Inr (True, d')))"

definition mark_messages_compressed :: "uuid list \<Rightarrow> db \<Rightarrow> db" where
  "mark_messages_compressed ids d =
     (if ids = [] then d
      else d\<lparr>messages := update_where (\<lambda>m. m_id m \<in> set ids) (\<lambda>m. m\<lparr>m_compressed := True\<rparr>) (messages d)\<rparr>)"

definition toggle_bookmark :: "timestamp \<Rightarrow> uuid \<Rightarrow> string \<Rightarrow> bool \<Rightarrow> db \<Rightarrow> nat \<times> db" where
  "toggle_bookmark now i agent on d =
     (let P = (\<lambda>m. m_id m = i \<and> (\<exists>s \<in> set (sessions d). s_id s = m_session_id m \<and> s_agent_id s = agent))
      in (rows_affected P (messages d),
          d\<lparr>messages := update_where P
                (\<lambda>m. m\<lparr>m_bookmarked_at := if on then Some now else None\<rparr>) (messages d)\<rparr>))"

section \<open>Lemmas\<close>

lemma sanitize_ok [simp]: "pg_text_ok (sanitize_pg_text s)"
  by (simp add: pg_text_ok_def sanitize_pg_text_def)

lemma sanitize_id: "pg_text_ok s \<Longrightarrow> sanitize_pg_text s = s"
  unfolding pg_text_ok_def sanitize_pg_text_def by (auto intro: filter_True)

lemma set_order_asc [simp]: "set (order_asc k xs) = set xs"
  by (simp add: order_asc_def)

lemma sorted_order_asc: "sorted (map k (order_asc k xs))"
  by (simp add: order_asc_def)

lemma keeps_activity [simp]: "keeps_session_keys (\<lambda>s. s\<lparr>s_activity_at := x\<rparr>)"
  by (simp add: keeps_session_keys_def)

lemma touch_activity_ok: "db_ok d \<Longrightarrow> db_ok (touch_session_activity now sid d)"
  by (simp add: touch_session_activity_def db_ok_update_session)

lemma messages_touch_activity [simp]: "messages (touch_session_activity now sid d) = messages d"
  by (simp add: touch_session_activity_def)

lemma touch_last_message_time:
  "s \<in> set (sessions (touch_last_message m d)) \<Longrightarrow> s_id s = m_session_id m \<Longrightarrow>
     s_last_message_at s = m_created_at m"
  by (auto simp: touch_last_message_def update_session_def set_update_where)

lemma unique_message:
  "\<lbrakk>db_ok d; m \<in> set (messages d); n \<in> set (messages d); m_id m = m_id n\<rbrakk> \<Longrightarrow> m = n"
  by (auto simp: db_ok_def distinct_map inj_on_def)

text \<open>A message saved through \<open>save_message_ex\<close> is always persistable, whatever its bytes: when
  the session and the parent exist, the identifier is new and the side columns are valid text,
  the insert succeeds, the new row is the last of the table with every NUL removed and nothing
  else changed in its text, the session's \<open>last_message_at\<close> becomes the row's time, and the tables
  stay consistent.\<close>

theorem save_message_persists:
  assumes ok: "db_ok d" and "session_exists d sid" "\<not> message_exists d fresh"
    and "opt_ok (message_exists d) parent"
    and "pg_text_ok role" "opt_ok json_text_ok tc" "opt_ok pg_text_ok tcid" "opt_ok pg_text_ok agent"
    and "opt_ok json_text_ok th"
  shows "\<exists>d'. save_message_ex fresh now sid role content tc tcid agent th parent d = Inr (fresh, d')
     \<and> db_ok d' \<and> butlast (messages d') = messages d
     \<and> m_content (last (messages d')) = filter (\<lambda>c. c \<noteq> CHR 0x00) content
     \<and> m_parent_message_id (last (messages d')) = parent
     \<and> (\<forall>s \<in> set (sessions d'). s_id s = sid \<longrightarrow> s_last_message_at s = now)"
proof -
  let ?row = "(new_message fresh sid role (sanitize_pg_text content) now)
    \<lparr>m_tool_calls := tc, m_tool_call_id := tcid, m_agent_id := agent,
     m_thinking_blocks := th, m_parent_message_id := parent\<rparr>"
  let ?d = "touch_last_message ?row (d\<lparr>messages := messages d @ [?row]\<rparr>)"
  have ins: "insert_message ?row d = Inr ?d"
    unfolding insert_message_Inr using assms(2-)
    by (auto simp: message_text_ok_def new_message_def opt_ok_def)
  have "\<forall>s \<in> set (sessions ?d). s_id s = sid \<longrightarrow> s_last_message_at s = now"
    using touch_last_message_time [of _ ?row] by (simp add: new_message_def)
  moreover have "messages ?d = messages d @ [?row]" by (simp add: touch_last_message_def)
  moreover have "save_message_ex fresh now sid role content tc tcid agent th parent d = Inr (fresh, ?d)"
    unfolding save_message_ex_def ins by simp
  moreover have "m_content ?row = filter (\<lambda>c. c \<noteq> CHR 0x00) content" "m_parent_message_id ?row = parent"
    by (simp_all add: new_message_def sanitize_pg_text_def)
  ultimately show ?thesis using db_ok_insert_message [OF ok ins] by (intro exI [of _ ?d]) simp
qed

section \<open>Branches end\<close>

text \<open>What the recursive query should return: the leaf and its ancestors, inside the session.\<close>

inductive on_branch :: "db \<Rightarrow> uuid \<Rightarrow> uuid \<Rightarrow> message_row \<Rightarrow> bool" for d sid where
  leaf: "\<lbrakk>m \<in> set (messages d); m_id m = i; m_session_id m = sid\<rbrakk> \<Longrightarrow> on_branch d sid i m"
| up: "\<lbrakk>m \<in> set (messages d); m_id m = i; m_session_id m = sid; m_parent_message_id m = Some p;
        on_branch d sid p n\<rbrakk> \<Longrightarrow> on_branch d sid i n"

lemma row_lookup:
  assumes "db_ok d"
  shows "first_row (filter (\<lambda>m. m_id m = i \<and> m_session_id m = sid) (messages d)) = Some m
     \<longleftrightarrow> m \<in> set (messages d) \<and> m_id m = i \<and> m_session_id m = sid"
proof
  assume r: "m \<in> set (messages d) \<and> m_id m = i \<and> m_session_id m = sid"
  then obtain n where n: "first_row (filter (\<lambda>m. m_id m = i \<and> m_session_id m = sid) (messages d)) = Some n"
    by (cases "first_row (filter (\<lambda>m. m_id m = i \<and> m_session_id m = sid) (messages d))")
       (auto simp: filter_empty_conv)
  then have "n = m" using first_row_Some [OF n] r unique_message [OF assms] by auto
  then show "first_row (filter (\<lambda>m. m_id m = i \<and> m_session_id m = sid) (messages d)) = Some m"
    using n by simp
qed (auto dest: first_row_Some)

lemma on_branch_unfold:
  assumes ok: "db_ok d" and m: "m \<in> set (messages d)" "m_session_id m = sid"
  shows "on_branch d sid (m_id m) n \<longleftrightarrow>
     n = m \<or> (\<exists>p. m_parent_message_id m = Some p \<and> on_branch d sid p n)"
proof
  assume "on_branch d sid (m_id m) n"
  then show "n = m \<or> (\<exists>p. m_parent_message_id m = Some p \<and> on_branch d sid p n)"
  proof cases
    case leaf
    then show ?thesis using unique_message [OF ok, of n m] m by simp
  next
    case (up m' p)
    then show ?thesis using unique_message [OF ok, of m' m] m by auto
  qed
qed (use m in \<open>auto intro: on_branch.intros\<close>)

lemma branch_up_missing:
  "\<not> (\<exists>m \<in> set (messages d). m_id m = i \<and> m_session_id m = sid) \<Longrightarrow> branch_up d sid i = Some []"
  by (subst branch_up.simps) (auto split: option.splits dest!: first_row_Some)

lemma parent_earlier:
  assumes "db_ok d" and "messages d = pre @ m # post" and "m_parent_message_id m = Some p"
  shows "p \<in> m_id ` set pre"
proof -
  have "parents_before {} (pre @ m # post)" using assms by (simp add: db_ok_def)
  then show ?thesis using assms(3) by (simp add: parents_before_append opt_ok_def)
qed

lemma branch_up_returns:
  assumes ok: "db_ok d" and "messages d = pre @ m # post" and "m_session_id m = sid"
  shows "\<exists>ms. branch_up d sid (m_id m) = Some ms \<and> set ms = {n. on_branch d sid (m_id m) n}
     \<and> set ms \<subseteq> insert m (set pre) \<and> distinct ms"
  using assms(2,3)
proof (induction "length pre" arbitrary: pre m post rule: less_induct)
  case less
  note ms = less.prems(1) and sess = less.prems(2)
  have min: "m \<in> set (messages d)" using ms by simp
  have row: "first_row (filter (\<lambda>x. m_id x = m_id m \<and> m_session_id x = sid) (messages d)) = Some m"
    using row_lookup [OF ok] min sess by blast
  have self: "{n. on_branch d sid (m_id m) n} =
      insert m (case m_parent_message_id m of None \<Rightarrow> {} | Some p \<Rightarrow> {n. on_branch d sid p n})"
    using on_branch_unfold [OF ok min sess] by (auto split: option.splits)
  have notin: "m \<notin> set pre"
  proof
    assume "m \<in> set pre"
    then have "\<not> distinct (map m_id (pre @ m # post))" by auto
    then show False using ok ms by (simp add: db_ok_def)
  qed
  show ?case
  proof (cases "m_parent_message_id m")
    case None
    then show ?thesis using row self by (simp add: branch_up.simps [of d sid "m_id m"])
  next
    case (Some p)
    then obtain q where q: "q \<in> set pre" "m_id q = p"
      using parent_earlier [OF ok ms] by auto
    then obtain pre' post' where pre: "pre = pre' @ q # post'" by (meson split_list)
    have br: "branch_up d sid (m_id m) =
        Option.bind (branch_up d sid p) (\<lambda>ms. Some (m # ms))"
      using row Some by (simp add: branch_up.simps [of d sid "m_id m"])
    show ?thesis
    proof (cases "m_session_id q = sid")
      case True
      have "\<exists>ns. branch_up d sid (m_id q) = Some ns \<and> set ns = {n. on_branch d sid (m_id q) n}
          \<and> set ns \<subseteq> insert q (set pre') \<and> distinct ns"
        using less.hyps [of pre' q "post' @ m # post"] True ms pre by simp
      then show ?thesis using br q(2) self Some pre notin by auto
    next
      case False
      have none: "\<not> (\<exists>x \<in> set (messages d). m_id x = p \<and> m_session_id x = sid)"
      proof
        assume "\<exists>x \<in> set (messages d). m_id x = p \<and> m_session_id x = sid"
        then obtain x where "x \<in> set (messages d)" "m_id x = m_id q" "m_session_id x = sid"
          using q by auto
        then show False using unique_message [OF ok, of x q] q ms False by auto
      qed
      then have "{n. on_branch d sid p n} = {}"
        by (auto elim: on_branch.cases)
      then show ?thesis using br branch_up_missing [OF none] self Some by auto
    qed
  qed
qed

text \<open>Loading a branch always returns.  Because a message is inserted after its parent, the
  parent pointers of a consistent table have no cycle, so the recursive query of
  \<open>load_branch_messages\<close> ends for every leaf; it returns exactly the uncompressed rows on the path
  from the leaf to the root inside the session, without repetition, oldest first.\<close>

theorem load_branch_correct:
  assumes ok: "db_ok d"
  shows "\<exists>ms. load_branch_messages sid leaf d = Some ms
     \<and> set ms = {m. on_branch d sid leaf m \<and> \<not> m_compressed m}
     \<and> distinct ms \<and> sorted (map m_created_at ms)"
proof -
  obtain ms where ms: "branch_up d sid leaf = Some ms" "set ms = {n. on_branch d sid leaf n}" "distinct ms"
  proof (cases "\<exists>m \<in> set (messages d). m_id m = leaf \<and> m_session_id m = sid")
    case True
    then obtain m pre post where "messages d = pre @ m # post" "m_id m = leaf" "m_session_id m = sid"
      by (meson split_list)
    then show thesis using branch_up_returns [OF ok] that by metis
  next
    case False
    then have "{n. on_branch d sid leaf n} = {}" by (auto elim: on_branch.cases)
    then show thesis using branch_up_missing [OF False] that by simp
  qed
  then show ?thesis
    by (auto simp: load_branch_messages_def sorted_order_asc order_asc_def)
qed

definition thread_example :: db where
  "thread_example = empty_db\<lparr>sessions := [new_session_row 1 ''a'' ''u'' ''web'' 0],
     messages := [new_message 10 1 ''user'' ''hi'' 1,
                  (new_message 11 1 ''assistant'' ''hello'' 2)\<lparr>m_parent_message_id := Some 10\<rparr>]\<rparr>"

lemma thread_example_ok: "db_ok thread_example"
  by (simp add: thread_example_def db_ok_def empty_db_def new_session_row_def new_message_def
      opt_ok_def session_exists_def message_text_ok_def pg_text_ok_def)

theorem load_branch_correct_witness:
  "\<exists>ms. load_branch_messages 1 11 thread_example = Some ms \<and> distinct ms"
  using load_branch_correct [OF thread_example_ok, of 1 11] by blast

theorem save_message_persists_witness:
  "\<exists>d'. save_message_ex 12 5 1 ''tool'' [CHR ''a'', CHR 0x00] None (Some ''c'') None None (Some 11) thread_example
       = Inr (12, d') \<and> m_content (last (messages d')) = ''a''"
proof -
  have "\<exists>d'. save_message_ex 12 5 1 ''tool'' [CHR ''a'', CHR 0x00] None (Some ''c'') None None (Some 11) thread_example
       = Inr (12, d') \<and> db_ok d' \<and> butlast (messages d') = messages thread_example
     \<and> m_content (last (messages d')) = filter (\<lambda>c. c \<noteq> CHR 0x00) [CHR ''a'', CHR 0x00]
     \<and> m_parent_message_id (last (messages d')) = Some 11
     \<and> (\<forall>s \<in> set (sessions d'). s_id s = 1 \<longrightarrow> s_last_message_at s = 5)"
    by (rule save_message_persists)
       (simp_all add: thread_example_ok, simp_all add: thread_example_def empty_db_def
         new_session_row_def new_message_def session_exists_def message_exists_def opt_ok_def
         pg_text_ok_def)
  then show ?thesis by auto
qed

section \<open>Writers that do not strip NUL\<close>

text \<open>Only \<open>save_message_ex\<close> and \<open>save_message_ex_with_id\<close> strip NUL bytes.  The other writers of
  message text (the streaming upsert, a branched message, a partial answer) hand the text to
  PostgreSQL as it is, so a NUL in it makes the write fail and nothing is stored.\<close>

theorem unsanitized_writers_refuse_nul:
  assumes nul: "CHR 0x00 \<in> set content" and short: "length content \<le> MAX_PARTIAL_BYTES"
  shows "upsert_streaming_message now i sid agent content tc d = Inl NulInText
     \<and> save_message_branched fresh now sid role content tc tcid ag th parent branch d = Inl NulInText
     \<and> insert_assistant_partial fresh now sid ag content reason parent d = Inl NulInText"
  using assms
  by (simp add: upsert_streaming_message_def save_message_branched_def insert_assistant_partial_def
      insert_message_def message_text_ok_def new_message_def pg_text_ok_def truncate_partial_def Let_def)

theorem unsanitized_writers_refuse_nul_witness:
  "insert_assistant_partial 20 5 1 None [CHR 0x00] None None thread_example = Inl NulInText"
  using unsanitized_writers_refuse_nul [of "[CHR 0x00]" 5 20 1 "''a''" None thread_example 20 "''tool''"
      None None None None None None]
  by (simp add: MAX_PARTIAL_BYTES_def)

text \<open>The cut of a partial answer: the result is a prefix of the text, at most 256 KiB long,
  ends on a character boundary, and is the longest prefix with these two properties.\<close>

theorem truncate_partial_spec:
  "\<exists>n. truncate_partial s = take n s \<and> n \<le> length s \<and> n \<le> MAX_PARTIAL_BYTES \<and> is_char_boundary s n
     \<and> (\<forall>k. k \<le> length s \<and> k \<le> MAX_PARTIAL_BYTES \<and> is_char_boundary s k \<longrightarrow> k \<le> n)"
proof (cases "length s \<le> MAX_PARTIAL_BYTES")
  case True
  then show ?thesis
    by (intro exI [of _ "length s"]) (simp add: truncate_partial_def is_char_boundary_def)
next
  case False
  then show ?thesis
    using floor_char_boundary_le [of s MAX_PARTIAL_BYTES] floor_char_boundary_ok
      floor_char_boundary_greatest
    by (intro exI [of _ "floor_char_boundary s MAX_PARTIAL_BYTES"])
       (auto simp: truncate_partial_def)
qed

theorem truncate_partial_spec_witness:
  "\<exists>n. truncate_partial ''abc'' = take n ''abc'' \<and> n \<le> MAX_PARTIAL_BYTES"
  using truncate_partial_spec [of "''abc''"] by blast

end
