(* ===== verification/Session_Repair.thy ===== *)
theory Session_Repair
  imports Message_Store
begin

text \<open>
  Terminating and repairing sessions: the cleanup functions of \<open>crates/opex-db/src/sessions.rs\<close>, the
  timeline insert they use (\<open>crates/opex-db/src/session_timeline.rs\<close>) and the startup loop of
  \<open>crates/opex-core/src/main.rs\<close>.

  A transaction is a function to \<open>db_error + db\<close>: an error leaves the caller with the tables it
  had.  \<open>gen d k\<close> is the \<open>k\<close>-th identifier that \<open>Uuid::new_v4()\<close> draws while the tables are \<open>d\<close>;
  the code relies on such identifiers being unused and different (\<open>fresh_gen\<close>).
\<close>

section \<open>Timeline\<close>

definition log_event_tx :: "timestamp \<Rightarrow> uuid \<Rightarrow> string \<Rightarrow> json option \<Rightarrow> db \<Rightarrow> db_error + db" where
  "log_event_tx now sid event payload d =
     (case insert_timeline sid event payload now d of
        Inl e \<Rightarrow> Inl e
      | Inr d' \<Rightarrow> Inr (touch_session_activity now sid d'))"

definition has_event_type :: "uuid \<Rightarrow> string \<Rightarrow> db \<Rightarrow> bool" where
  "has_event_type sid event d \<longleftrightarrow>
     (\<exists>t \<in> set (timeline d). t_session_id t = sid \<and> t_event_type t = event)"

text \<open>One batch of \<open>prune_old_events_batched\<close>: the \<open>batch\<close> oldest identifiers among the rows past the
  horizon; then the loop, which ends with the first batch that is not full.\<close>

definition prune_batch :: "timestamp \<Rightarrow> nat \<Rightarrow> nat \<Rightarrow> db \<Rightarrow> nat \<times> db" where
  "prune_batch now days batch d =
     (let old = filter (\<lambda>t. t_created_at t < now - int days * one_day) (timeline d);
          ids = t_id ` set (take batch (sort_key t_id old))
      in (rows_affected (\<lambda>t. t_id t \<in> ids) (timeline d),
          d\<lparr>timeline := filter (\<lambda>t. t_id t \<notin> ids) (timeline d)\<rparr>))"

partial_function (option) prune_loop ::
  "timestamp \<Rightarrow> nat \<Rightarrow> nat \<Rightarrow> nat \<Rightarrow> db \<Rightarrow> (nat \<times> db) option" where
  "prune_loop now days batch deleted d =
     (case prune_batch now days batch d of
        (affected, d') \<Rightarrow>
          (if affected < batch then Some (deleted + affected, d')
           else prune_loop now days batch (deleted + affected) d'))"

definition prune_old_events_batched ::
  "timestamp \<Rightarrow> nat \<Rightarrow> int \<Rightarrow> db \<Rightarrow> (db_error + (nat \<times> db)) option" where
  "prune_old_events_batched now days batch_size d =
     (if days = 0 then Some (Inr (0, d))
      else if batch_size \<le> 0 then Some (Inl (BatchSizeNotPositive batch_size))
      else map_option Inr (prune_loop now days (nat batch_size) 0 d))"

section \<open>Synthetic tool results\<close>

definition INTERRUPTED_TOOL_RESULT :: string where
  "INTERRUPTED_TOOL_RESULT =
     ''[interrupted:verify] This tool call was interrupted before its result was recorded; it may or may not have completed its side effect (file write, message send, code execution, etc.). Verify the current state before repeating the action.''"

definition MAX_PARAMS_PER_QUERY :: nat where "MAX_PARAMS_PER_QUERY = 32767"

text \<open>The assistant rows with calls, oldest first.  \<open>jsonb_array_length\<close> fails on a value that is not
  an array, and with it the whole query.\<close>

definition assistant_calls :: "uuid \<Rightarrow> db \<Rightarrow> db_error + message_row list" where
  "assistant_calls sid d =
     (let rows = filter (\<lambda>m. m_session_id m = sid \<and> m_role m = ''assistant'' \<and> m_tool_calls m \<noteq> None)
                   (messages d)
      in if \<exists>m \<in> set rows. Option.bind (m_tool_calls m) as_array = None then Inl ArrayLengthOfScalar
         else Inr (order_asc m_created_at
                (filter (\<lambda>m. m_tool_calls m \<noteq> Some (JArr [])) rows)))"

definition all_call_ids :: "message_row list \<Rightarrow> string list" where
  "all_call_ids rows =
     concat (map (\<lambda>m. case m_tool_calls m of None \<Rightarrow> [] | Some j \<Rightarrow> call_ids j) rows)"

definition answered :: "uuid \<Rightarrow> db \<Rightarrow> string \<Rightarrow> bool" where
  "answered sid d c \<longleftrightarrow>
     (\<exists>m \<in> set (messages d). m_session_id m = sid \<and> m_role m = ''tool'' \<and> m_tool_call_id m = Some c)"

fun insert_all :: "message_row list \<Rightarrow> db \<Rightarrow> db_error + db" where
  "insert_all [] d = Inr d"
| "insert_all (m # ms) d =
     (case insert_message m d of Inl e \<Rightarrow> Inl e | Inr d' \<Rightarrow> insert_all ms d')"

definition synthetic_row :: "timestamp \<Rightarrow> uuid \<Rightarrow> uuid \<Rightarrow> string \<Rightarrow> message_row" where
  "synthetic_row now sid i c =
     (new_message i sid ''tool'' INTERRUPTED_TOOL_RESULT now)\<lparr>m_tool_call_id := Some c\<rparr>"

text \<open>\<open>missing.chunks(chunk_size)\<close>, and one multi-row insert per chunk.\<close>

function chunks :: "nat \<Rightarrow> 'a list \<Rightarrow> 'a list list" where
  "chunks n xs = (if n = 0 \<or> xs = [] then [] else take n xs # chunks n (drop n xs))"
  by pat_completeness auto
termination by (relation "measure (\<lambda>(n, xs). length xs)") auto

declare chunks.simps [simp del]

fun insert_chunks ::
  "(db \<Rightarrow> nat \<Rightarrow> uuid) \<Rightarrow> timestamp \<Rightarrow> uuid \<Rightarrow> string list list \<Rightarrow> nat \<Rightarrow> db
     \<Rightarrow> db_error + (nat \<times> db)" where
  "insert_chunks gen now sid [] inserted d = Inr (inserted, d)"
| "insert_chunks gen now sid (c # cs) inserted d =
     (case insert_all (map (\<lambda>k. synthetic_row now sid (gen d k) (c ! k)) [0 ..< length c]) d of
        Inl e \<Rightarrow> Inl e
      | Inr d' \<Rightarrow> insert_chunks gen now sid cs (inserted + length c) d')"

definition insert_synthetic_tool_results ::
  "(db \<Rightarrow> nat \<Rightarrow> uuid) \<Rightarrow> timestamp \<Rightarrow> uuid \<Rightarrow> db \<Rightarrow> db_error + (nat \<times> db)" where
  "insert_synthetic_tool_results gen now sid d =
     (case assistant_calls sid d of
        Inl e \<Rightarrow> Inl e
      | Inr rows \<Rightarrow>
          (let missing = filter (\<lambda>c. \<not> answered sid d c) (all_call_ids rows)
           in insert_chunks gen now sid (chunks (MAX_PARAMS_PER_QUERY div 4) missing) 0 d))"

text \<open>\<open>insert_missing_tool_results\<close>: one insert, and one \<open>new_v4()\<close>, per identifier; not a transaction,
  so the rows before the first error stay.\<close>

fun insert_missing_tool_results ::
  "(db \<Rightarrow> nat \<Rightarrow> uuid) \<Rightarrow> timestamp \<Rightarrow> uuid \<Rightarrow> string list \<Rightarrow> db \<Rightarrow> db_error option \<times> db" where
  "insert_missing_tool_results gen now sid [] d = (None, d)"
| "insert_missing_tool_results gen now sid (c # cs) d =
     (case insert_message (synthetic_row now sid (gen d 0) c) d of
        Inl e \<Rightarrow> (Some e, d)
      | Inr d' \<Rightarrow> insert_missing_tool_results gen now sid cs d')"

section \<open>Termination of a session\<close>

definition interrupt_row :: "message_row \<Rightarrow> message_row" where
  "interrupt_row m =
     m\<lparr>m_status := ''interrupted'',
       m_content := if m_content m = [] then ''[interrupted]'' else m_content m\<rparr>"

definition cleanup_session_streaming_messages :: "uuid \<Rightarrow> db \<Rightarrow> nat \<times> db" where
  "cleanup_session_streaming_messages sid d =
     (let P = (\<lambda>m. m_session_id m = sid \<and> m_status m = ''streaming'')
      in (rows_affected P (messages d), d\<lparr>messages := update_where P interrupt_row (messages d)\<rparr>))"

definition cleanup_session_terminated ::
  "(db \<Rightarrow> nat \<Rightarrow> uuid) \<Rightarrow> timestamp \<Rightarrow> uuid \<Rightarrow> string \<Rightarrow> string \<Rightarrow> db \<Rightarrow> db_error + (bool \<times> db)" where
  "cleanup_session_terminated gen now sid target_status reason d =
     (let P = (\<lambda>s. s_run_status s = Some ''running'')
      in if rows_affected (\<lambda>s. s_id s = sid \<and> P s) (sessions d) = 0 then Inr (False, d)
         else
           let d1 = update_session sid P (\<lambda>s. s\<lparr>s_run_status := Some target_status\<rparr>) d;
               d2 = snd (cleanup_session_streaming_messages sid d1)
           in case insert_synthetic_tool_results gen now sid d2 of
                Inl e \<Rightarrow> Inl e
              | Inr (_, d3) \<Rightarrow>
                  (case log_event_tx now sid target_status
                          (Some (JObj [(''reason'', JStr reason)])) d3 of
                     Inl e \<Rightarrow> Inl e
                   | Inr d4 \<Rightarrow> Inr (True, d4)))"

text \<open>A loop body that logs an error and goes on.\<close>

fun cleanup_each ::
  "(db \<Rightarrow> nat \<Rightarrow> uuid) \<Rightarrow> timestamp \<Rightarrow> string \<Rightarrow> uuid list \<Rightarrow> db \<Rightarrow> db" where
  "cleanup_each gen now reason [] d = d"
| "cleanup_each gen now reason (sid # sids) d =
     (case cleanup_session_terminated gen now sid ''interrupted'' reason d of
        Inl e \<Rightarrow> cleanup_each gen now reason sids d
      | Inr (_, d') \<Rightarrow> cleanup_each gen now reason sids d')"

definition running_ids :: "db \<Rightarrow> uuid list" where
  "running_ids d = map s_id (filter (\<lambda>s. s_run_status s = Some ''running'') (sessions d))"

text \<open>Step 5: \<open>jsonb_set(metadata, '{ui_state,streamStatus}', '"idle"')\<close> where it is
  \<open>streaming\<close>.\<close>

fun set_member :: "string \<Rightarrow> json \<Rightarrow> json \<Rightarrow> json" where
  "set_member k v (JObj ms) = JObj (map (\<lambda>(k', w). if k' = k then (k', v) else (k', w)) ms)"
| "set_member k v j = j"

definition stream_status :: "json option \<Rightarrow> json option" where
  "stream_status md =
     Option.bind md (\<lambda>j. Option.bind (json_get j ''ui_state'') (\<lambda>u. json_get u ''streamStatus''))"

definition idle_metadata :: "json option \<Rightarrow> json option" where
  "idle_metadata md =
     map_option (\<lambda>j. case json_get j ''ui_state'' of
         None \<Rightarrow> j
       | Some u \<Rightarrow> set_member ''ui_state'' (set_member ''streamStatus'' (JStr ''idle'') u) j) md"

definition clear_stream_status :: "db \<Rightarrow> db" where
  "clear_stream_status d =
     d\<lparr>sessions := update_where (\<lambda>s. stream_status (s_metadata s) = Some (JStr ''streaming''))
           (\<lambda>s. s\<lparr>s_metadata := idle_metadata (s_metadata s)\<rparr>) (sessions d)\<rparr>"

text \<open>Step 0: streaming rows of sessions that are not running.\<close>

definition repair_orphan_streaming :: "db \<Rightarrow> db" where
  "repair_orphan_streaming d =
     d\<lparr>messages := update_where
         (\<lambda>m. m_status m = ''streaming''
            \<and> (\<exists>s \<in> set (sessions d). s_id s = m_session_id m \<and> s_run_status s \<noteq> Some ''running''))
         interrupt_row (messages d)\<rparr>"

definition cleanup_interrupted_sessions ::
  "(db \<Rightarrow> nat \<Rightarrow> uuid) \<Rightarrow> timestamp \<Rightarrow> db \<Rightarrow> nat \<times> db" where
  "cleanup_interrupted_sessions gen now d =
     (let d0 = repair_orphan_streaming d;
          interrupted = take 100 (running_ids d0);
          d1 = cleanup_each gen now ''crash_recovery'' interrupted d0
      in (length interrupted, clear_stream_status d1))"

definition mark_all_running_sessions_terminated ::
  "(db \<Rightarrow> nat \<Rightarrow> uuid) \<Rightarrow> timestamp \<Rightarrow> string \<Rightarrow> db \<Rightarrow> nat \<times> db" where
  "mark_all_running_sessions_terminated gen now reason d =
     (let running = running_ids d in (length running, cleanup_each gen now reason running d))"

text \<open>The startup loop of \<open>main.rs\<close>: batches until one finds nothing.  \<open>now k\<close> is the clock of
  the \<open>k\<close>-th batch; \<^const>\<open>None\<close> is a loop that never ends.\<close>

partial_function (option) startup_cleanup ::
  "(db \<Rightarrow> nat \<Rightarrow> uuid) \<Rightarrow> (nat \<Rightarrow> timestamp) \<Rightarrow> nat \<Rightarrow> db \<Rightarrow> db option" where
  "startup_cleanup gen now k d =
     (case cleanup_interrupted_sessions gen (now k) d of
        (n, d') \<Rightarrow> (if n = 0 then Some d' else startup_cleanup gen now (Suc k) d'))"

section \<open>What the statements leave alone\<close>

definition statuses :: "db \<Rightarrow> (uuid \<times> string option) list" where
  "statuses d = map (\<lambda>s. (s_id s, s_run_status s)) (sessions d)"

definition session_messages :: "uuid \<Rightarrow> db \<Rightarrow> message_row list" where
  "session_messages sid d = filter (\<lambda>m. m_session_id m = sid) (messages d)"

definition fresh_gen :: "(db \<Rightarrow> nat \<Rightarrow> uuid) \<Rightarrow> bool" where
  "fresh_gen gen \<longleftrightarrow> (\<forall>d k. \<not> message_exists d (gen d k)) \<and> (\<forall>d. inj (gen d))"

lemma running_ids_statuses:
  "running_ids d = map fst (filter (\<lambda>(i, st). st = Some ''running'') (statuses d))"
  by (simp add: running_ids_def statuses_def filter_map comp_def)

lemma session_exists_statuses: "session_exists d i \<longleftrightarrow> i \<in> fst ` set (statuses d)"
  by (auto simp: session_exists_def statuses_def image_iff)

lemma distinct_running: "db_ok d \<Longrightarrow> distinct (running_ids d)"
  by (simp add: running_ids_def db_ok_def distinct_map_filter)

lemma statuses_update_session:
  assumes "\<And>s. s_id (f s) = s_id s" "\<And>s. s_run_status (f s) = s_run_status s"
  shows "statuses (update_session sid P f d) = statuses d"
  unfolding statuses_def update_session_def using assms by (simp add: update_where_key)

lemma statuses_messages [simp]: "statuses (d\<lparr>messages := ms\<rparr>) = statuses d"
  and statuses_timeline [simp]: "statuses (d\<lparr>timeline := ts, timeline_seq := n\<rparr>) = statuses d"
  by (simp_all add: statuses_def)

lemma statuses_touch [simp]:
  "statuses (touch_last_message m d) = statuses d"
  "statuses (touch_session_activity now sid d) = statuses d"
  by (simp_all add: touch_last_message_def touch_session_activity_def statuses_update_session)

lemma messages_touch_last [simp]: "messages (touch_last_message m d) = messages d"
  by (simp add: touch_last_message_def)

lemma insert_message_frame:
  assumes "insert_message m d = Inr d'"
  shows "statuses d' = statuses d \<and> messages d' = messages d @ [m] \<and> timeline d' = timeline d"
  using assms by (auto simp: insert_message_Inr touch_last_message_def statuses_update_session)

lemma insert_all_frame:
  "insert_all ms d = Inr d' \<Longrightarrow>
     statuses d' = statuses d \<and> messages d' = messages d @ ms \<and> timeline d' = timeline d"
proof (induction ms arbitrary: d)
  case (Cons m ms)
  then obtain d1 where "insert_message m d = Inr d1" "insert_all ms d1 = Inr d'"
    by (auto split: sum.splits)
  then show ?case using Cons.IH insert_message_frame by force
qed simp

lemma insert_all_ok: "db_ok d \<Longrightarrow> insert_all ms d = Inr d' \<Longrightarrow> db_ok d'"
  by (induction ms arbitrary: d) (auto split: sum.splits dest: db_ok_insert_message)

lemma insert_chunks_frame:
  "insert_chunks gen now sid cs n d = Inr (k, d') \<Longrightarrow>
     statuses d' = statuses d \<and> timeline d' = timeline d \<and> k = n + length (concat cs) \<and>
     (\<exists>new. messages d' = messages d @ new \<and> map m_tool_call_id new = map Some (concat cs)
        \<and> (\<forall>m \<in> set new. m_session_id m = sid \<and> m_role m = ''tool'' \<and> m_status m = ''complete''
              \<and> m_content m = INTERRUPTED_TOOL_RESULT \<and> m_created_at m = now))"
proof (induction cs arbitrary: n d)
  case (Cons c cs)
  let ?new = "map (\<lambda>j. synthetic_row now sid (gen d j) (c ! j)) [0 ..< length c]"
  obtain d1 where i: "insert_all ?new d = Inr d1"
    and r: "insert_chunks gen now sid cs (n + length c) d1 = Inr (k, d')"
    using Cons.prems by (auto split: sum.splits)
  have tc: "map m_tool_call_id ?new = map Some c"
    by (rule nth_equalityI) (simp_all add: synthetic_row_def)
  have rows: "\<forall>m \<in> set ?new. m_session_id m = sid \<and> m_role m = ''tool'' \<and> m_status m = ''complete''
      \<and> m_content m = INTERRUPTED_TOOL_RESULT \<and> m_created_at m = now"
    by (auto simp: synthetic_row_def new_message_def)
  have f1: "statuses d1 = statuses d" "messages d1 = messages d @ ?new" "timeline d1 = timeline d"
    using insert_all_frame [OF i] by auto
  obtain new2 where "messages d' = messages d1 @ new2" "map m_tool_call_id new2 = map Some (concat cs)"
    "\<forall>m \<in> set new2. m_session_id m = sid \<and> m_role m = ''tool'' \<and> m_status m = ''complete''
       \<and> m_content m = INTERRUPTED_TOOL_RESULT \<and> m_created_at m = now"
    "statuses d' = statuses d1" "timeline d' = timeline d1" "k = n + length c + length (concat cs)"
    using Cons.IH [OF r] by blast
  then show ?case
    using f1 tc rows by (intro conjI exI [of _ "?new @ new2"]) (auto simp del: map_map)
qed simp

lemma concat_chunks: "n > 0 \<Longrightarrow> concat (chunks n xs) = xs"
  by (induction n xs rule: chunks.induct) (subst chunks.simps, simp)

lemma insert_chunks_ok:
  "db_ok d \<Longrightarrow> insert_chunks gen now sid cs n d = Inr (k, d') \<Longrightarrow> db_ok d'"
  by (induction cs arbitrary: n d) (auto split: sum.splits dest: insert_all_ok)

text \<open>A row that waits for its place: valid text, no parent, an unused identifier.\<close>

lemma insert_message_fresh:
  assumes "message_text_ok m" "\<not> message_exists d (m_id m)" "session_exists d (m_session_id m)"
    "m_parent_message_id m = None" "m_branch_from_message_id m = None"
  shows "\<exists>d'. insert_message m d = Inr d'"
  using assms by (auto simp: insert_message_Inr opt_ok_def)

lemma insert_all_succeeds:
  assumes "distinct (map m_id ms)"
    and "\<forall>m \<in> set ms. message_text_ok m \<and> \<not> message_exists d (m_id m) \<and> session_exists d (m_session_id m)
       \<and> m_parent_message_id m = None \<and> m_branch_from_message_id m = None"
  shows "\<exists>d'. insert_all ms d = Inr d'"
  using assms
proof (induction ms arbitrary: d)
  case (Cons m ms)
  then obtain d1 where d1: "insert_message m d = Inr d1" using insert_message_fresh by force
  have f: "statuses d1 = statuses d" "messages d1 = messages d @ [m]"
    using insert_message_frame [OF d1] by auto
  have "\<forall>n \<in> set ms. \<not> message_exists d1 (m_id n) \<and> session_exists d1 (m_session_id n)"
    using Cons.prems f by (auto simp: message_exists_def session_exists_statuses image_iff)
  then obtain d' where "insert_all ms d1 = Inr d'" using Cons.IH [of d1] Cons.prems by auto
  then show ?case using d1 by simp
qed simp

lemma interrupted_text_ok: "pg_text_ok INTERRUPTED_TOOL_RESULT"
  unfolding pg_text_ok_def INTERRUPTED_TOOL_RESULT_def by code_simp

lemma synthetic_text_ok: "pg_text_ok c \<Longrightarrow> message_text_ok (synthetic_row now sid i c)"
  using interrupted_text_ok
  by (simp add: message_text_ok_def synthetic_row_def new_message_def opt_ok_def) (simp add: pg_text_ok_def)

lemma insert_chunks_succeeds:
  assumes "fresh_gen gen" "session_exists d sid" "\<forall>c \<in> set (concat cs). pg_text_ok c"
  shows "\<exists>k d'. insert_chunks gen now sid cs n d = Inr (k, d')"
  using assms(2,3)
proof (induction cs arbitrary: n d)
  case (Cons c cs)
  let ?new = "map (\<lambda>j. synthetic_row now sid (gen d j) (c ! j)) [0 ..< length c]"
  have ids: "map m_id ?new = map (gen d) [0 ..< length c]"
    by (simp add: synthetic_row_def new_message_def)
  have "inj (gen d)" using assms(1) by (simp add: fresh_gen_def)
  then have "distinct (map m_id ?new)"
    unfolding ids by (simp add: distinct_map inj_on_def)
  moreover have "\<forall>m \<in> set ?new. message_text_ok m \<and> \<not> message_exists d (m_id m)
      \<and> session_exists d (m_session_id m) \<and> m_parent_message_id m = None \<and> m_branch_from_message_id m = None"
    using assms(1) Cons.prems synthetic_text_ok
    by (auto simp: fresh_gen_def synthetic_row_def new_message_def)
  ultimately obtain d1 where d1: "insert_all ?new d = Inr d1" using insert_all_succeeds by blast
  then have "session_exists d1 sid"
    using insert_all_frame Cons.prems by (simp add: session_exists_statuses)
  then obtain k d' where "insert_chunks gen now sid cs (n + length c) d1 = Inr (k, d')"
    using Cons.IH Cons.prems by fastforce
  then show ?case using d1 by simp
qed simp

section \<open>Synthetic results\<close>

definition calls_are_arrays :: "uuid \<Rightarrow> db \<Rightarrow> bool" where
  "calls_are_arrays sid d \<longleftrightarrow>
     (\<forall>m \<in> set (messages d). m_session_id m = sid \<and> m_role m = ''assistant'' \<longrightarrow>
        m_tool_calls m = None \<or> Option.bind (m_tool_calls m) as_array \<noteq> None)"

lemma calls_are_arrays_frame:
  assumes "calls_are_arrays sid d"
    and "\<And>m'. \<lbrakk>m' \<in> set (messages d'); m_session_id m' = sid; m_role m' = ''assistant''\<rbrakk> \<Longrightarrow>
      \<exists>m \<in> set (messages d). m_session_id m = sid \<and> m_role m = ''assistant'' \<and> m_tool_calls m = m_tool_calls m'"
  shows "calls_are_arrays sid d'"
  using assms unfolding calls_are_arrays_def by (metis (no_types))

definition declared_calls :: "uuid \<Rightarrow> db \<Rightarrow> string set" where
  "declared_calls sid d =
     {c. \<exists>m \<in> set (messages d). \<exists>j. m_session_id m = sid \<and> m_role m = ''assistant''
           \<and> m_tool_calls m = Some j \<and> c \<in> set (call_ids j)}"

lemma call_ids_mem:
  "c \<in> set (call_ids j) \<longleftrightarrow>
     (\<exists>xs ms. j = JArr xs \<and> JObj ms \<in> set xs \<and> map_of ms ''id'' = Some (JStr c))"
  by (cases "as_array j")
     (auto simp: call_ids_def set_map_filter bind_eq_Some_conv json_Some)

lemma assistant_calls_Inr:
  assumes "calls_are_arrays sid d"
  shows "\<exists>rows. assistant_calls sid d = Inr rows \<and> set (all_call_ids rows) = declared_calls sid d"
proof -
  let ?R = "filter (\<lambda>m. m_session_id m = sid \<and> m_role m = ''assistant'' \<and> m_tool_calls m \<noteq> None) (messages d)"
  let ?rows = "order_asc m_created_at (filter (\<lambda>m. m_tool_calls m \<noteq> Some (JArr [])) ?R)"
  have "\<not> (\<exists>m \<in> set ?R. Option.bind (m_tool_calls m) as_array = None)"
    using assms by (auto simp: calls_are_arrays_def)
  then have "assistant_calls sid d = Inr ?rows" by (simp add: assistant_calls_def)
  moreover have "c \<in> set (all_call_ids ?rows) \<longleftrightarrow> c \<in> declared_calls sid d" for c
    by (auto simp: all_call_ids_def declared_calls_def call_ids_mem split: option.splits)
       (metis empty_iff empty_set json.inject(4) option.inject)
  ultimately show ?thesis by blast
qed

lemma assistant_calls_Inl:
  "\<not> calls_are_arrays sid d \<Longrightarrow> assistant_calls sid d = Inl ArrayLengthOfScalar"
  unfolding assistant_calls_def Let_def calls_are_arrays_def by auto

lemma declared_text_ok:
  assumes "db_ok d" "c \<in> declared_calls sid d"
  shows "pg_text_ok c"
proof -
  obtain m j where m: "m \<in> set (messages d)" "m_tool_calls m = Some j" "c \<in> set (call_ids j)"
    using assms(2) by (auto simp: declared_calls_def)
  have "json_text_ok j" using assms(1) m by (auto simp: db_ok_def list_all_iff message_text_ok_def opt_ok_def)
  moreover obtain xs ms where "j = JArr xs" "JObj ms \<in> set xs" "map_of ms ''id'' = Some (JStr c)"
    using m(3) by (auto simp: call_ids_mem)
  ultimately show ?thesis by (fastforce simp: list_all_iff dest!: map_of_SomeD)
qed

lemma synthetic_frame:
  assumes "insert_synthetic_tool_results gen now sid d = Inr (k, d')"
  shows "statuses d' = statuses d \<and> timeline d' = timeline d
     \<and> (\<exists>new. messages d' = messages d @ new \<and>
          (\<forall>m \<in> set new. m_session_id m = sid \<and> m_role m = ''tool'' \<and> m_status m = ''complete''))"
  using assms by (auto simp: insert_synthetic_tool_results_def Let_def split: sum.splits
      dest!: insert_chunks_frame)

lemma synthetic_complete:
  assumes ok: "db_ok d" and gen: "fresh_gen gen" and ex: "session_exists d sid"
    and arr: "calls_are_arrays sid d"
  shows "\<exists>k d'. insert_synthetic_tool_results gen now sid d = Inr (k, d') \<and> db_ok d'
     \<and> declared_calls sid d' = declared_calls sid d
     \<and> (\<forall>c \<in> declared_calls sid d. answered sid d' c)"
proof -
  obtain rows where rows: "assistant_calls sid d = Inr rows" "set (all_call_ids rows) = declared_calls sid d"
    using assistant_calls_Inr [OF arr] by blast
  let ?missing = "filter (\<lambda>c. \<not> answered sid d c) (all_call_ids rows)"
  let ?cs = "chunks (MAX_PARAMS_PER_QUERY div 4) ?missing"
  have cs: "concat ?cs = ?missing" by (rule concat_chunks) (simp add: MAX_PARAMS_PER_QUERY_def)
  have "\<forall>c \<in> set (concat ?cs). pg_text_ok c"
    unfolding cs using rows(2) declared_text_ok [OF ok] by auto
  then obtain k d' where ins: "insert_chunks gen now sid ?cs 0 d = Inr (k, d')"
    using insert_chunks_succeeds [OF gen ex] by blast
  obtain new where new: "messages d' = messages d @ new" "map m_tool_call_id new = map Some ?missing"
    "\<forall>m \<in> set new. m_session_id m = sid \<and> m_role m = ''tool''"
    using insert_chunks_frame [OF ins] cs by auto
  have "answered sid d' c" if "c \<in> declared_calls sid d" for c
  proof (cases "answered sid d c")
    case True
    then show ?thesis using new(1) by (auto simp: answered_def)
  next
    case False
    then have "Some c \<in> set (map m_tool_call_id new)" using that rows(2) new(2) by simp
    then show ?thesis using new(1,3) by (auto simp: answered_def)
  qed
  moreover have "declared_calls sid d' = declared_calls sid d"
    using new by (auto simp: declared_calls_def)
  ultimately show ?thesis
    using ins rows insert_chunks_ok [OF ok ins] by (auto simp: insert_synthetic_tool_results_def)
qed

section \<open>Terminating a session\<close>

lemma keeps_run_status [simp]: "keeps_session_keys (\<lambda>s. s\<lparr>s_run_status := x\<rparr>)"
  by (simp add: keeps_session_keys_def)

lemma keeps_interrupt [simp]: "keeps_message_keys interrupt_row"
  by (simp add: keeps_message_keys_def interrupt_row_def)

lemma interrupt_text_ok: "message_text_ok m \<Longrightarrow> message_text_ok (interrupt_row m)"
  by (simp add: message_text_ok_def interrupt_row_def) (simp add: pg_text_ok_def)

lemma interrupt_same [simp]:
  "m_session_id (interrupt_row m) = m_session_id m" "m_role (interrupt_row m) = m_role m"
  "m_tool_calls (interrupt_row m) = m_tool_calls m" "m_status (interrupt_row m) = ''interrupted''"
  "m_tool_call_id (interrupt_row m) = m_tool_call_id m"
  by (simp_all add: interrupt_row_def)

lemma log_event_frame:
  "log_event_tx now sid e p d = Inr d' \<Longrightarrow> statuses d' = statuses d \<and> messages d' = messages d"
  by (auto simp: log_event_tx_def insert_timeline_def split: sum.splits if_splits)

lemma log_event_ok: "db_ok d \<Longrightarrow> log_event_tx now sid e p d = Inr d' \<Longrightarrow> db_ok d'"
  by (auto simp: log_event_tx_def split: sum.splits intro: touch_activity_ok dest: db_ok_insert_timeline)

definition end_status :: "uuid \<Rightarrow> string \<Rightarrow> uuid \<times> string option \<Rightarrow> uuid \<times> string option" where
  "end_status sid target p =
     (if fst p = sid \<and> snd p = Some ''running'' then (sid, Some target) else p)"

lemma statuses_claim:
  "statuses (update_session sid (\<lambda>s. s_run_status s = Some ''running'')
       (\<lambda>s. s\<lparr>s_run_status := Some target\<rparr>) d) = map (end_status sid target) (statuses d)"
  by (auto simp: statuses_def update_session_def update_where_def end_status_def)

lemma running_iff: "sid \<in> set (running_ids d) \<longleftrightarrow> (sid, Some ''running'') \<in> set (statuses d)"
  by (force simp: running_ids_statuses)

lemma not_running_affected:
  "rows_affected (\<lambda>s. s_id s = sid \<and> s_run_status s = Some ''running'') (sessions d) = 0
   \<longleftrightarrow> sid \<notin> set (running_ids d)"
  by (auto simp: rows_affected_def filter_empty_conv running_ids_def)

text \<open>The four steps of the transaction, named.\<close>

definition terminate_claim :: "uuid \<Rightarrow> string \<Rightarrow> db \<Rightarrow> db" where
  "terminate_claim sid target d =
     snd (cleanup_session_streaming_messages sid
       (update_session sid (\<lambda>s. s_run_status s = Some ''running'')
          (\<lambda>s. s\<lparr>s_run_status := Some target\<rparr>) d))"

lemma terminated_unfold:
  "cleanup_session_terminated gen now sid target reason d =
     (if sid \<notin> set (running_ids d) then Inr (False, d)
      else case insert_synthetic_tool_results gen now sid (terminate_claim sid target d) of
        Inl e \<Rightarrow> Inl e
      | Inr (_, d3) \<Rightarrow>
          (case log_event_tx now sid target (Some (JObj [(''reason'', JStr reason)])) d3 of
             Inl e \<Rightarrow> Inl e | Inr d4 \<Rightarrow> Inr (True, d4)))"
  unfolding cleanup_session_terminated_def Let_def not_running_affected terminate_claim_def by simp

lemma terminate_claim_frame:
  "statuses (terminate_claim sid target d) = map (end_status sid target) (statuses d)"
  "messages (terminate_claim sid target d) =
     update_where (\<lambda>m. m_session_id m = sid \<and> m_status m = ''streaming'') interrupt_row (messages d)"
  by (simp_all add: terminate_claim_def cleanup_session_streaming_messages_def Let_def statuses_claim)

lemma interrupted_not_streaming:
  assumes "m \<in> set (update_where (\<lambda>m. m_session_id m = sid \<and> m_status m = ''streaming'') interrupt_row ms)"
    "m_session_id m = sid"
  shows "m_status m \<noteq> ''streaming''"
  using assms(1) unfolding set_update_where
proof
  fix x assume "m = (if m_session_id x = sid \<and> m_status x = ''streaming'' then interrupt_row x else x)"
  then show ?thesis using assms(2) by (simp split: if_splits)
qed

lemma terminate_claim_origin:
  "m' \<in> set (messages (terminate_claim sid target d)) \<Longrightarrow>
     \<exists>m \<in> set (messages d). m' = m \<or> m' = interrupt_row m"
  unfolding terminate_claim_frame set_update_where by (auto split: if_splits)

lemma terminate_claim_ok: "db_ok d \<Longrightarrow> db_ok (terminate_claim sid target d)"
  unfolding terminate_claim_def cleanup_session_streaming_messages_def Let_def snd_conv
  by (intro db_ok_update_messages db_ok_update_session) (simp_all add: interrupt_text_ok)

lemma terminated_frame:
  assumes "cleanup_session_terminated gen now sid target reason d = Inr (True, d')"
  shows "sid \<in> set (running_ids d)
     \<and> statuses d' = map (end_status sid target) (statuses d)
     \<and> (\<exists>new. messages d' = update_where (\<lambda>m. m_session_id m = sid \<and> m_status m = ''streaming'')
                interrupt_row (messages d) @ new
          \<and> (\<forall>m \<in> set new. m_session_id m = sid \<and> m_role m = ''tool'' \<and> m_status m = ''complete''))"
  using assms unfolding terminated_unfold
  by (auto split: if_splits sum.splits dest!: synthetic_frame log_event_frame
      simp: terminate_claim_frame)

lemma filter_update_other:
  assumes "\<And>x. P x \<Longrightarrow> \<not> Q x" "\<And>x. Q (f x) = Q x"
  shows "filter Q (update_where P f xs) = filter Q xs"
  using assms by (induction xs) auto

lemma end_status_fst [simp]: "fst (end_status sid target p) = fst p"
  by (auto simp: end_status_def)

lemma terminated_succeeds:
  assumes ok: "db_ok d" and gen: "fresh_gen gen" and run: "sid \<in> set (running_ids d)"
    and arr: "calls_are_arrays sid d" and texts: "pg_text_ok target" "pg_text_ok reason"
  shows "\<exists>d'. cleanup_session_terminated gen now sid target reason d = Inr (True, d') \<and> db_ok d'
     \<and> (\<forall>c \<in> declared_calls sid d'. answered sid d' c)"
proof -
  let ?d2 = "terminate_claim sid target d"
  have ok2: "db_ok ?d2" using ok by (rule terminate_claim_ok)
  have ex2: "session_exists ?d2 sid"
    using run by (force simp: session_exists_statuses terminate_claim_frame running_iff)
  have arr2: "calls_are_arrays sid ?d2"
    by (rule calls_are_arrays_frame [OF arr]) (metis terminate_claim_origin interrupt_same(1,2,3))
  obtain k d3 where s3: "insert_synthetic_tool_results gen now sid ?d2 = Inr (k, d3)" "db_ok d3"
    "declared_calls sid d3 = declared_calls sid ?d2" "\<forall>c \<in> declared_calls sid ?d2. answered sid d3 c"
    using synthetic_complete [OF ok2 gen ex2 arr2] by blast
  have ex3: "session_exists d3 sid"
    using ex2 synthetic_frame [OF s3(1)] by (simp add: session_exists_statuses)
  obtain d4 where s4: "log_event_tx now sid target (Some (JObj [(''reason'', JStr reason)])) d3 = Inr d4"
    using texts ex3 by (auto simp: log_event_tx_def insert_timeline_def opt_ok_def pg_text_ok_def)
  have res: "cleanup_session_terminated gen now sid target reason d = Inr (True, d4)"
    using run s3(1) s4 by (simp add: terminated_unfold)
  have "\<forall>c \<in> declared_calls sid d4. answered sid d4 c"
    using s3 log_event_frame [OF s4] by (auto simp: declared_calls_def answered_def)
  then show ?thesis using res log_event_ok [OF s3(2) s4] by blast
qed

lemma terminated_messages:
  assumes "cleanup_session_terminated gen now sid target reason d = Inr (True, d')"
  shows "\<forall>m \<in> set (session_messages sid d'). m_status m \<noteq> ''streaming''"
    and "\<And>i. i \<noteq> sid \<Longrightarrow> session_messages i d' = session_messages i d"
proof -
  let ?P = "\<lambda>m. m_session_id m = sid \<and> m_status m = ''streaming''"
  obtain new where m: "messages d' = update_where ?P interrupt_row (messages d) @ new"
    "\<forall>m \<in> set new. m_session_id m = sid \<and> m_role m = ''tool'' \<and> m_status m = ''complete''"
    using terminated_frame [OF assms] by blast
  show "\<forall>m \<in> set (session_messages sid d'). m_status m \<noteq> ''streaming''"
  proof
    fix n assume "n \<in> set (session_messages sid d')"
    then have "m_session_id n = sid"
      and "n \<in> set (update_where ?P interrupt_row (messages d)) \<or> n \<in> set new"
      unfolding session_messages_def m(1) by (simp_all, blast+)
    then show "m_status n \<noteq> ''streaming''"
      using m(2) by (elim disjE) (simp_all add: interrupted_not_streaming)
  qed
  show "session_messages i d' = session_messages i d" if "i \<noteq> sid" for i
  proof -
    have "filter (\<lambda>m. m_session_id m = i) (update_where ?P interrupt_row (messages d))
        = filter (\<lambda>m. m_session_id m = i) (messages d)"
      by (rule filter_update_other) (use that in auto)
    moreover have "filter (\<lambda>m. m_session_id m = i) new = []"
      using m(2) that by (auto simp: filter_empty_conv)
    ultimately show ?thesis by (simp add: session_messages_def m(1))
  qed
qed

text \<open>An identifier source for examples: one above the largest identifier in use.\<close>

definition next_ids :: "db \<Rightarrow> nat \<Rightarrow> uuid" where
  "next_ids d k = Suc (foldr max (map m_id (messages d)) 0) + k"

lemma fresh_next_ids: "fresh_gen next_ids"
proof -
  have le: "\<And>x xs. x \<in> set xs \<Longrightarrow> x \<le> foldr max xs (0::nat)"
  proof -
    fix x :: nat and xs show "x \<in> set xs \<Longrightarrow> x \<le> foldr max xs 0"
      by (induction xs) (auto simp: le_max_iff_disj)
  qed
  have "\<not> message_exists d (next_ids d k)" for d k
  proof
    assume "message_exists d (next_ids d k)"
    then have "next_ids d k \<le> foldr max (map m_id (messages d)) 0"
      unfolding message_exists_def by (intro le) simp
    then show False by (simp add: next_ids_def)
  qed
  then show ?thesis by (simp add: fresh_gen_def next_ids_def inj_def)
qed

definition crash_example :: db where
  "crash_example = empty_db\<lparr>
     sessions := [(new_session_row 1 ''a'' ''u'' ''web'' 0)\<lparr>s_run_status := Some ''running''\<rparr>,
                  (new_session_row 2 ''a'' ''v'' ''web'' 0)\<lparr>s_run_status := Some ''done''\<rparr>],
     messages := [new_message 10 1 ''user'' ''hi'' 1,
                  (new_message 11 1 ''assistant'' [] 2)\<lparr>m_status := ''streaming'',
                     m_tool_calls := Some (JArr [JObj [(''id'', JStr ''c1'')]])\<rparr>]\<rparr>"

lemma crash_example_facts:
  "db_ok crash_example" "running_ids crash_example = [1]" "calls_are_arrays 1 crash_example"
  by (simp_all add: crash_example_def db_ok_def empty_db_def new_session_row_def new_message_def
      opt_ok_def session_exists_def message_text_ok_def pg_text_ok_def running_ids_def
      calls_are_arrays_def)



section \<open>Batches and the startup loop\<close>

definition end_all :: "uuid set \<Rightarrow> uuid \<times> string option \<Rightarrow> uuid \<times> string option" where
  "end_all S p = (if fst p \<in> S \<and> snd p = Some ''running'' then (fst p, Some ''interrupted'') else p)"

lemma end_all_insert: "end_all S (end_status sid ''interrupted'' p) = end_all (insert sid S) p"
  by (auto simp: end_all_def end_status_def)

lemma end_all_empty [simp]: "end_all {} = id"
  by (auto simp: end_all_def)

lemma end_all_skip:
  "sid \<notin> set (running_ids d) \<Longrightarrow> map (end_all (insert sid S)) (statuses d) = map (end_all S) (statuses d)"
  by (auto simp: running_iff end_all_def)

lemma terminated_calls_are_arrays:
  assumes "cleanup_session_terminated gen now sid target reason d = Inr (b, d')"
  shows "calls_are_arrays i d' \<longleftrightarrow> calls_are_arrays i d"
proof (cases b)
  case False
  then show ?thesis using assms by (auto simp: terminated_unfold split: if_splits sum.splits)
next
  case True
  let ?P = "\<lambda>m. m_session_id m = sid \<and> m_status m = ''streaming''"
  obtain new where m: "messages d' = update_where ?P interrupt_row (messages d) @ new"
    "\<forall>m \<in> set new. m_role m = ''tool''"
    using terminated_frame [of gen now sid target reason d d'] assms True by auto
  let ?Q = "\<lambda>m. m_session_id m = i \<and> m_role m = ''assistant'' \<longrightarrow>
    m_tool_calls m = None \<or> Option.bind (m_tool_calls m) as_array \<noteq> None"
  have "\<forall>m \<in> set new. ?Q m" using m(2) by simp
  moreover have "?Q (if B then interrupt_row n else n) = ?Q n" for B n by simp
  ultimately show ?thesis
    unfolding calls_are_arrays_def m(1) set_append ball_Un ball_update_where by simp
qed

lemma cleanup_each_effect:
  assumes "db_ok d" "fresh_gen gen" "pg_text_ok reason" "\<forall>i \<in> set sids. calls_are_arrays i d"
  shows "db_ok (cleanup_each gen now reason sids d)
     \<and> statuses (cleanup_each gen now reason sids d) = map (end_all (set sids)) (statuses d)
     \<and> (\<forall>i. calls_are_arrays i (cleanup_each gen now reason sids d) \<longleftrightarrow> calls_are_arrays i d)"
  using assms(1,4)
proof (induction sids arbitrary: d)
  case (Cons sid sids)
  show ?case
  proof (cases "sid \<in> set (running_ids d)")
    case True
    obtain d1 where d1: "cleanup_session_terminated gen now sid ''interrupted'' reason d = Inr (True, d1)"
      "db_ok d1"
      using terminated_succeeds [OF Cons.prems(1) assms(2) True, of "''interrupted''" reason now] Cons.prems assms(3)
      by (auto simp: pg_text_ok_def)
    have arr: "\<And>i. calls_are_arrays i d1 \<longleftrightarrow> calls_are_arrays i d"
      using terminated_calls_are_arrays [OF d1(1)] .
    have "statuses d1 = map (end_status sid ''interrupted'') (statuses d)"
      using terminated_frame [OF d1(1)] by blast
    then show ?thesis
      using Cons.IH [OF d1(2)] Cons.prems(2) arr d1(1) by (simp add: end_all_insert)
  next
    case False
    then have "cleanup_session_terminated gen now sid ''interrupted'' reason d = Inr (False, d)"
      by (simp add: terminated_unfold)
    then show ?thesis using Cons.IH [OF Cons.prems(1)] Cons.prems(2) False by (simp add: end_all_skip)
  qed
qed simp

lemma repair_orphan_frame [simp]:
  "statuses (repair_orphan_streaming d) = statuses d" "sessions (repair_orphan_streaming d) = sessions d"
  by (simp_all add: repair_orphan_streaming_def)

lemma messages_repair_orphan:
  "messages (repair_orphan_streaming d) = update_where (\<lambda>m. m_status m = ''streaming''
     \<and> (\<exists>s \<in> set (sessions d). s_id s = m_session_id m \<and> s_run_status s \<noteq> Some ''running''))
     interrupt_row (messages d)"
  by (simp add: repair_orphan_streaming_def)

lemma repair_orphan_ok: "db_ok d \<Longrightarrow> db_ok (repair_orphan_streaming d)"
  unfolding repair_orphan_streaming_def by (intro db_ok_update_messages) (simp_all add: interrupt_text_ok)

lemma clear_stream_frame [simp]:
  "statuses (clear_stream_status d) = statuses d" "messages (clear_stream_status d) = messages d"
  by (auto simp: clear_stream_status_def statuses_def update_where_def)

lemma clear_stream_ok: "db_ok d \<Longrightarrow> db_ok (clear_stream_status d)"
  unfolding clear_stream_status_def
  by (intro db_ok_update_session_table) (simp_all add: keeps_session_keys_def)

lemma repair_orphan_arrays: "calls_are_arrays i (repair_orphan_streaming d) \<longleftrightarrow> calls_are_arrays i d"
proof -
  have "m_session_id (if B then interrupt_row n else n) = m_session_id n"
    "m_role (if B then interrupt_row n else n) = m_role n"
    "m_tool_calls (if B then interrupt_row n else n) = m_tool_calls n" for B n
    by simp_all
  then show ?thesis
    unfolding calls_are_arrays_def messages_repair_orphan ball_update_where by simp
qed

lemma running_after: "running_ids d' = filter (\<lambda>i. i \<notin> S) (running_ids d)"
  if "statuses d' = map (end_all S) (statuses d)"
proof -
  have "map fst (filter (\<lambda>(i, st). st = Some ''running'') (map (end_all S) ps))
      = filter (\<lambda>i. i \<notin> S) (map fst (filter (\<lambda>(i, st). st = Some ''running'') ps))" for ps
    by (induction ps) (auto simp: end_all_def)
  then show ?thesis unfolding running_ids_statuses that .
qed

text \<open>One batch, when every running session can be repaired.\<close>

lemma batch_effect:
  assumes "db_ok d" "fresh_gen gen" "\<forall>i \<in> set (running_ids d). calls_are_arrays i d"
    and res: "cleanup_interrupted_sessions gen now d = (n, d')"
  shows "db_ok d'" "n = length (take 100 (running_ids d))"
    "statuses d' = map (end_all (set (take 100 (running_ids d)))) (statuses d)"
    "\<forall>i \<in> set (running_ids d'). calls_are_arrays i d'"
proof -
  let ?d0 = "repair_orphan_streaming d" and ?S = "take 100 (running_ids d)"
  let ?d1 = "cleanup_each gen now ''crash_recovery'' ?S ?d0"
  have run0: "running_ids ?d0 = running_ids d" by (simp add: running_ids_def)
  have arr0: "\<forall>i \<in> set ?S. calls_are_arrays i ?d0"
    using assms(3) by (auto simp: repair_orphan_arrays dest: in_set_takeD)
  have e: "db_ok ?d1" "statuses ?d1 = map (end_all (set ?S)) (statuses d)"
    "\<And>i. calls_are_arrays i ?d1 \<longleftrightarrow> calls_are_arrays i d"
    using cleanup_each_effect [OF repair_orphan_ok [OF assms(1)] assms(2) _ arr0, of "''crash_recovery''" now]
    by (auto simp: pg_text_ok_def repair_orphan_arrays)
  have r: "n = length ?S" "d' = clear_stream_status ?d1"
    using res by (auto simp: cleanup_interrupted_sessions_def Let_def run0)
  then show "db_ok d'" "n = length ?S" and st: "statuses d' = map (end_all (set ?S)) (statuses d)"
    using e by (simp_all add: clear_stream_ok)
  show "\<forall>i \<in> set (running_ids d'). calls_are_arrays i d'"
  proof
    fix i assume "i \<in> set (running_ids d')"
    then have "i \<in> set (running_ids d)" unfolding running_after [OF st] by simp
    then have "calls_are_arrays i ?d1" using assms(3) e(3) by blast
    then show "calls_are_arrays i d'" unfolding r(2) calls_are_arrays_def by simp
  qed
qed

definition all_interrupted :: "(uuid \<times> string option) list \<Rightarrow> (uuid \<times> string option) list" where
  "all_interrupted ps = map (\<lambda>(i, st). (i, if st = Some ''running'' then Some ''interrupted'' else st)) ps"

lemma all_interrupted_end_all: "all_interrupted (map (end_all S) ps) = all_interrupted ps"
  by (auto simp: all_interrupted_def end_all_def)

lemma all_interrupted_idle: "running_ids d = [] \<Longrightarrow> all_interrupted (statuses d) = statuses d"
  by (auto simp: all_interrupted_def running_ids_statuses filter_empty_conv intro!: map_idI)

lemma idle_not_streaming:
  assumes "db_ok d" "running_ids d = []" "m \<in> set (messages (repair_orphan_streaming d))"
  shows "m_status m \<noteq> ''streaming''"
proof -
  let ?P = "\<lambda>m. m_status m = ''streaming''
    \<and> (\<exists>s \<in> set (sessions d). s_id s = m_session_id m \<and> s_run_status s \<noteq> Some ''running'')"
  obtain x where x: "x \<in> set (messages d)" "m = (if ?P x then interrupt_row x else x)"
    using assms(3) unfolding messages_repair_orphan in_update_where by blast
  obtain s where "s \<in> set (sessions d)" "s_id s = m_session_id x"
    using assms(1) x(1) by (auto simp: db_ok_def session_exists_def)
  moreover have "s_run_status s \<noteq> Some ''running''" if "s \<in> set (sessions d)" for s
    using assms(2) that by (auto simp: running_ids_def filter_empty_conv)
  ultimately have "?P x \<longleftrightarrow> m_status x = ''streaming''" by blast
  then show ?thesis using x(2) by (simp split: if_splits)
qed

text \<open>C8. Crash recovery terminates.  When the tool calls of every running session are JSON arrays,
  the startup loop returns after finitely many batches, with consistent tables in which every
  session that was running is interrupted, no other session changed its status, and no message is
  still streaming.\<close>

theorem startup_cleanup_terminates:
  assumes "db_ok d" "fresh_gen gen" "\<forall>i \<in> set (running_ids d). calls_are_arrays i d"
  shows "\<exists>d'. startup_cleanup gen now k d = Some d' \<and> db_ok d'
     \<and> statuses d' = all_interrupted (statuses d) \<and> running_ids d' = []
     \<and> (\<forall>m \<in> set (messages d'). m_status m \<noteq> ''streaming'')"
  using assms
proof (induction "length (running_ids d)" arbitrary: d k rule: less_induct)
  case less
  let ?S = "take 100 (running_ids d)"
  obtain n d1 where b: "cleanup_interrupted_sessions gen (now k) d = (n, d1)" by (rule prod.exhaust)
  note e = batch_effect [OF less.prems b]
  have run1: "running_ids d1 = filter (\<lambda>i. i \<notin> set ?S) (running_ids d)" by (rule running_after [OF e(3)])
  show ?case
  proof (cases "running_ids d = []")
    case True
    have "d1 = clear_stream_status (repair_orphan_streaming d)"
      using b True by (simp add: cleanup_interrupted_sessions_def Let_def running_ids_def)
    then have "\<forall>m \<in> set (messages d1). m_status m \<noteq> ''streaming''"
      using idle_not_streaming [OF less.prems(1) True] by simp
    moreover have "startup_cleanup gen now k d = Some d1"
      by (subst startup_cleanup.simps) (use b e(2) True in simp)
    moreover have "statuses d1 = all_interrupted (statuses d)"
      using e(3) True all_interrupted_idle [OF True] by simp
    ultimately show ?thesis using e(1) run1 True by auto
  next
    case False
    then have "hd (running_ids d) \<in> set (running_ids d)" "hd (running_ids d) \<in> set ?S"
      by (cases "running_ids d"; simp)+
    then have "length (running_ids d1) < length (running_ids d)"
      unfolding run1 by (intro length_filter_less) blast+
    then obtain d' where d': "startup_cleanup gen now (Suc k) d1 = Some d'" "db_ok d'"
      "statuses d' = all_interrupted (statuses d1)" "running_ids d' = []"
      "\<forall>m \<in> set (messages d'). m_status m \<noteq> ''streaming''"
      using less.hyps [OF _ e(1) less.prems(2) e(4)] by blast
    have "n \<noteq> 0" using e(2) False by (cases "running_ids d") auto
    then have "startup_cleanup gen now k d = Some d'"
      by (subst startup_cleanup.simps) (use b d'(1) in simp)
    then show ?thesis using d' e(3) by (simp add: all_interrupted_end_all)
  qed
qed

theorem startup_cleanup_terminates_witness:
  "\<exists>d'. startup_cleanup next_ids (\<lambda>_. 9) 0 crash_example = Some d' \<and> running_ids d' = []"
  using startup_cleanup_terminates [OF crash_example_facts(1) fresh_next_ids, of "\<lambda>_. 9" 0]
    crash_example_facts(2,3) by auto

text \<open>A running session with a scalar \<open>tool_calls\<close> value stays as it is.\<close>

definition unrepairable :: "uuid \<Rightarrow> db \<Rightarrow> bool" where
  "unrepairable sid d \<longleftrightarrow> sid \<in> set (running_ids d) \<and> \<not> calls_are_arrays sid d"

lemma terminated_unrepairable:
  assumes "unrepairable sid d"
  shows "case cleanup_session_terminated gen now i ''interrupted'' reason d of
           Inl e \<Rightarrow> True | Inr (b, d') \<Rightarrow> unrepairable sid d'"
proof (cases "i = sid")
  case True
  let ?d2 = "terminate_claim sid ''interrupted'' d"
  have "\<not> calls_are_arrays sid ?d2"
  proof -
    have "m_session_id (if B then interrupt_row n else n) = m_session_id n"
      "m_role (if B then interrupt_row n else n) = m_role n"
      "m_tool_calls (if B then interrupt_row n else n) = m_tool_calls n" for B n
      by simp_all
    then show ?thesis
      using assms unfolding unrepairable_def calls_are_arrays_def terminate_claim_frame ball_update_where
      by simp
  qed
  then show ?thesis
    using True assms assistant_calls_Inl
    by (simp add: terminated_unfold insert_synthetic_tool_results_def)
next
  case False
  show ?thesis
  proof (cases "cleanup_session_terminated gen now i ''interrupted'' reason d")
    case (Inr r)
    obtain b d' where r: "r = (b, d')" by (rule prod.exhaust)
    have res: "cleanup_session_terminated gen now i ''interrupted'' reason d = Inr (b, d')" using Inr r by simp
    have "sid \<in> set (running_ids d')"
    proof (cases b)
      case True
      then have "statuses d' = map (end_status i ''interrupted'') (statuses d)"
        using terminated_frame [of gen now i "''interrupted''" reason d d'] res by simp
      moreover have "end_status i ''interrupted'' (sid, Some ''running'') = (sid, Some ''running'')"
        using False by (simp add: end_status_def)
      ultimately show ?thesis
        using assms unfolding unrepairable_def running_iff by (simp, intro rev_image_eqI [of "(sid, Some ''running'')"]) auto
    next
      case b: False
      then have "d' = d" using res by (auto simp: terminated_unfold split: if_splits sum.splits)
      then show ?thesis using assms by (simp add: unrepairable_def)
    qed
    then show ?thesis
      using assms terminated_calls_are_arrays [OF res] res by (simp add: unrepairable_def)
  qed simp
qed

lemma cleanup_each_unrepairable:
  "unrepairable sid d \<Longrightarrow> unrepairable sid (cleanup_each gen now reason sids d)"
proof (induction sids arbitrary: d)
  case (Cons i sids)
  then show ?case
    using terminated_unrepairable [OF Cons.prems, of gen now i reason] by (auto split: sum.splits)
qed simp

lemma unrepairable_batch:
  assumes "unrepairable sid d" "cleanup_interrupted_sessions gen now d = (n, d')"
  shows "n \<noteq> 0 \<and> unrepairable sid d'"
proof -
  let ?d0 = "repair_orphan_streaming d"
  have run0: "running_ids ?d0 = running_ids d" by (simp add: running_ids_def)
  then have u0: "unrepairable sid ?d0" using assms(1) by (simp add: unrepairable_def repair_orphan_arrays)
  have "unrepairable sid (clear_stream_status x) = unrepairable sid x" for x
    by (simp add: unrepairable_def running_ids_statuses calls_are_arrays_def)
  moreover have "running_ids d \<noteq> []" using assms(1) by (auto simp: unrepairable_def)
  ultimately show ?thesis
    using assms(2) cleanup_each_unrepairable [OF u0]
    by (auto simp: cleanup_interrupted_sessions_def Let_def run0)
qed

lemma startup_returns_repairable:
  assumes "startup_cleanup gen now k d = Some d'"
  shows "\<not> unrepairable sid d"
proof (rule startup_cleanup.raw_induct [where P = "\<lambda>_ _ _ d _. \<not> unrepairable sid d"])
  fix f gen now k d d'
  assume IH: "\<And>gen now k d y. f gen now k d = Some y \<Longrightarrow> \<not> unrepairable sid d"
    and res: "(case cleanup_interrupted_sessions gen (now k) d of
        (n, d') \<Rightarrow> if n = 0 then Some d' else f gen now (Suc k) d') = Some d'"
  show "\<not> unrepairable sid d"
  proof
    assume u: "unrepairable sid d"
    obtain n d1 where b: "cleanup_interrupted_sessions gen (now k) d = (n, d1)" by (rule prod.exhaust)
    have "n \<noteq> 0" "unrepairable sid d1" using unrepairable_batch [OF u b] by auto
    then show False using IH res b by simp
  qed
qed fact

text \<open>Crash recovery needs every running session to be repairable.  A running session with an
  assistant message whose \<open>tool_calls\<close> is not an array makes the per-session transaction fail and
  roll back, the batch still counts it, and the startup loop never returns.\<close>

theorem startup_cleanup_diverges:
  assumes "sid \<in> set (running_ids d)" "\<not> calls_are_arrays sid d"
  shows "startup_cleanup gen now k d = None"
  using startup_returns_repairable [of gen now k d _ sid] assms
  by (cases "startup_cleanup gen now k d") (auto simp: unrepairable_def)

definition wedge_example :: db where
  "wedge_example = empty_db\<lparr>
     sessions := [(new_session_row 1 ''a'' ''u'' ''web'' 0)\<lparr>s_run_status := Some ''running''\<rparr>],
     messages := [(new_message 11 1 ''assistant'' [] 2)\<lparr>m_tool_calls := Some JNull\<rparr>]\<rparr>"

theorem startup_cleanup_diverges_witness:
  "db_ok wedge_example \<and> startup_cleanup next_ids (\<lambda>_. 9) 0 wedge_example = None"
proof
  show "db_ok wedge_example"
    by (simp add: wedge_example_def db_ok_def empty_db_def new_session_row_def new_message_def
        opt_ok_def session_exists_def message_text_ok_def pg_text_ok_def)
  show "startup_cleanup next_ids (\<lambda>_. 9) 0 wedge_example = None"
    by (rule startup_cleanup_diverges [of 1])
       (simp_all add: wedge_example_def empty_db_def new_session_row_def new_message_def
         running_ids_def calls_are_arrays_def)
qed

section \<open>Pruning the timeline\<close>

definition is_old :: "timestamp \<Rightarrow> nat \<Rightarrow> timeline_row \<Rightarrow> bool" where
  "is_old now days t \<longleftrightarrow> t_created_at t < now - int days * one_day"

lemma prune_batch_effect:
  assumes "distinct (map t_id (timeline d))" "prune_batch now days batch d = (n, d')"
  shows "n = min batch (length (filter (is_old now days) (timeline d)))"
    and "timeline d' = filter (\<lambda>t. \<not> (is_old now days t
           \<and> t_id t \<in> t_id ` set (take batch (sort_key t_id (filter (is_old now days) (timeline d)))))) (timeline d)"
    and "d' = d\<lparr>timeline := timeline d'\<rparr>" and "length (timeline d') + n = length (timeline d)"
proof -
  let ?old = "filter (is_old now days) (timeline d)"
  let ?T = "take batch (sort_key t_id ?old)"
  let ?P = "\<lambda>t. t_id t \<in> t_id ` set ?T"
  have inj: "inj_on t_id (set (timeline d))" using assms(1) by (simp add: distinct_map)
  have sub: "set ?T \<subseteq> set ?old" by (auto dest: in_set_takeD)
  have mem: "?P t \<longleftrightarrow> t \<in> set ?T" if "t \<in> set (timeline d)" for t
    using that inj sub by (auto dest: inj_onD)
  have dT: "distinct ?T" using assms(1) by (simp add: distinct_map)
  have "set (filter ?P (timeline d)) = set ?T" using mem sub by auto
  moreover have "distinct (filter ?P (timeline d))" using assms(1) by (simp add: distinct_map)
  ultimately have len: "length (filter ?P (timeline d)) = length ?T"
    using dT by (metis distinct_card)
  have r: "n = length (filter ?P (timeline d))" "d' = d\<lparr>timeline := filter (\<lambda>t. \<not> ?P t) (timeline d)\<rparr>"
    using assms(2) by (auto simp: prune_batch_def Let_def rows_affected_def is_old_def [abs_def])
  show "n = min batch (length ?old)" using r(1) len by (simp add: min.commute)
  show "timeline d' = filter (\<lambda>t. \<not> (is_old now days t \<and> ?P t)) (timeline d)"
    unfolding r(2) using mem sub by (auto intro!: filter_cong)
  show "d' = d\<lparr>timeline := timeline d'\<rparr>" using r(2) by simp
  show "length (timeline d') + n = length (timeline d)"
    using r sum_length_filter_compl [of ?P "timeline d"] by simp
qed

lemma prune_loop_effect:
  assumes "distinct (map t_id (timeline d))" "batch > 0"
  shows "prune_loop now days batch deleted d =
     Some (deleted + rows_affected (is_old now days) (timeline d),
           d\<lparr>timeline := filter (\<lambda>t. \<not> is_old now days t) (timeline d)\<rparr>)"
  using assms(1)
proof (induction "length (timeline d)" arbitrary: d deleted rule: less_induct)
  case less
  let ?old = "filter (is_old now days) (timeline d)"
  obtain n d1 where b: "prune_batch now days batch d = (n, d1)" by (rule prod.exhaust)
  note e = prune_batch_effect [OF less.prems b]
  show ?case
  proof (cases "n < batch")
    case True
    then have n: "n = length ?old" "length ?old \<le> batch" using e(1) by simp_all
    then have "timeline d1 = filter (\<lambda>t. \<not> is_old now days t) (timeline d)"
      unfolding e(2) by (auto intro!: filter_cong)
    then have "d1 = d\<lparr>timeline := filter (\<lambda>t. \<not> is_old now days t) (timeline d)\<rparr>" using e(3) by simp
    then show ?thesis
      by (subst prune_loop.simps) (use b True n(1) in \<open>simp add: rows_affected_def\<close>)
  next
    case False
    then have lt: "length (timeline d1) < length (timeline d)" using e(4) assms(2) by linarith
    have dist: "distinct (map t_id (timeline d1))" unfolding e(2) using less.prems by (rule distinct_map_filter)
    have keep: "filter (\<lambda>t. \<not> is_old now days t) (timeline d1) = filter (\<lambda>t. \<not> is_old now days t) (timeline d)"
      unfolding e(2) filter_filter by (rule filter_cong) auto
    have "length ?old = n + length (filter (is_old now days) (timeline d1))"
      using e(4) sum_length_filter_compl [of "is_old now days" "timeline d"]
        sum_length_filter_compl [of "is_old now days" "timeline d1"] keep by simp
    moreover have "d1\<lparr>timeline := x\<rparr> = d\<lparr>timeline := x\<rparr>" for x
      by (subst e(3)) simp
    ultimately show ?thesis
      by (subst prune_loop.simps)
         (use b False less.hyps [OF lt dist] keep in \<open>simp add: rows_affected_def\<close>)
  qed
qed

text \<open>The batched pruning of the timeline returns for every batch size that is accepted, deletes
  exactly the rows older than the horizon in whatever number of batches that takes, keeps every
  other row in order, and reports the number of deleted rows.  With a horizon of zero days it
  deletes nothing; a batch size that is not positive is an error.\<close>

theorem prune_old_events_batched_spec:
  assumes "db_ok d"
  shows "prune_old_events_batched now days batch_size d = Some (
     if days = 0 then Inr (0, d)
     else if batch_size \<le> 0 then Inl (BatchSizeNotPositive batch_size)
     else Inr (length (filter (\<lambda>t. t_created_at t < now - int days * one_day) (timeline d)),
               d\<lparr>timeline := filter (\<lambda>t. t_created_at t \<ge> now - int days * one_day) (timeline d)\<rparr>))"
proof -
  have "distinct (map t_id (timeline d))" using assms by (simp add: db_ok_def)
  then show ?thesis
    by (auto simp: prune_old_events_batched_def prune_loop_effect rows_affected_def is_old_def [abs_def] not_less)
qed

theorem prune_old_events_batched_spec_witness:
  "prune_old_events_batched 0 30 2 crash_example = Some (Inr (0, crash_example))"
  using prune_old_events_batched_spec [OF crash_example_facts(1), of 0 30 2]
  by (simp add: crash_example_def empty_db_def)

end
