(* ===== verification/Session_Paging.thy ===== *)
theory Session_Paging
  imports Message_Store "HOL-Library.Product_Lexorder"
begin

text \<open>
  Reading sessions and messages in pages (\<open>opex-db/src/sessions.rs\<close>): the keyset pages of the session
  list, the backward pages of a transcript with the compression events that belong to them, the list
  of bookmarks and the preview of a message.

  The text form of a UUID (the \<open>uuid\<close> crate and PostgreSQL's cast) is the pair of parameters
  \<open>uuid_str\<close> and \<open>uuid_parse\<close>, and \<open>serde_json::from_str\<close> is \<open>json_parse\<close>.
  Rows that the order of a query leaves tied come in insertion order, one of the orders PostgreSQL
  may choose; no property depends on it.
\<close>

section \<open>Pages by key\<close>

text \<open>\<open>WHERE key < cursor ORDER BY key DESC LIMIT n\<close>, and the pages a client reads by sending the key
  of the last row it has got.\<close>

definition key_page :: "('r \<Rightarrow> 'k :: linorder) \<Rightarrow> 'r list \<Rightarrow> nat \<Rightarrow> 'k option \<Rightarrow> 'r list" where
  "key_page key rows n cursor =
     take n (rev (sort_key key (filter (\<lambda>r. case cursor of None \<Rightarrow> True | Some c \<Rightarrow> key r < c) rows)))"

fun key_pages :: "('r \<Rightarrow> 'k :: linorder) \<Rightarrow> 'r list \<Rightarrow> nat \<Rightarrow> nat \<Rightarrow> 'k option \<Rightarrow> 'r list list" where
  "key_pages key rows n 0 cursor = []"
| "key_pages key rows n (Suc k) cursor =
     (let p = key_page key rows n cursor
      in p # (if p = [] then [] else key_pages key rows n k (Some (key (last p)))))"

text \<open>A key that determines the row: then nothing is lost or repeated at a boundary.\<close>

locale keyset =
  fixes key :: "'r \<Rightarrow> 'k :: linorder"
    and ident :: "'r \<Rightarrow> 'i"
  assumes key_ident: "key r = key r' \<Longrightarrow> ident r = ident r'"
begin

lemma distinct_keys: "distinct (map ident rows) \<Longrightarrow> distinct (map key rows)"
  by (induction rows) (auto dest: key_ident)

lemma filter_sort_drop:
  assumes "distinct (map key rows)" "i < length rows"
  shows "filter (\<lambda>r. key r < key (sort_key key rows ! i)) (sort_key key rows) = take i (sort_key key rows)"
proof -
  define xs where "xs = sort_key key rows"
  have xs: "sorted (map key xs)" "distinct (map key xs)" "i < length xs"
    using assms by (simp_all add: xs_def distinct_map)
  then have strict: "sorted_wrt (<) (map key xs)" by (simp add: strict_sorted_iff)
  have lt: "key (xs ! a) < key (xs ! b) \<longleftrightarrow> a < b" if "a < length xs" "b < length xs" for a b
    using sorted_wrt_nth_less [OF strict, of a b] sorted_wrt_nth_less [OF strict, of b a] that
    by (cases a b rule: linorder_cases) auto
  have "filter (\<lambda>r. key r < key (xs ! i)) (take i xs @ drop i xs) = take i xs"
  proof -
    have "\<forall>r \<in> set (take i xs). key r < key (xs ! i)" using lt xs(3) by (auto simp: in_set_conv_nth)
    moreover have "\<forall>r \<in> set (drop i xs). \<not> key r < key (xs ! i)" using lt xs(3) by (auto simp: in_set_conv_nth)
    ultimately show ?thesis
      by (simp only: filter_append filter_True filter_False append_Nil2)
  qed
  then show ?thesis by (simp add: xs_def)
qed

lemma key_page_next:
  assumes "distinct (map key rows)" "key_page key rows n None \<noteq> []"
  shows "rev (sort_key key (filter (\<lambda>r. key r < key (last (key_page key rows n None))) rows))
         = drop n (rev (sort_key key rows))"
proof -
  define xs where "xs = sort_key key rows"
  define l where "l = min n (length xs)"
  have l: "0 < l" "l \<le> length xs" using assms(2) by (auto simp: key_page_def l_def xs_def)
  have "last (key_page key rows n None) = rev xs ! (l - 1)"
    using l assms(2) by (auto simp: key_page_def xs_def [symmetric] last_conv_nth l_def min_def)
  also have "\<dots> = xs ! (length xs - l)" using l by (simp add: rev_nth)
  finally have last: "last (key_page key rows n None) = xs ! (length xs - l)" .
  have "filter (\<lambda>r. key r < key (xs ! (length xs - l))) xs = take (length xs - l) xs"
    using filter_sort_drop [OF assms(1), of "length xs - l"] l by (simp add: xs_def)
  then have "sort_key key (filter (\<lambda>r. key r < key (last (key_page key rows n None))) rows) = take (length xs - l) xs"
    by (simp add: last filter_sort xs_def)
  then show ?thesis by (simp add: rev_take xs_def [symmetric] l_def min_def)
qed

lemma key_page_filter: "key_page key rows n (Some c) = key_page key (filter (\<lambda>r. key r < c) rows) n None"
  by (simp add: key_page_def)

lemma key_pages_filter:
  "\<lbrakk>\<And>c'. c = Some c' \<Longrightarrow> c' \<le> d\<rbrakk> \<Longrightarrow> c \<noteq> None \<Longrightarrow>
   key_pages key (filter (\<lambda>r. key r < d) rows) n k c = key_pages key rows n k c"
proof (induction k arbitrary: c)
  case (Suc k)
  then obtain c' where c: "c = Some c'" "c' \<le> d" by auto
  have *: "filter (\<lambda>r. key r < c') (filter (\<lambda>r. key r < d) rows) = filter (\<lambda>r. key r < c') rows"
    using c(2) by (auto intro!: filter_cong)
  define p where "p = key_page key rows n c"
  have p: "key_page key (filter (\<lambda>r. key r < d) rows) n c = p"
    unfolding p_def c(1) key_page_filter * ..
  have "key (last p) \<le> d" if "p \<noteq> []"
  proof -
    have "last p \<in> set (key_page key rows n c)" using that p_def by simp
    then have "key (last p) < c'" by (auto simp: key_page_def c dest!: in_set_takeD)
    then show ?thesis using c(2) by simp
  qed
  then show ?case using Suc.IH [of "Some (key (last p))"] by (simp add: Let_def p p_def [symmetric])
qed simp

lemma pages_concat:
  "distinct (map key rows) \<Longrightarrow>
   concat (key_pages key rows n k None) = take (k * n) (rev (sort_key key rows))"
proof (induction k arbitrary: rows)
  case (Suc k)
  define p where "p = key_page key rows n None"
  have whole: "p = take n (rev (sort_key key rows))" by (simp add: p_def key_page_def)
  show ?case
  proof (cases "p = []")
    case True
    then have "take (Suc k * n) (rev (sort_key key rows)) = []" using whole by (cases n) auto
    then show ?thesis using True by (simp add: Let_def p_def [symmetric])
  next
    case False
    define rest where "rest = filter (\<lambda>r. key r < key (last p)) rows"
    have next_page: "key_page key rows n (Some (key (last p))) = key_page key rest n None"
      by (simp add: key_page_filter rest_def)
    have "key_pages key rows n k (Some (key (last p))) = key_pages key rest n k None"
    proof (cases k)
      case (Suc k')
      define q where "q = key_page key rest n None"
      have "key (last q) \<le> key (last p)" if "q \<noteq> []"
      proof -
        have "last q \<in> set (key_page key rest n None)" using that q_def by simp
        then show ?thesis by (auto simp: key_page_def rest_def dest!: in_set_takeD)
      qed
      then have "key_pages key rest n k' (Some (key (last q))) = key_pages key rows n k' (Some (key (last q)))" if "q \<noteq> []"
        using that unfolding rest_def by (intro key_pages_filter) auto
      then show ?thesis by (simp add: Suc Let_def next_page q_def [symmetric])
    qed simp
    moreover have "concat (key_pages key rest n k None) = take (k * n) (drop n (rev (sort_key key rows)))"
      using Suc.IH [of rest] Suc.prems key_page_next [OF Suc.prems, of n] False
      by (simp add: rest_def p_def distinct_map inj_on_def)
    ultimately show ?thesis
      using False whole by (simp add: Let_def p_def [symmetric] take_add)
  qed
qed simp

end

section \<open>The session list\<close>

definition session_key :: "session_row \<Rightarrow> timestamp \<times> uuid" where
  "session_key s = (s_last_message_at s, s_id s)"

interpretation sk: keyset session_key s_id
  by unfold_locales (simp add: session_key_def)

definition session_filter :: "string \<Rightarrow> string list option \<Rightarrow> session_row \<Rightarrow> bool" where
  "session_filter agent channels s \<longleftrightarrow>
     s_agent_id s = agent \<and> (case channels of None \<Rightarrow> True | Some chans \<Rightarrow> s_channel s \<in> set chans)"

definition list_sessions_page ::
  "db \<Rightarrow> string \<Rightarrow> string list option \<Rightarrow> int \<Rightarrow> (timestamp \<times> uuid) option \<Rightarrow>
     db_error + (session_row list \<times> nat)" where
  "list_sessions_page d agent channels limit cursor =
     (if limit < 0 then Inl NegativeLimit
      else
        let rows = filter (session_filter agent channels) (sessions d)
        in Inr (key_page session_key rows (nat limit) cursor, length rows))"

definition get_session :: "db \<Rightarrow> uuid \<Rightarrow> session_row option" where
  "get_session d session_id = lookup_session d session_id"

text \<open>The pages a client reads from the start, each with the cursor taken from the last row of the one
  before.\<close>

fun read_session_pages ::
  "db \<Rightarrow> string \<Rightarrow> string list option \<Rightarrow> int \<Rightarrow> nat \<Rightarrow> (timestamp \<times> uuid) option \<Rightarrow> session_row list list" where
  "read_session_pages d agent channels limit 0 cursor = []"
| "read_session_pages d agent channels limit (Suc k) cursor =
     (case list_sessions_page d agent channels limit cursor of
        Inl e \<Rightarrow> []
      | Inr (page, n) \<Rightarrow>
          page # (if page = [] then []
                  else read_session_pages d agent channels limit k (Some (session_key (last page)))))"

lemma read_session_pages_key:
  "0 \<le> limit \<Longrightarrow>
   read_session_pages d agent channels limit k cursor =
     key_pages session_key (filter (session_filter agent channels) (sessions d)) (nat limit) k cursor"
  by (induction k arbitrary: cursor) (simp_all add: list_sessions_page_def Let_def)

text \<open>Reading the session list page by page gives exactly the sessions of the filter, in the order
  of the list, none twice and none left out, also when many share one \<open>last_message_at\<close>: the first
  \<open>k\<close> pages are the first \<open>k * limit\<close> rows, and \<open>total\<close> is their full number.\<close>

theorem session_pages_concatenate:
  assumes "db_ok d" and "0 \<le> limit"
  shows "concat (read_session_pages d agent channels limit k None) =
           take (k * nat limit) (rev (sort_key session_key (filter (session_filter agent channels) (sessions d))))
         \<and> (\<forall>c. \<exists>page. list_sessions_page d agent channels limit c =
              Inr (page, length (filter (session_filter agent channels) (sessions d))))"
proof -
  have "distinct (map s_id (filter (session_filter agent channels) (sessions d)))"
    using assms(1) by (simp add: db_ok_def distinct_map_filter)
  then show ?thesis using assms(2) sk.pages_concat sk.distinct_keys
    by (simp add: read_session_pages_key list_sessions_page_def Let_def)
qed

theorem session_pages_concatenate_witness:
  "let d = empty_db\<lparr>sessions := map (\<lambda>i. new_session_row i ''main'' ''u'' ''ui'' 5) [1, 2, 3]\<rparr>
   in map s_id (concat (read_session_pages d ''main'' None 2 2 None)) = [3, 2, 1]"
proof -
  define d where "d = empty_db\<lparr>sessions := map (\<lambda>i. new_session_row i ''main'' ''u'' ''ui'' 5) [1, 2, 3]\<rparr>"
  have "db_ok d" by (simp add: d_def db_ok_def empty_db_def new_session_row_def opt_ok_def)
  then have "concat (read_session_pages d ''main'' None 2 2 None) =
      take (2 * nat 2) (rev (sort_key session_key (filter (session_filter ''main'' None) (sessions d))))"
    using session_pages_concatenate [of d 2 "''main''" None 2] by simp
  then show ?thesis
    by (simp add: d_def [symmetric])
       (simp add: d_def empty_db_def new_session_row_def session_key_def session_filter_def)
qed

section \<open>Pages of a transcript\<close>

record CompressionEventRow =
  ce_segment_index :: int
  ce_first_live_message_id :: "uuid option"
  ce_summary :: string

record MessagesPage =
  page_messages :: "message_row list"
  page_compression_events :: "CompressionEventRow list"
  page_has_more :: bool

text \<open>\<open>Value::as_i64\<close> on an integer literal.\<close>

definition json_i64 :: "json \<Rightarrow> int option" where
  "json_i64 j =
     (case j of
        JNum (CHR ''-'' # ds) \<Rightarrow> Some (- int (digits_val ds))
      | JNum ds \<Rightarrow> Some (int (digits_val ds))
      | _ \<Rightarrow> None)"

definition int_literal :: "int \<Rightarrow> string" where
  "int_literal n = (if n < 0 then CHR ''-'' # nat_str (nat (- n)) else nat_str (nat n))"

definition json_opt_id :: "(uuid \<Rightarrow> string) \<Rightarrow> uuid option \<Rightarrow> json" where
  "json_opt_id uuid_str x = (case x of None \<Rightarrow> JNull | Some i \<Rightarrow> JStr (uuid_str i))"

definition compression_payload ::
  "(uuid \<Rightarrow> string) \<Rightarrow> 32 word \<Rightarrow> string \<Rightarrow> uuid option \<Rightarrow> uuid option \<Rightarrow> int \<Rightarrow> int \<Rightarrow> json" where
  "compression_payload uuid_str segment_index summary first_compressed_id first_live_id tokens_before tokens_after =
     JObj [(''segment_index'', JNum (nat_str (unat segment_index))),
           (''summary'', JStr summary),
           (''first_compressed_message_id'', json_opt_id uuid_str first_compressed_id),
           (''first_live_message_id'', json_opt_id uuid_str first_live_id),
           (''tokens_before'', JNum (int_literal tokens_before)),
           (''tokens_after'', JNum (int_literal tokens_after))]"

definition insert_compression_event ::
  "(uuid \<Rightarrow> string) \<Rightarrow> timestamp \<Rightarrow> uuid \<Rightarrow> 32 word \<Rightarrow> string \<Rightarrow> uuid option \<Rightarrow> uuid option \<Rightarrow> int \<Rightarrow> int \<Rightarrow>
     db \<Rightarrow> db_error + db" where
  "insert_compression_event uuid_str now session_id segment_index summary first_compressed_id first_live_id
     tokens_before tokens_after d =
     insert_timeline session_id ''compression''
       (Some (compression_payload uuid_str segment_index summary first_compressed_id first_live_id
                tokens_before tokens_after)) now d"

text \<open>\<open>payload->>'first_live_message_id'\<close> of a compression row.\<close>

definition live_id_text :: "timeline_row \<Rightarrow> string option" where
  "live_id_text t = Option.bind (t_payload t) (\<lambda>p. Option.bind (json_get p ''first_live_message_id'') as_str)"

definition compression_rows :: "db \<Rightarrow> uuid \<Rightarrow> timeline_row list" where
  "compression_rows d sid = filter (\<lambda>t. t_session_id t = sid \<and> t_event_type t = ''compression'') (timeline d)"

definition event_row :: "(string \<Rightarrow> uuid option) \<Rightarrow> timeline_row \<Rightarrow> CompressionEventRow option" where
  "event_row uuid_parse t =
     map_option (\<lambda>p.
       \<lparr>ce_segment_index = (case Option.bind (json_get p ''segment_index'') json_i64 of None \<Rightarrow> 0 | Some n \<Rightarrow> n),
        ce_first_live_message_id =
          Option.bind (Option.bind (json_get p ''first_live_message_id'') as_str) uuid_parse,
        ce_summary = (case Option.bind (json_get p ''summary'') as_str of None \<Rightarrow> [] | Some s \<Rightarrow> s)\<rparr>)
       (t_payload t)"

definition event_hits :: "(string \<Rightarrow> uuid option) \<Rightarrow> db \<Rightarrow> uuid \<Rightarrow> uuid list \<Rightarrow> timeline_row list" where
  "event_hits uuid_parse d sid page_ids =
     filter (\<lambda>t. case Option.bind (live_id_text t) uuid_parse of None \<Rightarrow> False | Some i \<Rightarrow> i \<in> set page_ids)
       (compression_rows d sid)"

definition page_rows :: "db \<Rightarrow> uuid \<Rightarrow> uuid option \<Rightarrow> message_row list" where
  "page_rows d sid before_id =
     order_desc m_created_at
       (filter (\<lambda>m. m_session_id m = sid \<and> \<not> m_compressed m \<and>
            (case before_id of
               None \<Rightarrow> True
             | Some bid \<Rightarrow> (case lookup_message d bid of None \<Rightarrow> False | Some b \<Rightarrow> m_created_at m < m_created_at b)))
          (messages d))"

definition get_messages_page ::
  "(string \<Rightarrow> uuid option) \<Rightarrow> db \<Rightarrow> uuid \<Rightarrow> uuid option \<Rightarrow> int \<Rightarrow> db_error + MessagesPage" where
  "get_messages_page uuid_parse d session_id before_id limit =
     (if limit + 1 < 0 then Inl NegativeLimit
      else
        let fetched = take (nat (limit + 1)) (page_rows d session_id before_id);
            has_more = (int (length fetched) > limit);
            rows = rev (take (nat limit) fetched);
            page_ids = map m_id rows
        in if page_ids = [] then
             Inr \<lparr>page_messages = rows, page_compression_events = [], page_has_more = has_more\<rparr>
           else if \<exists>t \<in> set (compression_rows d session_id). \<exists>x. live_id_text t = Some x \<and> uuid_parse x = None
           then Inl InvalidTextRepresentation
           else Inr \<lparr>page_messages = rows,
                     page_compression_events =
                       List.map_filter (event_row uuid_parse) (event_hits uuid_parse d session_id page_ids),
                     page_has_more = has_more\<rparr>)"

section \<open>Bookmarks and previews\<close>

record BookmarkedHit =
  bh_message_id :: uuid
  bh_session_id :: uuid
  bh_session_title :: "string option"
  bh_agent_id :: string
  bh_role :: string
  bh_content :: string
  bh_bookmarked_at :: timestamp

definition bookmark_hits :: "db \<Rightarrow> string option \<Rightarrow> BookmarkedHit list" where
  "bookmark_hits d agent_id =
     concat (map (\<lambda>m. case m_bookmarked_at m of
         None \<Rightarrow> []
       | Some t \<Rightarrow>
           map (\<lambda>s. \<lparr>bh_message_id = m_id m, bh_session_id = m_session_id m, bh_session_title = s_title s,
                     bh_agent_id = s_agent_id s, bh_role = m_role m, bh_content = m_content m,
                     bh_bookmarked_at = t\<rparr>)
             (filter (\<lambda>s. s_id s = m_session_id m \<and> (case agent_id of None \<Rightarrow> True | Some a \<Rightarrow> s_agent_id s = a))
                (sessions d)))
       (messages d))"

definition list_bookmarked :: "db \<Rightarrow> string option \<Rightarrow> int \<Rightarrow> db_error + BookmarkedHit list" where
  "list_bookmarked d agent_id limit =
     (if limit < 0 then Inl NegativeLimit
      else Inr (take (nat limit) (order_desc bh_bookmarked_at (bookmark_hits d agent_id))))"

definition text_preview :: "(string \<Rightarrow> json option) \<Rightarrow> string \<Rightarrow> nat \<Rightarrow> string" where
  "text_preview json_parse content max_chars =
     (case Option.bind (json_parse content) as_array of
        None \<Rightarrow> take_chars max_chars content
      | Some parts \<Rightarrow>
          let texts = List.map_filter (\<lambda>p. if Option.bind (json_get p ''type'') as_str = Some ''text''
                                           then Option.bind (json_get p ''text'') as_str else None) parts;
              attachment = utf8 [208, 178, 208, 187, 208, 190, 208, 182, 208, 181, 208, 189, 208, 184, 208, 181];
              image = utf8 [208, 184, 208, 183, 208, 190, 208, 177, 209, 128, 208, 176, 208, 182, 208, 181, 208,
                            189, 208, 184, 208, 181]
          in if texts \<noteq> [] then take_chars max_chars (join '' '' texts)
             else case parts of
                 [] \<Rightarrow> attachment
               | p # _ \<Rightarrow>
                   if (case Option.bind (json_get p ''type'') as_str of None \<Rightarrow> False | Some t \<Rightarrow> contains_str ''image'' t)
                      \<or> (case Option.bind (json_get p ''mime'') as_str of None \<Rightarrow> False | Some m \<Rightarrow> starts_with ''image/'' m)
                      \<or> (case Option.bind (json_get p ''mime_type'') as_str of None \<Rightarrow> False | Some m \<Rightarrow> starts_with ''image/'' m)
                   then image else attachment)"

section \<open>What the pages of a transcript show\<close>

lemma page_messages_rows:
  "get_messages_page uuid_parse d sid before limit = Inr page \<Longrightarrow>
   page_messages page = rev (take (nat limit) (page_rows d sid before))"
  by (auto simp: get_messages_page_def Let_def min_def split: if_splits)

lemma take_page: "take (nat l) (take (nat (l + 1)) xs) = take (nat l) xs"
  by (simp add: min_def)

lemma page_events:
  "\<lbrakk>get_messages_page uuid_parse d sid before limit = Inr page; page_messages page \<noteq> []\<rbrakk> \<Longrightarrow>
   page_compression_events page =
     List.map_filter (event_row uuid_parse) (event_hits uuid_parse d sid (map m_id (page_messages page)))"
  unfolding get_messages_page_def Let_def take_page by (auto split: if_splits)

lemma set_page_rows:
  "m \<in> set (page_rows d sid before) \<longleftrightarrow>
     m \<in> set (messages d) \<and> m_session_id m = sid \<and> \<not> m_compressed m \<and>
     (case before of None \<Rightarrow> True
      | Some bid \<Rightarrow> (case lookup_message d bid of None \<Rightarrow> False | Some b \<Rightarrow> m_created_at m < m_created_at b))"
  by (simp add: page_rows_def order_desc_def)

text \<open>The cursor of a transcript is a time, not a row: a live message that shares its \<open>created_at\<close> with
  the oldest message of a page but did not fit on it is on no later page, whichever cursor at or before
  that message is sent.  Scrolling back never shows it.\<close>

theorem tied_messages_are_skipped:
  assumes "get_messages_page uuid_parse d sid before limit = Inr page" and "page_messages page \<noteq> []"
    and "m \<in> set (messages d)" and "m_created_at m = m_created_at (hd (page_messages page))"
    and "lookup_message d bid = Some c" and "m_created_at c \<le> m_created_at (hd (page_messages page))"
    and "get_messages_page uuid_parse d sid (Some bid) limit' = Inr page'"
  shows "m \<notin> set (page_messages page')"
proof
  assume "m \<in> set (page_messages page')"
  then have "m \<in> set (page_rows d sid (Some bid))"
    unfolding page_messages_rows [OF assms(7)] by (auto dest: in_set_takeD)
  then have "m_created_at m < m_created_at c" using assms(5) by (simp add: set_page_rows)
  then show False using assms(4,6) by simp
qed

definition tied_db :: db where
  "tied_db = empty_db\<lparr>sessions := [new_session_row 7 ''main'' ''u'' ''ui'' 5],
     messages := map (\<lambda>i. new_message i 7 ''user'' [] 9) [1, 2, 3]\<rparr>"

theorem tied_messages_are_skipped_witness:
  "\<exists>page page'. get_messages_page (\<lambda>_. None) tied_db 7 None 2 = Inr page \<and> page_has_more page
     \<and> map m_id (page_messages page) = [2, 1]
     \<and> get_messages_page (\<lambda>_. None) tied_db 7 (Some 2) 2 = Inr page'
     \<and> new_message 3 7 ''user'' [] 9 \<notin> set (page_messages page')"
proof -
  let ?p = "\<lparr>page_messages = [new_message 2 7 ''user'' [] 9, new_message 1 7 ''user'' [] 9],
             page_compression_events = [], page_has_more = True\<rparr>"
  let ?p' = "\<lparr>page_messages = [], page_compression_events = [], page_has_more = False\<rparr>"
  have p: "get_messages_page (\<lambda>_. None) tied_db 7 None 2 = Inr ?p"
    by (simp add: get_messages_page_def page_rows_def order_desc_def tied_db_def empty_db_def new_message_def
        compression_rows_def event_hits_def Let_def List.map_filter_def)
  have p': "get_messages_page (\<lambda>_. None) tied_db 7 (Some 2) 2 = Inr ?p'"
    by (simp add: get_messages_page_def page_rows_def order_desc_def tied_db_def empty_db_def new_message_def
        lookup_message_def compression_rows_def Let_def)
  have "new_message 3 7 ''user'' [] 9 \<notin> set (page_messages ?p')"
    by (rule tied_messages_are_skipped [OF p _ _ _ _ _ p', where c = "new_message 2 7 ''user'' [] 9"])
       (simp_all add: tied_db_def new_message_def lookup_message_def empty_db_def)
  then show ?thesis using p p' by (intro exI [of _ ?p] exI [of _ ?p']) (simp add: new_message_def)
qed

lemma json_i64_nat_str: "json_i64 (JNum (nat_str n)) = Some (int n)"
proof -
  have digit: "nat_str n \<noteq> [] \<and> hd (nat_str n) \<noteq> CHR ''-''"
  proof (induction n rule: nat_str.induct)
    case (1 n)
    show ?case
    proof (cases "n < 10")
      case True
      then have "of_char (char_of (48 + n) :: char) = 48 + n" by simp
      then have "char_of (48 + n) \<noteq> CHR ''-''" using True by (auto dest: arg_cong [where f = "of_char :: char \<Rightarrow> nat"])
      then show ?thesis using True by (simp add: nat_str.simps [of n])
    next
      case False
      then show ?thesis using 1 by (simp add: nat_str.simps [of n])
    qed
  qed
  then obtain c cs where c: "nat_str n = c # cs" "c \<noteq> CHR ''-''" by (cases "nat_str n") auto
  then have "json_i64 (JNum (c # cs)) = Some (int (digits_val (c # cs)))"
    unfolding json_i64_def by (auto split: char.splits bool.splits)
  then show ?thesis by (metis c(1) digits_val_nat_str)
qed

text \<open>A compression boundary that was written with a first live message is returned, with its segment
  number and summary as they were written, on every page that shows this message.\<close>

theorem compression_event_roundtrip:
  assumes uuid_text: "\<forall>i. uuid_parse (uuid_str i) = Some i"
    and "insert_compression_event uuid_str now sid seg summary fc (Some i) tb ta d = Inr d'"
    and "get_messages_page uuid_parse d' sid before limit = Inr page"
    and "i \<in> m_id ` set (page_messages page)"
  shows "\<lparr>ce_segment_index = int (unat seg), ce_first_live_message_id = Some i, ce_summary = summary\<rparr>
           \<in> set (page_compression_events page)"
proof -
  define p where "p = compression_payload uuid_str seg summary fc (Some i) tb ta"
  define t where "t = \<lparr>t_id = timeline_seq d, t_session_id = sid, t_event_type = ''compression'',
    t_payload = Some p, t_created_at = now\<rparr>"
  have get: "json_get p ''segment_index'' = Some (JNum (nat_str (unat seg)))"
    "json_get p ''summary'' = Some (JStr summary)"
    "json_get p ''first_live_message_id'' = Some (JStr (uuid_str i))"
    by (simp_all add: p_def compression_payload_def json_opt_id_def)
  have "timeline d' = timeline d @ [t]"
    using assms(2) by (auto simp: insert_compression_event_def insert_timeline_def t_def p_def split: if_splits)
  then have t: "t \<in> set (compression_rows d' sid)" by (simp add: compression_rows_def t_def)
  have live: "Option.bind (live_id_text t) uuid_parse = Some i"
    using uuid_text by (simp add: live_id_text_def t_def get)
  have row: "event_row uuid_parse t =
      Some \<lparr>ce_segment_index = int (unat seg), ce_first_live_message_id = Some i, ce_summary = summary\<rparr>"
    using uuid_text by (simp add: event_row_def t_def get json_i64_nat_str)
  define ids where "ids = map m_id (page_messages page)"
  have i: "i \<in> set ids" using assms(4) by (auto simp: ids_def)
  then have "page_messages page \<noteq> []" by (auto simp: ids_def)
  then show ?thesis
    using page_events [OF assms(3)] t live row i by (force simp: set_map_filter event_hits_def ids_def)
qed

definition boundary_db :: db where
  "boundary_db = empty_db\<lparr>sessions := [new_session_row 7 ''main'' ''u'' ''ui'' 5],
     messages := [new_message 1 7 ''user'' [] 9]\<rparr>"

theorem compression_event_roundtrip_witness:
  "\<exists>d' page. insert_compression_event (\<lambda>i. replicate i CHR ''x'') 3 7 4 ''sum'' None (Some 1) 100 20 boundary_db = Inr d'
     \<and> get_messages_page (\<lambda>s. Some (length s)) d' 7 None 10 = Inr page
     \<and> \<lparr>ce_segment_index = 4, ce_first_live_message_id = Some 1, ce_summary = ''sum''\<rparr> \<in> set (page_compression_events page)"
proof -
  have "session_exists boundary_db 7"
    by (simp add: session_exists_def boundary_db_def new_session_row_def)
  then obtain d' where
    d': "insert_compression_event (\<lambda>i. replicate i CHR ''x'') 3 7 4 ''sum'' None (Some 1) 100 20 boundary_db = Inr d'"
    by (simp add: insert_compression_event_def insert_timeline_def pg_text_ok_def opt_ok_def
        compression_payload_def json_opt_id_def)
  then have msgs: "messages d' = [new_message 1 7 ''user'' [] 9]"
    by (auto simp: insert_compression_event_def insert_timeline_def boundary_db_def split: if_splits)
  have "\<exists>page. get_messages_page (\<lambda>s. Some (length s)) d' 7 None 10 = Inr page"
    unfolding get_messages_page_def Let_def by simp
  then obtain page where page: "get_messages_page (\<lambda>s. Some (length s)) d' 7 None 10 = Inr page" ..
  have "1 \<in> m_id ` set (page_messages page)"
    using page_messages_rows [OF page] msgs by (simp add: page_rows_def order_desc_def new_message_def)
  then show ?thesis
    using compression_event_roundtrip [of "\<lambda>s. Some (length s)" "\<lambda>i. replicate i CHR ''x''", OF _ d' page] d' page
    by auto
qed

end
