(* ===== verification/Store_Machine.thy ===== *)
theory Store_Machine
  imports Session_Repair Session_Paging
begin

text \<open>
  The session store as one machine: the step relation whose steps are all the operations of
  \<open>opex-db\<close> that change the three tables, interleaved in any order by any number of connections.
  Every state it reaches from the empty tables is consistent (\<^const>\<open>db_ok\<close>), and a row that
  survives a step has evolved as the life cycle of \<open>session_status.rs\<close> and the append-only
  transcript allow.
\<close>

section \<open>Steps\<close>

inductive db_step :: "db \<Rightarrow> db \<Rightarrow> bool" where
  st_get_or_create: "get_or_create_session fresh now agent user channel scope chat d = Inr (r, d') \<Longrightarrow> db_step d d'"
| st_create: "create_new_session fresh now agent user channel d = Inr (r, d') \<Longrightarrow> db_step d d'"
| st_create_id: "create_new_session_with_id fresh now agent user channel d = Inr (r, d') \<Longrightarrow> db_step d d'"
| st_create_chain: "create_chain_session fresh now parent agent user channel title d = Inr (r, d') \<Longrightarrow> db_step d d'"
| st_end_reason: "set_session_end_reason sid reason d = Inr d' \<Longrightarrow> db_step d d'"
| st_auto_title: "auto_title_session sid words d = Inr d' \<Longrightarrow> db_step d d'"
| st_resume: "resume_session now sid d = Inr (r, d') \<Longrightarrow> db_step d d'"
| st_extracted: "db_step d (set_last_extracted_at sid ts d)"
| st_chat_id: "db_step d (set_session_chat_id sid chat d)"
| st_participant: "add_participant sid name d = Inr (r, d') \<Longrightarrow> db_step d d'"
| st_run_status: "db_step d (set_session_run_status sid (as_status_str st) d)"
| st_claim: "db_step d (snd (claim_session_for_reentry sid mode d))"
| st_touch: "db_step d (touch_session_activity now sid d)"
| st_retry: "increment_retry_count sid d = Inr (r, d') \<Longrightarrow> db_step d d'"
| st_redrive: "claim_redrive sid max_retries d = Inr (r, d') \<Longrightarrow> db_step d d'"
| st_failed: "db_step d (mark_session_failed sid d)"
| st_stale: "db_step d (snd (finalize_truly_stale_sessions now secs d))"
| st_delete: "db_step d (delete_session sid d)"
| st_old: "db_step d (snd (cleanup_old_sessions now ttl d))"
| st_excess: "db_step d (snd (cleanup_excess_sessions_per_agent cap d))"
| st_save: "save_message_ex fresh now sid role content tc tcid agent th parent d = Inr (r, d') \<Longrightarrow> db_step d d'"
| st_save_id: "save_message_ex_with_id i now sid role content tc tcid agent th parent batch stp d = Inr d' \<Longrightarrow> db_step d d'"
| st_save_branched: "save_message_branched fresh now sid role content tc tcid agent th parent br d = Inr (r, d') \<Longrightarrow> db_step d d'"
| st_step_id: "db_step d (update_message_step_id i n d)"
| st_prepend: "prepend_message_content i pre d = Inr d' \<Longrightarrow> db_step d d'"
| st_seed: "db_step d (snd (insert_seed_messages gen clock sid agent ms d))"
| st_upsert: "upsert_streaming_message now i sid agent content tc d = Inr d' \<Longrightarrow> db_step d d'"
| st_finalize: "db_step d (finalize_streaming_message i d)"
| st_delete_empty: "db_step d (snd (delete_empty_assistant_messages sid d))"
| st_trim: "db_step d (snd (trim_session_messages sid cap d))"
| st_sweep: "db_step d (snd (sweep_orphan_tool_results d))"
| st_sweep_one: "db_step d (snd (sweep_orphan_tool_results_for_session sid d))"
| st_partial: "insert_assistant_partial fresh now sid ag content why parent d = Inr (r, d') \<Longrightarrow> db_step d d'"
| st_mirror: "mirror_to_session fresh now agent channel who chat words d = Inr (r, d') \<Longrightarrow> db_step d d'"
| st_compressed: "db_step d (mark_messages_compressed is d)"
| st_bookmark: "db_step d (snd (toggle_bookmark now i agent on d))"
| st_log: "log_event_tx now sid event payload d = Inr d' \<Longrightarrow> db_step d d'"
| st_compression: "insert_compression_event us now sid seg summary fc fl tb ta d = Inr d' \<Longrightarrow> db_step d d'"
| st_prune: "prune_old_events_batched now days batch d = Some (Inr (n, d')) \<Longrightarrow> db_step d d'"
| st_synthetic: "insert_synthetic_tool_results ids now sid d = Inr (n, d') \<Longrightarrow> db_step d d'"
| st_missing: "db_step d (snd (insert_missing_tool_results ids now sid calls d))"
| st_streaming: "db_step d (snd (cleanup_session_streaming_messages sid d))"
| st_terminated: "cleanup_session_terminated ids now sid (as_status_str st) reason d = Inr (b, d') \<Longrightarrow> db_step d d'"
| st_interrupted: "db_step d (snd (cleanup_interrupted_sessions ids now d))"
| st_mark_all: "db_step d (snd (mark_all_running_sessions_terminated ids now reason d))"

text \<open>The states of a store that started empty.\<close>

inductive db_reachable :: "db \<Rightarrow> bool" where
  reach_empty: "db_reachable empty_db"
| reach_step: "db_reachable d \<Longrightarrow> db_step d d' \<Longrightarrow> db_reachable d'"

section \<open>How rows evolve\<close>

text \<open>The column \<open>run_status\<close> is text; a known value is one of the enumeration.\<close>

definition status_known :: "string option \<Rightarrow> bool" where
  "status_known x \<longleftrightarrow> (case x of None \<Rightarrow> True | Some t \<Rightarrow> parse_status t \<noteq> None)"

definition tables_ok :: "db \<Rightarrow> bool" where
  "tables_ok d \<longleftrightarrow> db_ok d \<and> (\<forall>s \<in> set (sessions d). status_known (s_run_status s))"

text \<open>A status write: nothing leaves a terminal status except for \<open>running\<close>, and no status is
  ever forgotten.\<close>

definition status_moves :: "string option \<Rightarrow> string option \<Rightarrow> bool" where
  "status_moves a b \<longleftrightarrow>
     b = a \<or> (b \<noteq> None \<and> status_known b \<and> (a = None \<or> a = Some ''running'' \<or> b = Some ''running''))"

text \<open>The batched repair only ends running sessions.\<close>

definition only_ends :: "string option \<Rightarrow> string option \<Rightarrow> bool" where
  "only_ends a b \<longleftrightarrow> b = a \<or> (a = Some ''running'' \<and> b \<noteq> None \<and> status_known b)"

text \<open>A reference stays or is cleared by \<open>ON DELETE SET NULL\<close>; a streaming row can only be
  interrupted.\<close>

definition ref_kept :: "uuid option \<Rightarrow> uuid option \<Rightarrow> bool" where
  "ref_kept a b \<longleftrightarrow> b = a \<or> b = None"

definition row_status_moves :: "string \<Rightarrow> string \<Rightarrow> bool" where
  "row_status_moves a b \<longleftrightarrow> b = a \<or> a = ''streaming'' \<and> b = ''interrupted''"

definition session_evolves ::
  "(string option \<Rightarrow> string option \<Rightarrow> bool) \<Rightarrow> session_row \<Rightarrow> session_row \<Rightarrow> bool" where
  "session_evolves Q s s' \<longleftrightarrow>
     s_id s' = s_id s \<and> s_agent_id s' = s_agent_id s \<and> s_user_id s' = s_user_id s
     \<and> s_channel s' = s_channel s \<and> s_chat_scope s' = s_chat_scope s \<and> s_started_at s' = s_started_at s
     \<and> ref_kept (s_parent_session_id s) (s_parent_session_id s')
     \<and> s_retry_count s \<le> s_retry_count s' \<and> prefix (s_participants s) (s_participants s')
     \<and> (s_title s \<noteq> None \<longrightarrow> s_title s' = s_title s) \<and> Q (s_run_status s) (s_run_status s')"

definition message_evolves :: "message_row \<Rightarrow> message_row \<Rightarrow> bool" where
  "message_evolves m m' \<longleftrightarrow>
     m_id m' = m_id m \<and> m_session_id m' = m_session_id m \<and> m_role m' = m_role m
     \<and> m_created_at m' = m_created_at m \<and> m_tool_call_id m' = m_tool_call_id m
     \<and> m_agent_id m' = m_agent_id m \<and> m_is_mirror m' = m_is_mirror m
     \<and> m_thinking_blocks m' = m_thinking_blocks m \<and> m_abort_reason m' = m_abort_reason m
     \<and> ref_kept (m_parent_message_id m) (m_parent_message_id m')
     \<and> ref_kept (m_branch_from_message_id m) (m_branch_from_message_id m')
     \<and> (m_compressed m \<longrightarrow> m_compressed m') \<and> row_status_moves (m_status m) (m_status m')"

text \<open>A table after an operation that deletes nothing: the old rows in place, evolved, then new
  ones.\<close>

definition grows :: "('r \<Rightarrow> 'r \<Rightarrow> bool) \<Rightarrow> 'r list \<Rightarrow> 'r list \<Rightarrow> bool" where
  "grows R xs ys \<longleftrightarrow> (\<exists>us vs. ys = us @ vs \<and> list_all2 R xs us)"

definition evolves :: "(string option \<Rightarrow> string option \<Rightarrow> bool) \<Rightarrow> db \<Rightarrow> db \<Rightarrow> bool" where
  "evolves Q d d' \<longleftrightarrow>
     grows (session_evolves Q) (sessions d) (sessions d')
     \<and> grows message_evolves (messages d) (messages d')
     \<and> (tables_ok d \<longrightarrow> tables_ok d')"

definition deletes :: "db \<Rightarrow> db \<Rightarrow> bool" where
  "deletes d d' \<longleftrightarrow>
     (\<exists>P. d' = delete_messages P d) \<or> (\<exists>P. d' = delete_sessions P d)
     \<or> (\<exists>P. d' = d\<lparr>timeline := filter P (timeline d)\<rparr>)"

section \<open>Composition\<close>

lemma ref_kept_simps [simp]: "ref_kept a a" "ref_kept a None"
  by (simp_all add: ref_kept_def)

lemma ref_kept_trans: "ref_kept a b \<Longrightarrow> ref_kept b c \<Longrightarrow> ref_kept a c"
  by (auto simp: ref_kept_def)

lemma row_status_refl [simp]: "row_status_moves a a"
  by (simp add: row_status_moves_def)

lemma row_status_trans: "row_status_moves a b \<Longrightarrow> row_status_moves b c \<Longrightarrow> row_status_moves a c"
  by (auto simp: row_status_moves_def)

lemma status_known_simps [simp]:
  "status_known None" "status_known (Some (as_status_str a))"
  "status_known (Some ''running'')" "status_known (Some ''interrupted'')" "status_known (Some ''failed'')"
  by (simp_all add: status_known_def) (simp_all add: parse_status_def)

lemma session_evolves_refl: "Q (s_run_status s) (s_run_status s) \<Longrightarrow> session_evolves Q s s"
  by (simp add: session_evolves_def)

lemma session_evolves_trans:
  "session_evolves Q1 s t \<Longrightarrow> session_evolves Q2 t u \<Longrightarrow> session_evolves (Q1 OO Q2) s u"
  by (auto simp: session_evolves_def intro: prefix_order.trans ref_kept_trans)

lemma message_evolves_refl [simp]: "message_evolves m m"
  by (simp add: message_evolves_def)

lemma message_evolves_trans: "message_evolves m n \<Longrightarrow> message_evolves n k \<Longrightarrow> message_evolves m k"
  unfolding message_evolves_def
  by (elim conjE, intro conjI; (erule (1) ref_kept_trans | erule (1) row_status_trans | simp))

lemma session_evolves_mono:
  "session_evolves Q s t \<Longrightarrow> (\<And>a b. Q a b \<Longrightarrow> Q' a b) \<Longrightarrow> session_evolves Q' s t"
  by (simp add: session_evolves_def)

lemma grows_trans:
  assumes "grows R xs ys" "grows S ys zs" and "\<And>a b c. R a b \<Longrightarrow> S b c \<Longrightarrow> T a c"
  shows "grows T xs zs"
proof -
  obtain us vs where ys: "ys = us @ vs" "list_all2 R xs us" using assms(1) by (auto simp: grows_def)
  obtain us' vs' where zs: "zs = us' @ vs'" "list_all2 S (us @ vs) us'"
    using assms(2) ys(1) by (auto simp: grows_def)
  obtain a b where ab: "us' = a @ b" "list_all2 S us a" using zs(2) by (auto simp: list_all2_append1)
  have "list_all2 T xs a" by (rule list_all2_trans [OF _ ys(2) ab(2)]) (rule assms(3))
  then show ?thesis unfolding grows_def zs(1) ab(1) by auto
qed

lemma grows_update:
  assumes "\<And>r. r \<in> set xs \<Longrightarrow> P r \<Longrightarrow> R r (f r)" "\<And>r. R r r"
  shows "grows R xs (update_where P f xs)"
  unfolding grows_def update_where_def
  by (intro exI [of _ "update_where P f xs"] exI [of _ "[]"])
     (simp add: update_where_def list_all2_conv_all_nth assms)

lemma grows_append: "(\<And>r. R r r) \<Longrightarrow> grows R xs (xs @ ys)"
  by (auto simp: grows_def intro: list_all2_refl)

lemma grows_refl: "(\<And>r. R r r) \<Longrightarrow> grows R xs xs"
  using grows_append [of R xs "[]"] by simp

lemma grows_mono: "grows R xs ys \<Longrightarrow> (\<And>a b. R a b \<Longrightarrow> S a b) \<Longrightarrow> grows S xs ys"
  by (auto simp: grows_def intro: list_all2_mono)

lemma evolves_trans: "evolves Q1 d d1 \<Longrightarrow> evolves Q2 d1 d2 \<Longrightarrow> evolves (Q1 OO Q2) d d2"
  unfolding evolves_def by (blast intro: grows_trans session_evolves_trans message_evolves_trans)

lemma evolves_mono: "evolves Q d d' \<Longrightarrow> (\<And>a b. Q a b \<Longrightarrow> Q' a b) \<Longrightarrow> evolves Q' d d'"
  unfolding evolves_def by (blast intro: grows_mono session_evolves_mono)

lemma evolves_refl: "evolves (=) d d"
  unfolding evolves_def by (simp add: grows_refl session_evolves_refl)

lemma evolves_frame: "evolves (=) d d1 \<Longrightarrow> evolves Q d1 d2 \<Longrightarrow> evolves Q d d2"
  by (drule (1) evolves_trans) (simp add: eq_OO)

lemma only_ends_comp: "only_ends OO only_ends \<le> only_ends"
  by (auto simp: only_ends_def)

lemma evolves_ends_trans: "evolves only_ends d d1 \<Longrightarrow> evolves only_ends d1 d2 \<Longrightarrow> evolves only_ends d d2"
  by (rule evolves_mono [OF evolves_trans]) (use only_ends_comp in auto)

lemma evolves_ends: "evolves (=) d d' \<Longrightarrow> evolves only_ends d d'"
  by (erule evolves_mono) (simp add: only_ends_def)

lemma evolves_moves: "evolves (=) d d' \<Longrightarrow> evolves status_moves d d'"
  by (erule evolves_mono) (simp add: status_moves_def)

lemma ends_moves: "evolves only_ends d d' \<Longrightarrow> evolves status_moves d d'"
  by (erule evolves_mono) (auto simp: only_ends_def status_moves_def)

section \<open>Statements\<close>

definition lawful :: "(string option \<Rightarrow> string option \<Rightarrow> bool) \<Rightarrow> bool" where
  "lawful Q \<longleftrightarrow> (\<forall>a. Q a a) \<and> (\<forall>a b. Q a b \<longrightarrow> status_known a \<longrightarrow> status_known b)"

lemma lawful_simps [simp]: "lawful (=)" "lawful status_moves" "lawful only_ends"
  by (auto simp: lawful_def status_moves_def only_ends_def)

lemma evolves_update_sessions:
  assumes ev: "\<And>s. s \<in> set (sessions d) \<Longrightarrow> P s \<Longrightarrow> session_evolves Q s (f s)" and Q: "lawful Q"
    and f: "keeps_session_keys f"
  shows "evolves Q d (d\<lparr>sessions := update_where P f (sessions d)\<rparr>)"
proof -
  have known: "status_known (s_run_status (f s))"
    if "s \<in> set (sessions d)" "P s" "status_known (s_run_status s)" for s
    using ev [OF that(1,2)] that(3) Q by (auto simp: session_evolves_def lawful_def)
  have "\<forall>s \<in> set (update_where P f (sessions d)). status_known (s_run_status s)"
    if "\<forall>s \<in> set (sessions d). status_known (s_run_status s)"
    using that known unfolding ball_update_where by auto
  then have "tables_ok (d\<lparr>sessions := update_where P f (sessions d)\<rparr>)" if "tables_ok d"
    using that f by (simp add: tables_ok_def db_ok_update_session_table)
  moreover have "grows (session_evolves Q) (sessions d) (update_where P f (sessions d))"
    using ev Q by (auto intro!: grows_update session_evolves_refl simp: lawful_def)
  ultimately show ?thesis by (simp add: evolves_def grows_refl)
qed

lemma evolves_update_session:
  assumes "\<And>s. s \<in> set (sessions d) \<Longrightarrow> s_id s = sid \<and> P s \<Longrightarrow> session_evolves Q s (f s)" "lawful Q"
    "keeps_session_keys f"
  shows "evolves Q d (update_session sid P f d)"
  unfolding update_session_def using assms by (intro evolves_update_sessions) auto

lemma evolves_update_messages:
  assumes "\<And>m. m \<in> set (messages d) \<Longrightarrow> P m \<Longrightarrow> message_evolves m (f m)" "keeps_message_keys f"
    "\<And>m. m \<in> set (messages d) \<Longrightarrow> P m \<Longrightarrow> message_text_ok m \<Longrightarrow> message_text_ok (f m)"
  shows "evolves (=) d (d\<lparr>messages := update_where P f (messages d)\<rparr>)"
  unfolding evolves_def tables_ok_def using assms
  by (auto intro: grows_update grows_refl session_evolves_refl db_ok_update_messages)

lemma evolves_insert_session: "insert_session s d = Inr d' \<Longrightarrow> s_run_status s = None \<Longrightarrow> evolves (=) d d'"
  unfolding evolves_def tables_ok_def using db_ok_insert_session [of d s d'] insert_session_Inr [of s d d']
  by (auto intro: grows_append grows_refl session_evolves_refl)

lemma grows_same [simp]: "grows (session_evolves (=)) xs xs" "grows message_evolves ms ms"
  by (simp_all add: grows_refl session_evolves_refl)

lemma evolves_insert_timeline: "insert_timeline sid e p now d = Inr d' \<Longrightarrow> evolves (=) d d'"
  unfolding evolves_def tables_ok_def using db_ok_insert_timeline [of d sid e p now d']
  by (auto simp: insert_timeline_def split: if_splits)

lemma evolves_touch: "evolves (=) d (touch_session_activity now sid d)"
  unfolding touch_session_activity_def
  by (rule evolves_update_session) (simp_all add: session_evolves_def)

lemma evolves_insert_message:
  assumes "insert_message m d = Inr d'"
  shows "evolves (=) d d'"
proof -
  have d': "d' = touch_last_message m (d\<lparr>messages := messages d @ [m]\<rparr>)"
    using assms by (simp add: insert_message_Inr)
  have "grows (session_evolves (=)) (sessions d) (sessions d')"
    unfolding d' touch_last_message_def update_session_def
    by (simp, rule grows_update) (simp_all add: session_evolves_def)
  moreover have "grows message_evolves (messages d) (messages d')"
    unfolding d' touch_last_message_def by (simp add: grows_append)
  moreover have "\<forall>s \<in> set (sessions d'). status_known (s_run_status s)"
    if "\<forall>s \<in> set (sessions d). status_known (s_run_status s)"
    using that unfolding d' touch_last_message_def update_session_def by (simp add: ball_update_where)
  ultimately show ?thesis using db_ok_insert_message [OF _ assms] by (simp add: evolves_def tables_ok_def)
qed

lemma evolves_insert_all: "insert_all ms d = Inr d' \<Longrightarrow> evolves (=) d d'"
  by (induction ms arbitrary: d)
     (auto split: sum.splits intro: evolves_refl evolves_frame dest: evolves_insert_message)

lemma evolves_insert_chunks: "insert_chunks ids now sid cs n d = Inr (k, d') \<Longrightarrow> evolves (=) d d'"
  by (induction cs arbitrary: n d)
     (auto split: sum.splits intro: evolves_refl evolves_frame dest: evolves_insert_all)

lemma evolves_insert_missing: "evolves (=) d (snd (insert_missing_tool_results ids now sid cs d))"
  by (induction cs arbitrary: d)
     (auto split: sum.splits intro: evolves_refl evolves_frame dest: evolves_insert_message)

lemma evolves_insert_seed: "evolves (=) d (snd (insert_seed_from i gen clock sid agent ms d))"
  by (induction ms arbitrary: i d)
     (auto split: sum.splits intro: evolves_refl evolves_frame dest: evolves_insert_message)

lemma evolves_synthetic: "insert_synthetic_tool_results ids now sid d = Inr (n, d') \<Longrightarrow> evolves (=) d d'"
  by (auto simp: insert_synthetic_tool_results_def Let_def split: sum.splits intro: evolves_insert_chunks)

lemma evolves_log: "log_event_tx now sid e p d = Inr d' \<Longrightarrow> evolves (=) d d'"
  by (auto simp: log_event_tx_def split: sum.splits intro: evolves_frame evolves_touch
      dest: evolves_insert_timeline)

lemma evolves_interrupt_rows:
  "(\<And>m. P m \<Longrightarrow> m_status m = ''streaming'') \<Longrightarrow>
   evolves (=) d (d\<lparr>messages := update_where P interrupt_row (messages d)\<rparr>)"
  by (rule evolves_update_messages)
     (simp_all add: interrupt_text_ok, simp add: message_evolves_def row_status_moves_def interrupt_row_def)

lemma evolves_terminated:
  assumes "cleanup_session_terminated ids now sid target reason d = Inr (b, d')" "status_known (Some target)"
  shows "evolves only_ends d d'"
proof (cases "sid \<in> set (running_ids d)")
  case False
  then show ?thesis using assms unfolding terminated_unfold by (auto intro: evolves_ends evolves_refl)
next
  case True
  let ?d1 = "update_session sid (\<lambda>s. s_run_status s = Some ''running'') (\<lambda>s. s\<lparr>s_run_status := Some target\<rparr>) d"
  have "evolves only_ends d ?d1"
    by (rule evolves_update_session) (use assms(2) in \<open>auto simp: session_evolves_def only_ends_def\<close>)
  moreover have "evolves (=) ?d1 (terminate_claim sid target d)"
    unfolding terminate_claim_def cleanup_session_streaming_messages_def Let_def snd_conv
    by (rule evolves_interrupt_rows) simp
  moreover have "evolves (=) (terminate_claim sid target d) d'"
    using assms True unfolding terminated_unfold
    by (auto split: sum.splits prod.splits intro: evolves_frame dest: evolves_synthetic evolves_log)
  ultimately show ?thesis by (blast intro: evolves_ends_trans evolves_ends)
qed

lemma evolves_cleanup_each: "evolves only_ends d (cleanup_each ids now reason sids d)"
  by (induction sids arbitrary: d)
     (auto split: sum.splits intro: evolves_ends evolves_refl evolves_ends_trans
       dest: evolves_terminated [OF _ status_known_simps(4)])

lemmas evolve_intros =
  evolves_moves evolves_refl evolves_insert_session evolves_insert_timeline evolves_touch evolves_insert_message
  evolves_insert_missing evolves_insert_seed evolves_synthetic evolves_log ends_moves evolves_cleanup_each
  evolves_terminated

section \<open>Operations\<close>

text \<open>One-column updates of a session.\<close>

lemma evolves_session_columns:
  "evolves (=) d (update_session sid P (\<lambda>s. s\<lparr>s_end_reason := x\<rparr>) d)"
  "evolves (=) d (update_session sid P (\<lambda>s. s\<lparr>s_last_message_at := t\<rparr>) d)"
  "evolves (=) d (update_session sid P (\<lambda>s. s\<lparr>s_last_extracted_at := u\<rparr>) d)"
  "evolves (=) d (update_session sid P (\<lambda>s. s\<lparr>s_chat_id := c\<rparr>) d)"
  "evolves (=) d (update_session sid P (\<lambda>s. s\<lparr>s_participants := s_participants s @ ns\<rparr>) d)"
  "evolves (=) d (update_session sid (\<lambda>s. s_title s = None) (\<lambda>s. s\<lparr>s_title := v\<rparr>) d)"
  by (rule evolves_update_session; simp add: session_evolves_def keeps_session_keys_def)+

lemma evolves_set_status:
  assumes "\<And>s. s_id s = sid \<Longrightarrow> P s \<Longrightarrow> status_moves (s_run_status s) (Some st)"
  shows "evolves status_moves d (update_session sid P (\<lambda>s. s\<lparr>s_run_status := Some st\<rparr>) d)"
  by (rule evolves_update_session) (use assms in \<open>auto simp: session_evolves_def status_moves_def\<close>)

lemma evolves_set_running: "evolves status_moves d (update_session sid P set_running d)"
  by (rule evolves_update_session) (auto simp: session_evolves_def status_moves_def set_running_def)

lemma evolves_charge_retry: "charge_retry sid P d = Inr (r, d') \<Longrightarrow> evolves status_moves d d'"
proof -
  have "evolves status_moves d (update_session sid P
      (\<lambda>s. s\<lparr>s_retry_count := s_retry_count s + 1, s_run_status := Some ''running''\<rparr>) d)"
    by (rule evolves_update_session) (auto simp: session_evolves_def status_moves_def keeps_session_keys_def)
  then show "charge_retry sid P d = Inr (r, d') \<Longrightarrow> evolves status_moves d d'"
    unfolding charge_retry_def by (auto split: option.splits if_splits intro: evolves_moves evolves_refl)
qed

lemma evolves_stale: "evolves status_moves d (snd (finalize_truly_stale_sessions now secs d))"
  unfolding finalize_truly_stale_sessions_def Let_def snd_conv
  by (rule evolves_update_sessions) (auto simp: session_evolves_def status_moves_def keeps_session_keys_def)

lemma evolves_update_message:
  assumes "\<And>m. message_evolves m (f m)" "keeps_message_keys f"
    "\<And>m. m_id m = i \<Longrightarrow> message_text_ok m \<Longrightarrow> message_text_ok (f m)"
  shows "evolves (=) d (update_message i f d)"
  unfolding update_message_def using assms by (intro evolves_update_messages) auto

lemma evolves_upsert:
  assumes "upsert_streaming_message now i sid agent content tc d = Inr d'"
  shows "evolves (=) d d'"
proof -
  let ?row = "(new_message i sid ''assistant'' content now)
    \<lparr>m_tool_calls := tc, m_agent_id := Some agent, m_status := ''streaming'',
     m_parent_message_id := map_option m_id (latest_user_message sid d)\<rparr>"
  have row_text: "message_text_ok ?row" if "insert_message ?row d \<noteq> Inl NulInText"
    using that by (auto simp: insert_message_def split: if_splits)
  have upd: "evolves (=) d (update_message i (\<lambda>m. m\<lparr>m_content := content, m_tool_calls := tc\<rparr>) d)"
    if "message_text_ok ?row"
    using that by (intro evolves_update_message)
      (auto simp: message_evolves_def keeps_message_keys_def message_text_ok_def new_message_def)
  show ?thesis
    using assms row_text upd unfolding upsert_streaming_message_def Let_def
    by (auto split: sum.splits db_error.splits intro: evolves_frame evolves_touch
        dest: evolves_insert_message)
qed

lemma deletes_intros:
  "deletes d (delete_messages P d)" "deletes d (delete_sessions S d)"
  "deletes d (d\<lparr>timeline := filter R (timeline d)\<rparr>)" "deletes d d"
  unfolding deletes_def by (auto intro: exI [of _ "\<lambda>_. True"])

lemma evolves_messages_column:
  assumes "\<And>m. message_evolves m (f m)" "keeps_message_keys f" "\<And>m. message_text_ok (f m) = message_text_ok m"
  shows "evolves (=) d (d\<lparr>messages := update_where P f (messages d)\<rparr>)"
  by (rule evolves_update_messages) (use assms in auto)

lemma evolves_creators:
  "get_or_create_session fresh now agent user channel scope chat d = Inr (r, d') \<Longrightarrow> evolves (=) d d'"
  "create_new_session fresh now agent user channel d = Inr (q, d') \<Longrightarrow> evolves (=) d d'"
  "create_new_session_with_id fresh now agent user channel d = Inr (q, d') \<Longrightarrow> evolves (=) d d'"
  "create_chain_session fresh now parent agent user channel title d = Inr (q, d') \<Longrightarrow> evolves (=) d d'"
  by (auto simp: get_or_create_session_def create_new_session_def create_new_session_with_id_def
      create_chain_session_def Let_def evolves_refl new_session_row_def
      split: option.splits sum.splits db_error.splits dest!: evolves_insert_session)

lemma evolves_savers:
  "save_message_ex fresh now sid role content tc tcid agent th parent d = Inr (r, d') \<Longrightarrow> evolves (=) d d'"
  "save_message_ex_with_id i now sid role content tc tcid agent th parent batch stp d = Inr d' \<Longrightarrow> evolves (=) d d'"
  "save_message_branched fresh now sid role content tc tcid agent th parent br d = Inr (r, d') \<Longrightarrow> evolves (=) d d'"
  "insert_assistant_partial fresh now sid ag content why parent d = Inr (r, d') \<Longrightarrow> evolves (=) d d'"
  "mirror_to_session fresh now name channel who chat words d = Inr (b, d') \<Longrightarrow> evolves (=) d d'"
  by (auto simp: save_message_ex_def save_message_ex_with_id_def save_message_branched_def
      insert_assistant_partial_def mirror_to_session_def evolves_refl
      split: if_splits option.splits sum.splits db_error.splits dest: evolves_insert_message)

lemma evolves_session_writers:
  "set_session_end_reason sid reason d = Inr d' \<Longrightarrow> evolves (=) d d'"
  "auto_title_session sid words d = Inr d' \<Longrightarrow> evolves (=) d d'"
  "resume_session now sid d = Inr (r, d') \<Longrightarrow> evolves (=) d d'"
  "add_participant sid name d = Inr (ns, d') \<Longrightarrow> evolves (=) d d'"
  by (auto simp: set_session_end_reason_def auto_title_session_def resume_session_def add_participant_def
      Let_def evolves_refl evolves_session_columns split: if_splits option.splits)

lemma evolves_message_writers:
  "evolves (=) d (update_message_step_id i n d)"
  "prepend_message_content i pre d = Inr d' \<Longrightarrow> evolves (=) d d'"
  "evolves (=) d (mark_messages_compressed is d)"
  "evolves (=) d (snd (toggle_bookmark now i agent on d))"
  unfolding update_message_step_id_def prepend_message_content_def mark_messages_compressed_def
    toggle_bookmark_def Let_def snd_conv
  by (auto split: if_splits intro!: evolves_update_message evolves_messages_column
      simp: message_evolves_def keeps_message_keys_def message_text_ok_def pg_text_ok_def evolves_refl)

lemma evolves_status_writers:
  "evolves status_moves d (set_session_run_status sid (as_status_str st) d)"
  "evolves status_moves d (snd (claim_session_for_reentry sid mode d))"
  "evolves status_moves d (mark_session_failed sid d)"
  "increment_retry_count sid d = Inr (r, d') \<Longrightarrow> evolves status_moves d d'"
  "claim_redrive sid n d = Inr (r, d') \<Longrightarrow> evolves status_moves d d'"
  unfolding set_session_run_status_def claim_session_for_reentry_def mark_session_failed_def Let_def snd_conv
  by (auto intro!: evolves_set_status evolves_set_running simp: status_moves_def
      increment_retry_count_def claim_redrive_def dest: evolves_charge_retry)

lemma evolves_batches:
  "evolves status_moves d (snd (cleanup_session_streaming_messages sid d))"
  "evolves status_moves d (snd (cleanup_interrupted_sessions ids now d))"
  "evolves status_moves d (snd (mark_all_running_sessions_terminated ids now reason d))"
proof -
  show "evolves status_moves d (snd (cleanup_session_streaming_messages sid d))"
    unfolding cleanup_session_streaming_messages_def Let_def snd_conv
    by (rule evolves_moves, rule evolves_interrupt_rows) simp
  have clear: "evolves (=) e (clear_stream_status e)" for e
    unfolding clear_stream_status_def
    by (rule evolves_update_sessions) (simp_all add: session_evolves_def keeps_session_keys_def)
  have orphan: "evolves (=) d (repair_orphan_streaming d)"
    unfolding repair_orphan_streaming_def by (rule evolves_interrupt_rows) simp
  show "evolves status_moves d (snd (cleanup_interrupted_sessions ids now d))"
    unfolding cleanup_interrupted_sessions_def Let_def snd_conv
    by (rule ends_moves, rule evolves_ends_trans [OF evolves_ends [OF orphan]],
        rule evolves_ends_trans [OF evolves_cleanup_each evolves_ends [OF clear]])
  show "evolves status_moves d (snd (mark_all_running_sessions_terminated ids now reason d))"
    unfolding mark_all_running_sessions_terminated_def Let_def snd_conv
    by (rule ends_moves) (rule evolves_cleanup_each)
qed

lemma deleting_operations:
  "deletes d (delete_session sid d)"
  "deletes d (snd (cleanup_old_sessions now ttl d))"
  "deletes d (snd (cleanup_excess_sessions_per_agent cap d))"
  "deletes d (finalize_streaming_message i d)"
  "deletes d (snd (delete_empty_assistant_messages sid d))"
  "deletes d (snd (trim_session_messages sid cap d))"
  "deletes d (snd (sweep_orphan_tool_results d))"
  "deletes d (snd (sweep_orphan_tool_results_for_session sid d))"
  by (simp_all add: delete_session_def cleanup_old_sessions_def cleanup_excess_sessions_per_agent_def
      finalize_streaming_message_def delete_empty_assistant_messages_def trim_session_messages_def
      sweep_orphan_tool_results_def sweep_orphan_tool_results_for_session_def Let_def deletes_intros)

lemma deletes_prune:
  "db_ok d \<Longrightarrow> prune_old_events_batched now days batch d = Some (Inr (n, d')) \<Longrightarrow> deletes d d'"
  using prune_loop_effect [of d "nat batch" now days 0]
  by (auto simp: prune_old_events_batched_def db_ok_def split: if_splits intro: deletes_intros)

text \<open>Every step evolves the tables or deletes rows.\<close>

lemmas step_evolves =
  evolves_creators [THEN evolves_moves] evolves_savers [THEN evolves_moves]
  evolves_session_writers [THEN evolves_moves] evolves_message_writers(2) [THEN evolves_moves]
  evolves_status_writers(4,5) evolves_upsert [THEN evolves_moves] evolves_log [THEN evolves_moves]
  evolves_synthetic [THEN evolves_moves] evolves_terminated [OF _ status_known_simps(2), THEN ends_moves]

lemmas step_evolves_total =
  evolves_message_writers(1,3,4) [THEN evolves_moves] evolves_status_writers(1-3) evolves_batches evolves_stale
  evolves_touch [THEN evolves_moves] evolves_insert_missing [THEN evolves_moves]

lemma step_effect:
  assumes "db_ok d" "db_step d d'"
  shows "evolves status_moves d d' \<or> deletes d d'"
  using assms(2,1)
proof (induction rule: db_step.induct)
  case st_seed
  then show ?case by (simp add: insert_seed_messages_def evolves_moves evolves_insert_seed)
next
  case st_extracted
  then show ?case by (simp add: set_last_extracted_at_def evolves_moves evolves_session_columns)
next
  case st_chat_id
  then show ?case by (simp add: set_session_chat_id_def evolves_moves evolves_session_columns)
next
  case st_compression
  then show ?case by (auto simp: insert_compression_event_def intro: evolves_moves evolves_insert_timeline)
next
  case st_prune
  then show ?case using deletes_prune by blast
qed ((rule disjI1, (erule step_evolves | rule step_evolves_total)) | (rule disjI2, rule deleting_operations))+

section \<open>Rows that survive a step\<close>

lemma clear_ref_kept [simp]: "ref_kept x (clear_ref gone x)"
  by (auto simp: ref_kept_def clear_ref_def split: option.splits)

lemma evolves_cleared:
  "session_evolves (=) s (s\<lparr>s_parent_session_id := clear_ref g (s_parent_session_id s)\<rparr>)"
  "session_evolves (=) s s"
  "message_evolves m (m\<lparr>m_parent_message_id := clear_ref g (m_parent_message_id m),
     m_branch_from_message_id := clear_ref h (m_branch_from_message_id m)\<rparr>)"
  by (simp_all add: session_evolves_def message_evolves_def)

lemma delete_sessions_rows:
  assumes "s' \<in> set (sessions (delete_sessions P d))"
  shows "\<exists>s \<in> set (sessions d). session_evolves (=) s s'"
proof -
  let ?g = "\<lambda>i. \<exists>s \<in> set (sessions d). s_id s = i \<and> P s"
  obtain s where "s \<in> set (sessions d)"
    "s' = s\<lparr>s_parent_session_id := clear_ref ?g (s_parent_session_id s)\<rparr>"
    using assms unfolding delete_sessions_def Let_def by auto
  then show ?thesis using evolves_cleared(1) by blast
qed

lemma messages_delete_sessions:
  "messages (delete_sessions P d)
     = messages (delete_messages (\<lambda>m. \<exists>s \<in> set (sessions d). s_id s = m_session_id m \<and> P s) d)"
  by (simp add: delete_sessions_def Let_def)

lemma deletes_sessions:
  "deletes d d' \<Longrightarrow> s' \<in> set (sessions d') \<Longrightarrow> \<exists>s \<in> set (sessions d). session_evolves (=) s s'"
  unfolding deletes_def
  by (elim disjE exE) (auto dest: delete_sessions_rows intro: bexI [of _ s'] simp: evolves_cleared(2))

lemma delete_messages_rows:
  assumes "m' \<in> set (messages (delete_messages P d))"
  shows "\<exists>m \<in> set (messages d). message_evolves m m'"
proof -
  let ?g = "\<lambda>i. \<exists>m \<in> set (messages d). m_id m = i \<and> P m"
  obtain m where "m \<in> set (messages d)"
    "m' = m\<lparr>m_parent_message_id := clear_ref ?g (m_parent_message_id m),
            m_branch_from_message_id := clear_ref ?g (m_branch_from_message_id m)\<rparr>"
    using assms unfolding delete_messages_def Let_def by auto
  then show ?thesis using evolves_cleared(3) by blast
qed

lemma deletes_messages:
  "deletes d d' \<Longrightarrow> m' \<in> set (messages d') \<Longrightarrow> \<exists>m \<in> set (messages d). message_evolves m m'"
  unfolding deletes_def
  by (elim disjE exE) (auto dest: delete_messages_rows intro: bexI [of _ m'] simp: messages_delete_sessions)

lemma grows_key:
  assumes "grows R xs ys" "distinct (map k ys)" "\<And>a b. R a b \<Longrightarrow> k b = k a"
    "x \<in> set xs" "y \<in> set ys" "k y = k x"
  shows "R x y"
proof -
  obtain us vs where ys: "ys = us @ vs" "list_all2 R xs us" using assms(1) by (auto simp: grows_def)
  obtain i where i: "i < length xs" "x = xs ! i" using assms(4) by (auto simp: in_set_conv_nth)
  then have "R x (us ! i)" "us ! i \<in> set ys" using ys by (auto simp: list_all2_conv_all_nth)
  moreover have "us ! i = y"
    using assms(2,3,5,6) calculation by (metis (no_types, lifting) distinct_map inj_onD)
  ultimately show ?thesis by simp
qed

lemma deletes_ok: "tables_ok d \<Longrightarrow> deletes d d' \<Longrightarrow> tables_ok d'"
proof -
  assume ok: "tables_ok d" and del: "deletes d d'"
  have "db_ok d'"
    using ok del unfolding deletes_def tables_ok_def
    by (auto intro: db_ok_delete_messages db_ok_delete_sessions) (auto simp: db_ok_def distinct_map_filter)
  moreover have "status_known (s_run_status s')" if "s' \<in> set (sessions d')" for s'
    using deletes_sessions [OF del that] ok by (auto simp: session_evolves_def tables_ok_def)
  ultimately show ?thesis by (simp add: tables_ok_def)
qed

lemma session_evolves_moves: "session_evolves (=) s s' \<Longrightarrow> session_evolves status_moves s s'"
  by (erule session_evolves_mono) (simp add: status_moves_def)

lemma tables_db_ok: "tables_ok d \<Longrightarrow> db_ok d"
  by (simp add: tables_ok_def)

lemma step_ok: "tables_ok d \<Longrightarrow> db_step d d' \<Longrightarrow> tables_ok d'"
  using step_effect [OF tables_db_ok] deletes_ok by (auto simp: evolves_def)

lemma empty_ok: "tables_ok empty_db"
  by (simp add: tables_ok_def) (simp add: empty_db_def)

lemma reachable_ok: "db_reachable d \<Longrightarrow> tables_ok d"
  by (induction rule: db_reachable.induct) (auto intro: step_ok empty_ok)

lemma step_session:
  assumes "tables_ok d" "db_step d d'" "s \<in> set (sessions d)" "s' \<in> set (sessions d')" "s_id s' = s_id s"
  shows "session_evolves status_moves s s'"
  using step_effect [OF tables_db_ok [OF assms(1)] assms(2)]
proof
  assume "evolves status_moves d d'"
  then show ?thesis
    using step_ok [OF assms(1,2)] assms(3-5)
    by (intro grows_key [of "session_evolves status_moves" "sessions d" "sessions d'" s_id])
       (simp_all add: evolves_def tables_ok_def db_ok_def session_evolves_def)
next
  assume "deletes d d'"
  then obtain t where "t \<in> set (sessions d)" "session_evolves (=) t s'" using deletes_sessions assms(4) by blast
  moreover have "t = s"
    using calculation tables_db_ok [OF assms(1)] assms(3,5) by (auto simp: session_evolves_def intro: unique_session)
  ultimately show ?thesis using session_evolves_moves by simp
qed

lemma step_message:
  assumes "tables_ok d" "db_step d d'" "m \<in> set (messages d)" "m' \<in> set (messages d')" "m_id m' = m_id m"
  shows "message_evolves m m'"
  using step_effect [OF tables_db_ok [OF assms(1)] assms(2)]
proof
  assume "evolves status_moves d d'"
  then show ?thesis
    using step_ok [OF assms(1,2)] assms(3-5)
    by (intro grows_key [of message_evolves "messages d" "messages d'" m_id])
       (simp_all add: evolves_def tables_ok_def db_ok_def message_evolves_def)
next
  assume "deletes d d'"
  then obtain n where "n \<in> set (messages d)" "message_evolves n m'" using deletes_messages assms(4) by blast
  moreover have "n = m"
    using calculation tables_db_ok [OF assms(1)] assms(3,5) by (auto simp: message_evolves_def intro: unique_message)
  ultimately show ?thesis by simp
qed

section \<open>Theorems\<close>

lemma status_known_iff: "status_known x \<longleftrightarrow> x = None \<or> (\<exists>a. x = Some (as_status_str a))"
  by (cases x) (auto simp: status_known_def parse_status_Some)

text \<open>A status write in the terms of the enumeration.\<close>

definition lifecycle_move :: "string option \<Rightarrow> string option \<Rightarrow> bool" where
  "lifecycle_move x y \<longleftrightarrow>
     y = x \<or> (\<exists>b. y = Some (as_status_str b)
       \<and> (x = None \<or> (\<exists>a. x = Some (as_status_str a) \<and> (can_transition_to a b \<or> a = Done \<and> b = Running))))"

lemma status_moves_lifecycle:
  assumes "status_moves x y" "status_known x"
  shows "lifecycle_move x y"
proof (cases "y = x \<or> x = None")
  case True
  then show ?thesis using assms by (auto simp: status_moves_def status_known_iff lifecycle_move_def)
next
  case False
  then obtain a b where ab: "x = Some (as_status_str a)" "y = Some (as_status_str b)"
    using assms by (auto simp: status_moves_def status_known_iff)
  have "as_status_str a = as_status_str Running \<or> as_status_str b = as_status_str Running"
    using assms(1) False unfolding ab status_moves_def by simp
  then have "can_transition_to a b \<or> a = Done \<and> b = Running"
    unfolding as_status_str_inj by (cases a) auto
  then show ?thesis using ab by (auto simp: lifecycle_move_def)
qed


definition opened_db :: db where
  "opened_db = empty_db\<lparr>sessions := [new_session_row 1 ''a'' ''u'' ''web'' 0]\<rparr>"

definition running_db :: db where
  "running_db = snd (claim_session_for_reentry 1 NewSession opened_db)"

lemma opened_reachable: "db_reachable opened_db"
proof (rule reach_step [OF reach_empty])
  show "db_step empty_db opened_db"
    by (rule st_create [of 1 0 "''a''" "''u''" "''web''" _ 1])
       (simp add: create_new_session_def insert_session_def pg_text_ok_def opt_ok_def
         opened_db_def empty_db_def session_exists_def new_session_row_def)
qed

lemma running_reachable: "db_reachable running_db"
  unfolding running_db_def by (rule reach_step [OF opened_reachable st_claim])



definition turn_db :: db where
  "turn_db = set_session_run_status 1 (as_status_str Done) running_db"


text \<open>C3. A transcript is append-only: a message that is in the tables before and after a step keeps its
  session, role, time, author, tool-call identifier and thinking blocks, stays compressed once it is,
  keeps its parent or loses it with the parent's deletion, and changes its status only from
  \<open>streaming\<close> to \<open>interrupted\<close>.\<close>

theorem transcript_rows_are_stable:
  assumes "db_reachable d" "db_step d d'" "m \<in> set (messages d)" "m' \<in> set (messages d')" "m_id m' = m_id m"
  shows "m_session_id m' = m_session_id m \<and> m_role m' = m_role m \<and> m_created_at m' = m_created_at m
     \<and> m_agent_id m' = m_agent_id m \<and> m_tool_call_id m' = m_tool_call_id m
     \<and> m_thinking_blocks m' = m_thinking_blocks m \<and> (m_compressed m \<longrightarrow> m_compressed m')
     \<and> (m_parent_message_id m' = m_parent_message_id m \<or> m_parent_message_id m' = None)
     \<and> (m_status m' = m_status m \<or> m_status m = ''streaming'' \<and> m_status m' = ''interrupted'')"
  using step_message [OF reachable_ok [OF assms(1)] assms(2-5)]
  by (simp add: message_evolves_def ref_kept_def row_status_moves_def)

definition spoken_db :: db where
  "spoken_db = projr (upsert_streaming_message 5 11 1 ''a'' ''hel'' None running_db)"

theorem transcript_rows_are_stable_witness:
  "map m_status (messages spoken_db) = [''streaming'']
   \<and> map m_status (messages (snd (cleanup_session_streaming_messages 1 spoken_db))) = [''interrupted'']
   \<and> m_role (hd (messages (snd (cleanup_session_streaming_messages 1 spoken_db)))) = ''assistant''"
proof -
  let ?d = "snd (cleanup_session_streaming_messages 1 spoken_db)"
  have up: "upsert_streaming_message 5 11 1 ''a'' ''hel'' None running_db = Inr spoken_db"
    and m: "messages spoken_db = [(new_message 11 1 ''assistant'' ''hel'' 5)\<lparr>m_agent_id := Some ''a'', m_status := ''streaming''\<rparr>]"
    by (simp_all add: spoken_db_def running_db_def opened_db_def claim_session_for_reentry_def update_session_def
        set_running_def new_session_row_def upsert_streaming_message_def insert_message_def message_text_ok_def
        new_message_def pg_text_ok_def opt_ok_def message_exists_def session_exists_def empty_db_def
        latest_user_message_def order_desc_def touch_last_message_def touch_session_activity_def)
  have reach: "db_reachable spoken_db" by (rule reach_step [OF running_reachable st_upsert [OF up]])
  have m': "messages ?d = [interrupt_row (hd (messages spoken_db))]"
    by (simp add: cleanup_session_streaming_messages_def m new_message_def)
  show ?thesis
    using transcript_rows_are_stable [OF reach st_streaming, of "hd (messages spoken_db)" "hd (messages ?d)" 1]
    unfolding m' by (simp add: m new_message_def interrupt_row_def)
qed

end
