(* ===== verification/Session_Guard.thy ===== *)
theory Session_Guard
  imports Session_Repair
begin

text \<open>
  The owner of a running turn: \<open>SessionLifecycleGuard\<close> of \<open>agent/session_manager.rs\<close>, which ends the
  session when the turn ends, fails, is interrupted or just disappears; the table of stream jobs that
  tells a turn whether a newer turn of the same session has replaced it (\<open>gateway/stream_jobs.rs\<close>);
  and the log of failures (\<open>opex-db/src/session_failures.rs\<close>).

  The state is the tables of \<^const>\<open>db_ok\<close> together with the two tables of this theory.  A \<open>link\<close>
  says which of the database calls of one operation get through; a call that does not leaves the
  tables as they were.  \<open>env\<close> is what other connections do between the ownership check of an
  operation and its write.  The cascade of a deleted session to its jobs and failures is not modelled.
\<close>

section \<open>Tables\<close>

record StreamJob =
  sj_id :: uuid
  sj_session_id :: uuid
  sj_agent_id :: string
  sj_status :: string
  sj_aggregated_text :: string
  sj_tool_calls :: json
  sj_error_text :: "string option"
  sj_created_at :: timestamp
  sj_finished_at :: "timestamp option"

record NewSessionFailure =
  nf_session_id :: uuid
  nf_agent_id :: string
  nf_failure_kind :: string
  nf_error_message :: string
  nf_last_tool_name :: "string option"
  nf_last_tool_output :: "string option"
  nf_llm_provider :: "string option"
  nf_llm_model :: "string option"
  nf_iteration_count :: "int option"
  nf_duration_secs :: "int option"
  nf_context_json :: "json option"

text \<open>A row of the log: the input with its identifier and time.\<close>

record SessionFailureRecord = NewSessionFailure +
  fr_id :: uuid
  fr_failed_at :: timestamp

record store =
  st_db :: db
  st_jobs :: "StreamJob list"
  st_failures :: "SessionFailureRecord list"

section \<open>Stream jobs\<close>

definition create_job :: "uuid \<Rightarrow> timestamp \<Rightarrow> uuid \<Rightarrow> string \<Rightarrow> store \<Rightarrow> db_error + (uuid \<times> store)" where
  "create_job fresh now session_id agent_id st =
     (if \<not> pg_text_ok agent_id then Inl NulInText
      else if fresh \<in> sj_id ` set (st_jobs st) then Inl UniqueViolation
      else if \<not> session_exists (st_db st) session_id then Inl ForeignKeyViolation
      else Inr (fresh, st\<lparr>st_jobs := st_jobs st @
             [\<lparr>sj_id = fresh, sj_session_id = session_id, sj_agent_id = agent_id, sj_status = ''running'',
               sj_aggregated_text = [], sj_tool_calls = JArr [], sj_error_text = None,
               sj_created_at = now, sj_finished_at = None\<rparr>]\<rparr>))"

definition update_job :: "uuid \<Rightarrow> (StreamJob \<Rightarrow> StreamJob) \<Rightarrow> store \<Rightarrow> store" where
  "update_job job_id f st = st\<lparr>st_jobs := update_where (\<lambda>j. sj_id j = job_id) f (st_jobs st)\<rparr>"

definition set_content :: "uuid \<Rightarrow> string \<Rightarrow> json list \<Rightarrow> store \<Rightarrow> db_error + store" where
  "set_content job_id words tools st =
     (if pg_text_ok words \<and> json_text_ok (JArr tools)
      then Inr (update_job job_id (\<lambda>j. j\<lparr>sj_aggregated_text := words, sj_tool_calls := JArr tools\<rparr>) st)
      else Inl NulInText)"

definition finish_job :: "timestamp \<Rightarrow> uuid \<Rightarrow> store \<Rightarrow> store" where
  "finish_job now job_id st =
     update_job job_id (\<lambda>j. j\<lparr>sj_status := ''finished'', sj_finished_at := Some now\<rparr>) st"

definition error_job :: "timestamp \<Rightarrow> uuid \<Rightarrow> string \<Rightarrow> store \<Rightarrow> db_error + store" where
  "error_job now job_id error st =
     (if pg_text_ok error
      then Inr (update_job job_id
             (\<lambda>j. j\<lparr>sj_status := ''error'', sj_finished_at := Some now, sj_error_text := Some error\<rparr>) st)
      else Inl NulInText)"

definition two_minutes :: int where "two_minutes = 120 * 1000000"
definition one_hour :: int where "one_hour = 3600 * 1000000"

definition get_active_job :: "timestamp \<Rightarrow> uuid \<Rightarrow> store \<Rightarrow> StreamJob option" where
  "get_active_job now session_id st =
     first_row (order_desc sj_created_at
       (filter (\<lambda>j. sj_session_id j = session_id \<and> now - two_minutes < sj_created_at j) (st_jobs st)))"

definition is_superseded :: "uuid \<Rightarrow> store \<Rightarrow> bool" where
  "is_superseded job_id st \<longleftrightarrow>
     list_ex (\<lambda>mine. sj_id mine = job_id
        \<and> list_ex (\<lambda>later. sj_session_id later = sj_session_id mine \<and> sj_created_at mine < sj_created_at later)
             (st_jobs st)) (st_jobs st)"

definition job_expired :: "timestamp \<Rightarrow> StreamJob \<Rightarrow> bool" where
  "job_expired now j \<longleftrightarrow>
     (case sj_finished_at j of
        Some f \<Rightarrow> f < now - one_hour
      | None \<Rightarrow> sj_created_at j < now - one_hour)"

definition cleanup_old_jobs :: "timestamp \<Rightarrow> store \<Rightarrow> nat \<times> store" where
  "cleanup_old_jobs now st =
     (rows_affected (job_expired now) (st_jobs st),
      st\<lparr>st_jobs := filter (\<lambda>j. \<not> job_expired now j) (st_jobs st)\<rparr>)"

section \<open>Failure log\<close>

definition MAX_TOOL_OUTPUT_BYTES :: nat where "MAX_TOOL_OUTPUT_BYTES = 2048"

definition truncate_tool_output :: "string \<Rightarrow> string" where
  "truncate_tool_output s =
     (if length s \<le> MAX_TOOL_OUTPUT_BYTES then s
      else take (floor_char_boundary s MAX_TOOL_OUTPUT_BYTES) s)"

definition failure_text_ok :: "NewSessionFailure \<Rightarrow> bool" where
  "failure_text_ok f \<longleftrightarrow>
     pg_text_ok (nf_agent_id f) \<and> pg_text_ok (nf_failure_kind f) \<and> pg_text_ok (nf_error_message f)
     \<and> opt_ok pg_text_ok (nf_last_tool_name f) \<and> opt_ok pg_text_ok (nf_last_tool_output f)
     \<and> opt_ok pg_text_ok (nf_llm_provider f) \<and> opt_ok pg_text_ok (nf_llm_model f)
     \<and> opt_ok json_text_ok (nf_context_json f)"

definition record_session_failure ::
  "uuid \<Rightarrow> timestamp \<Rightarrow> NewSessionFailure \<Rightarrow> store \<Rightarrow> db_error + (uuid \<times> store)" where
  "record_session_failure fresh now input st =
     (let f = input\<lparr>nf_last_tool_output := map_option truncate_tool_output (nf_last_tool_output input)\<rparr>
      in if \<not> failure_text_ok f then Inl NulInText
         else if fresh \<in> fr_id ` set (st_failures st) then Inl UniqueViolation
         else if \<not> session_exists (st_db st) (nf_session_id f) then Inl ForeignKeyViolation
         else Inr (fresh, st\<lparr>st_failures := st_failures st @
                [NewSessionFailure.extend f \<lparr>fr_id = fresh, fr_failed_at = now\<rparr>]\<rparr>))"

definition failure_of_agent :: "string option \<Rightarrow> SessionFailureRecord \<Rightarrow> bool" where
  "failure_of_agent agent_id f = (case agent_id of None \<Rightarrow> True | Some a \<Rightarrow> nf_agent_id f = a)"

definition list_session_failures ::
  "string option \<Rightarrow> int \<Rightarrow> int \<Rightarrow> store \<Rightarrow> db_error + SessionFailureRecord list" where
  "list_session_failures agent_id limit offset st =
     (if limit < 0 \<or> offset < 0 then Inl NegativeLimit
      else Inr (take (nat limit) (drop (nat offset)
        (order_desc fr_failed_at (filter (failure_of_agent agent_id) (st_failures st))))))"

definition count_session_failures :: "string option \<Rightarrow> store \<Rightarrow> nat" where
  "count_session_failures agent_id st = rows_affected (failure_of_agent agent_id) (st_failures st)"

definition get_session_failures_for_session :: "uuid \<Rightarrow> store \<Rightarrow> SessionFailureRecord list" where
  "get_session_failures_for_session session_id st =
     order_asc fr_failed_at (filter (\<lambda>f. nf_session_id f = session_id) (st_failures st))"

section \<open>The guard\<close>

datatype SessionOutcome = OutRunning | OutDone | OutFailed | OutInterrupted

record SessionLifecycleGuard =
  g_session_id :: uuid
  g_outcome :: SessionOutcome
  g_agent_id :: "string option"
  g_recorded :: bool
  g_stream_job_id :: "uuid option"

definition new_guard :: "uuid \<Rightarrow> SessionLifecycleGuard" where
  "new_guard session_id =
     \<lparr>g_session_id = session_id, g_outcome = OutRunning, g_agent_id = None, g_recorded = False,
      g_stream_job_id = None\<rparr>"

definition set_stream_job_id :: "uuid option \<Rightarrow> SessionLifecycleGuard \<Rightarrow> SessionLifecycleGuard" where
  "set_stream_job_id i g = g\<lparr>g_stream_job_id := i\<rparr>"

definition with_agent :: "string \<Rightarrow> SessionLifecycleGuard \<Rightarrow> SessionLifecycleGuard" where
  "with_agent a g = g\<lparr>g_agent_id := Some a\<rparr>"

record link =
  check_up :: bool
  write_up :: bool
  log_up :: bool
  fail_up :: bool

definition superseded_by_newer_turn :: "link \<Rightarrow> SessionLifecycleGuard \<Rightarrow> store \<Rightarrow> bool" where
  "superseded_by_newer_turn l g st =
     (case g_stream_job_id g of Some job_id \<Rightarrow> check_up l \<and> is_superseded job_id st | None \<Rightarrow> False)"

definition skip_terminal_write_if_superseded ::
  "link \<Rightarrow> SessionLifecycleGuard \<Rightarrow> store \<Rightarrow> bool \<times> SessionLifecycleGuard" where
  "skip_terminal_write_if_superseded l g st =
     (if \<not> superseded_by_newer_turn l g st then (False, g)
      else (True, g\<lparr>g_recorded := True, g_outcome := OutInterrupted\<rparr>))"

text \<open>\<open>log_event\<close>, whose errors the guard only logs.\<close>

definition log_event :: "timestamp \<Rightarrow> uuid \<Rightarrow> string \<Rightarrow> json option \<Rightarrow> db \<Rightarrow> db_error + db" where
  "log_event now session_id event_type payload d = log_event_tx now session_id event_type payload d"

definition try_log :: "link \<Rightarrow> timestamp \<Rightarrow> uuid \<Rightarrow> string \<Rightarrow> json option \<Rightarrow> db \<Rightarrow> db" where
  "try_log l now sid event payload d =
     (if \<not> log_up l then d
      else case log_event now sid event payload d of Inl e \<Rightarrow> d | Inr d' \<Rightarrow> d')"

text \<open>The common body of \<open>done\<close>, \<open>fail\<close> and \<open>interrupt\<close>.\<close>

definition terminal_write ::
  "SessionOutcome \<Rightarrow> SessionStatus \<Rightarrow> json option \<Rightarrow> link \<Rightarrow> (store \<Rightarrow> store) \<Rightarrow> timestamp
     \<Rightarrow> SessionLifecycleGuard \<times> store \<Rightarrow> SessionLifecycleGuard \<times> store" where
  "terminal_write out status payload l env now gs =
     (let (skip, g) = skip_terminal_write_if_superseded l (fst gs) (snd gs)
      in if skip then (g, snd gs)
         else let g1 = g\<lparr>g_recorded := True\<rparr>;
                  st = env (snd gs);
                  sid = g_session_id g
              in if write_up l
                 then (g1\<lparr>g_outcome := out\<rparr>,
                       st\<lparr>st_db := try_log l now sid (as_status_str status) payload
                              (set_session_run_status sid (as_status_str status) (st_db st))\<rparr>)
                 else (g1, st))"

definition guard_done ::
  "link \<Rightarrow> (store \<Rightarrow> store) \<Rightarrow> timestamp \<Rightarrow> SessionLifecycleGuard \<times> store
     \<Rightarrow> SessionLifecycleGuard \<times> store" where
  "guard_done l env now gs = terminal_write OutDone Done None l env now gs"

definition guard_fail ::
  "string \<Rightarrow> link \<Rightarrow> (store \<Rightarrow> store) \<Rightarrow> timestamp \<Rightarrow> SessionLifecycleGuard \<times> store
     \<Rightarrow> SessionLifecycleGuard \<times> store" where
  "guard_fail reason l env now gs =
     terminal_write OutFailed Failed (Some (JObj [(''reason'', JStr reason)])) l env now gs"

definition guard_interrupt ::
  "string \<Rightarrow> link \<Rightarrow> (store \<Rightarrow> store) \<Rightarrow> timestamp \<Rightarrow> SessionLifecycleGuard \<times> store
     \<Rightarrow> SessionLifecycleGuard \<times> store" where
  "guard_interrupt reason l env now gs =
     terminal_write OutInterrupted Interrupted (Some (JObj [(''reason'', JStr reason)])) l env now gs"

definition dropped_failure :: "uuid \<Rightarrow> string \<Rightarrow> NewSessionFailure" where
  "dropped_failure sid agent =
     \<lparr>nf_session_id = sid, nf_agent_id = agent, nf_failure_kind = ''guard_dropped'',
      nf_error_message = ''guard dropped (early exit)'', nf_last_tool_name = None,
      nf_last_tool_output = None, nf_llm_provider = None, nf_llm_model = None,
      nf_iteration_count = None, nf_duration_secs = None,
      nf_context_json = Some (JObj [(''kind'', JStr ''guard_dropped''),
                                    (''source'', JStr ''session_lifecycle_drop'')])\<rparr>"

definition record_drop ::
  "link \<Rightarrow> uuid \<Rightarrow> timestamp \<Rightarrow> SessionLifecycleGuard \<Rightarrow> store \<Rightarrow> store" where
  "record_drop l fresh now g st =
     (if g_recorded g then st
      else case g_agent_id g of
        None \<Rightarrow> st
      | Some agent \<Rightarrow>
          (if \<not> fail_up l then st
           else case record_session_failure fresh now (dropped_failure (g_session_id g) agent) st of
             Inl e \<Rightarrow> st | Inr (_, st') \<Rightarrow> st'))"

definition drop_claim_status :: "SessionLifecycleGuard \<Rightarrow> SessionStatus" where
  "drop_claim_status g = (if g_recorded g then Failed else Interrupted)"

definition guard_drop ::
  "(db \<Rightarrow> nat \<Rightarrow> uuid) \<Rightarrow> uuid \<Rightarrow> link \<Rightarrow> (store \<Rightarrow> store) \<Rightarrow> timestamp
     \<Rightarrow> SessionLifecycleGuard \<times> store \<Rightarrow> store" where
  "guard_drop gen fresh l env now gs =
     (let g = fst gs; st0 = snd gs
      in if g_outcome g \<noteq> OutRunning \<or> superseded_by_newer_turn l g st0 then st0
         else let st = env st0 in
           if \<not> write_up l then st
           else case cleanup_session_terminated gen now (g_session_id g) (as_status_str (drop_claim_status g))
                       ''guard dropped (early exit)'' (st_db st) of
                  Inl e \<Rightarrow> st
                | Inr (claimed, d) \<Rightarrow>
                    (if claimed then record_drop l fresh now g (st\<lparr>st_db := d\<rparr>) else st\<lparr>st_db := d\<rparr>))"

section \<open>Runs of a guard\<close>

text \<open>The explicit calls of a turn on its guard, and the verdict that they amount to: the first call
  whose write got through, or what \<open>Drop\<close> makes of a turn none of whose writes did.\<close>

datatype guard_op = GDone | GFail string | GInterrupt string

type_synonym guard_event = "guard_op \<times> link \<times> timestamp"

fun op_status :: "guard_op \<Rightarrow> SessionStatus" where
  "op_status GDone = Done"
| "op_status (GFail r) = Failed"
| "op_status (GInterrupt r) = Interrupted"

fun guard_call ::
  "(store \<Rightarrow> store) \<Rightarrow> SessionLifecycleGuard \<times> store \<Rightarrow> guard_event \<Rightarrow> SessionLifecycleGuard \<times> store" where
  "guard_call env gs (GDone, l, now) = guard_done l env now gs"
| "guard_call env gs (GFail r, l, now) = guard_fail r l env now gs"
| "guard_call env gs (GInterrupt r, l, now) = guard_interrupt r l env now gs"

definition got_through :: "guard_event \<Rightarrow> bool" where
  "got_through e = write_up (fst (snd e))"

definition guard_verdict :: "guard_event list \<Rightarrow> SessionStatus" where
  "guard_verdict es =
     (case find got_through es of
        Some e \<Rightarrow> op_status (fst e)
      | None \<Rightarrow> if es = [] then Interrupted else Failed)"

definition owns_session :: "SessionLifecycleGuard \<Rightarrow> store \<Rightarrow> bool" where
  "owns_session g st \<longleftrightarrow> (\<forall>j. g_stream_job_id g = Some j \<longrightarrow> \<not> is_superseded j st)"

section \<open>Lemmas\<close>

lemma statuses_set_status:
  "statuses (set_session_run_status sid t d) =
     map (\<lambda>(i, x). if i = sid \<and> (x = None \<or> x = Some ''running'') then (i, Some t) else (i, x)) (statuses d)"
  by (auto simp: statuses_def set_session_run_status_def update_session_def update_where_def)

lemma messages_set_status [simp]: "messages (set_session_run_status sid t d) = messages d"
  by (simp add: set_session_run_status_def)

lemma db_ok_set_status: "db_ok d \<Longrightarrow> db_ok (set_session_run_status sid t d)"
  by (simp add: set_session_run_status_def db_ok_update_session)

lemma status_unique:
  "\<lbrakk>db_ok d; (i, x) \<in> set (statuses d); (i, y) \<in> set (statuses d)\<rbrakk> \<Longrightarrow> x = y"
  unfolding statuses_def using unique_session by fastforce

lemma statuses_set_terminal:
  assumes "db_ok d" "(sid, Some x) \<in> set (statuses d)" "x \<noteq> ''running''"
  shows "statuses (set_session_run_status sid t d) = statuses d"
  unfolding statuses_set_status
  by (rule map_idI) (use status_unique [OF assms(1,2)] assms(3) in fastforce)

lemma set_running_status:
  "(sid, Some ''running'') \<in> set (statuses d) \<Longrightarrow> (sid, Some t) \<in> set (statuses (set_session_run_status sid t d))"
  unfolding statuses_set_status by force

lemma run_status_of_statuses:
  assumes "db_ok d" "(sid, x) \<in> set (statuses d)"
  shows "get_session_run_status sid d = x"
proof -
  obtain s where s: "s \<in> set (sessions d)" "s_id s = sid" "s_run_status s = x"
    using assms(2) by (auto simp: statuses_def)
  then have "lookup_session d sid = Some s" using assms(1) by (simp add: lookup_session_iff)
  then show ?thesis using s by (simp add: get_session_run_status_def)
qed

lemma try_log_frame: "statuses (try_log l now sid e p d) = statuses d"
  and try_log_ok: "db_ok d \<Longrightarrow> db_ok (try_log l now sid e p d)"
  by (auto simp: try_log_def log_event_def split: sum.splits dest: log_event_frame log_event_ok)

lemma terminal_status [simp]: "as_status_str (op_status op) \<noteq> ''running''"
  by (cases op) simp_all

text \<open>What one call does to the guard and to the tables, when the turn owns its session.\<close>

lemma guard_call_owned:
  assumes "owns_session (fst gs) (snd gs)" "e = (op, l, now)"
  shows "\<exists>g'. fst (guard_call id gs e) = g' \<and> g_session_id g' = g_session_id (fst gs)
     \<and> g_stream_job_id g' = g_stream_job_id (fst gs) \<and> g_agent_id g' = g_agent_id (fst gs) \<and> g_recorded g'
     \<and> (if got_through e
        then g_outcome g' \<noteq> OutRunning
          \<and> (\<exists>p. snd (guard_call id gs e) = (snd gs)\<lparr>st_db := try_log l now (g_session_id (fst gs))
               (as_status_str (op_status op)) p
               (set_session_run_status (g_session_id (fst gs)) (as_status_str (op_status op)) (st_db (snd gs)))\<rparr>)
        else g_outcome g' = g_outcome (fst gs) \<and> snd (guard_call id gs e) = snd gs)"
proof -
  have "\<not> superseded_by_newer_turn l (fst gs) (snd gs)"
    using assms(1) by (auto simp: superseded_by_newer_turn_def owns_session_def split: option.splits)
  then show ?thesis unfolding assms(2)
    by (cases op) (auto simp: guard_done_def guard_fail_def guard_interrupt_def terminal_write_def
        skip_terminal_write_if_superseded_def got_through_def Let_def)
qed

lemma is_superseded_jobs: "st_jobs st = st_jobs st' \<Longrightarrow> is_superseded j st = is_superseded j st'"
  by (simp add: is_superseded_def)

lemma find_snoc:
  "find P (xs @ [y]) = (case find P xs of None \<Rightarrow> if P y then Some y else None | Some x \<Rightarrow> Some x)"
  by (induction xs) auto

text \<open>The guard is a machine whose state is determined by the history of its calls.\<close>

definition guard_start :: "SessionLifecycleGuard \<Rightarrow> store \<Rightarrow> bool" where
  "guard_start g st \<longleftrightarrow>
     g_outcome g = OutRunning \<and> \<not> g_recorded g \<and> owns_session g st \<and> db_ok (st_db st)
     \<and> g_session_id g \<in> set (running_ids (st_db st))"

definition guard_tracks ::
  "SessionLifecycleGuard \<Rightarrow> store \<Rightarrow> guard_event list \<Rightarrow> SessionLifecycleGuard \<times> store \<Rightarrow> bool" where
  "guard_tracks g st es gs \<longleftrightarrow>
     guard_start g st \<and> g_session_id (fst gs) = g_session_id g \<and> g_stream_job_id (fst gs) = g_stream_job_id g
     \<and> g_agent_id (fst gs) = g_agent_id g \<and> st_jobs (snd gs) = st_jobs st \<and> db_ok (st_db (snd gs))
     \<and> (case find got_through es of
          None \<Rightarrow> g_outcome (fst gs) = OutRunning \<and> (g_recorded (fst gs) \<longleftrightarrow> es \<noteq> []) \<and> snd gs = st
        | Some e \<Rightarrow> g_outcome (fst gs) \<noteq> OutRunning
            \<and> (g_session_id g, Some (as_status_str (op_status (fst e)))) \<in> set (statuses (st_db (snd gs))))"

lemma guard_tracks_step:
  assumes tr: "guard_tracks g st es gs"
  shows "guard_tracks g st (es @ [e]) (guard_call id gs e)"
proof -
  obtain op l now where e: "e = (op, l, now)" by (cases e) auto
  have own: "owns_session (fst gs) (snd gs)"
    using tr is_superseded_jobs [of "snd gs" st] by (auto simp: guard_tracks_def guard_start_def owns_session_def)
  note c = guard_call_owned [OF own e]
  show ?thesis
  proof (cases "got_through e")
    case False
    then show ?thesis using tr c by (auto simp: guard_tracks_def find_snoc split: option.splits)
  next
    case True
    let ?t = "as_status_str (op_status op)"
    obtain p where p: "snd (guard_call id gs e) = (snd gs)\<lparr>st_db := try_log l now (g_session_id g) ?t p
        (set_session_run_status (g_session_id g) ?t (st_db (snd gs)))\<rparr>"
      using c True tr by (auto simp: guard_tracks_def)
    have ok: "db_ok (st_db (snd gs))" using tr by (simp add: guard_tracks_def)
    then have ok': "db_ok (st_db (snd (guard_call id gs e)))" unfolding p by (simp add: try_log_ok db_ok_set_status)
    have st': "statuses (st_db (snd (guard_call id gs e)))
        = statuses (set_session_run_status (g_session_id g) ?t (st_db (snd gs)))"
      unfolding p by (simp add: try_log_frame)
    show ?thesis
    proof (cases "find got_through es")
      case None
      then have "(g_session_id g, Some ''running'') \<in> set (statuses (st_db (snd gs)))"
        using tr by (auto simp: guard_tracks_def guard_start_def running_iff)
      then show ?thesis
        using None True tr c ok' set_running_status st' e p
        by (auto simp: guard_tracks_def find_snoc)
    next
      case (Some x)
      then have "(g_session_id g, Some (as_status_str (op_status (fst x)))) \<in> set (statuses (st_db (snd gs)))"
        using tr by (auto simp: guard_tracks_def)
      then show ?thesis
        using Some True tr c ok' statuses_set_terminal [OF ok] st' p
        by (auto simp: guard_tracks_def find_snoc)
    qed
  qed
qed

interpretation guard: history_machine "guard_call id" "\<lambda>e. [e]" "guard_tracks g st"
  by unfold_locales (rule guard_tracks_step)

lemma guard_run_tracks:
  assumes "guard_start g st"
  shows "guard_tracks g st es (foldl (guard_call id) (g, st) es)"
proof -
  have "guard_tracks g st [] (g, st)" using assms by (simp add: guard_tracks_def guard_start_def)
  then show ?thesis using guard.run_tracks [of g st "[]" "(g, st)" es] by simp
qed

lemma record_drop_db [simp]: "st_db (record_drop l fresh now g st) = st_db st"
  by (auto simp: record_drop_def record_session_failure_def Let_def split: option.splits sum.splits if_splits)

lemma drop_claims:
  assumes "guard_start g st" "fresh_gen gen" "calls_are_arrays (g_session_id g) (st_db st)" "write_up l"
    "g_outcome g' = OutRunning" "g_session_id g' = g_session_id g" "g_stream_job_id g' = g_stream_job_id g"
  shows "(g_session_id g, Some (as_status_str (drop_claim_status g')))
       \<in> set (statuses (st_db (guard_drop gen fresh l id now (g', st))))
     \<and> db_ok (st_db (guard_drop gen fresh l id now (g', st)))"
proof -
  let ?t = "as_status_str (drop_claim_status g')"
  have run: "g_session_id g \<in> set (running_ids (st_db st))" and ok: "db_ok (st_db st)"
    and own: "\<not> superseded_by_newer_turn l g' st"
    using assms by (auto simp: guard_start_def superseded_by_newer_turn_def owns_session_def split: option.splits)
  have "pg_text_ok ?t" "pg_text_ok ''guard dropped (early exit)''"
    by (simp_all add: drop_claim_status_def pg_text_ok_def)
  then obtain d where d: "cleanup_session_terminated gen now (g_session_id g) ?t
      ''guard dropped (early exit)'' (st_db st) = Inr (True, d)" "db_ok d"
    using terminated_succeeds [OF ok assms(2) run assms(3)] by blast
  have "statuses d = map (end_status (g_session_id g) ?t) (statuses (st_db st))"
    using terminated_frame [OF d(1)] by blast
  moreover have "(g_session_id g, Some ''running'') \<in> set (statuses (st_db st))" using run by (simp add: running_iff)
  ultimately have "(g_session_id g, Some ?t) \<in> set (statuses d)" by (force simp: end_status_def)
  moreover have "st_db (guard_drop gen fresh l id now (g', st)) = d"
    using assms(4-7) own d(1) by (simp add: guard_drop_def)
  ultimately show ?thesis using d(2) by simp
qed

section \<open>Theorems\<close>


definition all_up :: link where "all_up = \<lparr>check_up = True, write_up = True, log_up = True, fail_up = True\<rparr>"
definition all_down :: link where "all_down = \<lparr>check_up = False, write_up = False, log_up = False, fail_up = False\<rparr>"

definition turn_store :: store where
  "turn_store = \<lparr>st_db = empty_db\<lparr>sessions :=
      [(new_session_row 1 ''a'' ''u'' ''web'' 0)\<lparr>s_run_status := Some ''running''\<rparr>]\<rparr>,
     st_jobs = [], st_failures = []\<rparr>"

lemma turn_store_start: "guard_start (new_guard 1) turn_store"
  "calls_are_arrays (g_session_id (new_guard 1)) (st_db turn_store)"
  by (simp_all add: guard_start_def new_guard_def owns_session_def turn_store_def running_ids_def db_ok_def
      session_exists_def opt_ok_def new_session_row_def empty_db_def calls_are_arrays_def)


lemma superseded_frame:
  assumes "g_stream_job_id g = Some j" "is_superseded j st" "\<forall>e \<in> set es. check_up (fst (snd e))" "check_up l"
  shows "snd (foldl (guard_call env) (g, st) es) = st
     \<and> guard_drop gen fresh l env now (foldl (guard_call env) (g, st) es) = st"
proof -
  have call: "snd (guard_call env (g, st) e) = st \<and> g_stream_job_id (fst (guard_call env (g, st) e)) = Some j"
    if "g_stream_job_id g = Some j" "check_up (fst (snd e))" for g e
  proof -
    obtain op l now where e: "e = (op, l, now)" by (cases e) auto
    have "superseded_by_newer_turn l g st" using that assms(2) e by (simp add: superseded_by_newer_turn_def)
    then show ?thesis using that(1) unfolding e
      by (cases op) (simp_all add: guard_done_def guard_fail_def guard_interrupt_def terminal_write_def
          skip_terminal_write_if_superseded_def)
  qed
  have run: "snd (foldl (guard_call env) (g, st) es) = st
      \<and> g_stream_job_id (fst (foldl (guard_call env) (g, st) es)) = Some j"
    using assms(1,3)
  proof (induction es arbitrary: g)
    case (Cons e es)
    then have c: "snd (guard_call env (g, st) e) = st" "g_stream_job_id (fst (guard_call env (g, st) e)) = Some j"
      using call by auto
    have "guard_call env (g, st) e = (fst (guard_call env (g, st) e), st)" using c(1) by (simp add: prod_eq_iff)
    then show ?case using Cons.IH [OF c(2)] Cons.prems(2) by (metis foldl_Cons list.set_intros(2))
  qed simp
  then show ?thesis using assms(2,4) by (simp add: guard_drop_def superseded_by_newer_turn_def)
qed

text \<open>A superseded turn leaves the session to its successor: once a newer stream job of the same
  session exists and the ownership check gets through, neither \<open>done\<close>, \<open>fail\<close> or \<open>interrupt\<close>, in any
  number and order, nor the final \<open>Drop\<close> changes any table.\<close>

theorem superseded_turn_writes_nothing:
  assumes "g_stream_job_id g = Some j" "is_superseded j st" "\<forall>e \<in> set es. check_up (fst (snd e))" "check_up l"
  shows "snd (foldl (guard_call env) (g, st) es) = st
     \<and> guard_drop gen fresh l env now (foldl (guard_call env) (g, st) es) = st"
  using assms by (rule superseded_frame)

definition superseded_store :: store where
  "superseded_store = turn_store\<lparr>st_jobs :=
     [\<lparr>sj_id = 21, sj_session_id = 1, sj_agent_id = ''a'', sj_status = ''running'', sj_aggregated_text = [],
       sj_tool_calls = JArr [], sj_error_text = None, sj_created_at = 3, sj_finished_at = None\<rparr>,
      \<lparr>sj_id = 22, sj_session_id = 1, sj_agent_id = ''a'', sj_status = ''running'', sj_aggregated_text = [],
       sj_tool_calls = JArr [], sj_error_text = None, sj_created_at = 4, sj_finished_at = None\<rparr>]\<rparr>"

theorem superseded_turn_writes_nothing_witness:
  "is_superseded 21 superseded_store
   \<and> guard_drop next_ids 9 all_up id 7 (foldl (guard_call id)
       (set_stream_job_id (Some 21) (new_guard 1), superseded_store) [(GFail ''x'', all_up, 5)]) = superseded_store
   \<and> get_session_run_status 1 (st_db superseded_store) = Some ''running''"
proof -
  have s: "is_superseded 21 superseded_store" by (simp add: is_superseded_def superseded_store_def)
  show ?thesis
    using superseded_turn_writes_nothing [of "set_stream_job_id (Some 21) (new_guard 1)" 21 superseded_store
        "[(GFail ''x'', all_up, 5)]" all_up id next_ids 9 7] s
    by (simp add: set_stream_job_id_def new_guard_def all_up_def superseded_store_def turn_store_def
        get_session_run_status_def lookup_session_def new_session_row_def)
qed

text \<open>The failure log is bounded and append-only: a recorded failure adds exactly one row, with the
  given identifier and time, whose tool output is the longest prefix of the reported one that has at
  most 2048 bytes and ends on a character boundary; no other column is changed, and the tables of
  the session are not touched.\<close>

theorem failure_log_bounded:
  assumes "record_session_failure fresh now input st = Inr (i, st')"
  shows "\<exists>f. st' = st\<lparr>st_failures := st_failures st @ [f]\<rparr> \<and> i = fresh \<and> fr_id f = fresh \<and> fr_failed_at f = now
     \<and> (\<exists>out. NewSessionFailure.truncate f = input\<lparr>nf_last_tool_output := out\<rparr>
          \<and> (case nf_last_tool_output input of
               None \<Rightarrow> out = None
             | Some s \<Rightarrow> \<exists>n. out = Some (take n s) \<and> n \<le> length s \<and> n \<le> 2048 \<and> is_char_boundary s n
                 \<and> (\<forall>k. k \<le> length s \<and> k \<le> 2048 \<and> is_char_boundary s k \<longrightarrow> k \<le> n)))"
proof -
  let ?out = "map_option truncate_tool_output (nf_last_tool_output input)"
  let ?f = "NewSessionFailure.extend (input\<lparr>nf_last_tool_output := ?out\<rparr>) \<lparr>fr_id = fresh, fr_failed_at = now\<rparr>"
  have st': "st' = st\<lparr>st_failures := st_failures st @ [?f]\<rparr>" "i = fresh"
    using assms by (auto simp: record_session_failure_def Let_def split: if_splits)
  have cut: "\<exists>n. truncate_tool_output s = take n s \<and> n \<le> length s \<and> n \<le> 2048 \<and> is_char_boundary s n
      \<and> (\<forall>k. k \<le> length s \<and> k \<le> 2048 \<and> is_char_boundary s k \<longrightarrow> k \<le> n)" for s
  proof (cases "length s \<le> 2048")
    case True
    then show ?thesis
      by (intro exI [of _ "length s"]) (simp add: truncate_tool_output_def MAX_TOOL_OUTPUT_BYTES_def is_char_boundary_def)
  next
    case False
    then show ?thesis
      using floor_char_boundary_le [of s 2048] floor_char_boundary_ok floor_char_boundary_greatest
      by (intro exI [of _ "floor_char_boundary s 2048"])
         (auto simp: truncate_tool_output_def MAX_TOOL_OUTPUT_BYTES_def)
  qed
  have cut': "case nf_last_tool_output input of
        None \<Rightarrow> ?out = None
      | Some s \<Rightarrow> \<exists>n. ?out = Some (take n s) \<and> n \<le> length s \<and> n \<le> 2048 \<and> is_char_boundary s n
          \<and> (\<forall>k. k \<le> length s \<and> k \<le> 2048 \<and> is_char_boundary s k \<longrightarrow> k \<le> n)"
    using cut by (auto split: option.splits)
  have row: "NewSessionFailure.truncate ?f = input\<lparr>nf_last_tool_output := ?out\<rparr>" "fr_id ?f = fresh"
    "fr_failed_at ?f = now"
    by (cases input; simp add: NewSessionFailure.defs)+
  show ?thesis
    by (rule exI [of _ ?f], intro conjI exI [of _ ?out]) (use st' row cut' in blast)+
qed

theorem failure_log_bounded_witness:
  "\<exists>f. record_session_failure 5 8 (dropped_failure 1 ''a'') turn_store
     = Inr (5, turn_store\<lparr>st_failures := [f]\<rparr>) \<and> fr_id f = 5 \<and> nf_last_tool_output f = None"
proof -
  obtain st' where r: "record_session_failure 5 8 (dropped_failure 1 ''a'') turn_store = Inr (5, st')"
    by (simp add: record_session_failure_def dropped_failure_def failure_text_ok_def pg_text_ok_def opt_ok_def
        turn_store_def session_exists_def new_session_row_def Let_def)
  obtain f out where f: "st' = turn_store\<lparr>st_failures := st_failures turn_store @ [f]\<rparr>" "fr_id f = 5"
    "NewSessionFailure.truncate f = (dropped_failure 1 ''a'')\<lparr>nf_last_tool_output := out\<rparr>" "out = None"
    using failure_log_bounded [OF r] by (auto simp: dropped_failure_def)
  have "nf_last_tool_output (NewSessionFailure.truncate f) = None" using f(3,4) by simp
  then have "nf_last_tool_output f = None" by (cases f) (simp add: NewSessionFailure.defs)
  then show ?thesis using r f(1,2) by (intro exI [of _ f]) (simp add: turn_store_def)
qed

text \<open>The protection has two gaps.  The hourly cleanup deletes the row of a turn that was superseded more
  than an hour ago, after which the turn is no longer recognised as superseded; and a supersede that
  happens between the check and the write is not seen.\<close>

lemma reaped_job_is_not_superseded:
  assumes "\<forall>j \<in> set (st_jobs st). sj_id j = job_id \<longrightarrow> job_expired now j"
  shows "\<not> is_superseded job_id (snd (cleanup_old_jobs now st))"
  using assms by (auto simp: is_superseded_def cleanup_old_jobs_def list_ex_iff)

lemma ownership_check_races:
  "get_session_run_status 1 (st_db (snd (guard_done all_up (\<lambda>_. superseded_store) 5
      (set_stream_job_id (Some 21) (new_guard 1), turn_store)))) = Some ''done''"
  by (simp add: guard_done_def terminal_write_def skip_terminal_write_if_superseded_def superseded_by_newer_turn_def
      set_stream_job_id_def new_guard_def all_up_def is_superseded_def turn_store_def superseded_store_def
      try_log_def log_event_def log_event_tx_def insert_timeline_def session_exists_def pg_text_ok_def opt_ok_def
      set_session_run_status_def update_session_def new_session_row_def get_session_run_status_def
      lookup_session_def touch_session_activity_def empty_db_def Let_def)

section \<open>Leaf of a transcript\<close>

text \<open>\<open>SessionManager::latest_leaf_message_id\<close>.\<close>

definition is_leaf :: "db \<Rightarrow> uuid \<Rightarrow> message_row \<Rightarrow> bool" where
  "is_leaf d sid m \<longleftrightarrow>
     m_session_id m = sid \<and> m_status m = ''complete''
     \<and> \<not> list_ex (\<lambda>c. m_parent_message_id c = Some (m_id m) \<and> m_session_id c = sid) (messages d)"

definition latest_leaf_message_id :: "uuid \<Rightarrow> db \<Rightarrow> uuid option" where
  "latest_leaf_message_id sid d =
     map_option m_id (first_row (order_desc m_created_at (filter (is_leaf d sid) (messages d))))"

text \<open>The anchor of a new user turn: when every message of a session is complete and the session has
  one, a leaf is found, it belongs to the session, and no message of the session hangs below it.\<close>

lemma latest_leaf_found:
  assumes ok: "db_ok d" and all: "\<forall>m \<in> set (session_messages sid d). m_status m = ''complete''"
    and ne: "session_messages sid d \<noteq> []"
  shows "\<exists>m \<in> set (session_messages sid d). latest_leaf_message_id sid d = Some (m_id m)
     \<and> (\<forall>c \<in> set (session_messages sid d). m_parent_message_id c \<noteq> Some (m_id m))"
proof -
  obtain as m bs where split: "messages d = as @ m # bs" "m_session_id m = sid" "\<forall>x \<in> set bs. m_session_id x \<noteq> sid"
    using ne split_list_last_prop [of "messages d" "\<lambda>m. m_session_id m = sid"]
    by (auto simp: session_messages_def filter_empty_conv)
  have pb: "parents_before {} (as @ m # bs)" and dist: "distinct (map m_id (as @ m # bs))"
    using ok split(1) by (simp_all add: db_ok_def)
  have "m_parent_message_id c \<noteq> Some (m_id m)" if c: "c \<in> set (as @ [m])" for c
  proof -
    obtain xs ys where xy: "as @ [m] = xs @ c # ys" using split_list [OF c] by blast
    have "parents_before {} (as @ [m])" using pb by (simp add: parents_before_append)
    then have "opt_ok (\<lambda>p. p \<in> m_id ` set xs) (m_parent_message_id c)"
      unfolding xy by (simp add: parents_before_append)
    moreover have "m_id m \<notin> m_id ` set xs"
      using xy dist by (cases ys rule: rev_cases) auto
    ultimately show ?thesis by (cases "m_parent_message_id c") (simp_all add: opt_ok_def, metis)
  qed
  then have "is_leaf d sid m"
    using split all by (auto simp: is_leaf_def list_ex_iff session_messages_def)
  then have "filter (is_leaf d sid) (messages d) \<noteq> []" using split(1) by (auto simp: filter_empty_conv)
  then obtain r where "first_row (order_desc m_created_at (filter (is_leaf d sid) (messages d))) = Some r"
    by (metis first_row_None option.exhaust order_desc_Nil)
  then show ?thesis
    using first_row_Some by (fastforce simp: latest_leaf_message_id_def is_leaf_def list_ex_iff session_messages_def)
qed

end
