(* ===== verification/Stream_Registry.thy ===== *)
theory Stream_Registry
  imports Session_Guard "HOL-Library.AList"
begin

text \<open>
  The registry of live answer streams (\<open>gateway/stream_registry.rs\<close>) and the reader of a stream
  (\<open>gateway/handlers/chat/stream.rs\<close>): registration with supersede, the replay buffer with its
  compaction, subscription, cleanup.

  The hash map is an association list with distinct keys.  The broadcast channel of \<open>tokio\<close> is the
  list of all values sent; a receiver made by \<open>subscribe\<close> gets what is sent after it, and lagging
  behind the capacity of the channel is not modelled.  Cancellation tokens are numbers, and the
  registry keeps the set of those that were cancelled.  \<open>json_parse\<close> and \<open>json_print\<close> are
  \<open>serde_json::from_str\<close> and \<open>to_string\<close>, \<open>uuid_str\<close> is the text form of an identifier; event numbers
  are natural numbers, since \<open>u64\<close> does not overflow in the life of a stream.
\<close>

section \<open>State\<close>

definition MAX_BUFFER_SIZE :: nat where "MAX_BUFFER_SIZE = 10000"
definition COMPACTION_TARGET :: nat where "COMPACTION_TARGET = MAX_BUFFER_SIZE div 2"
definition MAX_ACTIVE_STREAMS :: nat where "MAX_ACTIVE_STREAMS = 50"

type_synonym sse_event = "nat \<times> string"

record ActiveStream =
  as_events :: "sse_event list"
  as_finished_at :: "instant option"
  as_next_event_id :: nat
  as_truncated :: bool
  as_sent :: "sse_event list"
  as_cancel_token :: nat
  as_finished :: bool
  as_session_id :: uuid
  as_job_id :: uuid
  as_created_at :: instant
  as_boundary_message_id :: uuid

record StreamRegistry =
  rg_streams :: "(string \<times> ActiveStream) list"
  rg_store :: store
  rg_cancelled :: "nat list"

section \<open>Compaction\<close>

definition str_field :: "json \<Rightarrow> string \<Rightarrow> string option" where
  "str_field j k = Option.bind (json_get j k) as_str"

definition try_merge_text_delta ::
  "(string \<Rightarrow> json option) \<Rightarrow> (json \<Rightarrow> string) \<Rightarrow> string \<Rightarrow> string \<Rightarrow> string option" where
  "try_merge_text_delta json_parse json_print prev next =
     Option.bind (json_parse prev) (\<lambda>p.
       if str_field p ''type'' \<noteq> Some ''text-delta'' then None
       else Option.bind (json_parse next) (\<lambda>n.
         if str_field n ''type'' \<noteq> Some ''text-delta'' then None
         else Option.bind (str_field p ''id'') (\<lambda>pi. Option.bind (str_field n ''id'') (\<lambda>ni.
           if pi \<noteq> ni then None
           else Option.bind (str_field p ''delta'') (\<lambda>pd. Option.bind (str_field n ''delta'') (\<lambda>nd.
             Some (json_print (set_member ''delta'' (JStr (pd @ nd)) p))))))))"

fun compact_from ::
  "(string \<Rightarrow> json option) \<Rightarrow> (json \<Rightarrow> string) \<Rightarrow> sse_event list \<Rightarrow> sse_event list \<Rightarrow> sse_event list" where
  "compact_from json_parse json_print out [] = out"
| "compact_from json_parse json_print out ((seq, json) # es) =
     (case (if out = [] then None
            else try_merge_text_delta json_parse json_print (snd (List.last out)) json) of
        Some merged \<Rightarrow> compact_from json_parse json_print (butlast out @ [(seq, merged)]) es
      | None \<Rightarrow> compact_from json_parse json_print (out @ [(seq, json)]) es)"

definition compact_events ::
  "(string \<Rightarrow> json option) \<Rightarrow> (json \<Rightarrow> string) \<Rightarrow> sse_event list \<Rightarrow> sse_event list" where
  "compact_events json_parse json_print events = compact_from json_parse json_print [] events"

section \<open>Operations\<close>

text \<open>The body of \<open>push_event\<close> under the lock of one stream.\<close>

definition push_stream ::
  "(string \<Rightarrow> json option) \<Rightarrow> (json \<Rightarrow> string) \<Rightarrow> string \<Rightarrow> ActiveStream \<Rightarrow> ActiveStream" where
  "push_stream json_parse json_print event_json s =
     (let i = as_next_event_id s;
          full = length (as_events s) \<ge> MAX_BUFFER_SIZE \<and> \<not> as_truncated s;
          events = (if full then compact_events json_parse json_print (as_events s) else as_events s);
          truncated = (as_truncated s \<or> full \<and> length events \<ge> COMPACTION_TARGET);
          keep = (\<not> truncated \<and> length events < MAX_BUFFER_SIZE)
      in s\<lparr>as_next_event_id := i + 1,
           as_events := (if keep then events @ [(i, event_json)] else events),
           as_truncated := truncated,
           as_sent := as_sent s @ [(i, event_json)]\<rparr>)"

definition push_event ::
  "(string \<Rightarrow> json option) \<Rightarrow> (json \<Rightarrow> string) \<Rightarrow> string \<Rightarrow> string \<Rightarrow> StreamRegistry \<Rightarrow> nat \<times> StreamRegistry" where
  "push_event json_parse json_print session_id event_json r =
     (case map_of (rg_streams r) session_id of
        None \<Rightarrow> (0, r)
      | Some s \<Rightarrow>
          (as_next_event_id s,
           r\<lparr>rg_streams := AList.update session_id (push_stream json_parse json_print event_json s)
               (rg_streams r)\<rparr>))"

definition new_stream :: "uuid \<Rightarrow> uuid \<Rightarrow> nat \<Rightarrow> instant \<Rightarrow> uuid \<Rightarrow> ActiveStream" where
  "new_stream session_id job_id token now boundary =
     \<lparr>as_events = [], as_finished_at = None, as_next_event_id = 0, as_truncated = False, as_sent = [],
      as_cancel_token = token, as_finished = False, as_session_id = session_id, as_job_id = job_id,
      as_created_at = now, as_boundary_message_id = boundary\<rparr>"

text \<open>\<open>register_with_token\<close>.  \<open>db_up\<close> says whether the insert of the job gets through; the marking of
  the superseded job is best effort.  A rejected registration leaves its job in the table.\<close>

definition register_with_token ::
  "(uuid \<Rightarrow> string) \<Rightarrow> bool \<Rightarrow> uuid \<Rightarrow> timestamp \<Rightarrow> instant \<Rightarrow> uuid \<Rightarrow> string \<Rightarrow> nat \<Rightarrow> uuid
     \<Rightarrow> StreamRegistry \<Rightarrow> uuid option \<times> StreamRegistry" where
  "register_with_token uuid_str db_up fresh now inst session_id agent_id token boundary r =
     (case (if db_up then create_job fresh now session_id agent_id (rg_store r) else Inl RowNotFound) of
        Inl e \<Rightarrow> (None, r)
      | Inr (job_id, st) \<Rightarrow>
          (let r1 = r\<lparr>rg_store := st\<rparr>;
               streams = rg_streams r1;
               kept = (if length streams \<ge> MAX_ACTIVE_STREAMS
                       then filter (\<lambda>(k, s). \<not> as_finished s) streams else streams);
               r2 = r1\<lparr>rg_streams := kept\<rparr>;
               key = uuid_str session_id
           in if length kept \<ge> MAX_ACTIVE_STREAMS then (None, r2)
              else let r3 = (case map_of kept key of
                      None \<Rightarrow> r2
                    | Some existing \<Rightarrow>
                        r2\<lparr>rg_cancelled := as_cancel_token existing # rg_cancelled r2,
                           rg_store := (case error_job now (as_job_id existing) ''superseded by new stream''
                                               (rg_store r2) of
                                          Inl e \<Rightarrow> rg_store r2 | Inr st' \<Rightarrow> st')\<rparr>)
                   in (Some job_id,
                       r3\<lparr>rg_streams := AList.update key (new_stream session_id job_id token inst boundary)
                            (rg_streams r3)\<rparr>)))"

definition registry_cancel :: "string \<Rightarrow> StreamRegistry \<Rightarrow> bool \<times> StreamRegistry" where
  "registry_cancel session_id r =
     (case map_of (rg_streams r) session_id of
        None \<Rightarrow> (False, r)
      | Some s \<Rightarrow> (True, r\<lparr>rg_cancelled := as_cancel_token s # rg_cancelled r\<rparr>))"

definition set_finished_state :: "instant \<Rightarrow> string \<Rightarrow> StreamRegistry \<Rightarrow> uuid option \<times> StreamRegistry" where
  "set_finished_state inst session_id r =
     (case map_of (rg_streams r) session_id of
        None \<Rightarrow> (None, r)
      | Some s \<Rightarrow>
          (Some (as_job_id s),
           r\<lparr>rg_streams := AList.update session_id (s\<lparr>as_finished := True, as_finished_at := Some inst\<rparr>)
               (rg_streams r)\<rparr>))"

definition mark_finished :: "timestamp \<Rightarrow> instant \<Rightarrow> string \<Rightarrow> StreamRegistry \<Rightarrow> StreamRegistry" where
  "mark_finished now inst session_id r =
     (case set_finished_state inst session_id r of
        (None, r1) \<Rightarrow> r1
      | (Some jid, r1) \<Rightarrow> r1\<lparr>rg_store := finish_job now jid (rg_store r1)\<rparr>)"

definition mark_error :: "timestamp \<Rightarrow> instant \<Rightarrow> string \<Rightarrow> string \<Rightarrow> StreamRegistry \<Rightarrow> StreamRegistry" where
  "mark_error now inst session_id error r =
     (case set_finished_state inst session_id r of
        (None, r1) \<Rightarrow> r1
      | (Some jid, r1) \<Rightarrow>
          r1\<lparr>rg_store := (case error_job now jid error (rg_store r1) of Inl e \<Rightarrow> rg_store r1 | Inr st \<Rightarrow> st)\<rparr>)"

definition snapshot_size :: "StreamRegistry \<Rightarrow> nat" where
  "snapshot_size r = length (rg_streams r)"

text \<open>A subscription: the buffered events and the position of the receiver in the channel.\<close>

record StreamSubscription =
  ss_events :: "sse_event list"
  ss_rx :: nat
  ss_finished :: bool
  ss_boundary_message_id :: uuid
  ss_truncated :: bool

definition subscribe_stream :: "ActiveStream \<Rightarrow> StreamSubscription" where
  "subscribe_stream s =
     \<lparr>ss_events = as_events s, ss_rx = length (as_sent s), ss_finished = as_finished s,
      ss_boundary_message_id = as_boundary_message_id s, ss_truncated = as_truncated s\<rparr>"

definition subscribe :: "string \<Rightarrow> StreamRegistry \<Rightarrow> StreamSubscription option" where
  "subscribe session_id r = map_option subscribe_stream (map_of (rg_streams r) session_id)"

definition expired :: "instant \<Rightarrow> nat \<Rightarrow> ActiveStream \<Rightarrow> bool" where
  "expired now max_age s \<longleftrightarrow>
     as_finished s \<and> (case as_finished_at s of None \<Rightarrow> False | Some f \<Rightarrow> now - f \<ge> max_age)"

text \<open>\<open>cleanup\<close>: the expired keys are collected under the read lock and removed under the write lock;
  \<open>env\<close> is what happens to the registry in between.\<close>

definition registry_cleanup ::
  "(StreamRegistry \<Rightarrow> StreamRegistry) \<Rightarrow> instant \<Rightarrow> nat \<Rightarrow> StreamRegistry \<Rightarrow> StreamRegistry" where
  "registry_cleanup env now max_age r =
     (let keys = map fst (filter (\<lambda>(k, s). expired now max_age s) (rg_streams r))
      in if keys = [] then r
         else let r' = env r in r'\<lparr>rg_streams := filter (\<lambda>(k, s). k \<notin> set keys) (rg_streams r')\<rparr>)"

section \<open>The reader of a stream\<close>

definition is_terminal_event :: "(string \<Rightarrow> json option) \<Rightarrow> string \<Rightarrow> bool" where
  "is_terminal_event json_parse event_json =
     (case Option.bind (json_parse event_json) (\<lambda>v. str_field v ''type'') of
        None \<Rightarrow> False | Some t \<Rightarrow> t = ''finish'' \<or> t = ''error'')"

fun live_loop :: "(string \<Rightarrow> json option) \<Rightarrow> nat option \<Rightarrow> sse_event list \<Rightarrow> sse_event list" where
  "live_loop json_parse cutoff [] = []"
| "live_loop json_parse cutoff ((seq, event_json) # es) =
     (if (case cutoff of None \<Rightarrow> False | Some c \<Rightarrow> seq \<le> c) then live_loop json_parse cutoff es
      else (seq, event_json) #
        (if is_terminal_event json_parse event_json then [] else live_loop json_parse cutoff es))"

text \<open>The events that \<open>api_chat_stream\<close> sends on a subscription, when \<open>s\<close> is the stream later on.\<close>

definition delivered :: "(string \<Rightarrow> json option) \<Rightarrow> StreamSubscription \<Rightarrow> ActiveStream \<Rightarrow> sse_event list" where
  "delivered json_parse sub s =
     ss_events sub @
     (if ss_finished sub then []
      else live_loop json_parse (if ss_events sub = [] then None else Some (fst (List.last (ss_events sub))))
             (drop (ss_rx sub) (as_sent s)))"

section \<open>What a client shows\<close>

text \<open>A client appends the text of a delta to its block, so a delta counts for its characters and every
  other event for itself.\<close>

datatype shown = Ch string char | Ev string

definition delta_of :: "(string \<Rightarrow> json option) \<Rightarrow> string \<Rightarrow> (string \<times> string) option" where
  "delta_of json_parse e =
     Option.bind (json_parse e) (\<lambda>j.
       if str_field j ''type'' \<noteq> Some ''text-delta'' then None
       else Option.bind (str_field j ''id'') (\<lambda>i. Option.bind (str_field j ''delta'') (\<lambda>d. Some (i, d))))"

definition shown_event :: "(string \<Rightarrow> json option) \<Rightarrow> string \<Rightarrow> shown list" where
  "shown_event json_parse e = (case delta_of json_parse e of Some (i, d) \<Rightarrow> map (Ch i) d | None \<Rightarrow> [Ev e])"

definition shown_all :: "(string \<Rightarrow> json option) \<Rightarrow> string list \<Rightarrow> shown list" where
  "shown_all json_parse es = concat (map (shown_event json_parse) es)"

text \<open>What is assumed of \<open>serde_json\<close>: a parsed value in which the delta was replaced is read back after
  printing.\<close>

definition json_codec :: "(string \<Rightarrow> json option) \<Rightarrow> (json \<Rightarrow> string) \<Rightarrow> bool" where
  "json_codec json_parse json_print \<longleftrightarrow>
     (\<forall>e j d. json_parse e = Some j \<longrightarrow>
        json_parse (json_print (set_member ''delta'' (JStr d) j)) = Some (set_member ''delta'' (JStr d) j))"

lemma map_of_set_member:
  "map_of (map (\<lambda>(k', w). if k' = k then (k', v) else (k', w)) ms) x
     = (if x = k then map_option (\<lambda>_. v) (map_of ms k) else map_of ms x)"
  by (induction ms) auto

lemma json_get_set_member:
  "json_get (set_member k v j) x = (if x = k then map_option (\<lambda>_. v) (json_get j k) else json_get j x)"
  by (cases j) (simp_all add: map_of_set_member)

lemma str_field_set_member:
  "str_field (set_member k (JStr v) j) x =
     (if x = k then map_option (\<lambda>_. v) (json_get j k) else str_field j x)"
  by (cases "json_get j k") (auto simp: str_field_def json_get_set_member)

lemma shown_all_simps [simp]:
  "shown_all jp [] = []" "shown_all jp (e # es) = shown_event jp e @ shown_all jp es"
  "shown_all jp (es @ fs) = shown_all jp es @ shown_all jp fs"
  by (simp_all add: shown_all_def)

lemma merge_shown:
  assumes "json_codec jp jr" "try_merge_text_delta jp jr p n = Some m"
  shows "shown_event jp m = shown_event jp p @ shown_event jp n"
proof -
  obtain j i a b where m: "jp p = Some j" "delta_of jp p = Some (i, a)" "delta_of jp n = Some (i, b)"
    "m = jr (set_member ''delta'' (JStr (a @ b)) j)" "str_field j ''type'' = Some ''text-delta''"
    "str_field j ''id'' = Some i" "str_field j ''delta'' = Some a"
    using assms(2) by (auto simp: try_merge_text_delta_def delta_of_def bind_eq_Some_conv split: if_splits)
  have "jp m = Some (set_member ''delta'' (JStr (a @ b)) j)"
    using assms(1) m(1,4) unfolding json_codec_def by blast
  moreover have "json_get j ''delta'' \<noteq> None" using m(7) by (auto simp: str_field_def bind_eq_Some_conv)
  ultimately have "delta_of jp m = Some (i, a @ b)"
    using m(5,6) by (auto simp: delta_of_def str_field_set_member)
  then show ?thesis using m(2,3) by (simp add: shown_event_def)
qed

section \<open>Compaction preserves what is shown\<close>

text \<open>One event is appended or merged into the last one.\<close>

lemma compact_cases:
  obtains (keep) "compact_from jp jr out (e # es) = compact_from jp jr (out @ [e]) es"
  | (merge) init l m where "out = init @ [l]" "try_merge_text_delta jp jr (snd l) (snd e) = Some m"
      "compact_from jp jr out (e # es) = compact_from jp jr (init @ [(fst e, m)]) es"
proof (cases "if out = [] then None else try_merge_text_delta jp jr (snd (List.last out)) (snd e)")
  case None
  then have "compact_from jp jr out (e # es) = compact_from jp jr (out @ [e]) es"
    by (cases e) (auto split: if_splits)
  then show ?thesis by (rule keep)
next
  case (Some m)
  then have "out = butlast out @ [List.last out]" "try_merge_text_delta jp jr (snd (List.last out)) (snd e) = Some m"
    by (auto split: if_splits)
  then show ?thesis using merge Some by (cases e) auto
qed

lemma compact_shown:
  assumes "json_codec jp jr"
  shows "shown_all jp (map snd (compact_from jp jr out es)) = shown_all jp (map snd out) @ shown_all jp (map snd es)"
proof (induction es arbitrary: out)
  case (Cons e es)
  show ?case
    by (cases rule: compact_cases [of jp jr out e es]) (simp_all add: Cons.IH merge_shown [OF assms])
qed simp

lemma compact_length: "length (compact_from jp jr out es) \<le> length out + length es"
proof (induction es arbitrary: out)
  case (Cons e es)
  show ?case
  proof (cases rule: compact_cases [of jp jr out e es])
    case keep
    then show ?thesis using Cons.IH [of "out @ [e]"] by simp
  next
    case (merge init l m)
    then show ?thesis using Cons.IH [of "init @ [(fst e, m)]"] by simp
  qed
qed simp

lemma compact_ids:
  "sorted_wrt (<) (map fst (out @ es)) \<Longrightarrow>
   sorted_wrt (<) (map fst (compact_from jp jr out es))
   \<and> set (map fst (compact_from jp jr out es)) \<subseteq> set (map fst (out @ es))"
proof (induction es arbitrary: out)
  case (Cons e es)
  show ?case
  proof (cases rule: compact_cases [of jp jr out e es])
    case keep
    then show ?thesis using Cons.IH [of "out @ [e]"] Cons.prems by simp
  next
    case (merge init l m)
    have "sorted_wrt (<) (map fst ((init @ [(fst e, m)]) @ es))"
      using Cons.prems unfolding merge(1) by (simp add: sorted_wrt_append)
    from Cons.IH [OF this] show ?thesis unfolding merge(3) unfolding merge(1) by auto
  qed
qed simp

section \<open>The replay buffer\<close>

text \<open>What a stream that has been sent \<open>es\<close> looks like.\<close>

definition buffered :: "(string \<Rightarrow> json option) \<Rightarrow> (json \<Rightarrow> string) \<Rightarrow> string list \<Rightarrow> ActiveStream \<Rightarrow> bool" where
  "buffered jp jr es s \<longleftrightarrow>
     json_codec jp jr \<and> as_next_event_id s = length es \<and> as_sent s = zip [0 ..< length es] es
     \<and> length (as_events s) \<le> MAX_BUFFER_SIZE \<and> sorted_wrt (<) (map fst (as_events s))
     \<and> set (map fst (as_events s)) \<subseteq> {..< length es}
     \<and> (\<exists>k \<le> length es. shown_all jp (map snd (as_events s)) = shown_all jp (take k es)
          \<and> (\<not> as_truncated s \<longrightarrow> k = length es))
     \<and> (as_truncated s \<longrightarrow> MAX_BUFFER_SIZE < length es) \<and> (length (as_events s) \<le> length es)"

lemma buffered_push:
  assumes b: "buffered jp jr es s"
  shows "buffered jp jr (es @ [e]) (push_stream jp jr e s)"
proof -
  let ?n = "length es"
  define full where "full \<longleftrightarrow> length (as_events s) \<ge> MAX_BUFFER_SIZE \<and> \<not> as_truncated s"
  define evs where "evs = (if full then compact_events jp jr (as_events s) else as_events s)"
  define tr where "tr \<longleftrightarrow> as_truncated s \<or> full \<and> length evs \<ge> COMPACTION_TARGET"
  define keep where "keep \<longleftrightarrow> \<not> tr \<and> length evs < MAX_BUFFER_SIZE"
  let ?s = "push_stream jp jr e s"
  have s: "as_next_event_id ?s = Suc ?n" "as_sent ?s = as_sent s @ [(?n, e)]" "as_truncated ?s = tr"
    "as_events ?s = (if keep then evs @ [(?n, e)] else evs)"
    using b by (simp_all add: push_stream_def Let_def buffered_def full_def evs_def tr_def keep_def)
  have codec: "json_codec jp jr" using b by (simp add: buffered_def)
  have len: "length evs \<le> length (as_events s)"
    using compact_length [of jp jr "[]" "as_events s"] by (simp add: evs_def compact_events_def)
  have ids: "sorted_wrt (<) (map fst evs)" "set (map fst evs) \<subseteq> {..< ?n}"
    using b compact_ids [of "[]" "as_events s" jp jr] by (auto simp: buffered_def evs_def compact_events_def)
  have shown: "shown_all jp (map snd evs) = shown_all jp (map snd (as_events s))"
    using compact_shown [OF codec, of "[]"] by (simp add: evs_def compact_events_def)
  obtain k where k: "k \<le> ?n" "shown_all jp (map snd evs) = shown_all jp (take k es)" "\<not> as_truncated s \<longrightarrow> k = ?n"
    using b shown unfolding buffered_def by auto
  have room: "keep" if "\<not> tr"
    using that b by (auto simp: keep_def tr_def full_def evs_def COMPACTION_TARGET_def MAX_BUFFER_SIZE_def buffered_def)
  have big: "MAX_BUFFER_SIZE < Suc ?n" if tr
    using that b unfolding tr_def full_def by (auto simp: buffered_def)
  have "\<exists>k' \<le> Suc ?n. shown_all jp (map snd (as_events ?s)) = shown_all jp (take k' (es @ [e])) \<and> (\<not> tr \<longrightarrow> k' = Suc ?n)"
  proof (cases tr)
    case True
    then show ?thesis using k s(4) by (intro exI [of _ k]) (simp add: keep_def)
  next
    case False
    then show ?thesis using k s(4) room by (intro exI [of _ "Suc ?n"]) (simp add: tr_def)
  qed
  moreover have "length (as_events ?s) \<le> MAX_BUFFER_SIZE" "length (as_events ?s) \<le> Suc ?n"
    using s(4) len b by (auto simp: keep_def buffered_def)
  moreover have "sorted_wrt (<) (map fst (as_events ?s))" "set (map fst (as_events ?s)) \<subseteq> {..< Suc ?n}"
    using s(4) ids by (auto simp: sorted_wrt_append)
  ultimately show ?thesis
    using b s(1-3) big codec by (simp add: buffered_def)
qed

interpretation pushes: history_machine "\<lambda>s e. push_stream jp jr e s" "\<lambda>e. [e]" "buffered jp jr"
  by unfold_locales (rule buffered_push)

lemma buffered_new: "json_codec jp jr \<Longrightarrow> buffered jp jr [] (new_stream sid job tok t b)"
  by (simp add: buffered_def new_stream_def)

section \<open>Streams of a registry\<close>

definition push_all ::
  "(string \<Rightarrow> json option) \<Rightarrow> (json \<Rightarrow> string) \<Rightarrow> (string \<times> string) list \<Rightarrow> StreamRegistry \<Rightarrow> StreamRegistry" where
  "push_all jp jr evs r = foldl (\<lambda>r (k, e). snd (push_event jp jr k e r)) r evs"

definition events_of :: "string \<Rightarrow> (string \<times> string) list \<Rightarrow> string list" where
  "events_of k evs = map snd (filter (\<lambda>(k', e). k' = k) evs)"

lemma map_of_update [simp]: "map_of (AList.update k v al) k' = (if k' = k then Some v else map_of al k')"
  by (simp add: update_conv')

lemma push_all_stream:
  "map_of (rg_streams r) k = Some s \<Longrightarrow>
   map_of (rg_streams (push_all jp jr evs r)) k
     = Some (foldl (\<lambda>s e. push_stream jp jr e s) s (events_of k evs))"
proof (induction evs arbitrary: r s)
  case (Cons ke evs)
  obtain k' e where ke: "ke = (k', e)" by (cases ke)
  have "map_of (rg_streams (snd (push_event jp jr k' e r))) k
      = Some (if k' = k then push_stream jp jr e s else s)"
    using Cons.prems by (auto simp: push_event_def split: option.splits)
  from Cons.IH [OF this] show ?case by (simp add: push_all_def ke events_of_def)
qed (simp add: push_all_def events_of_def)

lemma push_keeps [simp]:
  "as_finished (push_stream jp jr e s) = as_finished s"
  "as_boundary_message_id (push_stream jp jr e s) = as_boundary_message_id s"
  by (simp_all add: push_stream_def Let_def)

lemma pushes_keep: "as_finished (foldl (\<lambda>s e. push_stream jp jr e s) s es) = as_finished s"
  by (induction es arbitrary: s) auto

text \<open>The reader stops after the first terminal event.\<close>

fun until_terminal :: "(string \<Rightarrow> json option) \<Rightarrow> string list \<Rightarrow> string list" where
  "until_terminal jp [] = []"
| "until_terminal jp (e # es) = e # (if is_terminal_event jp e then [] else until_terminal jp es)"

lemma live_loop_all:
  "(\<forall>c. cutoff = Some c \<longrightarrow> c < n) \<Longrightarrow>
   map snd (live_loop jp cutoff (zip [n ..< n + length es] es)) = until_terminal jp es"
proof (induction es arbitrary: n)
  case (Cons e es)
  have "zip [n ..< n + length (e # es)] (e # es) = (n, e) # zip [Suc n ..< Suc n + length es] es"
    by (simp add: upt_conv_Cons del: upt_Suc)
  then show ?case using Cons.IH [of "Suc n"] Cons.prems by (auto split: option.splits)
qed simp

lemma drop_zip_upt:
  "drop (length as) (zip [0 ..< length as + length bs] (as @ bs)) = zip [length as ..< length as + length bs] bs"
  by (simp add: drop_zip)

section \<open>Theorems\<close>


text \<open>A codec for the examples: a delta of a block with a one-letter name.\<close>

fun demo_parse :: "string \<Rightarrow> json option" where
  "demo_parse (CHR ''D'' # c # d) =
     Some (JObj [(''type'', JStr ''text-delta''), (''id'', JStr [c]), (''delta'', JStr d)])"
| "demo_parse e = Some (JObj [(''type'', JStr e)])"

definition demo_print :: "json \<Rightarrow> string" where
  "demo_print j =
     (case (str_field j ''id'', str_field j ''delta'') of
        (Some i, Some d) \<Rightarrow> ''D'' @ i @ d
      | _ \<Rightarrow> (case str_field j ''type'' of Some t \<Rightarrow> t | None \<Rightarrow> []))"

lemma demo_codec: "json_codec demo_parse demo_print"
  unfolding json_codec_def
proof (intro allI impI)
  fix e j d assume p: "demo_parse e = Some j"
  show "demo_parse (demo_print (set_member ''delta'' (JStr d) j)) = Some (set_member ''delta'' (JStr d) j)"
    using p by (cases e rule: demo_parse.cases) (auto simp: demo_print_def str_field_def)
qed

definition demo_registry :: StreamRegistry where
  "demo_registry = \<lparr>rg_streams = [(''s'', new_stream 1 21 0 0 5)], rg_store = turn_store, rg_cancelled = []\<rparr>"


section \<open>Bounds\<close>

definition registry_ok :: "StreamRegistry \<Rightarrow> bool" where
  "registry_ok r \<longleftrightarrow>
     distinct (map fst (rg_streams r)) \<and> length (rg_streams r) \<le> MAX_ACTIVE_STREAMS
     \<and> (\<forall>(k, s) \<in> set (rg_streams r). length (as_events s) \<le> MAX_BUFFER_SIZE)"

text \<open>The states a registry gets to; the cleanup gives up the lock between its two phases, so other
  operations may run in between.\<close>

inductive registry_reach :: "(string \<Rightarrow> json option) \<Rightarrow> (json \<Rightarrow> string) \<Rightarrow> StreamRegistry \<Rightarrow> StreamRegistry \<Rightarrow> bool"
  for jp jr where
  rr_refl: "registry_reach jp jr r r"
| rr_register: "registry_reach jp jr r0 r \<Longrightarrow>
    registry_reach jp jr r0 (snd (register_with_token us up fresh now inst sid agent tok b r))"
| rr_push: "registry_reach jp jr r0 r \<Longrightarrow> registry_reach jp jr r0 (snd (push_event jp jr k e r))"
| rr_cancel: "registry_reach jp jr r0 r \<Longrightarrow> registry_reach jp jr r0 (snd (registry_cancel k r))"
| rr_finished: "registry_reach jp jr r0 r \<Longrightarrow> registry_reach jp jr r0 (mark_finished now inst k r)"
| rr_error: "registry_reach jp jr r0 r \<Longrightarrow> registry_reach jp jr r0 (mark_error now inst k err r)"
| rr_cleanup: "registry_reach jp jr r0 r \<Longrightarrow> registry_reach jp jr r r' \<Longrightarrow>
    registry_reach jp jr r0 (registry_cleanup (\<lambda>_. r') inst age r)"

lemma length_update_le: "length (AList.update k v al) \<le> Suc (length al)"
  by (induction al) auto

lemma length_update_in: "k \<in> fst ` set al \<Longrightarrow> length (AList.update k v al) = length al"
  by (induction al) auto

lemma set_update_sub: "set (AList.update k v al) \<subseteq> insert (k, v) (set al)"
  by (induction al) auto

text \<open>Replacing a stream that is there, and removing streams.\<close>

lemma registry_ok_replace:
  assumes "registry_ok r" "map_of (rg_streams r) k = Some s" "length (as_events s') \<le> MAX_BUFFER_SIZE"
  shows "registry_ok (r\<lparr>rg_streams := AList.update k s' (rg_streams r)\<rparr>)"
proof -
  have "k \<in> fst ` set (rg_streams r)" using assms(2) by (force dest: map_of_SomeD)
  then show ?thesis
    using assms set_update_sub [of k s' "rg_streams r"]
    by (auto simp: registry_ok_def length_update_in intro: distinct_update)
qed

lemma registry_ok_filter:
  "registry_ok r \<Longrightarrow> registry_ok (r\<lparr>rg_streams := filter P (rg_streams r)\<rparr>)"
  by (auto simp: registry_ok_def distinct_map_filter intro: order_trans [OF length_filter_le])

lemma registry_ok_other [simp]:
  "registry_ok (r\<lparr>rg_store := st\<rparr>) = registry_ok r" "registry_ok (r\<lparr>rg_cancelled := c\<rparr>) = registry_ok r"
  by (simp_all add: registry_ok_def)

lemma push_stream_bounded:
  "length (as_events s) \<le> MAX_BUFFER_SIZE \<Longrightarrow> length (as_events (push_stream jp jr e s)) \<le> MAX_BUFFER_SIZE"
  using compact_length [of jp jr "[]" "as_events s"]
  by (auto simp: push_stream_def Let_def compact_events_def)

lemma stream_bounded: "registry_ok r \<Longrightarrow> map_of (rg_streams r) k = Some s \<Longrightarrow> length (as_events s) \<le> MAX_BUFFER_SIZE"
  by (auto simp: registry_ok_def dest: map_of_SomeD)

lemma set_finished_ok: "registry_ok r \<Longrightarrow> registry_ok (snd (set_finished_state inst k r))"
  by (auto simp: set_finished_state_def stream_bounded split: option.splits intro: registry_ok_replace)

lemma register_ok:
  assumes ok: "registry_ok r"
  shows "registry_ok (snd (register_with_token us up fresh now inst sid agent tok b r))"
proof -
  let ?kept = "if length (rg_streams r) \<ge> MAX_ACTIVE_STREAMS
    then filter (\<lambda>(k, s). \<not> as_finished s) (rg_streams r) else rg_streams r"
  have kept: "registry_ok (r\<lparr>rg_streams := ?kept\<rparr>)" using ok registry_ok_filter by simp
  have "registry_ok (r'\<lparr>rg_streams := AList.update k (new_stream sid job tok inst b) ?kept\<rparr>)"
    if "length ?kept < MAX_ACTIVE_STREAMS" for r' k job
    using that kept set_update_sub [of k "new_stream sid job tok inst b" ?kept]
      length_update_le [of k "new_stream sid job tok inst b" ?kept]
    by (auto simp: registry_ok_def new_stream_def intro: distinct_update)
  then show ?thesis
    using ok kept unfolding register_with_token_def Let_def
    by (auto split: sum.splits option.splits prod.splits simp: registry_ok_def)
qed

lemma reach_ok: "registry_reach jp jr r0 r \<Longrightarrow> registry_ok r0 \<Longrightarrow> registry_ok r"
proof (induction rule: registry_reach.induct)
  case (rr_register r0 r us up fresh now inst sid agent tok b)
  then show ?case using register_ok by blast
next
  case (rr_push r0 r k e)
  then show ?case
    by (auto simp: push_event_def stream_bounded push_stream_bounded split: option.splits intro: registry_ok_replace)
next
  case (rr_cancel r0 r k)
  then show ?case by (auto simp: registry_cancel_def split: option.splits)
next
  case (rr_finished r0 r now inst k)
  then show ?case
    using set_finished_ok [of r inst k] by (auto simp: mark_finished_def split: prod.splits option.splits)
next
  case (rr_error r0 r now inst k err)
  then show ?case
    using set_finished_ok [of r inst k] by (auto simp: mark_error_def split: prod.splits option.splits)
next
  case (rr_cleanup r0 r r' inst age)
  then show ?case by (simp add: registry_cleanup_def Let_def registry_ok_filter)
qed

text \<open>The registry is bounded: whatever operations run, also between the two phases of the cleanup,
  it holds at most 50 streams, one per session key, and none of them buffers more than 10000
  events.\<close>

theorem registry_is_bounded:
  assumes "registry_reach jp jr \<lparr>rg_streams = [], rg_store = st, rg_cancelled = []\<rparr> r"
  shows "snapshot_size r \<le> 50 \<and> distinct (map fst (rg_streams r))
     \<and> (\<forall>(k, s) \<in> set (rg_streams r). length (as_events s) \<le> 10000)"
proof -
  have "registry_ok r"
    by (rule reach_ok [OF assms]) (simp add: registry_ok_def)
  then show ?thesis
    by (simp add: registry_ok_def snapshot_size_def MAX_ACTIVE_STREAMS_def MAX_BUFFER_SIZE_def)
qed

definition opened_registry :: StreamRegistry where
  "opened_registry = snd (register_with_token (\<lambda>_. ''s'') True 21 3 0 1 ''a'' 0 5
     \<lparr>rg_streams = [], rg_store = turn_store, rg_cancelled = []\<rparr>)"

theorem registry_is_bounded_witness:
  "snapshot_size (snd (push_event demo_parse demo_print ''s'' ''Dax'' opened_registry)) \<le> 50
   \<and> map fst (rg_streams opened_registry) = [''s'']"
proof -
  have "registry_reach demo_parse demo_print \<lparr>rg_streams = [], rg_store = turn_store, rg_cancelled = []\<rparr>
      (snd (push_event demo_parse demo_print ''s'' ''Dax'' opened_registry))"
    unfolding opened_registry_def by (intro rr_push rr_register rr_refl)
  from registry_is_bounded [OF this] show ?thesis
    by (simp add: opened_registry_def register_with_token_def create_job_def pg_text_ok_def turn_store_def
        session_exists_def new_session_row_def MAX_ACTIVE_STREAMS_def Let_def)
qed

section \<open>Supersede\<close>

lemma create_job_Inr:
  "create_job fresh now sid agent st = Inr (i, st') \<Longrightarrow>
     i = fresh \<and> fresh \<notin> sj_id ` set (st_jobs st) \<and> st_db st' = st_db st
     \<and> (\<exists>row. st_jobs st' = st_jobs st @ [row] \<and> sj_id row = fresh \<and> sj_session_id row = sid \<and> sj_created_at row = now)"
  by (auto simp: create_job_def split: if_splits)

text \<open>Whether a job is superseded depends on three columns.\<close>

definition job_key :: "StreamJob \<Rightarrow> uuid \<times> uuid \<times> timestamp" where
  "job_key j = (sj_id j, sj_session_id j, sj_created_at j)"

lemma superseded_keys:
  "is_superseded i st \<longleftrightarrow>
     (\<exists>x \<in> set (map job_key (st_jobs st)). fst x = i
        \<and> (\<exists>y \<in> set (map job_key (st_jobs st)). fst (snd y) = fst (snd x) \<and> snd (snd x) < snd (snd y)))"
  by (simp add: is_superseded_def list_ex_iff job_key_def)

lemma superseded_update_job:
  "(\<And>j. job_key (f j) = job_key j) \<Longrightarrow> is_superseded i (update_job k f st) = is_superseded i st"
  unfolding superseded_keys by (simp add: update_job_def update_where_key del: set_map)

lemma error_job_frame:
  "error_job now k e st = Inr st' \<Longrightarrow> is_superseded i st' = is_superseded i st \<and> st_db st' = st_db st"
  by (auto simp: error_job_def superseded_update_job job_key_def split: if_splits)
     (simp add: update_job_def)

text \<open>A registration, accepted or not, leaves the job table with the new row, up to the marking of the
  superseded one.\<close>

lemma register_jobs:
  assumes "create_job fresh now sid agent (rg_store r) = Inr (i, st)"
    "register_with_token us True fresh now inst sid agent tok b r = (res, r')"
  shows "is_superseded x (rg_store r') = is_superseded x st \<and> st_db (rg_store r') = st_db (rg_store r)
     \<and> (\<forall>j. res = Some j \<longrightarrow> j = fresh)"
  using assms create_job_Inr [OF assms(1)]
  by (auto simp: register_with_token_def Let_def error_job_frame split: if_splits option.splits sum.splits)

lemma new_job_supersedes:
  assumes "create_job fresh now sid agent st0 = Inr (i, st)"
    "mine \<in> set (st_jobs st0)" "sj_session_id mine = sid" "sj_created_at mine < now"
  shows "is_superseded (sj_id mine) st"
proof -
  obtain row where "st_jobs st = st_jobs st0 @ [row]" "sj_session_id row = sid" "sj_created_at row = now"
    using create_job_Inr [OF assms(1)] by blast
  then show ?thesis using assms(2-4) by (auto simp: is_superseded_def list_ex_iff)
qed

lemma new_job_not_superseded:
  assumes "create_job fresh now sid agent st0 = Inr (i, st)" "\<forall>j \<in> set (st_jobs st0). sj_created_at j \<le> now"
  shows "\<not> is_superseded fresh st"
proof -
  obtain row where row: "st_jobs st = st_jobs st0 @ [row]" "sj_created_at row = now" "fresh \<notin> sj_id ` set (st_jobs st0)"
    using create_job_Inr [OF assms(1)] by blast
  then have "sj_created_at j \<le> now" if "j \<in> set (st_jobs st)" for j using that assms(2) by auto
  moreover have "j = row" if "j \<in> set (st_jobs st)" "sj_id j = fresh" for j using that row by auto
  ultimately show ?thesis using row(2) unfolding is_superseded_def list_ex_iff by (metis leD)
qed


definition handed_over :: StreamRegistry where
  "handed_over = snd (register_with_token (\<lambda>_. ''s'') True 22 4 1 1 ''a'' 7 6 opened_registry)"


text \<open>The registry keys streams by session, not by turn.  So what a superseded turn still sends reaches
  the stream of its successor, and when it ends it marks that stream, and its job, as finished.\<close>

lemma late_calls_hit_successor:
  "map_of (rg_streams (snd (push_event demo_parse demo_print ''s'' ''Dax'' handed_over))) ''s''
     = Some (push_stream demo_parse demo_print ''Dax'' (new_stream 1 22 7 1 6))
   \<and> map_option as_finished (map_of (rg_streams (mark_finished 5 2 ''s'' handed_over)) ''s'') = Some True"
  by (simp add: handed_over_def opened_registry_def register_with_token_def create_job_def pg_text_ok_def
      turn_store_def session_exists_def new_session_row_def MAX_ACTIVE_STREAMS_def Let_def error_job_def
      update_job_def new_stream_def push_event_def mark_finished_def set_finished_state_def)

text \<open>A registration that is rejected for lack of room has already inserted its job, so the turn that is
  running on the session counts as superseded: it will not end its session.\<close>

lemma rejected_registration_supersedes:
  assumes "register_with_token us True fresh now inst sid agent tok b r = (None, r')"
    "create_job fresh now sid agent (rg_store r) = Inr (i, st)"
    "mine \<in> set (st_jobs (rg_store r))" "sj_session_id mine = sid" "sj_created_at mine < now"
  shows "is_superseded (sj_id mine) (rg_store r')"
  using new_job_supersedes [OF assms(2-5)] register_jobs [OF assms(2,1)] by blast

end
