(* ===== verification/Tool_Loop.thy ===== *)
theory Tool_Loop
  imports Session_Repair "HOL-Library.Word"
begin

text \<open>
  The loop detector of the tool-execution loop (\<open>agent/tool_loop.rs\<close>), its use by the sequential
  branch of \<open>agent/pipeline/parallel.rs\<close> and its warm-up from the timeline
  (\<open>opex-db/src/session_timeline.rs\<close>).

  \<open>hash_call\<close> runs a SipHash over the serialised arguments; it is the parameter \<open>H\<close> of the
  definitions, and no property of it is used.  Counters (\<open>usize\<close>) count calls of one run and are
  natural numbers.  The front of a deque is the head of a list.
\<close>

section \<open>Configuration\<close>

record ToolLoopConfig =
  max_iterations :: nat
  compact_on_overflow :: bool
  detect_loops :: bool
  cfg_break_threshold :: nat
  max_consecutive_failures :: nat
  max_auto_continues :: nat
  max_loop_nudges :: nat
  cfg_error_break_threshold :: nat
  cfg_loop_window_size :: nat
  cfg_loop_window_repeat_threshold :: nat

record ToolLoopSettings =
  set_max_iterations :: nat
  set_compact_on_overflow :: bool
  set_detect_loops :: bool
  set_warn_threshold :: nat
  set_break_threshold :: nat
  set_max_consecutive_failures :: nat
  set_max_auto_continues :: nat
  set_max_loop_nudges :: nat
  set_ngram_cycle_length :: nat
  set_error_break_threshold :: "nat option"

definition DEFAULT_LOOP_WINDOW_SIZE :: nat where "DEFAULT_LOOP_WINDOW_SIZE = 24"

definition DEFAULT_LOOP_WINDOW_REPEAT_THRESHOLD :: nat where
  "DEFAULT_LOOP_WINDOW_REPEAT_THRESHOLD = 6"

definition effective_max_iterations :: "ToolLoopConfig \<Rightarrow> nat" where
  "effective_max_iterations c = (if max_iterations c = 0 then 2 ^ 64 - 1 else max_iterations c)"

definition default_config :: ToolLoopConfig where
  "default_config =
     \<lparr>max_iterations = 50, compact_on_overflow = True, detect_loops = True,
      cfg_break_threshold = 10, max_consecutive_failures = 3, max_auto_continues = 5,
      max_loop_nudges = 3, cfg_error_break_threshold = 3,
      cfg_loop_window_size = DEFAULT_LOOP_WINDOW_SIZE,
      cfg_loop_window_repeat_threshold = DEFAULT_LOOP_WINDOW_REPEAT_THRESHOLD\<rparr>"

definition config_from_settings :: "ToolLoopSettings \<Rightarrow> ToolLoopConfig" where
  "config_from_settings s =
     \<lparr>max_iterations = set_max_iterations s, compact_on_overflow = set_compact_on_overflow s,
      detect_loops = set_detect_loops s, cfg_break_threshold = set_break_threshold s,
      max_consecutive_failures = set_max_consecutive_failures s,
      max_auto_continues = set_max_auto_continues s, max_loop_nudges = set_max_loop_nudges s,
      cfg_error_break_threshold = (case set_error_break_threshold s of None \<Rightarrow> 3 | Some n \<Rightarrow> n),
      cfg_loop_window_size = DEFAULT_LOOP_WINDOW_SIZE,
      cfg_loop_window_repeat_threshold = DEFAULT_LOOP_WINDOW_REPEAT_THRESHOLD\<rparr>"

section \<open>The detector\<close>

datatype LoopStatus = LoopOk | Break string

record LoopDetector =
  recent :: "64 word list"
  recent_names :: "string list"
  consecutive :: nat
  last_hash :: "64 word option"
  break_threshold :: nat
  tool_counts :: "(string \<times> nat) list"
  consecutive_errors :: nat
  last_error_tool :: "string option"
  error_break_threshold :: nat
  loop_window_size :: nat
  loop_window_repeat_threshold :: nat

definition new_detector :: "ToolLoopConfig \<Rightarrow> LoopDetector" where
  "new_detector c =
     \<lparr>recent = [], recent_names = [], consecutive = 0, last_hash = None,
      break_threshold = cfg_break_threshold c, tool_counts = [], consecutive_errors = 0,
      last_error_tool = None, error_break_threshold = cfg_error_break_threshold c,
      loop_window_size = cfg_loop_window_size c,
      loop_window_repeat_threshold = cfg_loop_window_repeat_threshold c\<rparr>"

definition window_repeat_count :: "LoopDetector \<Rightarrow> 64 word \<Rightarrow> nat" where
  "window_repeat_count d h =
     (if loop_window_size d = 0 then 0
      else length (filter (\<lambda>x. x = h) (take (loop_window_size d) (rev (recent d)))))"

definition check_limits :: "(string \<Rightarrow> json \<Rightarrow> 64 word) \<Rightarrow> LoopDetector \<Rightarrow> string \<Rightarrow> json \<Rightarrow> LoopStatus" where
  "check_limits H d tool_name args =
     (if recent d = [] then LoopOk
      else
        let hash = H tool_name args in
        if last_hash d = Some hash \<and> consecutive d + 1 \<ge> break_threshold d then
          Break (''tool '' @ [CHR 0x27] @ tool_name @ [CHR 0x27] @ '' called ''
                   @ nat_str (consecutive d + 1) @ '' times consecutively'')
        else if loop_window_repeat_threshold d > 0
             \<and> window_repeat_count d hash + 1 \<ge> loop_window_repeat_threshold d then
          Break (''tool '' @ [CHR 0x27] @ tool_name @ [CHR 0x27] @ '' called ''
                   @ nat_str (window_repeat_count d hash + 1)
                   @ '' times with identical args within the last ''
                   @ nat_str (loop_window_size d) @ '' calls (alternating loop)'')
        else LoopOk)"

fun bump :: "string \<Rightarrow> (string \<times> nat) list \<Rightarrow> (string \<times> nat) list" where
  "bump k [] = [(k, 1)]"
| "bump k ((k', n) # xs) = (if k' = k then (k', n + 1) # xs else (k', n) # bump k xs)"

text \<open>The streak and the two deques, common to a live call and a replayed one.\<close>

definition push_hash :: "64 word \<Rightarrow> string \<Rightarrow> LoopDetector \<Rightarrow> LoopDetector" where
  "push_hash hash tool_name d =
     (let d1 = (if last_hash d = Some hash then d\<lparr>consecutive := consecutive d + 1\<rparr>
                else d\<lparr>consecutive := 1, last_hash := Some hash\<rparr>);
          d2 = (if length (recent d1) \<ge> 64
                then d1\<lparr>recent := tl (recent d1), recent_names := tl (recent_names d1)\<rparr> else d1)
      in d2\<lparr>recent := recent d2 @ [hash], recent_names := recent_names d2 @ [tool_name]\<rparr>)"

definition record_result :: "string \<Rightarrow> bool \<Rightarrow> LoopDetector \<Rightarrow> LoopStatus \<times> LoopDetector" where
  "record_result tool_name success d =
     (if success then (LoopOk, d\<lparr>consecutive_errors := 0, last_error_tool := None\<rparr>)
      else
        let d1 = (if last_error_tool d = Some tool_name
                  then d\<lparr>consecutive_errors := consecutive_errors d + 1\<rparr>
                  else d\<lparr>consecutive_errors := 1, last_error_tool := Some tool_name\<rparr>)
        in if consecutive_errors d1 \<ge> error_break_threshold d1
           then (Break (''tool '' @ [CHR 0x27] @ tool_name @ [CHR 0x27] @ '' failed ''
                          @ nat_str (consecutive_errors d1) @ '' times consecutively''), d1)
           else (LoopOk, d1))"

definition record_execution ::
  "(string \<Rightarrow> json \<Rightarrow> 64 word) \<Rightarrow> string \<Rightarrow> json \<Rightarrow> bool \<Rightarrow> LoopDetector \<Rightarrow> LoopStatus \<times> LoopDetector" where
  "record_execution H tool_name args success d =
     record_result tool_name success
       (push_hash (H tool_name args) tool_name (d\<lparr>tool_counts := bump tool_name (tool_counts d)\<rparr>))"

definition replay_from_timeline :: "string \<Rightarrow> 64 word option \<Rightarrow> bool \<Rightarrow> LoopDetector \<Rightarrow> LoopDetector" where
  "replay_from_timeline tool_name args_hash success d =
     snd (record_result tool_name success
       (case args_hash of None \<Rightarrow> d | Some hash \<Rightarrow> push_hash hash tool_name d))"

definition iteration_count :: "LoopDetector \<Rightarrow> nat" where
  "iteration_count d = sum_list (map snd (tool_counts d))"

section \<open>Hexadecimal text of a hash\<close>

definition hex_digit :: "nat \<Rightarrow> char" where
  "hex_digit n = char_of (if n < 10 then 48 + n else 87 + n)"

fun fmt_hex :: "nat \<Rightarrow> string" where
  "fmt_hex n = (if n < 16 then [hex_digit n] else fmt_hex (n div 16) @ [hex_digit (n mod 16)])"

declare fmt_hex.simps [simp del]

definition hex_value :: "char \<Rightarrow> nat option" where
  "hex_value c =
     (let n = of_char c in
      if 48 \<le> n \<and> n \<le> 57 then Some (n - 48)
      else if 97 \<le> n \<and> n \<le> 102 then Some (n - 87)
      else if 65 \<le> n \<and> n \<le> 70 then Some (n - 55)
      else None)"

text \<open>\<open>u64::from_str_radix(_, 16)\<close>: an optional plus sign, at least one digit, no overflow.\<close>

fun hex_fold :: "nat \<Rightarrow> string \<Rightarrow> nat option" where
  "hex_fold acc [] = Some acc"
| "hex_fold acc (c # cs) =
     (case hex_value c of
        None \<Rightarrow> None
      | Some v \<Rightarrow> if acc * 16 + v < 2 ^ 64 then hex_fold (acc * 16 + v) cs else None)"

definition u64_from_hex :: "string \<Rightarrow> 64 word option" where
  "u64_from_hex s =
     (let digits = (case s of c # r \<Rightarrow> if c = CHR ''+'' then r else s | [] \<Rightarrow> s)
      in if digits = [] then None else map_option of_nat (hex_fold 0 digits))"

section \<open>Warm-up from the timeline\<close>

record TimelineToolEvent =
  e_tool_name :: string
  e_success :: bool
  e_args_hash :: "string option"

definition warm_up_from_timeline :: "ToolLoopConfig \<Rightarrow> TimelineToolEvent list \<Rightarrow> LoopDetector" where
  "warm_up_from_timeline c events =
     foldl (\<lambda>d e. replay_from_timeline (e_tool_name e) (Option.bind (e_args_hash e) u64_from_hex)
                    (e_success e) d)
       (new_detector c) events"

section \<open>The timeline rows\<close>

definition TOOL_EVENTS_WARMUP_LIMIT :: nat where "TOOL_EVENTS_WARMUP_LIMIT = 256"

text \<open>The cast of a text to \<open>boolean\<close>: case, surrounding blanks and unfinished words are accepted.\<close>

definition pg_space :: "char \<Rightarrow> bool" where
  "pg_space c \<longleftrightarrow> (let n = of_char c :: nat in n = 32 \<or> (9 \<le> n \<and> n \<le> 13))"

definition pg_bool :: "string \<Rightarrow> bool option" where
  "pg_bool s =
     (let w = to_ascii_lowercase (rev (dropWhile pg_space (rev (dropWhile pg_space s))))
      in if w \<in> {''t'', ''tr'', ''tru'', ''true'', ''y'', ''ye'', ''yes'', ''on'', ''1''} then Some True
         else if w \<in> {''f'', ''fa'', ''fal'', ''fals'', ''false'', ''n'', ''no'', ''of'', ''off'', ''0''}
         then Some False
         else None)"

text \<open>\<open>payload->>'key'\<close>; the writers store scalars under these keys.\<close>

definition payload_text :: "string \<Rightarrow> timeline_row \<Rightarrow> string option" where
  "payload_text k t = Option.bind (Option.bind (t_payload t) (\<lambda>j. json_get j k)) scalar_text"

definition tool_end_rows :: "uuid \<Rightarrow> db \<Rightarrow> timeline_row list" where
  "tool_end_rows sid d =
     filter (\<lambda>t. t_session_id t = sid \<and> t_event_type t = ''tool_end''
               \<and> payload_text ''tool_name'' t \<noteq> None) (timeline d)"

definition event_of_row :: "timeline_row \<Rightarrow> TimelineToolEvent" where
  "event_of_row t =
     \<lparr>e_tool_name = (case payload_text ''tool_name'' t of None \<Rightarrow> [] | Some n \<Rightarrow> n),
      e_success = (case Option.bind (payload_text ''success'' t) pg_bool of None \<Rightarrow> True | Some b \<Rightarrow> b),
      e_args_hash = payload_text ''args_hash'' t\<rparr>"

text \<open>The result is an error when a matching row has a \<open>success\<close> text that is no boolean.\<close>

definition load_tool_events :: "uuid \<Rightarrow> db \<Rightarrow> (unit + TimelineToolEvent list)" where
  "load_tool_events sid d =
     (let rows = tool_end_rows sid d
      in if \<exists>t \<in> set rows. \<exists>s. payload_text ''success'' t = Some s \<and> pg_bool s = None then Inl ()
         else Inr (map event_of_row
                (order_asc t_created_at
                   (take TOOL_EVENTS_WARMUP_LIMIT (order_desc t_created_at rows)))))"

section \<open>The caller: one batch of tool calls\<close>

record ToolCall =
  tc_id :: string
  tc_name :: string
  tc_arguments :: json

definition loop_detector_key :: "ToolCall \<Rightarrow> string" where
  "loop_detector_key tc =
     (if tc_name tc \<noteq> ''tool_use'' then tc_name tc
      else ''tool_use:'' @ (case Option.bind (json_get (tc_arguments tc) ''action'') as_str of
                              None \<Rightarrow> ''?'' | Some a \<Rightarrow> a))"

definition classify_tool_result :: "string \<Rightarrow> bool" where
  "classify_tool_result result \<longleftrightarrow>
     contains_str ([CHR 0x22] @ ''status'' @ [CHR 0x22] @ '':'' @ [CHR 0x22] @ ''error'' @ [CHR 0x22]) result
     \<or> starts_with ''Error:'' result
     \<or> starts_with (''Tool '' @ [CHR 0x27]) result \<and> contains_str ''timed out'' result"

definition call_hash :: "(string \<Rightarrow> json \<Rightarrow> 64 word) \<Rightarrow> ToolCall \<Rightarrow> 64 word" where
  "call_hash H tc = H (loop_detector_key tc) (tc_arguments tc)"

text \<open>The payload of a \<open>tool_end\<close> event.\<close>

definition end_payload :: "(string \<Rightarrow> json \<Rightarrow> 64 word) \<Rightarrow> ToolCall \<Rightarrow> string \<Rightarrow> json" where
  "end_payload H tc res =
     JObj [(''tool_call_id'', JStr (tc_id tc)), (''tool_name'', JStr (tc_name tc)),
           (''success'', JBool (\<not> classify_tool_result res)),
           (''args_hash'', JStr (fmt_hex (unat (call_hash H tc))))]"

text \<open>The detector's part of the sequential branch: the check before the call, which ends the batch
  with the reason, and the record after it, whose status is dropped.  A call comes with the text its
  execution returned.\<close>

fun run_sequential ::
  "(string \<Rightarrow> json \<Rightarrow> 64 word) \<Rightarrow> bool \<Rightarrow> LoopDetector \<Rightarrow> (ToolCall \<times> string) list
     \<Rightarrow> string option \<times> LoopDetector" where
  "run_sequential H detect d [] = (None, d)"
| "run_sequential H detect d ((tc, res) # cs) =
     (if detect then
        (case check_limits H d (loop_detector_key tc) (tc_arguments tc) of
           Break reason \<Rightarrow> (Some reason, d)
         | LoopOk \<Rightarrow>
             run_sequential H detect
               (snd (record_execution H (loop_detector_key tc) (tc_arguments tc)
                       (\<not> classify_tool_result res) d)) cs)
      else run_sequential H detect d cs)"

section \<open>The state is a function of the history\<close>

text \<open>The specification: \<open>hs\<close> are the hashes of all calls so far.  A call with hash \<open>h\<close> is a loop when
  it continues a run of \<open>bt - 1\<close> identical calls, or when it is the \<open>rt\<close>-th identical call among
  itself and the last \<open>min ws 64\<close> calls.\<close>

definition trailing :: "64 word \<Rightarrow> 64 word list \<Rightarrow> nat" where
  "trailing h hs = length (takeWhile (\<lambda>x. x = h) (rev hs))"

definition in_window :: "nat \<Rightarrow> 64 word \<Rightarrow> 64 word list \<Rightarrow> nat" where
  "in_window ws h hs = length (filter (\<lambda>x. x = h) (take (min ws 64) (rev hs)))"

definition is_loop :: "nat \<Rightarrow> nat \<Rightarrow> nat \<Rightarrow> 64 word list \<Rightarrow> 64 word \<Rightarrow> bool" where
  "is_loop bt ws rt hs h \<longleftrightarrow>
     (trailing h hs > 0 \<and> trailing h hs + 1 \<ge> bt)
     \<or> (hs \<noteq> [] \<and> rt > 0 \<and> in_window ws h hs + 1 \<ge> rt)"

definition same_limits :: "ToolLoopConfig \<Rightarrow> LoopDetector \<Rightarrow> bool" where
  "same_limits c d \<longleftrightarrow>
     break_threshold d = cfg_break_threshold c \<and> loop_window_size d = cfg_loop_window_size c
     \<and> loop_window_repeat_threshold d = cfg_loop_window_repeat_threshold c"

definition tracks :: "ToolLoopConfig \<Rightarrow> 64 word list \<Rightarrow> LoopDetector \<Rightarrow> bool" where
  "tracks c hs d \<longleftrightarrow>
     same_limits c d \<and> recent d = drop (length hs - 64) hs \<and> length (recent_names d) = length (recent d)
     \<and> last_hash d = (if hs = [] then None else Some (last hs))
     \<and> consecutive d = (if hs = [] then 0 else trailing (last hs) hs)"

lemma tracks_new: "tracks c [] (new_detector c)"
  by (simp add: tracks_def new_detector_def same_limits_def)

lemma trailing_snoc: "trailing h (hs @ [x]) = (if x = h then Suc (trailing h hs) else 0)"
  by (simp add: trailing_def)

lemma trailing_last: "hs \<noteq> [] \<Longrightarrow> h \<noteq> last hs \<Longrightarrow> trailing h hs = 0"
  by (cases hs rule: rev_cases) (simp_all add: trailing_def)

lemma drop_snoc_64:
  "drop (length (hs @ [h]) - 64) (hs @ [h]) =
     (if length (drop (length hs - 64) hs) \<ge> 64 then tl (drop (length hs - 64) hs) else drop (length hs - 64) hs) @ [h]"
proof (cases "length hs \<ge> 64")
  case True
  then have "length hs - 63 = Suc (length hs - 64)" by simp
  then show ?thesis using True by (simp add: drop_Suc tl_drop)
qed simp

lemma rev_drop_64: "rev (drop (length hs - 64) hs) = take 64 (rev hs)"
  by (cases "length hs \<ge> 64") (simp_all add: rev_drop)

lemma push_hash_sel [simp]:
  "recent (push_hash h n d) = (if length (recent d) \<ge> 64 then tl (recent d) else recent d) @ [h]"
  "recent_names (push_hash h n d) = (if length (recent d) \<ge> 64 then tl (recent_names d) else recent_names d) @ [n]"
  "last_hash (push_hash h n d) = Some h"
  "consecutive (push_hash h n d) = (if last_hash d = Some h then consecutive d + 1 else 1)"
  "same_limits c (push_hash h n d) = same_limits c d"
  by (simp_all add: push_hash_def Let_def same_limits_def)

lemma tracks_push:
  assumes "tracks c hs d"
  shows "tracks c (hs @ [h]) (push_hash h n d)"
proof -
  have r: "recent (push_hash h n d) = drop (length (hs @ [h]) - 64) (hs @ [h])"
    using assms unfolding drop_snoc_64 by (simp add: tracks_def)
  have k: "consecutive (push_hash h n d) = trailing h (hs @ [h])"
    using assms trailing_last [of hs h] by (auto simp: tracks_def trailing_snoc trailing_def)
  have "length (recent_names (push_hash h n d)) = length (recent (push_hash h n d))"
    using assms by (simp add: tracks_def)
  then show ?thesis using r k assms unfolding tracks_def by (simp del: push_hash_sel(1,2,4))
qed

text \<open>Nothing else touches what the decision reads.\<close>

lemma tracks_other [simp]:
  "tracks c hs (snd (record_result n ok d)) = tracks c hs d"
  "tracks c hs (d\<lparr>tool_counts := x\<rparr>) = tracks c hs d"
  by (simp_all add: tracks_def record_result_def Let_def same_limits_def)

lemma window_repeat_in_window:
  "tracks c hs d \<Longrightarrow> window_repeat_count d h = in_window (cfg_loop_window_size c) h hs"
  by (simp add: tracks_def same_limits_def window_repeat_count_def in_window_def rev_drop_64 take_take)

lemma check_limits_tracks:
  assumes "tracks c hs d"
  shows "check_limits H d n a \<noteq> LoopOk \<longleftrightarrow>
     is_loop (cfg_break_threshold c) (cfg_loop_window_size c) (cfg_loop_window_repeat_threshold c) hs (H n a)"
proof (cases "hs = []")
  case True
  then show ?thesis using assms by (simp add: tracks_def check_limits_def is_loop_def trailing_def)
next
  case False
  have "length (recent d) > 0" using assms False by (simp add: tracks_def)
  then have "recent d \<noteq> []" by simp
  moreover have "last_hash d = Some (H n a) \<and> consecutive d + 1 \<ge> break_threshold d \<longleftrightarrow>
      trailing (H n a) hs > 0 \<and> trailing (H n a) hs + 1 \<ge> cfg_break_threshold c"
    using assms False trailing_last [OF False, of "H n a"]
    by (auto simp: tracks_def same_limits_def trailing_def takeWhile_eq_Nil_iff hd_rev)
  ultimately show ?thesis
    using False window_repeat_in_window [OF assms] assms
    by (auto simp: check_limits_def Let_def is_loop_def tracks_def same_limits_def)
qed

text \<open>The live detector and the replayed one are two such machines.\<close>

definition live_step ::
  "(string \<Rightarrow> json \<Rightarrow> 64 word) \<Rightarrow> LoopDetector \<Rightarrow> ToolCall \<times> bool \<Rightarrow> LoopDetector" where
  "live_step H d e = snd (record_execution H (loop_detector_key (fst e)) (tc_arguments (fst e)) (snd e) d)"

definition replay_step :: "LoopDetector \<Rightarrow> TimelineToolEvent \<Rightarrow> LoopDetector" where
  "replay_step d e =
     replay_from_timeline (e_tool_name e) (Option.bind (e_args_hash e) u64_from_hex) (e_success e) d"

interpretation live: history_machine "live_step H" "\<lambda>e. [call_hash H (fst e)]" "tracks c"
  for H c
  by unfold_locales (simp add: live_step_def record_execution_def call_hash_def tracks_push)

interpretation replay: history_machine replay_step
  "\<lambda>e. case Option.bind (e_args_hash e) u64_from_hex of None \<Rightarrow> [] | Some h \<Rightarrow> [h]" "tracks c"
  for c
  by unfold_locales (simp add: replay_step_def replay_from_timeline_def tracks_push split: option.split)

lemma live_tracks:
  "tracks c (map (\<lambda>e. call_hash H (fst e)) es) (foldl (live_step H) (new_detector c) es)"
  using live.run_tracks [OF tracks_new, of c H es] by (simp add: concat_map_singleton)

text \<open>C11. The detector implements its specification: after any sequence of executed calls, the check
  before a call reports a loop exactly when the call continues a long enough run of identical
  calls or is the repeat-threshold-th identical call in the window of the last
  \<open>min loop_window_size 64\<close> calls, although the detector keeps only 64 hashes and a counter.\<close>

theorem loop_detector_refines:
  "check_limits H (foldl (live_step H) (new_detector c) es) n a \<noteq> LoopOk \<longleftrightarrow>
     is_loop (cfg_break_threshold c) (cfg_loop_window_size c) (cfg_loop_window_repeat_threshold c)
       (map (\<lambda>e. call_hash H (fst e)) es) (H n a)"
  by (rule check_limits_tracks [OF live_tracks])

section \<open>Runs\<close>

text \<open>A run without a break is a sequence of calls of which none is a loop.\<close>

lemma run_sequential_None:
  assumes "tracks c hs d"
  shows "fst (run_sequential H True d cs) = None \<longleftrightarrow>
     (\<forall>i < length cs. \<not> is_loop (cfg_break_threshold c) (cfg_loop_window_size c)
        (cfg_loop_window_repeat_threshold c) (hs @ map (\<lambda>x. call_hash H (fst x)) (take i cs))
        (call_hash H (fst (cs ! i))))"
  using assms
proof (induction cs arbitrary: hs d)
  case (Cons x cs)
  obtain tc res where x: "x = (tc, res)" by (rule prod.exhaust)
  let ?d = "snd (record_execution H (loop_detector_key tc) (tc_arguments tc) (\<not> classify_tool_result res) d)"
  have t: "tracks c (hs @ [call_hash H tc]) ?d"
    using Cons.prems by (simp add: record_execution_def call_hash_def tracks_push)
  have chk: "check_limits H d (loop_detector_key tc) (tc_arguments tc) \<noteq> LoopOk \<longleftrightarrow>
      is_loop (cfg_break_threshold c) (cfg_loop_window_size c) (cfg_loop_window_repeat_threshold c) hs (call_hash H tc)"
    using check_limits_tracks [OF Cons.prems] by (simp add: call_hash_def)
  show ?case
    using Cons.IH [OF t] chk
    by (cases "check_limits H d (loop_detector_key tc) (tc_arguments tc)") (auto simp: x All_less_Suc2)
qed simp

lemma run_sequential_break_append:
  "fst (run_sequential H True d xs) = Some r \<Longrightarrow> run_sequential H True d (xs @ ys) = run_sequential H True d xs"
  by (induction H True d xs rule: run_sequential.induct) (auto split: LoopStatus.splits)

lemma iteration_bump: "sum_list (map snd (bump k xs)) = Suc (sum_list (map snd xs))"
  by (induction k xs rule: bump.induct) auto

lemma iteration_record [simp]: "iteration_count (snd (record_execution H n a ok d)) = Suc (iteration_count d)"
  by (simp add: iteration_count_def record_execution_def record_result_def push_hash_def Let_def iteration_bump)

lemma run_sequential_count:
  "iteration_count (snd (run_sequential H True d cs))
     \<le> iteration_count d + length cs - (if fst (run_sequential H True d cs) = None then 0 else 1)"
  by (induction H True d cs rule: run_sequential.induct) (auto split: LoopStatus.splits)

lemma pigeonhole_count:
  assumes "card (set xs) \<le> k" "m * k < length xs"
  shows "\<exists>x \<in> set xs. count_list xs x > m"
proof (rule ccontr)
  assume "\<not> ?thesis"
  then have "sum (count_list xs) (set xs) \<le> card (set xs) * m"
    using sum_bounded_above [of "set xs" "count_list xs" m] by (simp add: not_less)
  also have "\<dots> \<le> m * k" using assms(1) by simp
  finally show False using assms(2) sum_count_set [of xs "set xs"] by simp
qed

lemma count_filter: "count_list xs x = length (filter (\<lambda>y. y = x) xs)"
  by (induction xs) auto

text \<open>The last of \<open>rt\<close> equal hashes in a short list is a loop.\<close>

lemma repeat_is_loop:
  assumes "count_list hs h \<ge> rt" "rt \<ge> 2" "length hs \<le> Suc (min ws 64)"
  shows "\<exists>i < length hs. is_loop bt ws rt (take i hs) (hs ! i)"
proof -
  have "h \<in> set hs" using assms(1,2) by (metis count_notin not_numeral_le_zero le_trans)
  then obtain ys zs where s: "hs = ys @ h # zs" "h \<notin> set zs" by (meson split_list_last)
  have cnt: "rt \<le> count_list ys h + 1" using assms(1) s by simp
  have "length ys \<le> min ws 64" using assms(3) s by simp
  then have "in_window ws h ys = count_list ys h" by (simp add: in_window_def count_filter rev_filter [symmetric])
  moreover have "ys \<noteq> []" using cnt assms(2) by auto
  ultimately have "is_loop bt ws rt ys h" using cnt assms(2) by (simp add: is_loop_def)
  then show ?thesis using s(1) by (intro exI [of _ "length ys"]) simp
qed

text \<open>C31. A run that keeps repeating itself is stopped.  When the calls of a batch have at most \<open>k\<close>
  different (tool, arguments) hashes, in whatever order they alternate, and
  \<open>(repeat threshold - 1) * k\<close> fits in the window, then every batch longer than that is broken off,
  after at most that many executed calls.\<close>

theorem repeating_run_is_broken:
  assumes "cfg_loop_window_repeat_threshold c \<ge> 2"
    and "card (call_hash H ` fst ` set cs) \<le> k"
    and "(cfg_loop_window_repeat_threshold c - 1) * k \<le> min (cfg_loop_window_size c) 64"
    and "(cfg_loop_window_repeat_threshold c - 1) * k < length cs"
  shows "\<exists>reason. fst (run_sequential H True (new_detector c) cs) = Some reason
     \<and> iteration_count (snd (run_sequential H True (new_detector c) cs))
         \<le> (cfg_loop_window_repeat_threshold c - 1) * k"
proof -
  let ?rt = "cfg_loop_window_repeat_threshold c" and ?ws = "cfg_loop_window_size c"
  let ?n = "Suc ((?rt - 1) * k)"
  let ?pre = "take ?n cs"
  let ?hs = "map (\<lambda>x. call_hash H (fst x)) ?pre"
  have len: "length ?pre = ?n" using assms(4) by simp
  have "set ?hs \<subseteq> call_hash H ` fst ` set cs" by (auto dest: in_set_takeD)
  then have "card (set ?hs) \<le> card (call_hash H ` fst ` set cs)" by (rule card_mono [rotated]) simp
  then have "card (set ?hs) \<le> k" using assms(2) by linarith
  moreover have "(?rt - 1) * k < length ?hs" using len by simp
  ultimately obtain h where "count_list ?hs h > ?rt - 1"
    using pigeonhole_count by blast
  then have "count_list ?hs h \<ge> ?rt" by simp
  moreover have "length ?hs \<le> Suc (min ?ws 64)" using assms(3) len by simp
  ultimately have "\<exists>i < length ?hs. is_loop (cfg_break_threshold c) ?ws ?rt (take i ?hs) (?hs ! i)"
    using assms(1) by (intro repeat_is_loop)
  then obtain i where i: "i < length ?pre" "is_loop (cfg_break_threshold c) ?ws ?rt (take i ?hs) (?hs ! i)"
    by (metis length_map)
  have "is_loop (cfg_break_threshold c) ?ws ?rt ([] @ map (\<lambda>x. call_hash H (fst x)) (take i ?pre))
      (call_hash H (fst (?pre ! i)))"
    using i by (simp only: take_map nth_map append_Nil)
  then have "fst (run_sequential H True (new_detector c) ?pre) \<noteq> None"
    using run_sequential_None [OF tracks_new, of H c ?pre] i(1) by blast
  then obtain r where r: "fst (run_sequential H True (new_detector c) ?pre) = Some r" by blast
  have "run_sequential H True (new_detector c) cs = run_sequential H True (new_detector c) ?pre"
    using run_sequential_break_append [OF r, of "drop ?n cs"] by simp
  moreover have "iteration_count (new_detector c) = 0" by (simp add: iteration_count_def new_detector_def)
  ultimately show ?thesis
    using r len run_sequential_count [of H "new_detector c" ?pre] by simp
qed

definition ping :: ToolCall where "ping = \<lparr>tc_id = ''1'', tc_name = ''ping'', tc_arguments = JNull\<rparr>"
definition pong :: ToolCall where "pong = \<lparr>tc_id = ''2'', tc_name = ''pong'', tc_arguments = JNull\<rparr>"

theorem repeating_run_is_broken_witness:
  "\<exists>reason. fst (run_sequential (\<lambda>n a. of_nat (length n + of_char (n ! 1))) True (new_detector default_config)
      (concat (replicate 6 [(ping, ''ok''), (pong, ''ok'')]))) = Some reason"
proof -
  let ?H = "\<lambda>n a. of_nat (length n + of_char (n ! 1)) :: 64 word"
  let ?cs = "concat (replicate 6 [(ping, ''ok''), (pong, ''ok'')])"
  have "fst ` set ?cs \<subseteq> {ping, pong}" by auto
  then have "card (call_hash ?H ` fst ` set ?cs) \<le> card (call_hash ?H ` {ping, pong})"
    by (intro card_mono image_mono) auto
  also have "\<dots> \<le> card {ping, pong}" by (rule card_image_le) simp
  also have "\<dots> \<le> 2" by (simp add: card_insert_if)
  finally have card: "card (call_hash ?H ` fst ` set ?cs) \<le> 2" .
  have len: "length ?cs = 12" by (simp add: numeral_eq_Suc)
  have lim: "cfg_loop_window_repeat_threshold default_config = 6" "cfg_loop_window_size default_config = 24"
    by (simp_all add: default_config_def DEFAULT_LOOP_WINDOW_SIZE_def DEFAULT_LOOP_WINDOW_REPEAT_THRESHOLD_def)
  have "(cfg_loop_window_repeat_threshold default_config - 1) * 2 < length ?cs" unfolding len lim by simp
  from repeating_run_is_broken [OF _ card _ this] show ?thesis unfolding lim by force
qed

section \<open>What does not stop a run\<close>

text \<open>The fields that the check reads.\<close>

definition loop_view :: "LoopDetector \<Rightarrow> 64 word list \<times> nat \<times> 64 word option \<times> nat \<times> nat \<times> nat" where
  "loop_view d = (recent d, consecutive d, last_hash d, break_threshold d, loop_window_size d,
                  loop_window_repeat_threshold d)"

lemma check_limits_view: "loop_view d = loop_view d' \<Longrightarrow> check_limits H d n a = check_limits H d' n a"
  by (simp add: loop_view_def check_limits_def window_repeat_count_def Let_def)

lemma record_view:
  "loop_view d = loop_view d' \<Longrightarrow>
     loop_view (snd (record_execution H n a ok d)) = loop_view (snd (record_execution H n a ok' d'))"
  by (simp add: loop_view_def record_execution_def record_result_def push_hash_def Let_def)

lemma run_sequential_view:
  "loop_view d = loop_view d' \<Longrightarrow>
     fst (run_sequential H detect d (map (\<lambda>(tc, r, r'). (tc, r)) xs))
       = fst (run_sequential H detect d' (map (\<lambda>(tc, r, r'). (tc, r')) xs))"
proof (induction xs arbitrary: d d')
  case (Cons x xs)
  obtain tc r r' where x: "x = (tc, r, r')" by (rule prod_cases3)
  show ?case
    using Cons.IH [OF Cons.prems] Cons.IH [OF record_view [OF Cons.prems]] check_limits_view [OF Cons.prems]
    by (auto simp: x split: LoopStatus.split)
qed simp

text \<open>Failing tools do not stop a run: whether, and with which reason, a batch is broken off
  depends neither on the results of its calls (so not on how many of them failed) nor on the
  configured \<open>error_break_threshold\<close>, because the status that \<open>record_execution\<close> returns is
  dropped.\<close>

theorem errors_never_break:
  "fst (run_sequential H detect d (map (\<lambda>(tc, r, r'). (tc, r)) xs))
     = fst (run_sequential H detect (d\<lparr>error_break_threshold := k\<rparr>) (map (\<lambda>(tc, r, r'). (tc, r')) xs))"
  by (rule run_sequential_view) (simp add: loop_view_def)

lemma is_loop_replicate:
  "bt \<ge> 6 \<Longrightarrow> is_loop bt 24 6 (replicate i h) h \<longleftrightarrow> i \<ge> 5"
  by (auto simp: is_loop_def trailing_def in_window_def takeWhile_replicate filter_replicate)

text \<open>With the configuration that the settings produce, the sixth identical consecutive call is
  always the one that is stopped: the window scan, whose threshold is fixed at six, comes first,
  and every \<open>break_threshold\<close> of six or more (the default is ten) gives the same behaviour.\<close>

theorem sixth_identical_call_is_broken:
  assumes "set_break_threshold s \<ge> 6"
  shows "fst (run_sequential H True (new_detector (config_from_settings s)) (replicate k (tc, res))) = None
     \<longleftrightarrow> k \<le> 5"
proof -
  have c: "cfg_loop_window_size (config_from_settings s) = 24"
    "cfg_loop_window_repeat_threshold (config_from_settings s) = 6"
    "cfg_break_threshold (config_from_settings s) \<ge> 6"
    using assms by (simp_all add: config_from_settings_def DEFAULT_LOOP_WINDOW_SIZE_def
        DEFAULT_LOOP_WINDOW_REPEAT_THRESHOLD_def)
  have "fst (run_sequential H True (new_detector (config_from_settings s)) (replicate k (tc, res))) = None
      \<longleftrightarrow> (\<forall>i < k. \<not> is_loop (cfg_break_threshold (config_from_settings s)) 24 6
                      (replicate i (call_hash H tc)) (call_hash H tc))"
    using run_sequential_None [OF tracks_new, of H "config_from_settings s" "replicate k (tc, res)"] c(1,2)
    by (simp add: min_def cong: conj_cong)
  also have "\<dots> \<longleftrightarrow> (\<forall>i < k. i < 5)" using is_loop_replicate [OF c(3)] by (simp add: not_le)
  also have "\<dots> \<longleftrightarrow> k \<le> 5" using not_less by (metis le_less_trans less_irrefl not_le)
  finally show ?thesis .
qed

definition default_settings :: ToolLoopSettings where
  "default_settings =
     \<lparr>set_max_iterations = 50, set_compact_on_overflow = True, set_detect_loops = True,
      set_warn_threshold = 5, set_break_threshold = 10, set_max_consecutive_failures = 3,
      set_max_auto_continues = 5, set_max_loop_nudges = 3, set_ngram_cycle_length = 6,
      set_error_break_threshold = None\<rparr>"

theorem sixth_identical_call_is_broken_witness:
  "fst (run_sequential (\<lambda>_ _. 0) True (new_detector (config_from_settings default_settings))
      (replicate 7 (ping, ''ok''))) \<noteq> None"
  using sixth_identical_call_is_broken [of default_settings "\<lambda>_ _. 0" 7 ping "''ok''"]
  by (simp add: default_settings_def)

section \<open>Warm-up\<close>

lemma hex_value_digit: "n < 16 \<Longrightarrow> hex_value (hex_digit n) = Some n"
  by (simp add: hex_value_def hex_digit_def Let_def)

lemma hex_fold_append:
  "hex_fold acc (xs @ ys) = Option.bind (hex_fold acc xs) (\<lambda>a. hex_fold a ys)"
  by (induction acc xs rule: hex_fold.induct) (auto split: option.split)

lemma hex_fold_fmt: "n < 2 ^ 64 \<Longrightarrow> hex_fold 0 (fmt_hex n) = Some n"
proof (induction n rule: fmt_hex.induct)
  case (1 n)
  show ?case
  proof (cases "n < 16")
    case True
    then show ?thesis by (subst fmt_hex.simps) (simp add: hex_value_digit)
  next
    case False
    have "hex_fold 0 (fmt_hex (n div 16)) = Some (n div 16)"
      using 1 False by (simp add: div_le_dividend le_less_trans)
    moreover have "n div 16 * 16 + n mod 16 = n" by (rule div_mult_mod_eq)
    ultimately show ?thesis
      using False 1(2) by (subst fmt_hex.simps) (simp add: hex_fold_append hex_value_digit)
  qed
qed

lemma fmt_hex_hd: "\<exists>k r. fmt_hex n = hex_digit k # r \<and> k < 16"
proof (induction n rule: fmt_hex.induct)
  case (1 n)
  show ?case
  proof (cases "n < 16")
    case True
    then show ?thesis by (subst fmt_hex.simps) auto
  next
    case False
    then obtain k r where "fmt_hex (n div 16) = hex_digit k # r" "k < 16" using 1 by blast
    then show ?thesis using False by (subst fmt_hex.simps) auto
  qed
qed

lemma u64_hex_roundtrip: "u64_from_hex (fmt_hex (unat h)) = Some h"
proof -
  obtain k r where f: "fmt_hex (unat h) = hex_digit k # r" "k < 16" using fmt_hex_hd by blast
  have "hex_value (CHR ''+'') = None" by (simp add: hex_value_def)
  then have "hex_digit k \<noteq> CHR ''+''" using hex_value_digit [OF f(2)] by auto
  moreover have "unat h < 2 ^ 64" using unsigned_less [of h, where ?'a = nat] by simp
  ultimately show ?thesis
    using hex_fold_fmt [of "unat h"] by (simp add: u64_from_hex_def f(1))
qed

text \<open>The event that a finished call leaves in the timeline.\<close>

definition end_event :: "(string \<Rightarrow> json \<Rightarrow> 64 word) \<Rightarrow> ToolCall \<times> string \<Rightarrow> TimelineToolEvent" where
  "end_event H x =
     \<lparr>e_tool_name = tc_name (fst x), e_success = (\<not> classify_tool_result (snd x)),
      e_args_hash = Some (fmt_hex (unat (call_hash H (fst x))))\<rparr>"

lemma end_row:
  assumes "t_payload t = Some (end_payload H tc res)"
  shows "payload_text ''tool_name'' t = Some (tc_name tc)"
    and "Option.bind (payload_text ''success'' t) pg_bool = Some (\<not> classify_tool_result res)"
    and "event_of_row t = end_event H (tc, res)"
proof -
  have "pg_bool ''true'' = Some True" "pg_bool ''false'' = Some False" by code_simp+
  then show s: "Option.bind (payload_text ''success'' t) pg_bool = Some (\<not> classify_tool_result res)"
    using assms by (simp add: payload_text_def end_payload_def)
  show n: "payload_text ''tool_name'' t = Some (tc_name tc)"
    using assms by (simp add: payload_text_def end_payload_def)
  have "payload_text ''args_hash'' t = Some (fmt_hex (unat (call_hash H tc)))"
    using assms by (simp add: payload_text_def end_payload_def)
  then show "event_of_row t = end_event H (tc, res)" by (simp add: event_of_row_def end_event_def n s)
qed

lemma order_desc_increasing:
  assumes "sorted_wrt (<) (map key rows)"
  shows "order_desc key rows = rev rows"
proof -
  have inj: "inj_on (\<lambda>r. - key r) (set rows)"
    using strict_sorted_iff [of "map key rows"] assms by (auto simp: distinct_map inj_on_def)
  have "sorted (map (\<lambda>r. - key r) (rev rows))"
    using assms by (simp add: sorted_wrt_map sorted_wrt_rev) (rule sorted_wrt_mono_rel, auto)
  then show ?thesis
    unfolding order_desc_def by (intro sort_key_inj_key_eq [OF _ inj]) simp
qed

lemma order_asc_increasing: "sorted_wrt (<) (map key rows) \<Longrightarrow> order_asc key rows = rows"
  unfolding order_asc_def
  by (intro sort_key_inj_key_eq) (simp_all add: strict_sorted_iff distinct_map)

lemma order_asc_rev_increasing:
  assumes "sorted_wrt (<) (map key rows)"
  shows "order_asc key (rev rows) = rows"
  using assms unfolding order_asc_def
  by (intro sort_key_inj_key_eq) (simp_all add: strict_sorted_iff distinct_map)

lemma load_tool_events_spec:
  assumes rows: "filter (\<lambda>t. t_session_id t = sid \<and> t_event_type t = ''tool_end'') (timeline d) = R"
    and payloads: "map t_payload R = map (\<lambda>x. Some (end_payload H (fst x) (snd x))) calls"
    and times: "sorted_wrt (<) (map t_created_at R)"
  shows "load_tool_events sid d = Inr (map (end_event H) (drop (length calls - 256) calls))"
proof -
  have len: "length R = length calls" using payloads by (metis length_map)
  have p: "t_payload (R ! i) = Some (end_payload H (fst (calls ! i)) (snd (calls ! i)))" if "i < length calls" for i
    using arg_cong [OF payloads, of "\<lambda>xs. xs ! i"] len that by simp
  have all: "\<exists>tc res. t_payload t = Some (end_payload H tc res)" if t: "t \<in> set R" for t
  proof -
    obtain i where "i < length calls" "t = R ! i" using t len by (auto simp: in_set_conv_nth)
    then show ?thesis using p by blast
  qed
  have tr: "tool_end_rows sid d = R"
  proof -
    have "tool_end_rows sid d = filter (\<lambda>t. payload_text ''tool_name'' t \<noteq> None) R"
      unfolding rows [symmetric] by (simp add: tool_end_rows_def conj_ac)
    also have "\<dots> = R" using all end_row(1) by (fastforce simp: filter_id_conv)
    finally show ?thesis .
  qed
  have cast: "\<not> (\<exists>t \<in> set R. \<exists>s. payload_text ''success'' t = Some s \<and> pg_bool s = None)"
    using all end_row(2) by fastforce
  have "map event_of_row R = map (end_event H) calls"
    by (rule nth_equalityI) (use len p end_row(3) in auto)
  moreover have "order_asc t_created_at (take 256 (order_desc t_created_at R)) = drop (length R - 256) R"
  proof -
    have "sorted_wrt (<) (map t_created_at (drop (length R - 256) R))"
      using times by (simp add: drop_map [symmetric] sorted_wrt_drop)
    then show ?thesis
      unfolding order_desc_increasing [OF times]
      by (simp add: take_rev order_asc_rev_increasing)
  qed
  ultimately show ?thesis
    using cast by (simp add: load_tool_events_def tr TOOL_EVENTS_WARMUP_LIMIT_def Let_def drop_map [symmetric] len)
qed

lemma takeWhile_take: "length (takeWhile P (take n xs)) = min n (length (takeWhile P xs))"
  by (induction xs arbitrary: n) (auto simp: take_Cons split: nat.split)

lemma is_loop_recent:
  assumes "bt \<le> 257"
  shows "is_loop bt ws rt (drop (length hs - 256) hs) h \<longleftrightarrow> is_loop bt ws rt hs h"
proof -
  have r: "rev (drop (length hs - 256) hs) = take 256 (rev hs)"
    by (cases "length hs \<ge> 256") (simp_all add: rev_drop)
  have "trailing h (drop (length hs - 256) hs) = min 256 (trailing h hs)"
    unfolding trailing_def r by (rule takeWhile_take)
  moreover have "in_window ws h (drop (length hs - 256) hs) = in_window ws h hs"
    unfolding in_window_def r by (simp add: take_take min_def)
  moreover have "drop (length hs - 256) hs \<noteq> [] \<longleftrightarrow> hs \<noteq> []"
    by (simp only: length_0_conv [symmetric] length_drop) arith
  ultimately show ?thesis using assms by (auto simp: is_loop_def)
qed

lemma warm_tracks:
  "tracks c (map (\<lambda>x. call_hash H (fst x)) calls) (warm_up_from_timeline c (map (end_event H) calls))"
proof -
  have "warm_up_from_timeline c evs = foldl replay_step (new_detector c) evs" for evs
    by (simp add: warm_up_from_timeline_def replay_step_def [abs_def])
  then show ?thesis
    using replay.run_tracks [OF tracks_new, of c "map (end_event H) calls"]
    by (simp add: end_event_def u64_hex_roundtrip concat_map_singleton comp_def)
qed

text \<open>C30. Loop detection survives a restart.  When every finished call of the session left its
  \<open>tool_end\<close> row (the rows have increasing times), and the break threshold is at most 257, then the
  last 256 rows are enough: the detector that is rebuilt from them takes the same decision on
  every next call as the detector that saw all calls live.\<close>

theorem warm_up_preserves_detection:
  assumes "filter (\<lambda>t. t_session_id t = sid \<and> t_event_type t = ''tool_end'') (timeline d) = R"
    and "map t_payload R = map (\<lambda>x. Some (end_payload H (fst x) (snd x))) calls"
    and "sorted_wrt (<) (map t_created_at R)"
    and "cfg_break_threshold c \<le> 257"
  shows "\<exists>events. load_tool_events sid d = Inr events \<and>
     (\<forall>n a. check_limits H (warm_up_from_timeline c events) n a = LoopOk \<longleftrightarrow>
            check_limits H (foldl (live_step H) (new_detector c)
              (map (\<lambda>x. (fst x, \<not> classify_tool_result (snd x))) calls)) n a = LoopOk)"
proof -
  let ?last = "drop (length calls - 256) calls"
  let ?hs = "map (\<lambda>x. call_hash H (fst x)) calls"
  have load: "load_tool_events sid d = Inr (map (end_event H) ?last)"
    by (rule load_tool_events_spec [OF assms(1-3)])
  have w: "tracks c (drop (length ?hs - 256) ?hs) (warm_up_from_timeline c (map (end_event H) ?last))"
    using warm_tracks [of c H ?last] by (simp add: drop_map)
  have l: "tracks c ?hs (foldl (live_step H) (new_detector c)
      (map (\<lambda>x. (fst x, \<not> classify_tool_result (snd x))) calls))"
    using live_tracks [of c H "map (\<lambda>x. (fst x, \<not> classify_tool_result (snd x))) calls"] by (simp add: comp_def)
  show ?thesis
    using load check_limits_tracks [OF w] check_limits_tracks [OF l] is_loop_recent [OF assms(4)] by blast
qed

theorem warm_up_preserves_detection_witness:
  "\<exists>events. load_tool_events 1
       (empty_db\<lparr>timeline := [\<lparr>t_id = 0, t_session_id = 1, t_event_type = ''tool_end'',
          t_payload = Some (end_payload (\<lambda>_ _. 7) ping ''ok''), t_created_at = 5\<rparr>]\<rparr>) = Inr events \<and>
     (\<forall>n a. check_limits (\<lambda>_ _. 7) (warm_up_from_timeline default_config events) n a = LoopOk \<longleftrightarrow>
            check_limits (\<lambda>_ _. 7) (foldl (live_step (\<lambda>_ _. 7)) (new_detector default_config)
              (map (\<lambda>x. (fst x, \<not> classify_tool_result (snd x))) [(ping, ''ok'')])) n a = LoopOk)"
  by (rule warm_up_preserves_detection [OF refl])
     (simp_all add: empty_db_def default_config_def)

end
