(* ===== verification/V4A_Patch.thy ===== *)
theory V4A_Patch
  imports Opex_Prelude
begin

text \<open>
  The V4A patch format: the parser and the in-memory application of \<open>agent/v4a_patch.rs\<close>.

  Text is a list of UTF-8 bytes; a line is a piece of \<open>split('\n')\<close>.  Errors are the texts the code
  returns.  \<open>lines.splice(at..end, new)\<close> is written with \<^const>\<open>take\<close> and \<^const>\<open>drop\<close>; the indices
  are always in range (\<open>find_run\<close> returns only such).
\<close>

section \<open>Data\<close>

definition BEGIN :: string where "BEGIN = ''*** Begin Patch''"
definition END :: string where "END = ''*** End Patch''"
definition UPDATE :: string where "UPDATE = ''*** Update File:''"
definition ADD :: string where "ADD = ''*** Add File:''"

record Hunk =
  old_lines :: "string list"
  new_lines :: "string list"

datatype FileOp =
    Update string "Hunk list"
  | Add string string

datatype Section =
    NoSection
  | InUpdate string "Hunk list" Hunk
  | InAdd string "string list"

definition empty_hunk :: Hunk where "empty_hunk = \<lparr>old_lines = [], new_lines = []\<rparr>"

definition quoted :: "string \<Rightarrow> string" where "quoted s = [CHR 0x27] @ s @ [CHR 0x27]"

definition newline :: char where "newline = CHR 0x0A"

section \<open>Parser\<close>

definition flush_hunk :: "Hunk list \<Rightarrow> Hunk \<Rightarrow> string + (Hunk list \<times> Hunk)" where
  "flush_hunk hunks cur =
     (if old_lines cur = [] \<and> new_lines cur = [] then Inr (hunks, empty_hunk)
      else if old_lines cur = new_lines cur then Inl ''hunk has no additions or removals''
      else Inr (hunks @ [cur], empty_hunk))"

fun close_section :: "FileOp list \<Rightarrow> Section \<Rightarrow> string + FileOp list" where
  "close_section ops NoSection = Inr ops"
| "close_section ops (InUpdate path hunks cur) =
     (case flush_hunk hunks cur of
        Inl e \<Rightarrow> Inl e
      | Inr (hunks', _) \<Rightarrow>
          (if hunks' = [] then Inl (quoted (UPDATE @ '' '' @ path) @ '' has no hunks'')
           else Inr (ops @ [Update path hunks'])))"
| "close_section ops (InAdd path ls) = Inr (ops @ [Add path (join [newline] ls)])"

definition marker :: "string \<Rightarrow> string \<Rightarrow> string option" where
  "marker line m = strip_prefix m line"

definition push_hunk_line :: "Hunk \<Rightarrow> string \<Rightarrow> string + Hunk" where
  "push_hunk_line cur line =
     (case strip_prefix ''+'' line of
        Some c \<Rightarrow> Inr (cur\<lparr>new_lines := new_lines cur @ [c]\<rparr>)
      | None \<Rightarrow>
     (case strip_prefix ''-'' line of
        Some c \<Rightarrow> Inr (cur\<lparr>old_lines := old_lines cur @ [c]\<rparr>)
      | None \<Rightarrow>
     (case strip_prefix '' '' line of
        Some c \<Rightarrow> Inr (cur\<lparr>old_lines := old_lines cur @ [c], new_lines := new_lines cur @ [c]\<rparr>)
      | None \<Rightarrow>
          (if line = [] then
             Inr (cur\<lparr>old_lines := old_lines cur @ [[]], new_lines := new_lines cur @ [[]]\<rparr>)
           else Inl (''hunk line must start with '' @ quoted '' '' @ '', '' @ quoted ''+'' @ '' or ''
                       @ quoted ''-'' @ '': '' @ line)))))"

text \<open>One line that is not a marker, in the current section.\<close>

fun body_line :: "Section \<Rightarrow> string \<Rightarrow> string + Section" where
  "body_line NoSection line =
     (if trim line \<noteq> [] then Inl (''content outside a file section: '' @ line) else Inr NoSection)"
| "body_line (InUpdate path hunks cur) line =
     (if starts_with ''@@'' line then
        (case flush_hunk hunks cur of
           Inl e \<Rightarrow> Inl e
         | Inr (hunks', cur') \<Rightarrow> Inr (InUpdate path hunks' cur'))
      else
        (case push_hunk_line cur line of
           Inl e \<Rightarrow> Inl e
         | Inr cur' \<Rightarrow> Inr (InUpdate path hunks cur')))"
| "body_line (InAdd path ls) line =
     (case strip_prefix ''+'' line of
        Some content \<Rightarrow> Inr (InAdd path (ls @ [content]))
      | None \<Rightarrow>
          (if line = [] then Inr (InAdd path (ls @ [[]]))
           else Inl (''Add File line must start with '' @ quoted ''+'' @ '': '' @ line)))"

definition open_section ::
  "string \<Rightarrow> (string \<Rightarrow> Section) \<Rightarrow> string \<Rightarrow> FileOp list \<times> Section \<Rightarrow> string + (FileOp list \<times> Section)" where
  "open_section m mk rest st =
     (case close_section (fst st) (snd st) of
        Inl e \<Rightarrow> Inl e
      | Inr ops \<Rightarrow>
          (let path = trim rest
           in if path = [] then Inl (quoted m @ '' with empty path'') else Inr (ops, mk path)))"

definition patch_line ::
  "FileOp list \<times> Section \<Rightarrow> string \<Rightarrow> string + (FileOp list \<times> Section)" where
  "patch_line st line =
     (case marker line UPDATE of
        Some rest \<Rightarrow> open_section UPDATE (\<lambda>path. InUpdate path [] empty_hunk) rest st
      | None \<Rightarrow>
     (case marker line ADD of
        Some rest \<Rightarrow> open_section ADD (\<lambda>path. InAdd path []) rest st
      | None \<Rightarrow>
          (if starts_with ''***'' (trim_end line) then Inl (''unknown marker: '' @ trim_end line)
           else
             (case body_line (snd st) line of
                Inl e \<Rightarrow> Inl e
              | Inr section \<Rightarrow> Inr (fst st, section)))))"

fun patch_lines :: "FileOp list \<times> Section \<Rightarrow> string list \<Rightarrow> string + (FileOp list \<times> Section)" where
  "patch_lines st [] = Inr st"
| "patch_lines st (l # ls) =
     (case patch_line st l of Inl e \<Rightarrow> Inl e | Inr st' \<Rightarrow> patch_lines st' ls)"

text \<open>\<open>iter().position(p)\<close> and \<open>iter().rposition(p)\<close>.\<close>

fun position :: "('a \<Rightarrow> bool) \<Rightarrow> 'a list \<Rightarrow> nat option" where
  "position P [] = None"
| "position P (x # xs) = (if P x then Some 0 else map_option Suc (position P xs))"

definition rposition :: "('a \<Rightarrow> bool) \<Rightarrow> 'a list \<Rightarrow> nat option" where
  "rposition P xs = map_option (\<lambda>i. length xs - 1 - i) (position P (rev xs))"

definition parse_patch :: "string \<Rightarrow> string + FileOp list" where
  "parse_patch patch =
     (let ls = split_on newline patch in
      case position (\<lambda>l. trim_end l = BEGIN) ls of
        None \<Rightarrow> Inl (''missing '' @ quoted BEGIN)
      | Some b \<Rightarrow>
      (case rposition (\<lambda>l. trim_end l = END) ls of
        None \<Rightarrow> Inl (''missing '' @ quoted END)
      | Some e \<Rightarrow>
          (if e \<le> b then Inl (quoted END @ '' must come after '' @ quoted BEGIN)
           else
             (case patch_lines ([], NoSection) (drop (b + 1) (take e ls)) of
                Inl er \<Rightarrow> Inl er
              | Inr (ops, section) \<Rightarrow>
                  (case close_section ops section of
                     Inl er \<Rightarrow> Inl er
                   | Inr ops' \<Rightarrow>
                       (if ops' = [] then Inl ''patch contains no file operations'' else Inr ops'))))))"

section \<open>Application\<close>

definition line_eq :: "bool \<Rightarrow> string \<Rightarrow> string \<Rightarrow> bool" where
  "line_eq tolerant n h \<longleftrightarrow> (if tolerant then trim_end n = trim_end h else n = h)"

text \<open>One pass: the \<open>while i <= last\<close> loop; \<open>k\<close> counts the positions left.\<close>

fun scan_run :: "bool \<Rightarrow> string list \<Rightarrow> string list \<Rightarrow> nat \<Rightarrow> nat \<Rightarrow> nat option" where
  "scan_run tolerant haystack needle i 0 = None"
| "scan_run tolerant haystack needle i (Suc k) =
     (if list_all2 (line_eq tolerant) needle (take (length needle) (drop i haystack)) then Some i
      else scan_run tolerant haystack needle (Suc i) k)"

definition find_run :: "string list \<Rightarrow> string list \<Rightarrow> nat \<Rightarrow> nat option" where
  "find_run haystack needle start =
     (if needle = [] \<or> length needle > length haystack then None
      else
        let last = length haystack - length needle;
            k = Suc last - start
        in case scan_run False haystack needle start k of
             Some i \<Rightarrow> Some i
           | None \<Rightarrow> scan_run True haystack needle start k)"

fun apply_from :: "nat \<Rightarrow> string list \<Rightarrow> nat \<Rightarrow> Hunk list \<Rightarrow> string + string list" where
  "apply_from idx ls search_from [] = Inr ls"
| "apply_from idx ls search_from (h # hs) =
     (if old_lines h = [] then
        Inl (''hunk '' @ nat_str (idx + 1) @ '' has no context to locate (need '' @ quoted '' '' @ '' or ''
               @ quoted ''-'' @ '' lines)'')
      else
        (case find_run ls (old_lines h) search_from of
           None \<Rightarrow> Inl (''hunk '' @ nat_str (idx + 1) @ '': context not found in file'')
         | Some at \<Rightarrow>
             apply_from (idx + 1) (take at ls @ new_lines h @ drop (at + length (old_lines h)) ls)
               (at + length (new_lines h)) hs))"

definition apply_hunks :: "string \<Rightarrow> Hunk list \<Rightarrow> string + string" where
  "apply_hunks original hunks =
     (case apply_from 0 (split_on newline original) 0 hunks of
        Inl e \<Rightarrow> Inl e
      | Inr ls \<Rightarrow> Inr (join [newline] ls))"

section \<open>What applying a list of hunks means\<close>

text \<open>The old block occurs at line \<open>i\<close>, exactly or up to trailing white space.\<close>

definition occurs :: "bool \<Rightarrow> string list \<Rightarrow> string list \<Rightarrow> nat \<Rightarrow> bool" where
  "occurs tolerant old ls i \<longleftrightarrow> list_all2 (line_eq tolerant) old (take (length old) (drop i ls))"

text \<open>The place of a block: its first exact occurrence; without any, its first tolerant one.\<close>

definition located :: "string list \<Rightarrow> string list \<Rightarrow> nat \<Rightarrow> bool" where
  "located old ls i \<longleftrightarrow>
     old \<noteq> [] \<and>
     ((occurs False old ls i \<and> (\<forall>j < i. \<not> occurs False old ls j))
      \<or> ((\<forall>j. \<not> occurs False old ls j) \<and> occurs True old ls i \<and> (\<forall>j < i. \<not> occurs True old ls j)))"

inductive applies :: "string list \<Rightarrow> Hunk list \<Rightarrow> string list \<Rightarrow> bool" where
  applies_Nil: "applies ls [] ls"
| applies_Cons: "\<lbrakk>located (old_lines h) ls i; applies (drop (i + length (old_lines h)) ls) hs out\<rbrakk>
    \<Longrightarrow> applies ls (h # hs) (take i ls @ new_lines h @ out)"

inductive_simps applies_Nil_simp [simp]: "applies ls [] out"
inductive_simps applies_Cons_simp: "applies ls (h # hs) out"

lemma occurs_bound: "occurs t old ls i \<Longrightarrow> old \<noteq> [] \<Longrightarrow> i + length old \<le> length ls"
proof -
  assume "occurs t old ls i" "old \<noteq> []"
  then have "length old = min (length ls - i) (length old)" "length old > 0"
    by (auto simp: occurs_def min.commute dest: list_all2_lengthD)
  then show ?thesis by linarith
qed

lemma occurs_drop: "occurs t old (drop k ls) i = occurs t old ls (k + i)"
  by (simp add: occurs_def add.commute)

lemma le_next: "(i :: nat) \<le> j \<longleftrightarrow> j = i \<or> Suc i \<le> j"
  by auto

lemma scan_run_Some:
  "scan_run t ls old i k = Some at \<longleftrightarrow>
     i \<le> at \<and> at < i + k \<and> occurs t old ls at \<and> (\<forall>j. i \<le> j \<and> j < at \<longrightarrow> \<not> occurs t old ls j)"
proof (induction t ls old i k rule: scan_run.induct)
  case (2 t ls old i k)
  show ?case
  proof (cases "occurs t old ls i")
    case True
    then show ?thesis unfolding scan_run.simps occurs_def [symmetric] by (auto simp: le_less)
  next
    case False
    then have "scan_run t ls old i (Suc k) = scan_run t ls old (Suc i) k"
      unfolding scan_run.simps occurs_def [symmetric] by simp
    then show ?thesis using 2 False unfolding occurs_def [symmetric] le_next [of i] by auto
  qed
qed simp

lemma scan_run_None:
  "scan_run t ls old i k = None \<longleftrightarrow> (\<forall>j. i \<le> j \<and> j < i + k \<longrightarrow> \<not> occurs t old ls j)"
proof (induction t ls old i k rule: scan_run.induct)
  case (2 t ls old i k)
  then show ?case
    unfolding scan_run.simps occurs_def [symmetric] le_next [of i] by auto
qed auto

text \<open>The search in the whole file from an index is the search in the rest of the file.\<close>

lemma find_run_located:
  assumes "start \<le> length ls"
  shows "find_run ls old start = Some at \<longleftrightarrow> start \<le> at \<and> located old (drop start ls) (at - start)"
proof (cases "old = [] \<or> length old > length ls")
  case True
  then have "\<not> occurs t old (drop start ls) i" if "old \<noteq> []" for t i
    using occurs_bound [of t old "drop start ls" i] that by auto
  then have "\<not> located old (drop start ls) (at - start)" by (auto simp: located_def)
  then show ?thesis using True by (simp add: find_run_def)
next
  case False
  let ?k = "Suc (length ls - length old) - start"
  have range: "start \<le> j \<and> occurs t old ls j \<Longrightarrow> j < start + ?k" for t j
    using occurs_bound [of t old ls j] False by auto
  have shift: "(\<forall>j < at - start. \<not> occurs t old (drop start ls) j)
      \<longleftrightarrow> (\<forall>j. start \<le> j \<and> j < at \<longrightarrow> \<not> occurs t old ls j)" for t
  proof (intro iffI allI impI)
    fix j assume *: "\<forall>j < at - start. \<not> occurs t old (drop start ls) j" and j: "start \<le> j \<and> j < at"
    then have "j - start < at - start" "start + (j - start) = j" by auto
    then show "\<not> occurs t old ls j" using * by (metis occurs_drop)
  next
    fix j assume *: "\<forall>j. start \<le> j \<and> j < at \<longrightarrow> \<not> occurs t old ls j" and j: "j < at - start"
    then show "\<not> occurs t old (drop start ls) j" by (auto simp: occurs_drop)
  qed
  have none: "(\<forall>j. \<not> occurs False old (drop start ls) j) \<longleftrightarrow> scan_run False ls old start ?k = None"
    unfolding occurs_drop scan_run_None using range by (metis le_add1 le_Suc_ex)
  have some: "scan_run t ls old start ?k = Some at \<longleftrightarrow> start \<le> at \<and> occurs t old (drop start ls) (at - start)
      \<and> (\<forall>j < at - start. \<not> occurs t old (drop start ls) j)" for t
    unfolding shift scan_run_Some using range by (auto simp: occurs_drop)
  show ?thesis
  proof (cases "scan_run False ls old start ?k")
    case None
    then have "find_run ls old start = scan_run True ls old start ?k"
      using False by (simp add: find_run_def Let_def)
    then show ?thesis using some [of True] none None False by (auto simp: located_def)
  next
    case (Some x)
    then have "find_run ls old start = scan_run False ls old start ?k"
      using False by (simp add: find_run_def Let_def)
    then show ?thesis using some [of False] none Some False by (auto simp: located_def)
  qed
qed

lemma apply_from_applies:
  "start \<le> length ls \<Longrightarrow>
     apply_from idx ls start hs = Inr res \<longleftrightarrow> (\<exists>out. res = take start ls @ out \<and> applies (drop start ls) hs out)"
proof (induction hs arbitrary: idx ls start)
  case (Cons h hs)
  let ?old = "old_lines h" and ?new = "new_lines h"
  let ?ls = "\<lambda>at. take at ls @ ?new @ drop (at + length ?old) ls"
  have step: "apply_from (idx + 1) (?ls at) (at + length ?new) hs = Inr res \<longleftrightarrow>
      (\<exists>out. res = take at ls @ ?new @ out \<and> applies (drop (at + length ?old) ls) hs out)"
    if "at \<le> length ls" for at
    using Cons.IH [of "at + length ?new" "?ls at" "idx + 1"] that by simp
  show ?case
  proof (cases "find_run ls ?old start")
    case None
    then have "\<not> located ?old (drop start ls) i" for i
      using find_run_located [OF Cons.prems, of ?old "start + i"] by simp
    then show ?thesis using None by (auto simp: applies_Cons_simp)
  next
    case (Some at)
    then have at: "start \<le> at" "located ?old (drop start ls) (at - start)"
      using find_run_located [OF Cons.prems] by auto
    have uniq: "located ?old (drop start ls) i \<longleftrightarrow> i = at - start" for i
      using find_run_located [OF Cons.prems, of ?old "start + i"] Some at(1) by auto
    have ne: "?old \<noteq> []" using at(2) by (simp add: located_def)
    have le: "at \<le> length ls"
    proof -
      obtain t where "occurs t ?old (drop start ls) (at - start)" using at(2) by (auto simp: located_def)
      then have "at - start + length ?old \<le> length ls - start" using ne occurs_bound by fastforce
      then show ?thesis using Cons.prems by linarith
    qed
    have tk: "take start ls @ take (at - start) (drop start ls) = take at ls"
      using at(1) by (metis le_add_diff_inverse take_add)
    have dr: "drop (at - start + length ?old) (drop start ls) = drop (at + length ?old) ls"
      using at(1) by simp
    have "apply_from idx ls start (h # hs) = Inr res \<longleftrightarrow>
        (\<exists>out. res = take at ls @ ?new @ out \<and> applies (drop (at + length ?old) ls) hs out)"
      using ne Some step [OF le] by simp
    also have "\<dots> \<longleftrightarrow> (\<exists>out. res = take start ls @ out \<and> applies (drop start ls) (h # hs) out)"
      unfolding applies_Cons_simp uniq tk [symmetric] append_assoc dr [symmetric] by blast
    finally show ?thesis .
  qed
qed auto

text \<open>C28. Applying hunks has exactly its specification, errors included: the result is an \<open>Inr\<close> text
  if and only if every hunk has a place in what is left of the file after the hunk before it, each
  at its first exact occurrence or, failing any, at its first occurrence up to trailing white
  space; the text is then the file with these blocks replaced and every other line unchanged.\<close>

theorem apply_hunks_spec:
  "apply_hunks original hunks = Inr result \<longleftrightarrow>
     (\<exists>out. applies (split_on newline original) hunks out \<and> result = join [newline] out)"
proof -
  have "applies (split_on newline original) hunks out \<longleftrightarrow>
      apply_from 0 (split_on newline original) 0 hunks = Inr out" for out
    using apply_from_applies [of 0 "split_on newline original" 0 hunks out] by simp
  then show ?thesis by (auto simp: apply_hunks_def split: sum.splits)
qed

section \<open>Writing a patch\<close>

text \<open>The canonical text of a list of operations: removed lines before added ones, no context.\<close>

definition print_hunk :: "Hunk \<Rightarrow> string list" where
  "print_hunk h = ''@@'' # map (\<lambda>l. CHR ''-'' # l) (old_lines h) @ map (\<lambda>l. CHR ''+'' # l) (new_lines h)"

fun print_op :: "FileOp \<Rightarrow> string list" where
  "print_op (Update path hunks) = (UPDATE @ '' '' @ path) # concat (map print_hunk hunks)"
| "print_op (Add path content) =
     (ADD @ '' '' @ path) # map (\<lambda>l. CHR ''+'' # l) (split_on newline content)"

definition print_patch :: "FileOp list \<Rightarrow> string" where
  "print_patch ops = join [newline] (BEGIN # concat (map print_op ops) @ [END])"

definition valid_path :: "string \<Rightarrow> bool" where
  "valid_path path \<longleftrightarrow> path \<noteq> [] \<and> trim path = path \<and> newline \<notin> set path"

definition valid_hunk :: "Hunk \<Rightarrow> bool" where
  "valid_hunk h \<longleftrightarrow>
     old_lines h \<noteq> new_lines h \<and> (\<forall>l \<in> set (old_lines h @ new_lines h). newline \<notin> set l)"

fun valid_op :: "FileOp \<Rightarrow> bool" where
  "valid_op (Update path hunks) \<longleftrightarrow> valid_path path \<and> hunks \<noteq> [] \<and> list_all valid_hunk hunks"
| "valid_op (Add path content) \<longleftrightarrow> valid_path path"

lemma ws_encodings_chars:
  "ws_encodings =
     [[CHR 0x09], [CHR 0x0A], [CHR 0x0B], [CHR 0x0C], [CHR 0x0D], [CHR 0x20], [CHR 0xC2, CHR 0x85],
      [CHR 0xC2, CHR 0xA0], [CHR 0xE1, CHR 0x9A, CHR 0x80], [CHR 0xE2, CHR 0x80, CHR 0x80], [CHR
      0xE2, CHR 0x80, CHR 0x81], [CHR 0xE2, CHR 0x80, CHR 0x82], [CHR 0xE2, CHR 0x80, CHR 0x83], [CHR
      0xE2, CHR 0x80, CHR 0x84], [CHR 0xE2, CHR 0x80, CHR 0x85], [CHR 0xE2, CHR 0x80, CHR 0x86], [CHR
      0xE2, CHR 0x80, CHR 0x87], [CHR 0xE2, CHR 0x80, CHR 0x88], [CHR 0xE2, CHR 0x80, CHR 0x89], [CHR
      0xE2, CHR 0x80, CHR 0x8A], [CHR 0xE2, CHR 0x80, CHR 0xA8], [CHR 0xE2, CHR 0x80, CHR 0xA9], [CHR
      0xE2, CHR 0x80, CHR 0xAF], [CHR 0xE2, CHR 0x81, CHR 0x9F], [CHR 0xE3, CHR 0x80, CHR 0x80]]"
  by code_simp

lemma trim_space: "trim (CHR '' '' # path) = trim path"
proof -
  have "strip_any ws_encodings (CHR '' '' # path) = Some path" by (simp add: ws_encodings_chars)
  then have "strip_while ws_encodings (CHR '' '' # path) = strip_while ws_encodings path"
    using ws_encodings_nonempty by (subst strip_while.simps) simp
  then show ?thesis by (simp add: trim_def trim_start_def)
qed

lemma not_marker:
  assumes "c \<noteq> CHR ''*''"
  shows "marker (c # l) UPDATE = None" "marker (c # l) ADD = None" "\<not> starts_with ''***'' (trim_end (c # l))"
  using assms trim_end_prefix [of "c # l"]
  by (auto simp: marker_def UPDATE_def ADD_def starts_with_iff prefix_def)

lemma body_step:
  "c \<noteq> CHR ''*'' \<Longrightarrow> patch_line (ops, sec) (c # l) =
     (case body_line sec (c # l) of Inl e \<Rightarrow> Inl e | Inr sec' \<Rightarrow> Inr (ops, sec'))"
  by (simp add: patch_line_def not_marker split: sum.split)

lemma patch_lines_append:
  "patch_lines st (xs @ ys) = (case patch_lines st xs of Inl e \<Rightarrow> Inl e | Inr st' \<Rightarrow> patch_lines st' ys)"
  by (induction st xs rule: patch_lines.induct) (auto split: sum.splits)

lemma removed_lines:
  "patch_lines (ops, InUpdate path hs cur) (map (\<lambda>l. CHR ''-'' # l) ls) =
     Inr (ops, InUpdate path hs (cur\<lparr>old_lines := old_lines cur @ ls\<rparr>))"
proof (induction ls arbitrary: cur)
  case (Cons l ls)
  have "body_line (InUpdate path hs cur) (CHR ''-'' # l)
      = Inr (InUpdate path hs (cur\<lparr>old_lines := old_lines cur @ [l]\<rparr>))"
    by (simp add: push_hunk_line_def starts_with_def)
  then show ?case using Cons.IH by (simp add: body_step)
qed simp

lemma added_lines:
  "patch_lines (ops, InUpdate path hs cur) (map (\<lambda>l. CHR ''+'' # l) ls) =
     Inr (ops, InUpdate path hs (cur\<lparr>new_lines := new_lines cur @ ls\<rparr>))"
proof (induction ls arbitrary: cur)
  case (Cons l ls)
  have "body_line (InUpdate path hs cur) (CHR ''+'' # l)
      = Inr (InUpdate path hs (cur\<lparr>new_lines := new_lines cur @ [l]\<rparr>))"
    by (simp add: push_hunk_line_def starts_with_def)
  then show ?case using Cons.IH by (simp add: body_step)
qed simp

lemma added_file_lines:
  "patch_lines (ops, InAdd path xs) (map (\<lambda>l. CHR ''+'' # l) ls) = Inr (ops, InAdd path (xs @ ls))"
  by (induction ls arbitrary: xs) (simp_all add: body_step)

lemma flush_valid: "valid_hunk h \<Longrightarrow> flush_hunk hs h = Inr (hs @ [h], empty_hunk)"
  by (auto simp: flush_hunk_def valid_hunk_def)

lemma one_hunk:
  assumes "flush_hunk hs cur = Inr (hs1, empty_hunk)"
  shows "patch_lines (ops, InUpdate path hs cur) (print_hunk h) = Inr (ops, InUpdate path hs1 h)"
proof -
  have "patch_line (ops, InUpdate path hs cur) ''@@'' = Inr (ops, InUpdate path hs1 empty_hunk)"
    using assms by (simp add: body_step starts_with_def)
  then show ?thesis
    by (simp add: print_hunk_def patch_lines_append removed_lines added_lines empty_hunk_def)
qed

lemma all_hunks:
  "\<lbrakk>flush_hunk hs cur = Inr (hs1, empty_hunk); list_all valid_hunk hunks\<rbrakk> \<Longrightarrow>
     \<exists>hs' cur'. patch_lines (ops, InUpdate path hs cur) (concat (map print_hunk hunks))
         = Inr (ops, InUpdate path hs' cur') \<and> flush_hunk hs' cur' = Inr (hs1 @ hunks, empty_hunk)"
proof (induction hunks arbitrary: hs cur hs1)
  case (Cons h hunks)
  have "flush_hunk hs1 h = Inr (hs1 @ [h], empty_hunk)" using Cons.prems by (simp add: flush_valid)
  then show ?case
    using Cons.IH [of hs1 h "hs1 @ [h]"] Cons.prems one_hunk [OF Cons.prems(1)]
    by (auto simp: patch_lines_append)
qed auto

text \<open>One operation, read after a section that can be closed.\<close>

lemma one_op:
  assumes "valid_op op" "close_section ops sec = Inr ops1"
  shows "\<exists>sec'. patch_lines (ops, sec) (print_op op) = Inr (ops1, sec')
     \<and> close_section ops1 sec' = Inr (ops1 @ [op])"
proof (cases op)
  case (Update path hunks)
  have "patch_line (ops, sec) (UPDATE @ '' '' @ path) = Inr (ops1, InUpdate path [] empty_hunk)"
    using assms Update
    by (simp add: patch_line_def marker_def open_section_def trim_space valid_path_def)
  moreover have "flush_hunk [] empty_hunk = Inr ([], empty_hunk)"
    by (simp add: flush_hunk_def empty_hunk_def)
  ultimately show ?thesis
    using all_hunks [of "[]" empty_hunk "[]" hunks ops1 path] assms Update by auto
next
  case (Add path content)
  have "marker (ADD @ x) UPDATE = None" for x by (simp add: marker_def ADD_def UPDATE_def)
  then have "patch_line (ops, sec) (ADD @ '' '' @ path) = Inr (ops1, InAdd path [])"
    using assms Add
    by (simp add: patch_line_def open_section_def trim_space valid_path_def) (simp add: marker_def open_section_def trim_space)
  then show ?thesis using Add by (simp add: added_file_lines)
qed

lemma all_ops:
  "\<lbrakk>list_all valid_op todo; close_section ops sec = Inr ops1\<rbrakk> \<Longrightarrow>
     \<exists>ops' sec'. patch_lines (ops, sec) (concat (map print_op todo)) = Inr (ops', sec')
       \<and> close_section ops' sec' = Inr (ops1 @ todo)"
proof (induction todo arbitrary: ops sec ops1)
  case (Cons op todo)
  then obtain sec' where s: "patch_lines (ops, sec) (print_op op) = Inr (ops1, sec')"
    "close_section ops1 sec' = Inr (ops1 @ [op])"
    using one_op by fastforce
  then show ?case using Cons.IH [OF _ s(2)] Cons.prems by (auto simp: patch_lines_append)
qed simp

lemma print_hunk_free: "valid_hunk h \<Longrightarrow> l \<in> set (print_hunk h) \<Longrightarrow> newline \<notin> set l"
  by (auto simp: print_hunk_def valid_hunk_def newline_def)

lemma print_lines_free:
  assumes "list_all valid_op ops" "l \<in> set (BEGIN # concat (map print_op ops) @ [END])"
  shows "newline \<notin> set l"
proof -
  have fixed: "newline \<notin> set BEGIN" "newline \<notin> set END" "newline \<notin> set UPDATE" "newline \<notin> set ADD"
    by (simp_all add: newline_def BEGIN_def END_def UPDATE_def ADD_def)
  have "newline \<notin> set l" if "op \<in> set ops" "l \<in> set (print_op op)" for op
  proof (cases op)
    case (Update path hunks)
    then show ?thesis
      using that assms(1) fixed print_hunk_free
      by (fastforce simp: list_all_iff valid_path_def newline_def)
  next
    case (Add path content)
    then show ?thesis
      using that assms(1) fixed split_on_pieces
      by (auto simp: list_all_iff valid_path_def newline_def)
  qed
  then show ?thesis using assms(2) fixed by auto
qed

text \<open>C40. The parser reads back what is printed: for every non-empty list of operations whose paths are
  trimmed and whose hunks change something, parsing the canonical text returns the operations.\<close>

theorem parse_print_patch:
  assumes "list_all valid_op ops" "ops \<noteq> []"
  shows "parse_patch (print_patch ops) = Inr ops"
proof -
  let ?mid = "concat (map print_op ops)"
  let ?ls = "BEGIN # ?mid @ [END]"
  have ls: "split_on newline (print_patch ops) = ?ls"
    unfolding print_patch_def using print_lines_free [OF assms(1)] by (intro split_join) auto
  have "trim_end BEGIN = BEGIN" "trim_end END = END" unfolding BEGIN_def END_def by code_simp+
  then have b: "position (\<lambda>l. trim_end l = BEGIN) ?ls = Some 0"
    and e: "rposition (\<lambda>l. trim_end l = END) ?ls = Some (length ?ls - 1)"
    by (simp_all add: rposition_def)
  have "drop (0 + 1) (take (length ?ls - 1) ?ls) = ?mid" by simp
  moreover obtain ops' sec' where "patch_lines ([], NoSection) ?mid = Inr (ops', sec')"
    "close_section ops' sec' = Inr ops"
    using all_ops [OF assms(1), of "[]" NoSection "[]"] by auto
  moreover have "\<not> length ?ls - 1 \<le> 0" by simp
  ultimately show ?thesis
    unfolding parse_patch_def Let_def ls b e option.case using assms(2) by simp
qed

theorem parse_print_patch_witness:
  "parse_patch (print_patch [Update ''a.md'' [\<lparr>old_lines = [''x''], new_lines = [''y'', ''z'']\<rparr>], Add ''b'' ''t''])
     = Inr [Update ''a.md'' [\<lparr>old_lines = [''x''], new_lines = [''y'', ''z'']\<rparr>], Add ''b'' ''t'']"
proof -
  have "trim ''a.md'' = ''a.md''" "trim ''b'' = ''b''" by code_simp+
  then show ?thesis
    by (intro parse_print_patch) (simp_all add: valid_path_def valid_hunk_def newline_def)
qed

end
