(* ===== verification/Workspace.thy ===== *)
theory Workspace
  imports V4A_Patch
begin

text \<open>
  The file tools of an agent (\<open>agent/workspace.rs\<close>): path resolution and access control, write, read,
  delete, rename and the atomic application of a V4A patch.

  A path is its list of components (\<open>Path::components()\<close>): empty and \<open>.\<close> pieces are dropped, \<open>..\<close>
  is kept, and an absolute path starts with the component \<open>/\<close>.  The operating system enters through
  \<open>real\<close>, the absolute location a path resolves to (working directory and links followed), and
  \<open>is_link\<close>; a tree maps real locations to nodes.  \<open>plain_real\<close> is the resolution in a tree without
  links.
\<close>

section \<open>Paths and trees\<close>

type_synonym path = "string list"

datatype node = Dir | File string

type_synonym tree = "path \<Rightarrow> node option"

datatype ws_error =
    SymlinkEscape
  | ParentDirComponent
  | ParentEscape
  | OutsideWorkspace
  | OtherAgentsDirectory
  | NotPermitted string
  | ReadOnlyTarget
  | IdentityFile
  | NoBasename
  | IoError
  | PatchParseError string
  | DuplicateSection string
  | HunkFailed string
  | AlreadyExists

definition slash :: char where "slash = CHR ''/''"

definition path_comps :: "string \<Rightarrow> path" where
  "path_comps s = filter (\<lambda>c. c \<noteq> [] \<and> c \<noteq> ''.'') (split_on slash s)"

definition parent_of :: "path \<Rightarrow> path option" where
  "parent_of p = (if p = [] \<or> last p = ''/'' then None else Some (butlast p))"

definition file_name :: "path \<Rightarrow> string option" where
  "file_name p = (if p = [] \<or> last p = ''/'' \<or> last p = ''..'' then None else Some (last p))"

definition under :: "path \<Rightarrow> path \<Rightarrow> bool" where
  "under base p \<longleftrightarrow> take (length base) p = base"

definition exists_at :: "(path \<Rightarrow> path) \<Rightarrow> tree \<Rightarrow> path \<Rightarrow> bool" where
  "exists_at real t p \<longleftrightarrow> t (real p) \<noteq> None"

definition canonicalize :: "(path \<Rightarrow> path) \<Rightarrow> tree \<Rightarrow> path \<Rightarrow> path option" where
  "canonicalize real t p = (if exists_at real t p then Some (real p) else None)"

definition plain_real :: "path \<Rightarrow> path \<Rightarrow> path" where
  "plain_real cwd p = (case p of c # _ \<Rightarrow> if c = ''/'' then p else cwd @ p | [] \<Rightarrow> cwd)"

definition is_file :: "tree \<Rightarrow> path \<Rightarrow> bool" where
  "is_file t q = (case t q of Some (File _) \<Rightarrow> True | _ \<Rightarrow> False)"

lemma is_file_iff: "is_file t q \<longleftrightarrow> (\<exists>c. t q = Some (File c))"
  by (auto simp: is_file_def split: option.splits node.splits)

text \<open>\<open>create_dir_all\<close>: every missing directory on the way; an error when something on the way is a
  file.\<close>

definition create_dir_all :: "(path \<Rightarrow> path) \<Rightarrow> path \<Rightarrow> tree \<Rightarrow> ws_error + tree" where
  "create_dir_all real p t =
     (let steps = map (\<lambda>k. real (take k p)) [1 ..< Suc (length p)]
      in if \<exists>q \<in> set steps. is_file t q then Inl IoError
         else Inr (\<lambda>q. if q \<in> set steps \<and> t q = None then Some Dir else t q))"

section \<open>Access control\<close>

definition READ_ONLY_FILES :: "string list" where "READ_ONLY_FILES = [''AGENTS.md'']"
definition PRIVILEGED_ROOT_FILES :: "string list" where "PRIVILEGED_ROOT_FILES = [''TOOLS.md'']"
definition TOOLS_DIR :: string where "TOOLS_DIR = ''tools''"
definition IDENTITY_FILES :: "string list" where
  "IDENTITY_FILES = [''SOUL.md'', ''IDENTITY.md'', ''MEMORY.md'', ''HEARTBEAT.md'', ''SELF.md'']"
definition SHARED_ROOT_FILES :: "string list" where
  "SHARED_ROOT_FILES = [''USER.md'', ''AGENTS.md'', ''TOOLS.md'', ''SYSTEM_TOOLS.md'']"
definition SHARED_ROOT_DIRS :: "string list" where
  "SHARED_ROOT_DIRS = [''tools'', ''skills'', ''mcp'', ''uploads'']"
definition ROOT_DIRS :: "string list" where
  "ROOT_DIRS = [''agents'', ''tools'', ''skills'', ''mcp'', ''uploads'', ''toolgate'', ''channels'']"
definition ALLOWED_EXTERNAL_PREFIXES :: "string list" where
  "ALLOWED_EXTERNAL_PREFIXES = [''docker'', ''toolgate'', ''browser-renderer'']"

definition agent_dir :: "path \<Rightarrow> string \<Rightarrow> path" where
  "agent_dir ws agent = ws @ [''agents'', agent]"

definition file_basename :: "string \<Rightarrow> ws_error + string" where
  "file_basename p = (case file_name (path_comps p) of None \<Rightarrow> Inl NoBasename | Some n \<Rightarrow> Inr n)"

definition is_read_only :: "(path \<Rightarrow> path) \<Rightarrow> tree \<Rightarrow> path \<Rightarrow> path \<Rightarrow> bool \<Rightarrow> bool" where
  "is_read_only real t ws resolved base =
     (let root = (case canonicalize real t ws of Some r \<Rightarrow> r | None \<Rightarrow> ws) in
      if \<exists>name \<in> set READ_ONLY_FILES. resolved = root @ [name] then True
      else if \<not> base \<and> (\<exists>name \<in> set PRIVILEGED_ROOT_FILES. resolved = root @ [name]) then True
      else if file_name resolved = Some ''SELF.md'' then True
      else if base \<and> (file_name resolved = Some ''SOUL.md'' \<or> file_name resolved = Some ''IDENTITY.md''
                     \<or> file_name resolved = None) then True
      else if under (root @ [TOOLS_DIR]) resolved then \<not> base
      else False)"

text \<open>\<open>trim_start_matches\<close>: the prefix is removed as often as it is there.\<close>

function trim_start_matches :: "string \<Rightarrow> string \<Rightarrow> string" where
  "trim_start_matches p s =
     (if p = [] then s
      else case strip_prefix p s of Some r \<Rightarrow> trim_start_matches p r | None \<Rightarrow> s)"
  by pat_completeness auto
termination
  by (relation "measure (\<lambda>(p, s). length s)") (auto simp: strip_prefix_Some)

declare trim_start_matches.simps [simp del]

definition normalize :: "string \<Rightarrow> string" where
  "normalize filename = trim_start_matches ''/'' (trim_start_matches ''workspace/'' filename)"

definition resolve ::
  "(path \<Rightarrow> path) \<Rightarrow> tree \<Rightarrow> path \<Rightarrow> string \<Rightarrow> string \<Rightarrow> bool \<Rightarrow> string list \<Rightarrow> path" where
  "resolve real t ws agent normalized allow_read_any shared_dirs =
     (if slash \<in> set normalized then
        (let first_component = hd (split_on slash normalized)
         in if first_component \<in> set ROOT_DIRS \<or> first_component \<in> set SHARED_ROOT_FILES
               \<or> first_component \<in> set shared_dirs
            then ws @ path_comps normalized else agent_dir ws agent @ path_comps normalized)
      else if normalized \<in> set SHARED_ROOT_FILES \<or> normalized \<in> set SHARED_ROOT_DIRS
              \<or> normalized \<in> set shared_dirs
      then ws @ path_comps normalized
      else if allow_read_any \<and> exists_at real t (ws @ path_comps normalized)
      then ws @ path_comps normalized
      else agent_dir ws agent @ path_comps normalized)"

text \<open>The containment check on a canonical path.\<close>

definition contained :: "path \<Rightarrow> path \<Rightarrow> bool" where
  "contained ws_canonical canonical \<longleftrightarrow>
     under ws_canonical canonical
     \<or> (let parent = (case parent_of ws_canonical of Some q \<Rightarrow> q | None \<Rightarrow> ws_canonical)
        in \<exists>pre \<in> set ALLOWED_EXTERNAL_PREFIXES. under (parent @ [pre]) canonical)"

definition write_allowed :: "string \<Rightarrow> string list \<Rightarrow> path \<Rightarrow> ws_error + unit" where
  "write_allowed agent shared_dirs relative =
     (let first = (case relative of c # _ \<Rightarrow> c | [] \<Rightarrow> []) in
      if length relative < 2 \<and> first \<noteq> [] then Inr ()
      else if first = ''agents'' then
        (if under [''agents'', agent] relative then Inr () else Inl OtherAgentsDirectory)
      else if first \<in> {''tools'', ''skills'', ''mcp'', ''uploads'', ''toolgate'', ''channels''} then Inr ()
      else if first \<in> set shared_dirs then Inr ()
      else Inl (NotPermitted first))"

definition validate_workspace_path_inner ::
  "(path \<Rightarrow> path) \<Rightarrow> path \<Rightarrow> string \<Rightarrow> string \<Rightarrow> bool \<Rightarrow> string list \<Rightarrow> tree
     \<Rightarrow> (ws_error + path) \<times> tree" where
  "validate_workspace_path_inner real ws agent filename allow_read_any shared_dirs t0 =
     (let t = (case create_dir_all real (agent_dir ws agent) t0 of Inl _ \<Rightarrow> t0 | Inr t1 \<Rightarrow> t1);
          resolved = resolve real t ws agent (normalize filename) allow_read_any shared_dirs;
          ws_canonical = (case canonicalize real t ws of Some q \<Rightarrow> q | None \<Rightarrow> ws);
          relative = drop (length ws) resolved
      in (if exists_at real t resolved \<and> \<not> contained ws_canonical (real resolved) then Inl SymlinkEscape
          else if ''..'' \<in> set resolved then Inl ParentDirComponent
          else if \<not> exists_at real t resolved
                  \<and> (case parent_of resolved of
                       None \<Rightarrow> False
                     | Some parent \<Rightarrow> exists_at real t parent \<and> \<not> contained ws_canonical (real parent))
          then Inl ParentEscape
          else if ''..'' \<in> set relative then Inl OutsideWorkspace
          else if allow_read_any then Inr resolved
          else (case write_allowed agent shared_dirs relative of Inl e \<Rightarrow> Inl e | Inr _ \<Rightarrow> Inr resolved), t))"

section \<open>File operations\<close>

text \<open>The system calls the operations use.  A write needs an existing parent directory and no
  directory at the location.\<close>

definition fs_write :: "(path \<Rightarrow> path) \<Rightarrow> path \<Rightarrow> string \<Rightarrow> tree \<Rightarrow> ws_error + tree" where
  "fs_write real p content t =
     (if t (real p) = Some Dir \<or> real p = [] \<or> t (butlast (real p)) \<noteq> Some Dir then Inl IoError
      else Inr (t(real p \<mapsto> File content)))"

definition fs_read :: "(path \<Rightarrow> path) \<Rightarrow> path \<Rightarrow> tree \<Rightarrow> ws_error + string" where
  "fs_read real p t = (case t (real p) of Some (File c) \<Rightarrow> Inr c | _ \<Rightarrow> Inl IoError)"

definition remove_dir_all :: "(path \<Rightarrow> path) \<Rightarrow> path \<Rightarrow> tree \<Rightarrow> tree" where
  "remove_dir_all real p t = (\<lambda>q. if under (real p) q then None else t q)"

definition remove_file :: "(path \<Rightarrow> path) \<Rightarrow> path \<Rightarrow> tree \<Rightarrow> ws_error + tree" where
  "remove_file real p t =
     (case t (real p) of Some (File _) \<Rightarrow> Inr (t(real p := None)) | _ \<Rightarrow> Inl IoError)"

text \<open>A rename moves a file over a file or a free name, and a directory to a free name or over an
  empty directory outside itself.\<close>

definition move_node :: "path \<Rightarrow> path \<Rightarrow> tree \<Rightarrow> tree" where
  "move_node src dst t =
     (\<lambda>q. if under dst q then t (src @ drop (length dst) q)
          else if under src q then None else t q)"

definition fs_rename :: "(path \<Rightarrow> path) \<Rightarrow> path \<Rightarrow> path \<Rightarrow> tree \<Rightarrow> ws_error + tree" where
  "fs_rename real src dst t =
     (let s = real src; d = real dst in
      case t s of
        None \<Rightarrow> Inl IoError
      | Some (File c) \<Rightarrow>
          (if t d = Some Dir \<or> d = [] \<or> t (butlast d) \<noteq> Some Dir then Inl IoError
           else if s = d then Inr t
           else Inr (t(s := None, d := Some (File c))))
      | Some Dir \<Rightarrow>
          (if s = d then Inr t
           else if under s d \<or> under d s \<or> d = [] \<or> t (butlast d) \<noteq> Some Dir
                   \<or> is_file t d \<or> (\<exists>q. q \<noteq> d \<and> under d q \<and> t q \<noteq> None)
           then Inl IoError else Inr (move_node s d t)))"

fun replace_crlf :: "string \<Rightarrow> string" where
  "replace_crlf (a # b # s) =
     (if a = CHR 0x0D \<and> b = CHR 0x0A then CHR 0x0A # replace_crlf s else a # replace_crlf (b # s))"
| "replace_crlf s = s"

definition read_workspace_file ::
  "(path \<Rightarrow> path) \<Rightarrow> path \<Rightarrow> string list \<Rightarrow> string \<Rightarrow> string \<Rightarrow> tree \<Rightarrow> (ws_error + string) \<times> tree" where
  "read_workspace_file real ws shared_dirs agent filename t =
     (case validate_workspace_path_inner real ws agent filename True shared_dirs t of
        (Inl e, t1) \<Rightarrow> (Inl e, t1)
      | (Inr p, t1) \<Rightarrow>
          (case fs_read real p t1 of Inl e \<Rightarrow> (Inl e, t1) | Inr c \<Rightarrow> (Inr (replace_crlf c), t1)))"

definition write_workspace_file ::
  "(path \<Rightarrow> path) \<Rightarrow> (path \<Rightarrow> bool) \<Rightarrow> path \<Rightarrow> string list \<Rightarrow> string \<Rightarrow> string \<Rightarrow> string \<Rightarrow> bool \<Rightarrow> tree
     \<Rightarrow> (ws_error + unit) \<times> tree" where
  "write_workspace_file real is_link ws shared_dirs agent filename content base t =
     (case validate_workspace_path_inner real ws agent filename False shared_dirs t of
        (Inl e, t1) \<Rightarrow> (Inl e, t1)
      | (Inr p, t1) \<Rightarrow>
     (case parent_of p of None \<Rightarrow> (Inl IoError, t1) | Some parent \<Rightarrow>
     (case create_dir_all real parent t1 of Inl e \<Rightarrow> (Inl e, t1) | Inr t2 \<Rightarrow>
     (case canonicalize real t2 parent of None \<Rightarrow> (Inl IoError, t2) | Some parent_canon \<Rightarrow>
     (case file_name p of None \<Rightarrow> (Inl NoBasename, t2) | Some file \<Rightarrow>
        (let candidate = parent_canon @ [file];
             check_path = (if is_link candidate
                           then (case canonicalize real t2 candidate of Some c \<Rightarrow> c | None \<Rightarrow> candidate)
                           else candidate);
             ws_canon = (case canonicalize real t2 ws of Some q \<Rightarrow> q | None \<Rightarrow> ws)
         in if \<not> under ws_canon check_path then (Inl OutsideWorkspace, t2)
            else if is_read_only real t2 ws check_path base then (Inl ReadOnlyTarget, t2)
            else (case fs_write real p content t2 of
                    Inl e \<Rightarrow> (Inl e, t2) | Inr t3 \<Rightarrow> (Inr (), t3))))))))"

definition delete_workspace_file ::
  "(path \<Rightarrow> path) \<Rightarrow> path \<Rightarrow> string list \<Rightarrow> string \<Rightarrow> string \<Rightarrow> tree \<Rightarrow> (ws_error + unit) \<times> tree" where
  "delete_workspace_file real ws shared_dirs agent filename t =
     (case validate_workspace_path_inner real ws agent filename False shared_dirs t of
        (Inl e, t1) \<Rightarrow> (Inl e, t1)
      | (Inr p, t1) \<Rightarrow>
          (if is_read_only real t1 ws p False then (Inl ReadOnlyTarget, t1)
           else (case file_basename filename of
                   Inl e \<Rightarrow> (Inl e, t1)
                 | Inr name \<Rightarrow>
                     (if name \<in> set IDENTITY_FILES then (Inl IdentityFile, t1)
                      else if t1 (real p) = Some Dir then (Inr (), remove_dir_all real p t1)
                      else (case remove_file real p t1 of
                              Inl e \<Rightarrow> (Inl e, t1) | Inr t2 \<Rightarrow> (Inr (), t2))))))"

definition rename_workspace_file ::
  "(path \<Rightarrow> path) \<Rightarrow> path \<Rightarrow> string list \<Rightarrow> string \<Rightarrow> string \<Rightarrow> string \<Rightarrow> tree
     \<Rightarrow> (ws_error + unit) \<times> tree" where
  "rename_workspace_file real ws shared_dirs agent old_path new_path t =
     (case file_basename old_path of Inl e \<Rightarrow> (Inl e, t) | Inr n1 \<Rightarrow>
     (if n1 \<in> set IDENTITY_FILES then (Inl IdentityFile, t) else
     (case file_basename new_path of Inl e \<Rightarrow> (Inl e, t) | Inr n2 \<Rightarrow>
     (if n2 \<in> set IDENTITY_FILES then (Inl IdentityFile, t) else
     (case validate_workspace_path_inner real ws agent old_path False shared_dirs t of
        (Inl e, t1) \<Rightarrow> (Inl e, t1)
      | (Inr src, t1) \<Rightarrow>
     (case validate_workspace_path_inner real ws agent new_path False shared_dirs t1 of
        (Inl e, t2) \<Rightarrow> (Inl e, t2)
      | (Inr dst, t2) \<Rightarrow>
     (case (case parent_of dst of None \<Rightarrow> Inr t2 | Some parent \<Rightarrow> create_dir_all real parent t2) of
        Inl e \<Rightarrow> (Inl e, t2)
      | Inr t3 \<Rightarrow>
          (case fs_rename real src dst t3 of Inl e \<Rightarrow> (Inl e, t3) | Inr t4 \<Rightarrow> (Inr (), t4)))))))))"

section \<open>Applying a patch\<close>

record PatchOutcome =
  updated :: "string list"
  added :: "string list"
  po_hunks :: nat
  warnings :: string

fun op_path :: "FileOp \<Rightarrow> string" where
  "op_path (Update path hunks) = path"
| "op_path (Add path content) = path"

text \<open>The new content of one file section.\<close>

definition section_content ::
  "(path \<Rightarrow> path) \<Rightarrow> path \<Rightarrow> string list \<Rightarrow> string \<Rightarrow> path \<Rightarrow> FileOp \<Rightarrow> PatchOutcome \<Rightarrow> tree
     \<Rightarrow> (ws_error + (string \<times> PatchOutcome)) \<times> tree" where
  "section_content real ws shared_dirs agent resolved op oc t =
     (case op of
        Update path hunks \<Rightarrow>
          (case read_workspace_file real ws shared_dirs agent path t of
             (Inl e, t1) \<Rightarrow> (Inl e, t1)
           | (Inr original, t1) \<Rightarrow>
               (case apply_hunks original hunks of
                  Inl e \<Rightarrow> (Inl (HunkFailed e), t1)
                | Inr new_content \<Rightarrow>
                    (Inr (new_content, oc\<lparr>po_hunks := po_hunks oc + length hunks,
                                         updated := updated oc @ [path]\<rparr>), t1)))
      | Add path content \<Rightarrow>
          (if exists_at real t resolved then (Inl AlreadyExists, t)
           else (Inr (content, oc\<lparr>added := added oc @ [path]\<rparr>), t)))"

text \<open>Phase 1: everything is checked and computed; \<open>smell\<close> is \<open>code_smell::warning_for\<close>.\<close>

fun plan_writes ::
  "(string \<Rightarrow> string \<Rightarrow> string) \<Rightarrow> (path \<Rightarrow> path) \<Rightarrow> path \<Rightarrow> string list \<Rightarrow> string \<Rightarrow> bool
     \<Rightarrow> FileOp list \<Rightarrow> string list \<Rightarrow> (string \<times> string) list \<Rightarrow> PatchOutcome \<Rightarrow> tree
     \<Rightarrow> (ws_error + ((string \<times> string) list \<times> PatchOutcome)) \<times> tree" where
  "plan_writes smell real ws shared agent base [] seen writes oc t = (Inr (writes, oc), t)"
| "plan_writes smell real ws shared agent base (op # ops) seen writes oc t =
     (if op_path op \<in> set seen then (Inl (DuplicateSection (op_path op)), t)
      else
        (case validate_workspace_path_inner real ws agent (op_path op) False shared t of
           (Inl e, t1) \<Rightarrow> (Inl e, t1)
         | (Inr resolved, t1) \<Rightarrow>
             (if is_read_only real t1 ws resolved base then (Inl ReadOnlyTarget, t1)
              else
                (case section_content real ws shared agent resolved op oc t1 of
                   (Inl e, t2) \<Rightarrow> (Inl e, t2)
                 | (Inr (content, oc1), t2) \<Rightarrow>
                     plan_writes smell real ws shared agent base ops (op_path op # seen)
                       (writes @ [(op_path op, content)])
                       (oc1\<lparr>warnings := warnings oc1 @ smell (op_path op) content\<rparr>) t2))))"

fun write_all ::
  "(path \<Rightarrow> path) \<Rightarrow> (path \<Rightarrow> bool) \<Rightarrow> path \<Rightarrow> string list \<Rightarrow> string \<Rightarrow> bool \<Rightarrow> (string \<times> string) list \<Rightarrow> tree
     \<Rightarrow> (ws_error + unit) \<times> tree" where
  "write_all real is_link ws shared agent base [] t = (Inr (), t)"
| "write_all real is_link ws shared agent base ((filename, content) # writes) t =
     (case write_workspace_file real is_link ws shared agent filename content base t of
        (Inl e, t1) \<Rightarrow> (Inl e, t1)
      | (Inr _, t1) \<Rightarrow> write_all real is_link ws shared agent base writes t1)"

definition empty_outcome :: PatchOutcome where
  "empty_outcome = \<lparr>updated = [], added = [], po_hunks = 0, warnings = []\<rparr>"

definition apply_v4a_patch ::
  "(string \<Rightarrow> string \<Rightarrow> string) \<Rightarrow> (path \<Rightarrow> path) \<Rightarrow> (path \<Rightarrow> bool) \<Rightarrow> path \<Rightarrow> string list \<Rightarrow> string \<Rightarrow> string
     \<Rightarrow> bool \<Rightarrow> tree \<Rightarrow> (ws_error + PatchOutcome) \<times> tree" where
  "apply_v4a_patch smell real is_link ws shared agent patch base t =
     (case parse_patch patch of
        Inl e \<Rightarrow> (Inl (PatchParseError e), t)
      | Inr ops \<Rightarrow>
          (case plan_writes smell real ws shared agent base ops [] [] empty_outcome t of
             (Inl e, t1) \<Rightarrow> (Inl e, t1)
           | (Inr (writes, oc), t1) \<Rightarrow>
               (case write_all real is_link ws shared agent base writes t1 of
                  (Inl e, t2) \<Rightarrow> (Inl e, t2)
                | (Inr _, t2) \<Rightarrow> (Inr oc, t2))))"

section \<open>Where a validated path can point\<close>

lemma under_iff: "under base p \<longleftrightarrow> (\<exists>r. p = base @ r)"
  unfolding under_def by (metis append_eq_conv_conj append_take_drop_id)

lemma under_append [simp]: "under base (base @ r)"
  by (simp add: under_def)

lemma under_same_prefix [simp]: "under (a @ b) (a @ c) \<longleftrightarrow> under b c"
  by (auto simp: under_iff)

lemma resolve_rel: "\<exists>rel. resolve real t ws agent n r shared = ws @ rel"
  by (auto simp: resolve_def Let_def agent_dir_def)

text \<open>The part of the workspace an agent may write: files of the root, its own directory, the shared
  directories.\<close>

definition writable_area :: "string \<Rightarrow> string list \<Rightarrow> path \<Rightarrow> bool" where
  "writable_area agent shared rel \<longleftrightarrow>
     (\<exists>name. rel = [name]) \<or> under [''agents'', agent] rel
     \<or> (rel \<noteq> [] \<and> (hd rel \<in> {''tools'', ''skills'', ''mcp'', ''uploads'', ''toolgate'', ''channels''}
                    \<or> hd rel \<in> set shared))"

lemma write_allowed_area:
  "write_allowed agent shared rel = Inr () \<Longrightarrow> [] \<notin> set shared \<Longrightarrow> writable_area agent shared rel"
  by (cases rel) (auto simp: write_allowed_def writable_area_def Let_def split: if_splits)

lemma validate_Inr:
  assumes "validate_workspace_path_inner real ws agent filename allow shared t0 = (Inr p, t)"
  shows "t = (case create_dir_all real (agent_dir ws agent) t0 of Inl _ \<Rightarrow> t0 | Inr t1 \<Rightarrow> t1)"
    and "p = resolve real t ws agent (normalize filename) allow shared"
    and "''..'' \<notin> set p"
    and "\<not> allow \<Longrightarrow> write_allowed agent shared (drop (length ws) p) = Inr ()"
  using assms by (auto simp: validate_workspace_path_inner_def Let_def split: if_splits sum.splits)

lemma validate_write_area:
  assumes "validate_workspace_path_inner real ws agent filename False shared t0 = (Inr p, t)" "[] \<notin> set shared"
  shows "\<exists>rel. p = ws @ rel \<and> writable_area agent shared rel \<and> ''..'' \<notin> set p"
proof -
  obtain rel where rel: "p = ws @ rel"
    using validate_Inr(2) [OF assms(1)] resolve_rel [of real t ws agent "normalize filename" False shared] by auto
  then have "write_allowed agent shared rel = Inr ()" using validate_Inr(4) [OF assms(1)] by simp
  then show ?thesis using rel validate_Inr(3) [OF assms(1)] write_allowed_area assms(2) by blast
qed

section \<open>What a write changes\<close>

lemma plain_real_append:
  "ws \<noteq> [] \<Longrightarrow> plain_real cwd (ws @ rel) = plain_real cwd ws @ rel"
  by (cases ws) (simp_all add: plain_real_def)

text \<open>Files that the tools must not modify.\<close>

definition protected :: "path \<Rightarrow> bool \<Rightarrow> path \<Rightarrow> bool" where
  "protected root base q \<longleftrightarrow>
     q = root @ [''AGENTS.md''] \<or> last q = ''SELF.md''
     \<or> (\<not> base \<and> (q = root @ [''TOOLS.md''] \<or> under (root @ [''tools'']) q))
     \<or> (base \<and> (last q = ''SOUL.md'' \<or> last q = ''IDENTITY.md''))"

text \<open>Two trees with the same files; directories may have been created.\<close>

definition same_files :: "tree \<Rightarrow> tree \<Rightarrow> bool" where
  "same_files t t' \<longleftrightarrow> (\<forall>q c. t' q = Some (File c) \<longleftrightarrow> t q = Some (File c))"

lemma same_files_refl [simp]: "same_files t t"
  by (simp add: same_files_def)

lemma same_files_trans: "same_files a b \<Longrightarrow> same_files b c \<Longrightarrow> same_files a c"
  by (simp add: same_files_def)

lemma create_dir_files: "create_dir_all real p t = Inr t' \<Longrightarrow> same_files t t'"
  by (auto simp: create_dir_all_def Let_def same_files_def is_file_iff split: if_splits)

lemma create_dir_exists:
  assumes "create_dir_all real p t = Inr t'" "0 < k" "k \<le> length p"
  shows "t' (real (take k p)) = Some Dir"
proof -
  let ?steps = "map (\<lambda>k. real (take k p)) [1 ..< Suc (length p)]"
  have "k \<in> set [1 ..< Suc (length p)]" using assms(2,3) by auto
  then have "real (take k p) \<in> set ?steps" unfolding set_map by (rule imageI)
  moreover have "\<forall>q \<in> set ?steps. \<forall>c. t q \<noteq> Some (File c)"
    and t': "t' = (\<lambda>q. if q \<in> set ?steps \<and> t q = None then Some Dir else t q)"
    using assms(1) by (auto simp: create_dir_all_def Let_def is_file_iff split: if_splits)
  ultimately show ?thesis by (metis node.exhaust option.exhaust)
qed

lemma validate_files:
  "same_files t0 (snd (validate_workspace_path_inner real ws agent filename allow shared t0))"
  by (auto simp: validate_workspace_path_inner_def Let_def split: sum.splits dest: create_dir_files)

lemma is_read_only_protected:
  assumes "t (real ws) \<noteq> None" "\<not> is_read_only real t ws q base" "q \<noteq> []"
  shows "\<not> protected (real ws) base q"
proof -
  have root: "canonicalize real t ws = Some (real ws)"
    using assms(1) by (simp add: canonicalize_def exists_at_def)
  have fn: "last q \<notin> {''/'', ''..''} \<Longrightarrow> file_name q = Some (last q)"
    using assms(3) by (simp add: file_name_def)
  show ?thesis
    using assms(2) fn unfolding is_read_only_def root option.case Let_def protected_def
    by (auto simp: READ_ONLY_FILES_def PRIVILEGED_ROOT_FILES_def TOOLS_DIR_def split: if_splits)
qed

lemma write_Inr:
  assumes "write_workspace_file real (\<lambda>_. False) ws shared agent filename content base t = (Inr (), t')"
  obtains p t1 parent fl t2 where
    "validate_workspace_path_inner real ws agent filename False shared t = (Inr p, t1)"
    "parent_of p = Some parent" "create_dir_all real parent t1 = Inr t2" "file_name p = Some fl"
    "\<not> is_read_only real t2 ws (real parent @ [fl]) base"
    "fs_write real p content t2 = Inr t'"
  using assms unfolding write_workspace_file_def
  by (auto simp: Let_def canonicalize_def split: prod.splits sum.splits option.splits if_splits)

lemma write_confined:
  assumes w: "write_workspace_file (plain_real cwd) (\<lambda>_. False) ws shared agent filename content base t = (Inr (), t')"
    and ws: "ws \<noteq> []" and sh: "[] \<notin> set shared"
  shows "\<exists>rel t2. t' = t2(plain_real cwd ws @ rel \<mapsto> File content) \<and> same_files t t2
     \<and> writable_area agent shared rel \<and> ''..'' \<notin> set rel
     \<and> \<not> protected (plain_real cwd ws) base (plain_real cwd ws @ rel)"
proof -
  let ?real = "plain_real cwd" and ?root = "plain_real cwd ws"
  obtain p t1 parent fl t2 where v: "validate_workspace_path_inner ?real ws agent filename False shared t = (Inr p, t1)"
    and pp: "parent_of p = Some parent" and cd: "create_dir_all ?real parent t1 = Inr t2"
    and fn: "file_name p = Some fl" and ro: "\<not> is_read_only ?real t2 ws (?real parent @ [fl]) base"
    and wr: "fs_write ?real p content t2 = Inr t'"
    using w by (rule write_Inr)
  obtain rel where rel: "p = ws @ rel" "writable_area agent shared rel" "''..'' \<notin> set p"
    using validate_write_area [OF v sh] by blast
  have rne: "rel \<noteq> []" using rel(2) by (auto simp: writable_area_def under_def)
  have par: "parent = ws @ butlast rel" and flast: "fl = last rel"
    using pp fn rel(1) rne by (auto simp: parent_of_def file_name_def butlast_append split: if_splits)
  have loc: "?real parent @ [fl] = ?root @ rel"
    using par flast rne ws by (simp add: plain_real_append)
  have "t2 (?real (take (length ws) parent)) = Some Dir"
    by (rule create_dir_exists [OF cd]) (use ws par in auto)
  then have "t2 ?root \<noteq> None" using par by simp
  then have "\<not> protected ?root base (?root @ rel)"
    using is_read_only_protected [of t2 ?real ws "?root @ rel" base] ro rne unfolding loc by simp
  moreover have "same_files t t2"
    using validate_files [of t ?real ws agent filename False shared] create_dir_files [OF cd] v
    by (auto intro: same_files_trans)
  moreover have "t' = t2(?root @ rel \<mapsto> File content)"
    using wr rel(1) ws by (auto simp: fs_write_def plain_real_append split: if_splits)
  ultimately show ?thesis using rel by auto
qed


definition ws_example :: tree where
  "ws_example = [[''/''] \<mapsto> Dir, [''/'', ''workspace''] \<mapsto> Dir, [''/'', ''workspace'', ''AGENTS.md''] \<mapsto> File ''rules'',
     [''/'', ''workspace'', ''agents''] \<mapsto> Dir, [''/'', ''workspace'', ''agents'', ''op''] \<mapsto> Dir,
     [''/'', ''workspace'', ''agents'', ''zed''] \<mapsto> Dir,
     [''/'', ''workspace'', ''agents'', ''zed'', ''SOUL.md''] \<mapsto> File ''me'']"

lemma ws_example_write:
  "fst (write_workspace_file (plain_real [''/'']) (\<lambda>_. False) [''workspace''] [] ''op'' ''n.md'' ''x'' False ws_example)
     = Inr ()"
  by code_simp

lemma ws_example_agent_dir:
  "\<exists>t1. create_dir_all (plain_real [''/'']) (agent_dir [''workspace''] ''op'') ws_example = Inr t1"
proof -
  have "\<not> (\<exists>q \<in> set (map (\<lambda>k. plain_real [''/''] (take k (agent_dir [''workspace''] ''op'')))
            [1 ..< Suc (length (agent_dir [''workspace''] ''op''))]). is_file ws_example q)"
    by code_simp
  then show ?thesis unfolding create_dir_all_def Let_def by (simp only: if_False) blast
qed


section \<open>Deleting\<close>

lemma under_last: "\<lbrakk>under base p; length p \<le> length base\<rbrakk> \<Longrightarrow> p = base"
  by (auto simp: under_iff)

lemma plain_real_length: "length p \<le> length (plain_real cwd p)"
  by (auto simp: plain_real_def split: list.splits)

text \<open>The path \<open>agents/\<close> is resolved to the directory that holds the directories of all agents, and
  passes as a file of the workspace root.\<close>

lemma validate_agents:
  assumes "ws \<noteq> []" "''..'' \<notin> set ws" "create_dir_all (plain_real cwd) (agent_dir ws agent) t = Inr t1"
  shows "validate_workspace_path_inner (plain_real cwd) ws agent ''agents/'' False shared t = (Inr (ws @ [''agents'']), t1)"
proof -
  let ?real = "plain_real cwd"
  have n: "normalize ''agents/'' = ''agents/''" by code_simp
  have "slash \<in> set ''agents/''" "hd (split_on slash ''agents/'') = ''agents''" "path_comps ''agents/'' = [''agents'']"
    by code_simp+
  then have r: "resolve ?real t1 ws agent ''agents/'' False shared = ws @ [''agents'']"
    by (simp add: resolve_def Let_def ROOT_DIRS_def)
  have "t1 (?real (take (length ws) (agent_dir ws agent))) = Some Dir"
    by (rule create_dir_exists [OF assms(3)]) (use assms(1) in \<open>auto simp: agent_dir_def\<close>)
  then have c: "canonicalize ?real t1 ws = Some (?real ws)"
    by (simp add: canonicalize_def exists_at_def agent_dir_def)
  have "t1 (?real (take (Suc (length ws)) (agent_dir ws agent))) = Some Dir"
    by (rule create_dir_exists [OF assms(3)]) (auto simp: agent_dir_def)
  then have e: "exists_at ?real t1 (ws @ [''agents''])"
    by (simp add: exists_at_def agent_dir_def)
  have "contained (?real ws) (?real (ws @ [''agents'']))"
    using assms(1) by (simp add: contained_def plain_real_append)
  then show ?thesis
    using assms(2,3) e by (simp add: validate_workspace_path_inner_def Let_def n r c write_allowed_def)
qed

text \<open>Any agent can delete the directories of all agents: \<open>workspace_delete\<close> of \<open>agents/\<close> succeeds
  for every agent and leaves nothing below \<open>agents\<close>, neither its own files nor those of the others.\<close>

theorem delete_agents_removes_all:
  assumes "ws \<noteq> []" "''..'' \<notin> set ws" "create_dir_all (plain_real cwd) (agent_dir ws agent) t = Inr t1"
  shows "\<exists>t'. delete_workspace_file (plain_real cwd) ws shared agent ''agents/'' t = (Inr (), t')
     \<and> t' (plain_real cwd ws @ [''agents'', other] @ rest) = None"
proof -
  let ?real = "plain_real cwd" and ?p = "ws @ [''agents'']"
  have "canonicalize ?real t1 ws \<in> {None, Some (?real ws)}" by (simp add: canonicalize_def)
  then obtain root where root: "(case canonicalize ?real t1 ws of Some r \<Rightarrow> r | None \<Rightarrow> ws) = root" "length ws \<le> length root"
    using plain_real_length [of ws cwd] by auto
  have "\<not> under (root @ [x]) ?p" if "x \<noteq> ''agents''" for x
    using under_last [of "root @ [x]" ?p] root(2) that by auto
  then have "\<not> is_read_only ?real t1 ws ?p False"
    unfolding is_read_only_def root(1) Let_def
    by (auto simp: READ_ONLY_FILES_def PRIVILEGED_ROOT_FILES_def TOOLS_DIR_def file_name_def)
  moreover have "file_basename ''agents/'' = Inr ''agents''" by code_simp
  moreover have "t1 (?real (take (Suc (length ws)) (agent_dir ws agent))) = Some Dir"
    by (rule create_dir_exists [OF assms(3)]) (auto simp: agent_dir_def)
  ultimately have "delete_workspace_file ?real ws shared agent ''agents/'' t = (Inr (), remove_dir_all ?real ?p t1)"
    by (simp add: delete_workspace_file_def validate_agents [OF assms] IDENTITY_FILES_def agent_dir_def)
  moreover have "remove_dir_all ?real ?p t1 (?real ws @ [''agents'', other] @ rest) = None"
    using assms(1) by (simp add: remove_dir_all_def plain_real_append under_iff)
  ultimately show ?thesis by blast
qed

theorem delete_agents_removes_all_witness:
  "\<exists>t'. ws_example [''/'', ''workspace'', ''agents'', ''zed'', ''SOUL.md''] = Some (File ''me'')
     \<and> delete_workspace_file (plain_real [''/'']) [''workspace''] [] ''op'' ''agents/'' ws_example = (Inr (), t')
     \<and> t' [''/'', ''workspace'', ''agents'', ''zed'', ''SOUL.md''] = None"
proof -
  obtain t1 where "create_dir_all (plain_real [''/'']) (agent_dir [''workspace''] ''op'') ws_example = Inr t1"
    using ws_example_agent_dir by blast
  from delete_agents_removes_all [OF _ _ this, of "[]" "''zed''" "[''SOUL.md'']"] show ?thesis
    by (simp add: plain_real_def ws_example_def)
qed

text \<open>The protection of root files compares the canonical workspace root with a path that is not
  canonical.\<close>

lemma validate_root_file:
  assumes "ws \<noteq> []" "''..'' \<notin> set ws" "create_dir_all (plain_real cwd) (agent_dir ws agent) t = Inr t1"
    and "t (plain_real cwd ws @ [''AGENTS.md'']) = Some (File c)"
  shows "validate_workspace_path_inner (plain_real cwd) ws agent ''AGENTS.md'' False shared t
      = (Inr (ws @ [''AGENTS.md'']), t1)"
    and "t1 (plain_real cwd ws @ [''AGENTS.md'']) = Some (File c)"
proof -
  let ?real = "plain_real cwd"
  show f: "t1 (?real ws @ [''AGENTS.md'']) = Some (File c)"
    using create_dir_files [OF assms(3)] assms(4) by (simp add: same_files_def)
  have n: "normalize ''AGENTS.md'' = ''AGENTS.md''" by code_simp
  have "slash \<notin> set ''AGENTS.md''" "path_comps ''AGENTS.md'' = [''AGENTS.md'']" by code_simp+
  then have r: "resolve ?real t1 ws agent ''AGENTS.md'' False shared = ws @ [''AGENTS.md'']"
    by (simp add: resolve_def SHARED_ROOT_FILES_def)
  have "t1 (?real (take (length ws) (agent_dir ws agent))) = Some Dir"
    by (rule create_dir_exists [OF assms(3)]) (use assms(1) in \<open>auto simp: agent_dir_def\<close>)
  then have cn: "canonicalize ?real t1 ws = Some (?real ws)"
    by (simp add: canonicalize_def exists_at_def agent_dir_def)
  have "contained (?real ws) (?real (ws @ [''AGENTS.md'']))"
    using assms(1) by (simp add: contained_def plain_real_append)
  moreover have "exists_at ?real t1 (ws @ [''AGENTS.md''])"
    using f assms(1) by (simp add: exists_at_def plain_real_append)
  ultimately show "validate_workspace_path_inner ?real ws agent ''AGENTS.md'' False shared t
      = (Inr (ws @ [''AGENTS.md'']), t1)"
    using assms(2,3) by (simp add: validate_workspace_path_inner_def Let_def n r cn write_allowed_def)
qed

text \<open>The read-only file \<open>AGENTS.md\<close> can be deleted.  With a relative workspace directory (the
  configuration is \<open>workspace\<close>) \<open>workspace_delete\<close> of \<open>AGENTS.md\<close> succeeds for every agent: the
  guard compares the canonical root with the path that was not made canonical.\<close>

theorem delete_read_only_file:
  assumes "ws \<noteq> []" "hd ws \<noteq> ''/''" "''..'' \<notin> set ws" "cwd \<noteq> []"
    and "create_dir_all (plain_real cwd) (agent_dir ws agent) t = Inr t1"
    and "t (plain_real cwd ws @ [''AGENTS.md'']) = Some (File c)"
  shows "\<exists>t'. delete_workspace_file (plain_real cwd) ws shared agent ''AGENTS.md'' t = (Inr (), t')
     \<and> t' (plain_real cwd ws @ [''AGENTS.md'']) = None"
proof -
  let ?real = "plain_real cwd" and ?p = "ws @ [''AGENTS.md'']"
  note v = validate_root_file [OF assms(1,3,5,6)]
  have root: "?real ws = cwd @ ws" using assms(1,2) by (cases ws) (simp_all add: plain_real_def)
  have "t1 (?real (take (length ws) (agent_dir ws agent))) = Some Dir"
    by (rule create_dir_exists [OF assms(5)]) (use assms(1) in \<open>auto simp: agent_dir_def\<close>)
  then have cn: "canonicalize ?real t1 ws = Some (cwd @ ws)"
    by (simp add: canonicalize_def exists_at_def agent_dir_def root)
  have len: "length ?p < length (cwd @ ws @ [x])" for x :: string using assms(4) by (cases cwd) auto
  have neq: "?p \<noteq> cwd @ ws @ [x]" for x
  proof
    assume "?p = cwd @ ws @ [x]"
    then have "length ?p = length (cwd @ ws @ [x])" by (rule arg_cong)
    then show False using len [of x] by simp
  qed
  moreover have "\<not> under (cwd @ ws @ [x]) ?p" for x
    using under_last [of "cwd @ ws @ [x]" ?p] len [of x] neq [of x] by linarith
  ultimately have "\<not> is_read_only ?real t1 ws ?p False"
    using assms(4) by (simp add: is_read_only_def cn Let_def file_name_def)
  moreover have "file_basename ''AGENTS.md'' = Inr ''AGENTS.md''" by code_simp
  moreover have "t1 (?real ?p) = Some (File c)" using v(2) assms(1) by (simp add: plain_real_append)
  ultimately have "delete_workspace_file ?real ws shared agent ''AGENTS.md'' t = (Inr (), t1(?real ?p := None))"
    by (simp add: delete_workspace_file_def v(1) IDENTITY_FILES_def remove_file_def)
  then show ?thesis using assms(1) by (simp add: plain_real_append)
qed

theorem delete_read_only_file_witness:
  "\<exists>t'. delete_workspace_file (plain_real [''/'']) [''workspace''] [] ''op'' ''AGENTS.md'' ws_example = (Inr (), t')
     \<and> t' [''/'', ''workspace'', ''AGENTS.md''] = None"
proof -
  obtain t1 where t1: "create_dir_all (plain_real [''/'']) (agent_dir [''workspace''] ''op'') ws_example = Inr t1"
    using ws_example_agent_dir by blast
  have "ws_example (plain_real [''/''] [''workspace''] @ [''AGENTS.md'']) = Some (File ''rules'')"
    by (simp add: ws_example_def plain_real_def)
  from delete_read_only_file [OF _ _ _ _ t1 this, of "[]"] show ?thesis by (simp add: plain_real_def)
qed

section \<open>What a patch changes\<close>

definition file_at :: "tree \<Rightarrow> path \<Rightarrow> string option" where
  "file_at t q = (case t q of Some (File c) \<Rightarrow> Some c | _ \<Rightarrow> None)"

lemma same_files_file_at: "same_files t t' \<longleftrightarrow> file_at t = file_at t'"
proof -
  have "file_at t q = Some c \<longleftrightarrow> t q = Some (File c)" for t q c
    by (auto simp: file_at_def split: option.splits node.splits)
  then show ?thesis unfolding same_files_def fun_eq_iff by (metis option.exhaust)
qed

lemma write_error_files:
  assumes "write_workspace_file real is_link ws shared agent filename content base t = (Inl e, t')"
  shows "same_files t t'"
proof -
  have v: "same_files t t1" if "validate_workspace_path_inner real ws agent filename False shared t = (x, t1)" for x t1
    using validate_files [of t real ws agent filename False shared] that by simp
  show ?thesis
    using assms unfolding write_workspace_file_def
    by (auto simp: Let_def split: prod.splits sum.splits option.splits if_splits
        dest!: v dest: create_dir_files intro: same_files_trans)
qed

definition confined :: "path \<Rightarrow> string \<Rightarrow> string list \<Rightarrow> bool \<Rightarrow> tree \<Rightarrow> tree \<Rightarrow> bool" where
  "confined root agent shared base t t' \<longleftrightarrow>
     (\<forall>q. file_at t' q \<noteq> file_at t q \<longrightarrow>
        (\<exists>rel. q = root @ rel \<and> writable_area agent shared rel \<and> \<not> protected root base q))"

lemma confined_same: "same_files t t' \<Longrightarrow> confined root agent shared base t t'"
  by (simp add: confined_def same_files_file_at)

lemma confined_trans:
  "confined root agent shared base a b \<Longrightarrow> confined root agent shared base b c \<Longrightarrow> confined root agent shared base a c"
  unfolding confined_def by metis

lemma write_is_confined:
  assumes "ws \<noteq> []" "[] \<notin> set shared"
  shows "confined (plain_real cwd ws) agent shared base t
     (snd (write_workspace_file (plain_real cwd) (\<lambda>_. False) ws shared agent filename content base t))"
proof -
  obtain r t' where w: "write_workspace_file (plain_real cwd) (\<lambda>_. False) ws shared agent filename content base t = (r, t')"
    by (rule prod.exhaust)
  show ?thesis
  proof (cases r)
    case (Inl e)
    then show ?thesis using w write_error_files confined_same by fastforce
  next
    case (Inr u)
    obtain rel t2 where "t' = t2(plain_real cwd ws @ rel \<mapsto> File content)" "same_files t t2"
      "writable_area agent shared rel" "\<not> protected (plain_real cwd ws) base (plain_real cwd ws @ rel)"
      using write_confined [of cwd ws shared agent filename content base t t'] w Inr assms by auto
    moreover have "file_at (t2(p \<mapsto> File content)) q = file_at t2 q" if "q \<noteq> p" for p q
      using that by (simp add: file_at_def)
    ultimately show ?thesis
      unfolding confined_def w snd_conv by (metis same_files_file_at)
  qed
qed

lemma write_all_confined:
  assumes "ws \<noteq> []" "[] \<notin> set shared"
  shows "confined (plain_real cwd ws) agent shared base t
     (snd (write_all (plain_real cwd) (\<lambda>_. False) ws shared agent base writes t))"
proof (induction writes arbitrary: t)
  case (Cons x writes)
  obtain f c where x: "x = (f, c)" by (rule prod.exhaust)
  show ?case
    using write_is_confined [OF assms, of cwd agent base t f c] Cons.IH
    by (auto simp: x split: prod.splits sum.splits intro: confined_trans)
qed (simp add: confined_same)

lemma section_files:
  "same_files t (snd (section_content real ws shared agent resolved op oc t))"
proof -
  have "same_files t (snd (read_workspace_file real ws shared agent f t))" for f
    using validate_files [of t real ws agent f True shared]
    by (auto simp: read_workspace_file_def split: prod.splits sum.splits)
  then show ?thesis
    by (cases op) (auto simp: section_content_def split: prod.splits sum.splits, (metis snd_conv)+)
qed

lemma plan_files: "same_files t (snd (plan_writes smell real ws shared agent base ops seen writes oc t))"
proof (induction ops arbitrary: seen writes oc t)
  case (Cons op ops)
  obtain v t1 where v: "validate_workspace_path_inner real ws agent (op_path op) False shared t = (v, t1)"
    by (rule prod.exhaust)
  have t1: "same_files t t1" using validate_files [of t real ws agent "op_path op" False shared] v by simp
  show ?case
  proof (cases v)
    case (Inr resolved)
    obtain c t2 where c: "section_content real ws shared agent resolved op oc t1 = (c, t2)" by (rule prod.exhaust)
    have "same_files t t2"
      using section_files [of t1 real ws shared agent resolved op oc] c t1 same_files_trans by simp
    then show ?thesis
      using t1 Cons.IH same_files_trans
      by (cases c) (auto simp: v Inr c)
  qed (use t1 in \<open>simp add: v\<close>)
qed simp

text \<open>A patch is checked before it is written.  When the patch does not parse or any of its
  sections fails its checks, no file changes; and whatever happens, also when a write fails half
  way, every file that differs afterwards lies in the agent's writable area and is not protected.\<close>

theorem apply_v4a_patch_confined:
  assumes "ws \<noteq> []" "[] \<notin> set shared"
  shows "((\<forall>ops. parse_patch patch = Inr ops \<longrightarrow>
       isl (fst (plan_writes smell (plain_real cwd) ws shared agent base ops [] [] empty_outcome t))) \<longrightarrow>
     same_files t (snd (apply_v4a_patch smell (plain_real cwd) (\<lambda>_. False) ws shared agent patch base t)))
     \<and> confined (plain_real cwd ws) agent shared base t
       (snd (apply_v4a_patch smell (plain_real cwd) (\<lambda>_. False) ws shared agent patch base t))"
proof (intro conjI)
  show "(\<forall>ops. parse_patch patch = Inr ops \<longrightarrow>
       isl (fst (plan_writes smell (plain_real cwd) ws shared agent base ops [] [] empty_outcome t))) \<longrightarrow>
     same_files t (snd (apply_v4a_patch smell (plain_real cwd) (\<lambda>_. False) ws shared agent patch base t))"
    using plan_files [of t smell "plain_real cwd" ws shared agent base _ "[]" "[]" empty_outcome]
    by (auto simp: apply_v4a_patch_def split: sum.splits prod.splits) (metis snd_conv)
  show "confined (plain_real cwd ws) agent shared base t
       (snd (apply_v4a_patch smell (plain_real cwd) (\<lambda>_. False) ws shared agent patch base t))"
  proof (cases "parse_patch patch")
    case (Inr ops)
    obtain r t1 where p: "plan_writes smell (plain_real cwd) ws shared agent base ops [] [] empty_outcome t = (r, t1)"
      by (rule prod.exhaust)
    have c1: "confined (plain_real cwd ws) agent shared base t t1"
      using plan_files [of t smell "plain_real cwd" ws shared agent base ops "[]" "[]" empty_outcome] p
      by (simp add: confined_same)
    have "confined (plain_real cwd ws) agent shared base t1
        (snd (write_all (plain_real cwd) (\<lambda>_. False) ws shared agent base writes t1))" for writes
      by (rule write_all_confined [OF assms])
    then show ?thesis
      using c1 confined_trans Inr p
      by (auto simp: apply_v4a_patch_def split: sum.splits prod.splits) (metis snd_conv)+
  qed (simp add: apply_v4a_patch_def confined_same)
qed

theorem apply_v4a_patch_confined_witness:
  "confined [''/'', ''workspace''] ''op'' [] False ws_example
     (snd (apply_v4a_patch (\<lambda>_ _. []) (plain_real [''/'']) (\<lambda>_. False) [''workspace''] [] ''op''
        (print_patch [Add ''b.md'' ''t'']) False ws_example))"
  using apply_v4a_patch_confined [of "[''workspace'']" "[]" "print_patch [Add ''b.md'' ''t'']" "\<lambda>_ _. []" "[''/'']" "''op''" False ws_example]
  by (simp add: plain_real_def)

end
