(* ===== verification/Ssrf_Guard.thy ===== *)
theory Ssrf_Guard
  imports Opex_Prelude "HOL-Library.Word"
begin

unbundle bit_operations_syntax

text \<open>
  The guard against server-side request forgery (\<open>net/ssrf.rs\<close>): the address classes, the two
  filtering resolvers, the synchronous URL checks and the DNS preflight.

  Addresses are machine words; the predicates of \<open>std::net\<close> and its address parser are modelled.
  URL parsing (the \<open>url\<close> crate) is the parameter \<open>parse_url\<close>, a DNS lookup is \<open>lookup\<close>.  A parsed URL
  has a host that is a domain or an address; \<open>host_str\<close> writes an IPv6 address in brackets.
\<close>

section \<open>Addresses\<close>

datatype IpAddr = V4 "32 word" | V6 "128 word"

definition octets :: "32 word \<Rightarrow> nat list" where
  "octets a = map (\<lambda>k. unat a div 2 ^ k mod 256) [24, 16, 8, 0]"

definition segments :: "128 word \<Rightarrow> nat list" where
  "segments a = map (\<lambda>k. unat a div 2 ^ k mod 65536) [112, 96, 80, 64, 48, 32, 16, 0]"

definition v4_is_loopback :: "32 word \<Rightarrow> bool" where "v4_is_loopback a \<longleftrightarrow> octets a ! 0 = 127"

definition v4_is_private :: "32 word \<Rightarrow> bool" where
  "v4_is_private a \<longleftrightarrow>
     octets a ! 0 = 10
     \<or> (octets a ! 0 = 172 \<and> 16 \<le> octets a ! 1 \<and> octets a ! 1 \<le> 31)
     \<or> (octets a ! 0 = 192 \<and> octets a ! 1 = 168)"

definition v4_is_link_local :: "32 word \<Rightarrow> bool" where
  "v4_is_link_local a \<longleftrightarrow> octets a ! 0 = 169 \<and> octets a ! 1 = 254"

definition v4_is_broadcast :: "32 word \<Rightarrow> bool" where "v4_is_broadcast a \<longleftrightarrow> a = 0xFFFFFFFF"

definition v4_is_multicast :: "32 word \<Rightarrow> bool" where
  "v4_is_multicast a \<longleftrightarrow> 224 \<le> octets a ! 0 \<and> octets a ! 0 \<le> 239"

definition v4_is_cgnat :: "32 word \<Rightarrow> bool" where
  "v4_is_cgnat a \<longleftrightarrow> octets a ! 0 = 100 \<and> (octets a ! 1) AND 0xC0 = 64"

definition v6_is_multicast :: "128 word \<Rightarrow> bool" where
  "v6_is_multicast a \<longleftrightarrow> (segments a ! 0) AND 0xff00 = 0xff00"

definition to_ipv4_mapped :: "128 word \<Rightarrow> 32 word option" where
  "to_ipv4_mapped a =
     (if take 6 (segments a) = [0, 0, 0, 0, 0, 0xffff]
      then Some (of_nat (segments a ! 6 * 65536 + segments a ! 7)) else None)"

definition is_private_v4 :: "32 word \<Rightarrow> bool" where
  "is_private_v4 a \<longleftrightarrow>
     v4_is_loopback a \<or> v4_is_private a \<or> v4_is_link_local a \<or> v4_is_broadcast a
     \<or> v4_is_multicast a \<or> a = 0 \<or> v4_is_cgnat a"

fun is_private_ip :: "IpAddr \<Rightarrow> bool" where
  "is_private_ip (V4 a) = is_private_v4 a"
| "is_private_ip (V6 a) =
     (case to_ipv4_mapped a of
        Some v4 \<Rightarrow> is_private_v4 v4
      | None \<Rightarrow>
          a = 1 \<or> a = 0 \<or> v6_is_multicast a
          \<or> (segments a ! 0) AND 0xfe00 = 0xfc00
          \<or> (segments a ! 0) AND 0xffc0 = 0xfe80
          \<or> (segments a ! 0 = 0x2001 \<and> segments a ! 1 = 0)
          \<or> segments a ! 0 = 0x2002)"

definition is_dangerous_v4 :: "32 word \<Rightarrow> bool" where
  "is_dangerous_v4 a \<longleftrightarrow>
     v4_is_loopback a \<or> v4_is_link_local a \<or> v4_is_broadcast a \<or> v4_is_multicast a \<or> a = 0 \<or> v4_is_cgnat a"

fun is_dangerous_ip :: "IpAddr \<Rightarrow> bool" where
  "is_dangerous_ip (V4 a) = is_dangerous_v4 a"
| "is_dangerous_ip (V6 a) =
     (case to_ipv4_mapped a of
        Some v4 \<Rightarrow> is_dangerous_v4 v4
      | None \<Rightarrow> a = 1 \<or> a = 0 \<or> v6_is_multicast a \<or> (segments a ! 0) AND 0xffc0 = 0xfe80)"

section \<open>The address parser of the standard library\<close>

text \<open>\<open>read_number\<close>: at least one digit, at most \<open>maxd\<close>, value below \<open>bound\<close>; leading zeros are
  refused unless \<open>zeros\<close>.\<close>

definition digit_value :: "nat \<Rightarrow> char \<Rightarrow> nat option" where
  "digit_value radix c =
     (let n = of_char c :: nat;
          v = (if 48 \<le> n \<and> n \<le> 57 then Some (n - 48)
               else if 97 \<le> n \<and> n \<le> 122 then Some (n - 87)
               else if 65 \<le> n \<and> n \<le> 90 then Some (n - 55) else None)
      in case v of Some d \<Rightarrow> if d < radix then Some d else None | None \<Rightarrow> None)"

fun read_digits :: "nat \<Rightarrow> string \<Rightarrow> nat list \<times> string" where
  "read_digits radix [] = ([], [])"
| "read_digits radix (c # cs) =
     (case digit_value radix c of
        None \<Rightarrow> ([], c # cs)
      | Some d \<Rightarrow> (case read_digits radix cs of (ds, rest) \<Rightarrow> (d # ds, rest)))"

definition read_number :: "nat \<Rightarrow> nat \<Rightarrow> bool \<Rightarrow> nat \<Rightarrow> string \<Rightarrow> (nat \<times> string) option" where
  "read_number radix maxd zeros bound s =
     (case read_digits radix s of (ds, rest) \<Rightarrow>
        let v = foldl (\<lambda>acc d. acc * radix + d) 0 ds in
        if ds = [] \<or> length ds > maxd \<or> v \<ge> bound
           \<or> (\<not> zeros \<and> hd ds = 0 \<and> length ds > 1) then None
        else Some (v, rest))"

definition read_separator :: "char \<Rightarrow> nat \<Rightarrow> (string \<Rightarrow> ('a \<times> string) option) \<Rightarrow> string \<Rightarrow> ('a \<times> string) option" where
  "read_separator sep index inner s =
     (if index > 0 then (case s of c # cs \<Rightarrow> if c = sep then inner cs else None | [] \<Rightarrow> None)
      else inner s)"

fun read_octets :: "nat \<Rightarrow> nat \<Rightarrow> string \<Rightarrow> (nat list \<times> string) option" where
  "read_octets i 0 s = Some ([], s)"
| "read_octets i (Suc k) s =
     (case read_separator (CHR ''.'') i (read_number 10 3 False 256) s of
        None \<Rightarrow> None
      | Some (n, rest) \<Rightarrow>
          (case read_octets (Suc i) k rest of None \<Rightarrow> None | Some (ns, r) \<Rightarrow> Some (n # ns, r)))"

definition read_ipv4_addr :: "string \<Rightarrow> (nat list \<times> string) option" where
  "read_ipv4_addr s = read_octets 0 4 s"

text \<open>\<open>read_groups\<close> with \<open>k\<close> slots left at index \<open>i\<close>: the groups, whether an IPv4 tail was read, the rest.\<close>

fun read_groups :: "nat \<Rightarrow> nat \<Rightarrow> string \<Rightarrow> nat list \<times> bool \<times> string" where
  "read_groups i 0 s = ([], False, s)"
| "read_groups i (Suc k) s =
     (case (if k > 0 then read_separator (CHR '':'') i read_ipv4_addr s else None) of
        Some (os, rest) \<Rightarrow> ([os ! 0 * 256 + os ! 1, os ! 2 * 256 + os ! 3], True, rest)
      | None \<Rightarrow>
          (case read_separator (CHR '':'') i (read_number 16 4 True 65536) s of
             None \<Rightarrow> ([], False, s)
           | Some (g, rest) \<Rightarrow>
               (case read_groups (Suc i) k rest of (gs, v4, r) \<Rightarrow> (g # gs, v4, r))))"

definition word_of :: "nat \<Rightarrow> nat list \<Rightarrow> nat" where
  "word_of base ds = foldl (\<lambda>acc d. acc * base + d) 0 ds"

definition read_ipv6_addr :: "string \<Rightarrow> (nat list \<times> string) option" where
  "read_ipv6_addr s =
     (case read_groups 0 8 s of (head, head_ipv4, rest) \<Rightarrow>
        if length head = 8 then Some (head, rest)
        else if head_ipv4 then None
        else (case strip_prefix ''::'' rest of
                None \<Rightarrow> None
              | Some rest' \<Rightarrow>
                  (case read_groups 0 (8 - (length head + 1)) rest' of (tail, _, r) \<Rightarrow>
                     Some (head @ replicate (8 - length head - length tail) 0 @ tail, r))))"

definition parse_ip :: "string \<Rightarrow> IpAddr option" where
  "parse_ip s =
     (case read_ipv4_addr s of
        Some (os, rest) \<Rightarrow> if rest = [] then Some (V4 (of_nat (word_of 256 os))) else None
      | None \<Rightarrow>
          (case read_ipv6_addr s of
             Some (gs, rest) \<Rightarrow> if rest = [] then Some (V6 (of_nat (word_of 65536 gs))) else None
           | None \<Rightarrow> None))"

section \<open>URLs\<close>

datatype Host = Domain string | Ipv4 "32 word" | Ipv6 "128 word"

record Url =
  scheme :: string
  host :: "Host option"
  port_or_known_default :: "nat option"

definition show_ipv4 :: "32 word \<Rightarrow> string" where
  "show_ipv4 a = join ''.'' (map nat_str (octets a))"

text \<open>\<open>show6\<close> is the text form of an IPv6 address.\<close>

fun host_text :: "(128 word \<Rightarrow> string) \<Rightarrow> Host \<Rightarrow> string" where
  "host_text show6 (Domain d) = d"
| "host_text show6 (Ipv4 a) = show_ipv4 a"
| "host_text show6 (Ipv6 a) = ''['' @ show6 a @ '']''"

definition host_str :: "(128 word \<Rightarrow> string) \<Rightarrow> Url \<Rightarrow> string option" where
  "host_str show6 u = map_option (host_text show6) (host u)"

datatype SsrfError =
    InvalidUrl string
  | BlockedScheme string
  | InternalBlocked string
  | PrivateIpResolved

definition METADATA_HOSTNAME_BLOCKLIST :: "string list" where
  "METADATA_HOSTNAME_BLOCKLIST = [''metadata.google.internal'', ''metadata.goog'', ''metadata'']"

definition is_blocked_metadata_hostname :: "string \<Rightarrow> bool" where
  "is_blocked_metadata_hostname h0 =
     (let h = to_ascii_lowercase (trim_end_matches (CHR ''.'') h0)
      in \<exists>blocked \<in> set METADATA_HOSTNAME_BLOCKLIST. h = blocked \<or> ends_with (''.'' @ blocked) h)"

definition INTERNAL_BLOCKLIST :: "string list" where
  "INTERNAL_BLOCKLIST =
     [''localhost:9011'', ''toolgate:9011'', ''localhost:9020'', ''browser-renderer:9020'',
      ''localhost:8080'', ''searxng:8080'', ''localhost:18789'', ''localhost:5432'', ''postgres:5432'',
      ''localhost:2375'']"

definition port_of :: "Url \<Rightarrow> nat" where
  "port_of u = (case port_or_known_default u of Some p \<Rightarrow> p | None \<Rightarrow> 80)"

section \<open>Resolvers\<close>

text \<open>A lookup fails or returns addresses; the error texts name the host.\<close>

definition ssrf_lan_resolve :: "(string \<Rightarrow> string + IpAddr list) \<Rightarrow> string \<Rightarrow> string + IpAddr list" where
  "ssrf_lan_resolve lookup name =
     (case lookup (name @ '':0'') of
        Inl e \<Rightarrow> Inl e
      | Inr addrs \<Rightarrow>
          (let ok = filter (\<lambda>a. \<not> is_dangerous_ip a) addrs
           in if ok = [] then Inl (''SSRF blocked: '' @ [CHR 0x27] @ name @ [CHR 0x27]
                @ '' resolves only to dangerous (loopback/metadata/CGNAT) IPs'') else Inr ok))"

definition ssrf_safe_resolve :: "(string \<Rightarrow> string + IpAddr list) \<Rightarrow> string \<Rightarrow> string + IpAddr list" where
  "ssrf_safe_resolve lookup name =
     (case lookup (name @ '':0'') of
        Inl e \<Rightarrow> Inl e
      | Inr addrs \<Rightarrow>
          (let ok = filter (\<lambda>a. \<not> is_private_ip a) addrs
           in if ok = [] then Inl (''SSRF blocked: '' @ [CHR 0x27] @ name @ [CHR 0x27]
                @ '' resolves only to private/internal IPs'') else Inr ok))"

section \<open>Checks\<close>

definition is_internal_endpoint ::
  "(128 word \<Rightarrow> string) \<Rightarrow> (string \<Rightarrow> string + Url) \<Rightarrow> string \<Rightarrow> bool" where
  "is_internal_endpoint show6 parse_url url =
     (case parse_url url of
        Inl _ \<Rightarrow> False
      | Inr u \<Rightarrow>
          (let h = (case host_str show6 u of Some s \<Rightarrow> s | None \<Rightarrow> [])
           in h @ '':'' @ nat_str (port_of u) \<in> set INTERNAL_BLOCKLIST))"

definition validate_url_scheme ::
  "(128 word \<Rightarrow> string) \<Rightarrow> (string \<Rightarrow> string + Url) \<Rightarrow> string \<Rightarrow> SsrfError + unit" where
  "validate_url_scheme show6 parse_url url =
     (case parse_url url of
        Inl e \<Rightarrow> Inl (InvalidUrl e)
      | Inr u \<Rightarrow>
          (if scheme u \<notin> {''http'', ''https''} then Inl (BlockedScheme (scheme u))
           else
             (case host_str show6 u of
                None \<Rightarrow> Inl (InvalidUrl ''URL has no host'')
              | Some h \<Rightarrow>
                  (let authority = h @ '':'' @ nat_str (port_of u);
                       ip = (case host u of
                               Some (Ipv4 a) \<Rightarrow> Some (V4 a)
                             | Some (Ipv6 a) \<Rightarrow> Some (V6 a)
                             | _ \<Rightarrow> None)
                   in if authority \<in> set INTERNAL_BLOCKLIST then Inl (InternalBlocked authority)
                      else if is_blocked_metadata_hostname h then
                        Inl (InternalBlocked (''URL targets cloud-metadata hostname ('' @ h @ '')''))
                      else if (case ip of Some a \<Rightarrow> is_private_ip a | None \<Rightarrow> False) then
                        Inl (InternalBlocked (''URL targets private IP address ('' @ h @ '')''))
                      else Inr ()))))"

definition validate_outbound_endpoint ::
  "(128 word \<Rightarrow> string) \<Rightarrow> (string \<Rightarrow> string + Url) \<Rightarrow> string \<Rightarrow> SsrfError + unit" where
  "validate_outbound_endpoint show6 parse_url endpoint =
     (if is_internal_endpoint show6 parse_url endpoint then Inr ()
      else validate_url_scheme show6 parse_url endpoint)"

definition validate_lan_endpoint ::
  "(128 word \<Rightarrow> string) \<Rightarrow> (string \<Rightarrow> string + Url) \<Rightarrow> string \<Rightarrow> SsrfError + unit" where
  "validate_lan_endpoint show6 parse_url endpoint =
     (case parse_url endpoint of
        Inl e \<Rightarrow> Inl (InvalidUrl e)
      | Inr u \<Rightarrow>
          (if scheme u \<notin> {''http'', ''https''} then Inl (BlockedScheme (scheme u))
           else
             (case host_str show6 u of
                None \<Rightarrow> Inl (InvalidUrl ''URL has no host'')
              | Some h \<Rightarrow>
                  (case parse_ip h of
                     Some ip \<Rightarrow> if is_dangerous_ip ip then Inl (InternalBlocked h) else Inr ()
                   | None \<Rightarrow> Inr ()))))"

text \<open>The loop over the answers of the lookup.\<close>

fun all_public :: "bool \<Rightarrow> IpAddr list \<Rightarrow> SsrfError + unit" where
  "all_public saw_any [] = (if saw_any then Inr () else Inl PrivateIpResolved)"
| "all_public saw_any (a # as) = (if is_private_ip a then Inl PrivateIpResolved else all_public True as)"

definition preflight_resolve :: "(string \<Rightarrow> string + IpAddr list) \<Rightarrow> string \<Rightarrow> SsrfError + unit" where
  "preflight_resolve lookup h =
     (case parse_ip h of
        Some ip \<Rightarrow> if is_private_ip ip then Inl PrivateIpResolved else Inr ()
      | None \<Rightarrow>
          (case lookup (h @ '':0'') of
             Inl _ \<Rightarrow> Inl PrivateIpResolved
           | Inr addrs \<Rightarrow> all_public False addrs))"

datatype client = PlainClient | SafeClient | LanClient

definition select_ssrf_aware_client ::
  "(128 word \<Rightarrow> string) \<Rightarrow> (string \<Rightarrow> string + Url) \<Rightarrow> string \<Rightarrow> client" where
  "select_ssrf_aware_client show6 parse_url endpoint =
     (if is_internal_endpoint show6 parse_url endpoint then PlainClient else SafeClient)"

section \<open>The address classes as network ranges\<close>

definition ip4 :: "nat \<Rightarrow> nat \<Rightarrow> nat \<Rightarrow> nat \<Rightarrow> nat" where
  "ip4 a b c d = ((a * 256 + b) * 256 + c) * 256 + d"

text \<open>The networks the module's documentation lists, as (address, prefix length).\<close>

definition private_nets4 :: "(nat \<times> nat) list" where
  "private_nets4 = [(ip4 10 0 0 0, 8), (ip4 172 16 0 0, 12), (ip4 192 168 0 0, 16), (ip4 127 0 0 0, 8),
     (ip4 169 254 0 0, 16), (ip4 100 64 0 0, 10), (ip4 224 0 0 0, 4), (ip4 255 255 255 255, 32), (0, 32)]"

definition private_nets6 :: "(nat \<times> nat) list" where
  "private_nets6 = [(1, 128), (0, 128), (0xfc00 * 2 ^ 112, 7), (0xfe80 * 2 ^ 112, 10),
     (0x2001 * 2 ^ 112, 32), (0x2002 * 2 ^ 112, 16), (0xff00 * 2 ^ 112, 8)]"

definition in_net :: "nat \<Rightarrow> nat \<Rightarrow> nat \<times> nat \<Rightarrow> bool" where
  "in_net width n net \<longleftrightarrow> n div 2 ^ (width - snd net) = fst net div 2 ^ (width - snd net)"

lemma unat32: "unat (a :: 32 word) < 4294967296"
  using unsigned_less [of a, where ?'a = nat] by simp

lemma unat128: "unat (a :: 128 word) < 2 ^ 128"
  using unsigned_less [of a, where ?'a = nat] by simp

text \<open>The two leading octets of an address from its upper half \<open>m\<close>.\<close>

lemma octets_half:
  fixes a :: "32 word"
  defines "m \<equiv> unat a div 65536"
  shows "octets a ! 0 = m div 256" "octets a ! 1 = m mod 256" "m < 65536"
proof -
  show m: "m < 65536" using unat32 [of a] unfolding m_def by (simp add: div_less_iff_less_mult)
  have "unat a div 16777216 = m div 256" unfolding m_def by (simp add: div_mult2_eq [symmetric])
  moreover have "m div 256 < 256" using m by (simp add: div_less_iff_less_mult)
  ultimately show "octets a ! 0 = m div 256" by (simp add: octets_def)
  show "octets a ! 1 = m mod 256" unfolding m_def by (simp add: octets_def)
qed

lemma half_nets:
  fixes n :: nat
  defines "m \<equiv> n div 65536"
  shows "n div 16777216 = m div 256" "n div 1048576 = m div 16" "n div 4194304 = m div 64"
    "n div 268435456 = m div 4096"
  unfolding m_def by (simp_all add: div_mult2_eq [symmetric])

text \<open>Masking with the upper bits of a \<open>w\<close>-bit number compares a prefix.\<close>

lemma and_high:
  fixes x :: nat
  assumes "x < 2 ^ w"
  shows "x AND push_bit k (mask (w - k)) = x div 2 ^ k * 2 ^ k"
proof -
  have x: "take_bit w x = x" using assms by (rule take_bit_nat_eq_self)
  have w: "n < w" if "bit x n" for n using that x by (metis bit_take_bit_iff)
  have "x AND push_bit k (mask (w - k)) = push_bit k (drop_bit k x)"
  proof (rule bit_eqI)
    fix n
    show "bit (x AND push_bit k (mask (w - k))) n = bit (push_bit k (drop_bit k x)) n"
      using w [of n] by (auto simp: bit_simps)
  qed
  then show ?thesis by (simp add: push_bit_eq_mult drop_bit_eq_div)
qed

lemma and_masks:
  fixes x :: nat
  shows "x < 256 \<Longrightarrow> x AND 0xC0 = 64 \<longleftrightarrow> x div 64 = 1"
    and "x < 65536 \<Longrightarrow> x AND 0xff00 = 0xff00 \<longleftrightarrow> x div 256 = 255"
    and "x < 65536 \<Longrightarrow> x AND 0xfe00 = 0xfc00 \<longleftrightarrow> x div 512 = 126"
    and "x < 65536 \<Longrightarrow> x AND 0xffc0 = 0xfe80 \<longleftrightarrow> x div 64 = 1018"
  using and_high [of x 8 6] and_high [of x 16 8] and_high [of x 16 9] and_high [of x 16 6]
  by (auto simp: mask_eq_exp_minus_1 push_bit_eq_mult)

lemma div_mod_numeral: "\<lbrakk>n = d * k + r; r < k\<rbrakk> \<Longrightarrow> (m div k = d \<and> m mod k = r) \<longleftrightarrow> m = (n :: nat)"
  by (metis add.commute div_mult_mod_eq div_mult_self3 div_less less_nat_zero_code mod_less mod_mult_self3
      plus_nat.add_0)

lemma private_v4_nets: "is_private_v4 a \<longleftrightarrow> (\<exists>net \<in> set private_nets4. in_net 32 (unat a) net)"
proof -
  define m where "m = unat a div 65536"
  have o: "octets a ! 0 = m div 256" "octets a ! 1 = m mod 256" "m < 65536"
    using octets_half [of a] unfolding m_def by simp_all
  have nets: "in_net 32 (unat a) (ip4 10 0 0 0, 8) \<longleftrightarrow> m div 256 = 10"
    "in_net 32 (unat a) (ip4 172 16 0 0, 12) \<longleftrightarrow> m div 16 = 2753"
    "in_net 32 (unat a) (ip4 192 168 0 0, 16) \<longleftrightarrow> m = 49320"
    "in_net 32 (unat a) (ip4 127 0 0 0, 8) \<longleftrightarrow> m div 256 = 127"
    "in_net 32 (unat a) (ip4 169 254 0 0, 16) \<longleftrightarrow> m = 43518"
    "in_net 32 (unat a) (ip4 100 64 0 0, 10) \<longleftrightarrow> m div 64 = 401"
    "in_net 32 (unat a) (ip4 224 0 0 0, 4) \<longleftrightarrow> m div 4096 = 14"
    unfolding m_def by (simp_all add: in_net_def ip4_def half_nets)
  have "v4_is_private a \<longleftrightarrow> m div 256 = 10 \<or> m div 16 = 2753 \<or> m = 49320"
  proof -
    define q where "q = m div 16"
    have "m mod 256 = 16 * (q mod 16) + m mod 16" using mod_mult2_eq [of m 16 16] unfolding q_def by simp
    then have "16 \<le> m mod 256 \<and> m mod 256 \<le> 31 \<longleftrightarrow> q mod 16 = 1"
      using mod_less_divisor [of 16 m] by linarith
    moreover have "m div 256 = q div 16" unfolding q_def by (simp add: div_mult2_eq [symmetric])
    moreover have "q div 16 = 172 \<and> q mod 16 = 1 \<longleftrightarrow> q = 2753"
      by (rule div_mod_numeral) simp_all
    moreover have "m div 256 = 192 \<and> m mod 256 = 168 \<longleftrightarrow> m = 49320"
      by (rule div_mod_numeral) simp_all
    ultimately show ?thesis unfolding v4_is_private_def o q_def by metis
  qed
  moreover have "v4_is_link_local a \<longleftrightarrow> m = 43518"
    unfolding v4_is_link_local_def o by (rule div_mod_numeral) simp_all
  moreover have "v4_is_multicast a \<longleftrightarrow> m div 4096 = 14"
  proof -
    define q where "q = m div 256"
    have "m div 4096 = q div 16" unfolding q_def by (simp add: div_mult2_eq [symmetric])
    then show ?thesis unfolding v4_is_multicast_def o q_def [symmetric]
      using div_mult_mod_eq [of q 16] mod_less_divisor [of 16 q] by (intro iffI) linarith+
  qed
  moreover have "v4_is_cgnat a \<longleftrightarrow> m div 64 = 401"
  proof -
    define q where "q = m div 64"
    have mod256: "m mod 256 < 256" by simp
    have "m mod 256 div 64 = q mod 4" using mod_mult2_eq [of m 64 4] unfolding q_def by simp
    moreover have "m div 256 = q div 4" unfolding q_def by (simp add: div_mult2_eq [symmetric])
    moreover have "q div 4 = 100 \<and> q mod 4 = 1 \<longleftrightarrow> q = 401" by (rule div_mod_numeral) simp_all
    ultimately show ?thesis
      unfolding v4_is_cgnat_def o and_masks(1) [OF mod256] q_def [symmetric] by simp
  qed
  moreover have "v4_is_broadcast a \<longleftrightarrow> in_net 32 (unat a) (ip4 255 255 255 255, 32)"
    by (simp add: v4_is_broadcast_def in_net_def ip4_def word_unat_eq_iff)
  moreover have "a = 0 \<longleftrightarrow> in_net 32 (unat a) (0, 32)"
    by (simp add: in_net_def word_unat_eq_iff)
  ultimately show ?thesis
    unfolding is_private_v4_def v4_is_loopback_def o(1) private_nets4_def using nets by auto
qed

lemma segments_head:
  fixes a :: "128 word"
  defines "n \<equiv> unat a"
  shows "segments a ! 0 = n div 2 ^ 112" "segments a ! 1 = n div 2 ^ 96 mod 65536" "n div 2 ^ 112 < 65536"
proof -
  have "n div 2 ^ 112 < 2 ^ 16"
    using unat128 [of a] unfolding n_def by (simp add: div_less_iff_less_mult)
  then show "n div 2 ^ 112 < 65536" by simp
  then show "segments a ! 0 = n div 2 ^ 112" unfolding n_def by (simp add: segments_def)
  show "segments a ! 1 = n div 2 ^ 96 mod 65536" unfolding n_def by (simp add: segments_def)
qed

lemma private_v6_nets:
  assumes "to_ipv4_mapped a = None"
  shows "is_private_ip (V6 a) \<longleftrightarrow> (\<exists>net \<in> set private_nets6. in_net 128 (unat a) net)"
proof -
  let ?n = "unat a"
  define s where "s = ?n div 2 ^ 112"
  have seg: "segments a ! 0 = s" "segments a ! 1 = ?n div 2 ^ 96 mod 65536" "s < 65536"
    using segments_head [of a] unfolding s_def by simp_all
  have up: "?n div 2 ^ (112 + k) = s div 2 ^ k" for k
    unfolding s_def by (simp only: power_add div_mult2_eq)
  have nets: "in_net 128 ?n (0xfc00 * 2 ^ 112, 7) \<longleftrightarrow> s div 512 = 126"
    "in_net 128 ?n (0xfe80 * 2 ^ 112, 10) \<longleftrightarrow> s div 64 = 1018"
    "in_net 128 ?n (0x2002 * 2 ^ 112, 16) \<longleftrightarrow> s = 0x2002"
    "in_net 128 ?n (0xff00 * 2 ^ 112, 8) \<longleftrightarrow> s div 256 = 255"
    using up [of 9] up [of 6] up [of 0] up [of 8] by (simp_all add: in_net_def)
  have "s = ?n div 2 ^ 96 div 65536"
    unfolding s_def by (simp add: div_mult2_eq [symmetric])
  then have "(s = 0x2001 \<and> ?n div 2 ^ 96 mod 65536 = 0) \<longleftrightarrow> ?n div 2 ^ 96 = 0x2001 * 65536"
    using div_mod_numeral [of "0x2001 * 65536" "0x2001" 65536 0 "?n div 2 ^ 96"] by simp
  then have teredo: "in_net 128 ?n (0x2001 * 2 ^ 112, 32) \<longleftrightarrow> s = 0x2001 \<and> segments a ! 1 = 0"
    unfolding seg(2) by (simp add: in_net_def)
  have ends: "a = 1 \<longleftrightarrow> in_net 128 ?n (1, 128)" "a = 0 \<longleftrightarrow> in_net 128 ?n (0, 128)"
    by (simp_all add: in_net_def word_unat_eq_iff)
  show ?thesis
    unfolding private_nets6_def is_private_ip.simps assms option.case v6_is_multicast_def seg(1)
      and_masks(2,3,4) [OF seg(3)]
    using nets teredo ends by auto
qed

text \<open>The blocked addresses are exactly the documented networks.  An IPv4 address is private iff it
  is in one of the nine listed IPv4 networks, an IPv6 address that embeds an IPv4 address iff that
  one is, and any other IPv6 address iff it is in one of the seven listed IPv6 networks.\<close>

theorem is_private_ip_networks:
  "is_private_ip ip \<longleftrightarrow>
     (case ip of
        V4 a \<Rightarrow> \<exists>net \<in> set private_nets4. in_net 32 (unat a) net
      | V6 a \<Rightarrow>
          (case to_ipv4_mapped a of
             Some v4 \<Rightarrow> \<exists>net \<in> set private_nets4. in_net 32 (unat v4) net
           | None \<Rightarrow> \<exists>net \<in> set private_nets6. in_net 128 (unat a) net))"
  using private_v4_nets private_v6_nets by (auto split: IpAddr.split option.split)

text \<open>What the LAN client additionally reaches: an address that is private but not dangerous is in an
  RFC 1918 network, or is a unique local, Teredo or 6to4 address; in particular every dangerous
  address is private, so the LAN filter is never stricter.\<close>

theorem lan_additional_addresses:
  "is_dangerous_ip ip \<noteq> is_private_ip ip \<longleftrightarrow>
     \<not> is_dangerous_ip ip \<and>
     (case ip of
        V4 a \<Rightarrow> v4_is_private a
      | V6 a \<Rightarrow>
          (case to_ipv4_mapped a of
             Some v4 \<Rightarrow> v4_is_private v4
           | None \<Rightarrow> (segments a ! 0) AND 0xfe00 = 0xfc00 \<or> (segments a ! 0 = 0x2001 \<and> segments a ! 1 = 0)
                     \<or> segments a ! 0 = 0x2002))"
proof -
  have "is_dangerous_v4 a \<noteq> is_private_v4 a \<longleftrightarrow> \<not> is_dangerous_v4 a \<and> v4_is_private a" for a
    unfolding is_dangerous_v4_def is_private_v4_def by blast
  then show ?thesis by (auto split: IpAddr.split option.split)
qed

section \<open>Clients\<close>

text \<open>The addresses an HTTP client can connect to: the address in the URL when it has one, without
  asking the resolver, and what the resolver returns for a domain.\<close>

definition connect_targets :: "(string \<Rightarrow> string + IpAddr list) \<Rightarrow> Url \<Rightarrow> IpAddr list" where
  "connect_targets resolve u =
     (case host u of
        None \<Rightarrow> []
      | Some (Ipv4 a) \<Rightarrow> [V4 a]
      | Some (Ipv6 a) \<Rightarrow> [V6 a]
      | Some (Domain d) \<Rightarrow> (case resolve d of Inl _ \<Rightarrow> [] | Inr as \<Rightarrow> as))"

text \<open>A check and a resolver that together keep a class of addresses out of reach.\<close>

locale guarded_client =
  fixes blocked :: "IpAddr \<Rightarrow> bool"
    and accepts :: "Url \<Rightarrow> bool"
    and resolve :: "(string \<Rightarrow> string + IpAddr list) \<Rightarrow> string \<Rightarrow> string + IpAddr list"
  assumes literal4: "accepts u \<Longrightarrow> host u = Some (Ipv4 a) \<Longrightarrow> \<not> blocked (V4 a)"
    and literal6: "accepts u \<Longrightarrow> host u = Some (Ipv6 b) \<Longrightarrow> \<not> blocked (V6 b)"
    and resolved: "resolve lookup name = Inr as \<Longrightarrow> ip \<in> set as \<Longrightarrow> \<not> blocked ip"
begin

lemma never_reaches_blocked:
  "accepts u \<Longrightarrow> ip \<in> set (connect_targets (resolve lookup) u) \<Longrightarrow> \<not> blocked ip"
proof (cases "host u")
  case (Some h)
  assume "accepts u" "ip \<in> set (connect_targets (resolve lookup) u)"
  then show ?thesis
    using literal4 literal6 resolved Some
    by (cases h) (auto simp: connect_targets_def split: sum.splits dest: resolved [OF sym])
qed (simp add: connect_targets_def)

end

definition accepts_url :: "(128 word \<Rightarrow> string) \<Rightarrow> Url \<Rightarrow> bool" where
  "accepts_url show6 u \<longleftrightarrow> validate_url_scheme show6 (\<lambda>_. Inr u) [] = Inr ()"

lemma validate_url_parsed:
  "parse_url url = Inr u \<Longrightarrow> validate_url_scheme show6 parse_url url = Inr () \<longleftrightarrow> accepts_url show6 u"
  by (simp add: accepts_url_def validate_url_scheme_def)

lemma safe_resolve_public: "ssrf_safe_resolve lookup name = Inr as \<Longrightarrow> a \<in> set as \<Longrightarrow> \<not> is_private_ip a"
  by (auto simp: ssrf_safe_resolve_def Let_def split: sum.splits if_splits)

interpretation safe_client: guarded_client is_private_ip "accepts_url show6" ssrf_safe_resolve
  for show6
  by unfold_locales
     (auto simp: accepts_url_def validate_url_scheme_def host_str_def Let_def
       split: if_splits dest: safe_resolve_public)



section \<open>Literal addresses in the LAN check\<close>

lemma bracket_unparsable: "parse_ip (CHR ''['' # s) = None"
proof -
  have d: "digit_value r (CHR ''['') = None" for r by (simp add: digit_value_def)
  then have n: "read_number r m z b (CHR ''['' # s) = None" for r m z b by (simp add: read_number_def)
  have v4: "read_ipv4_addr (CHR ''['' # s) = None"
    using read_octets.simps(2) [of 0 3 "CHR ''['' # s"] n by (simp add: read_ipv4_addr_def read_separator_def)
  have "read_groups 0 8 (CHR ''['' # s) = ([], False, CHR ''['' # s)"
    using read_groups.simps(2) [of 0 7 "CHR ''['' # s"] n v4 by (simp add: read_separator_def)
  then show ?thesis by (simp add: parse_ip_def v4 read_ipv6_addr_def)
qed

text \<open>The LAN check does not see IPv6 addresses.  It parses the host text, in which an IPv6 address
  stands in brackets, so \<open>validate_lan_endpoint\<close> accepts every URL with a literal IPv6 address,
  loopback and link-local included, and the client then connects to it without the resolver.\<close>

theorem lan_check_accepts_ipv6_literals:
  assumes "parse_url url = Inr u" "scheme u \<in> {''http'', ''https''}" "host u = Some (Ipv6 a)"
  shows "validate_lan_endpoint show6 parse_url url = Inr ()
     \<and> connect_targets (ssrf_lan_resolve lookup) u = [V6 a]"
  using assms by (auto simp: validate_lan_endpoint_def host_str_def bracket_unparsable connect_targets_def)

theorem lan_check_accepts_ipv6_literals_witness:
  "is_dangerous_ip (V6 1)
   \<and> validate_lan_endpoint (\<lambda>_. ''::1'')
       (\<lambda>_. Inr \<lparr>scheme = ''http'', host = Some (Ipv6 1), port_or_known_default = Some 80\<rparr>) ''http://[::1]/'' = Inr ()"
proof
  have "to_ipv4_mapped 1 = None" by (simp add: to_ipv4_mapped_def segments_def)
  then show "is_dangerous_ip (V6 1)" by simp
  show "validate_lan_endpoint (\<lambda>_. ''::1'')
       (\<lambda>_. Inr \<lparr>scheme = ''http'', host = Some (Ipv6 1), port_or_known_default = Some 80\<rparr>) ''http://[::1]/'' = Inr ()"
    using lan_check_accepts_ipv6_literals [of "\<lambda>_. Inr \<lparr>scheme = ''http'', host = Some (Ipv6 1), port_or_known_default = Some 80\<rparr>"
        "''http://[::1]/''" _ 1 "\<lambda>_. ''::1''"] by simp
qed

section \<open>Dotted decimal\<close>

lemma digit_value_digit: "n < 10 \<Longrightarrow> digit_value 10 (char_of (48 + n)) = Some n"
  by (simp add: digit_value_def Let_def)

definition no_digit :: "string \<Rightarrow> bool" where
  "no_digit rest \<longleftrightarrow> (case rest of [] \<Rightarrow> True | c # _ \<Rightarrow> digit_value 10 c = None)"

lemma read_digits_stop: "no_digit rest \<Longrightarrow> read_digits 10 rest = ([], rest)"
  by (cases rest) (simp_all add: no_digit_def)

lemma read_octet:
  assumes "n < 256" "no_digit rest"
  shows "read_number 10 3 False 256 (nat_str n @ rest) = Some (n, rest)"
proof -
  consider "n < 10" | "10 \<le> n" "n < 100" | "100 \<le> n" by linarith
  then show ?thesis
  proof cases
    case 1
    then show ?thesis using assms
      by (simp add: nat_str.simps [of n] read_number_def digit_value_digit read_digits_stop)
  next
    case 2
    then have s: "nat_str n = [char_of (48 + n div 10), char_of (48 + n mod 10)]"
      by (simp add: nat_str.simps [of n] nat_str.simps [of "n div 10"] div_less_iff_less_mult)
    have "n div 10 < 10" "n div 10 \<noteq> 0" using 2 by (simp_all add: div_less_iff_less_mult div_eq_0_iff)
    then show ?thesis using assms 2
      by (simp add: s read_number_def digit_value_digit read_digits_stop)
  next
    case 3
    then have s: "nat_str n = [char_of (48 + n div 100), char_of (48 + n div 10 mod 10), char_of (48 + n mod 10)]"
      using assms(1)
      by (simp add: nat_str.simps [of n] nat_str.simps [of "n div 10"] nat_str.simps [of "n div 100"]
          div_less_iff_less_mult div_mult2_eq [symmetric])
    have d: "n div 100 < 10" "n div 100 \<noteq> 0" using 3 assms(1) by (simp_all add: div_less_iff_less_mult div_eq_0_iff)
    have "(n div 100 * 10 + n div 10 mod 10) * 10 + n mod 10 = n"
    proof -
      have "n div 100 = n div 10 div 10" by (simp add: div_mult2_eq [symmetric])
      then show ?thesis by (simp only: div_mult_mod_eq)
    qed
    then show ?thesis using assms d
      by (simp add: s read_number_def digit_value_digit read_digits_stop)
  qed
qed

lemma read_octets_show:
  assumes "\<forall>n \<in> set ns. n < 256" "no_digit rest" "ns \<noteq> []"
  shows "read_octets i (length ns) ((if i > 0 then ''.'' else []) @ join ''.'' (map nat_str ns) @ rest) = Some (ns, rest)"
  using assms
proof (induction ns arbitrary: i)
  case (Cons n ns)
  have dot: "no_digit (CHR ''.'' # x)" for x by (simp add: no_digit_def digit_value_def)
  show ?case
  proof (cases "ns = []")
    case True
    then show ?thesis using Cons.prems read_octet [of n rest] by (auto simp: read_separator_def)
  next
    case False
    let ?tail = "''.'' @ join ''.'' (map nat_str ns) @ rest"
    have j: "join ''.'' (map nat_str (n # ns)) @ rest = nat_str n @ ?tail"
      using False by (simp add: join_Cons_Cons_ne)
    have "read_separator (CHR ''.'') i (read_number 10 3 False 256)
        ((if i > 0 then ''.'' else []) @ nat_str n @ ?tail) = Some (n, ?tail)"
      using read_octet [of n ?tail] Cons.prems(1) dot by (auto simp: read_separator_def)
    moreover have "read_octets (Suc i) (length ns) ?tail = Some (ns, rest)"
      using Cons.IH [of "Suc i"] Cons.prems False by simp
    ultimately show ?thesis unfolding j by simp
  qed
qed simp

lemma word_of_octets: "word_of 256 (octets a) = unat a"
proof -
  let ?n = "unat a"
  have s: "?n div 256 div 256 div 256 mod 256 = ?n div 256 div 256 div 256"
    using unat32 [of a] by (simp add: div_mult2_eq [symmetric] div_less_iff_less_mult)
  have "word_of 256 (octets a) = ((?n div 256 div 256 div 256 mod 256 * 256 + ?n div 256 div 256 mod 256) * 256
      + ?n div 256 mod 256) * 256 + ?n mod 256"
    by (simp add: word_of_def octets_def div_mult2_eq [symmetric])
  also have "\<dots> = ?n" unfolding s div_mult_mod_eq ..
  finally show ?thesis .
qed

text \<open>Dotted decimal round trip: the standard library's parser reads back the text of every IPv4
  address, so a literal IPv4 host is refused by the LAN check exactly when it is dangerous.\<close>

theorem ipv4_text_roundtrip:
  "parse_ip (show_ipv4 a) = Some (V4 a)
   \<and> (validate_lan_endpoint show6 (\<lambda>_. Inr \<lparr>scheme = ''http'', host = Some (Ipv4 a), port_or_known_default = p\<rparr>) url
        = Inr ()) = (\<not> is_dangerous_ip (V4 a))"
proof -
  have "octets a \<noteq> []" "length (octets a) = 4" "\<forall>n \<in> set (octets a). n < 256" by (auto simp: octets_def)
  then have "read_ipv4_addr (show_ipv4 a) = Some (octets a, [])"
    using read_octets_show [of "octets a" "[]" 0] by (simp add: read_ipv4_addr_def show_ipv4_def no_digit_def)
  then have p: "parse_ip (show_ipv4 a) = Some (V4 a)" by (simp add: parse_ip_def word_of_octets)
  then show ?thesis by (simp add: validate_lan_endpoint_def host_str_def)
qed

lemma all_public_iff: "all_public b as = Inr () \<longleftrightarrow> (b \<or> as \<noteq> []) \<and> (\<forall>a \<in> set as. \<not> is_private_ip a)"
  by (induction b as rule: all_public.induct) auto

text \<open>The DNS preflight fails closed: it accepts exactly a literal address that is public, or a name
  whose lookup succeeds with at least one address and no private one.\<close>

theorem preflight_fails_closed:
  "preflight_resolve lookup h = Inr () \<longleftrightarrow>
     (case parse_ip h of
        Some ip \<Rightarrow> \<not> is_private_ip ip
      | None \<Rightarrow> (\<exists>as. lookup (h @ '':0'') = Inr as \<and> as \<noteq> [] \<and> list_all (\<lambda>a. \<not> is_private_ip a) as))"
  by (auto simp: preflight_resolve_def all_public_iff list_all_iff split: option.split sum.split)

end
