(* ===== verification/Llm_Errors.thy ===== *)
theory Llm_Errors
  imports Complex_Main Opex_Prelude
begin

text \<open>
  The errors of a language-model call: the typed error every provider returns
  (\<open>agent/providers/error.rs\<close>), the classification that the retry, failover and cooldown layers key
  on (\<open>agent/error_classify.rs\<close>) and the back-off of the inner retry loop.

  The \<open>regex\<close> crate is not part of the repository, so the compiled patterns are a record of
  predicates on the message, one field for each \<open>static RE_...\<close>; the classifier is the order in
  which they are consulted.  Durations are nanoseconds, as \<open>std::time::Duration\<close> keeps them.
\<close>

section \<open>Durations\<close>

definition from_secs :: "nat \<Rightarrow> nat" where
  "from_secs s = s * 1000000000"

definition from_millis :: "nat \<Rightarrow> nat" where
  "from_millis ms = ms * 1000000"

definition as_secs :: "nat \<Rightarrow> nat" where
  "as_secs d = d div 1000000000"

lemma as_secs_from_secs [simp]: "as_secs (from_secs s) = s"
  by (simp add: as_secs_def from_secs_def)

lemma from_secs_le [simp]: "from_secs a \<le> from_secs b \<longleftrightarrow> a \<le> b"
  by (simp add: from_secs_def)

lemma from_secs_0 [simp]: "from_secs 0 = 0"
  by (simp add: from_secs_def)

section \<open>The typed error of a provider\<close>

datatype CancelReason =
    CrInactivityTimeout nat
  | CrMaxDurationExceeded nat
  | CrUserCancelled
  | CrShutdownDrain

datatype PartialState = PText string | PToolUse | PThinking | PEmpty

fun is_resumable :: "PartialState \<Rightarrow> bool" where
  "is_resumable (PText s) = (s \<noteq> [])"
| "is_resumable _ = False"

text \<open>A \<open>reqwest::Error\<close> is what the code asks of it: whether it failed in the connect phase, whether
  it is a timeout, the status it carries, and its text.\<close>

record reqwest_error =
  is_connect :: bool
  is_timeout :: bool
  re_status :: "16 word option"
  re_display :: string

datatype LlmCallError =
    ConnectTimeout string nat
  | InactivityTimeout string nat PartialState
  | RequestTimeout string nat
  | MaxDurationExceeded string nat PartialState
  | UserCancelled PartialState
  | ShutdownDrain PartialState
  | SchemaError string string nat
  | AuthError string "16 word"
  | Server5xx string "16 word"
  | Network reqwest_error

text \<open>The \<open>Display\<close> that \<open>thiserror\<close> derives from the \<open>#[error(...)]\<close> attributes.\<close>

fun llm_display :: "LlmCallError \<Rightarrow> string" where
  "llm_display (ConnectTimeout p n) = p @ '': connect timed out after '' @ nat_str n @ ''s''"
| "llm_display (InactivityTimeout p n _) =
     p @ '': provider stopped sending data for '' @ nat_str n @ ''s''"
| "llm_display (RequestTimeout p n) = p @ '': request timed out after '' @ nat_str n @ ''s''"
| "llm_display (MaxDurationExceeded p n _) =
     p @ '': stream exceeded max duration '' @ nat_str n @ ''s''"
| "llm_display (UserCancelled _) = ''stopped by user''"
| "llm_display (ShutdownDrain _) = ''interrupted by shutdown drain''"
| "llm_display (SchemaError p d n) =
     p @ '': schema error at byte '' @ nat_str n @ '': '' @ d"
| "llm_display (AuthError p st) = p @ '': auth failed with status '' @ nat_str (unat st)"
| "llm_display (Server5xx p st) = p @ '': server returned '' @ nat_str (unat st)"
| "llm_display (Network e) = ''network error: '' @ re_display e"

definition classify_reqwest_err ::
  "reqwest_error \<Rightarrow> string \<Rightarrow> nat \<Rightarrow> nat \<Rightarrow> LlmCallError" where
  "classify_reqwest_err err provider connect_secs request_secs =
     (if is_connect err then ConnectTimeout provider connect_secs
      else if is_timeout err then RequestTimeout provider request_secs
      else case re_status err of
          None \<Rightarrow> Network err
        | Some code \<Rightarrow>
            if code = 401 \<or> code = 403 then AuthError provider code
            else if 500 \<le> code then Server5xx provider code
            else Network err)"

fun llm_failover_worthy :: "LlmCallError \<Rightarrow> bool" where
  "llm_failover_worthy (ConnectTimeout _ _) = True"
| "llm_failover_worthy (RequestTimeout _ _) = True"
| "llm_failover_worthy (InactivityTimeout _ _ _) = True"
| "llm_failover_worthy (Network _) = True"
| "llm_failover_worthy (Server5xx _ _) = True"
| "llm_failover_worthy (MaxDurationExceeded _ _ _) = False"
| "llm_failover_worthy (UserCancelled _) = False"
| "llm_failover_worthy (ShutdownDrain _) = False"
| "llm_failover_worthy (AuthError _ _) = False"
| "llm_failover_worthy (SchemaError _ _ at_bytes) = (at_bytes = 0)"

fun partial_state :: "LlmCallError \<Rightarrow> PartialState option" where
  "partial_state (InactivityTimeout _ _ p) = Some p"
| "partial_state (MaxDurationExceeded _ _ p) = Some p"
| "partial_state (UserCancelled p) = Some p"
| "partial_state (ShutdownDrain p) = Some p"
| "partial_state _ = None"

fun abort_reason :: "LlmCallError \<Rightarrow> string option" where
  "abort_reason (ConnectTimeout _ _) = Some ''connect_timeout''"
| "abort_reason (InactivityTimeout _ _ _) = Some ''inactivity''"
| "abort_reason (RequestTimeout _ _) = Some ''request_timeout''"
| "abort_reason (MaxDurationExceeded _ _ _) = Some ''max_duration''"
| "abort_reason (UserCancelled _) = Some ''user_cancelled''"
| "abort_reason (ShutdownDrain _) = Some ''shutdown_drain''"
| "abort_reason _ = None"

section \<open>Classification\<close>

text \<open>An \<open>anyhow::Error\<close> either wraps an \<open>LlmCallError\<close>, which \<open>downcast_ref\<close> finds, or is any other
  error, of which the code only uses the text.\<close>

datatype anyhow = Typed LlmCallError | Untyped string

fun anyhow_display :: "anyhow \<Rightarrow> string" where
  "anyhow_display (Typed e) = llm_display e"
| "anyhow_display (Untyped s) = s"

datatype LlmErrorClass =
    ContextOverflow | SessionCorruption | TransientHttp | RateLimit | AuthPermanent | Billing
  | Overloaded | CallTimeout | Unknown

record regexes =
  RE_CONTEXT_OVERFLOW :: "string \<Rightarrow> bool"
  RE_SESSION_CORRUPTION :: "string \<Rightarrow> bool"
  RE_TRANSIENT_HTTP :: "string \<Rightarrow> bool"
  RE_RATE_LIMIT :: "string \<Rightarrow> bool"
  RE_AUTH :: "string \<Rightarrow> bool"
  RE_BILLING :: "string \<Rightarrow> bool"
  RE_OVERLOADED :: "string \<Rightarrow> bool"
  RE_RETRY_AFTER :: "string \<Rightarrow> string option"

definition classify_str :: "regexes \<Rightarrow> string \<Rightarrow> LlmErrorClass" where
  "classify_str re msg =
     (if RE_BILLING re msg then Billing
      else if RE_AUTH re msg then AuthPermanent
      else if RE_CONTEXT_OVERFLOW re msg then ContextOverflow
      else if RE_SESSION_CORRUPTION re msg then SessionCorruption
      else if RE_RATE_LIMIT re msg then RateLimit
      else if RE_OVERLOADED re msg then Overloaded
      else if RE_TRANSIENT_HTTP re msg then TransientHttp
      else Unknown)"

fun is_call_timeout :: "LlmCallError \<Rightarrow> bool" where
  "is_call_timeout (InactivityTimeout _ _ _) = True"
| "is_call_timeout (MaxDurationExceeded _ _ _) = True"
| "is_call_timeout _ = False"

fun classify :: "regexes \<Rightarrow> anyhow \<Rightarrow> LlmErrorClass" where
  "classify re (Typed e) =
     (if is_call_timeout e then CallTimeout else classify_str re (llm_display e))"
| "classify re (Untyped s) = classify_str re s"

fun cooldown_duration :: "LlmErrorClass \<Rightarrow> nat" where
  "cooldown_duration AuthPermanent = from_secs 3600"
| "cooldown_duration Billing = from_secs 3600"
| "cooldown_duration RateLimit = from_secs 60"
| "cooldown_duration Overloaded = from_secs 30"
| "cooldown_duration TransientHttp = from_secs 15"
| "cooldown_duration Unknown = from_secs 15"
| "cooldown_duration ContextOverflow = 0"
| "cooldown_duration SessionCorruption = 0"
| "cooldown_duration CallTimeout = 0"

fun is_retryable :: "LlmErrorClass \<Rightarrow> bool" where
  "is_retryable TransientHttp = True"
| "is_retryable Overloaded = True"
| "is_retryable _ = False"

fun is_failover_worthy :: "LlmErrorClass \<Rightarrow> bool" where
  "is_failover_worthy TransientHttp = True"
| "is_failover_worthy Overloaded = True"
| "is_failover_worthy RateLimit = True"
| "is_failover_worthy CallTimeout = True"
| "is_failover_worthy Unknown = True"
| "is_failover_worthy _ = False"

section \<open>The back-off of the inner retry loop\<close>

text \<open>The computation is in \<open>f64\<close>, here in rationals: base, cap and \<open>2u64.pow(attempt)\<close> are integers
  that \<open>f64\<close> holds exactly, and the jitter, the only inexact product, is truncated to milliseconds.
  \<open>draw\<close> is the random draw from \<open>0.0..1.0\<close>.  \<open>2u64.pow\<close> overflows from attempt 64 on (a panic in a
  debug build, zero in a release build): \<open>None\<close> stands for it.\<close>

record RetryConfig =
  max_attempts :: nat
  base_delay_ms :: nat
  max_delay_ms :: nat
  jitter_factor :: rat

definition default_retry :: RetryConfig where
  "default_retry = \<lparr>max_attempts = 5, base_delay_ms = 500, max_delay_ms = 32000, jitter_factor = 1 / 4\<rparr>"

definition retry_delay :: "RetryConfig \<Rightarrow> rat \<Rightarrow> nat \<Rightarrow> nat option" where
  "retry_delay cfg draw attempt =
     (if attempt < 64 then
        let capped = min (base_delay_ms cfg * 2 ^ attempt) (max_delay_ms cfg);
            jitter_ms = nat \<lfloor>draw * jitter_factor cfg * of_nat capped\<rfloor>
        in Some (from_millis (capped + jitter_ms))
      else None)"

definition retry_delay_for_error :: "RetryConfig \<Rightarrow> LlmErrorClass \<Rightarrow> rat \<Rightarrow> nat \<Rightarrow> nat option" where
  "retry_delay_for_error cfg class draw attempt =
     (case class of RateLimit \<Rightarrow> Some (cooldown_duration class) | _ \<Rightarrow> retry_delay cfg draw attempt)"

text \<open>\<open>str::parse::<u64>\<close> on the captured digits fails when the value does not fit.\<close>

definition extract_retry_after :: "regexes \<Rightarrow> string \<Rightarrow> nat option" where
  "extract_retry_after re error_msg =
     (case RE_RETRY_AFTER re error_msg of
        None \<Rightarrow> None
      | Some digits \<Rightarrow>
          if digits_val digits < 2 ^ 64 then Some (from_secs (digits_val digits)) else None)"

section \<open>Facts\<close>

lemma abort_reason_inj_on_kind:
  "\<lbrakk>abort_reason e = Some r; abort_reason e' = Some r\<rbrakk> \<Longrightarrow>
     llm_failover_worthy e = llm_failover_worthy e' \<and> is_call_timeout e = is_call_timeout e'"
  by (cases e; cases e') auto

lemma partial_state_has_reason: "partial_state e \<noteq> None \<Longrightarrow> abort_reason e \<noteq> None"
  by (cases e) auto

lemma classify_CallTimeout_iff:
  "classify re e = CallTimeout \<longleftrightarrow> (\<exists>t. e = Typed t \<and> is_call_timeout t)"
  by (cases e) (auto simp: classify_str_def)

lemma retryable_failover: "is_retryable c \<Longrightarrow> is_failover_worthy c"
  by (cases c) auto

lemma classify_reqwest_failover:
  "llm_failover_worthy (classify_reqwest_err err p c r) \<longleftrightarrow>
     is_connect err \<or> is_timeout err \<or> re_status err \<notin> {Some 401, Some 403}"
  by (auto simp: classify_reqwest_err_def split: option.splits)

lemma retry_delay_bound:
  assumes "0 \<le> draw" "draw < 1" and d: "retry_delay default_retry draw attempt = Some d"
  shows "d \<le> from_millis 40000"
proof -
  define c where "c = min (500 * 2 ^ attempt :: nat) 32000"
  have c: "c \<le> 32000" by (simp add: c_def)
  have "draw * (1 / 4) * of_nat c \<le> 1 * (1 / 4) * 32000"
    using assms c by (intro mult_mono) auto
  then have "nat \<lfloor>draw * (1 / 4) * of_nat c\<rfloor> \<le> 8000" by linarith
  moreover have "d = from_millis (c + nat \<lfloor>draw * (1 / 4) * of_nat c\<rfloor>)"
    using d unfolding retry_delay_def default_retry_def Let_def c_def
    by (simp split: if_splits)
  ultimately show ?thesis using c by (simp add: from_millis_def)
qed

end
