(* ===== verification/Cli_Runner.thy ===== *)
theory Cli_Runner
  imports Llm_Errors
begin

text \<open>
  The CLI provider (\<open>agent/cli_backend/\<close>): the circuit breaker of \<open>cooldown.rs\<close> and
  \<open>CliRunner::run\<close> with its argument vector, shell quoting, session map and use of the breaker.

  The process that is started is a parameter: \<open>exec\<close> maps what is started to its outcome.  So is the
  reader of the program's output (\<open>parser.rs\<close> on top of \<open>serde_json\<close>).  Readings of
  \<open>Instant::now()\<close> are arguments, in nanoseconds.
\<close>

section \<open>The circuit breaker\<close>

datatype CliErrorReason = CliRateLimit | CliAuth | CliBilling | CliOverloaded | CliTimeout | CliUnknown

text \<open>The arithmetic is in \<open>u64\<close>, the counter a \<open>u32\<close>.\<close>

definition cooldown_ms :: "CliErrorReason \<Rightarrow> 32 word \<Rightarrow> 64 word" where
  "cooldown_ms reason error_count =
     (let n = min (unat error_count) 4 in
      case reason of
        CliRateLimit \<Rightarrow> min (60000 * 5 ^ (n - 1)) 3600000
      | CliOverloaded \<Rightarrow> min (60000 * 5 ^ (n - 1)) 3600000
      | CliAuth \<Rightarrow> min (5 * 3600000 * 2 ^ (n - 1)) (24 * 3600000)
      | CliBilling \<Rightarrow> min (5 * 3600000 * 2 ^ (n - 1)) (24 * 3600000)
      | CliTimeout \<Rightarrow> min (30000 * 5 ^ (min (n - 1) 3)) (30 * 60000)
      | CliUnknown \<Rightarrow> min (30000 * 5 ^ (min (n - 1) 3)) (30 * 60000))"

definition classify_cli_error :: "regexes \<Rightarrow> string \<Rightarrow> string \<Rightarrow> int \<Rightarrow> CliErrorReason" where
  "classify_cli_error re stderr stdout exit_code =
     (case classify_str re (stderr @ '' '' @ stdout) of
        RateLimit \<Rightarrow> CliRateLimit
      | AuthPermanent \<Rightarrow> CliAuth
      | Billing \<Rightarrow> CliBilling
      | Overloaded \<Rightarrow> CliOverloaded
      | TransientHttp \<Rightarrow> CliOverloaded
      | _ \<Rightarrow> CliUnknown)"

record CooldownState =
  error_count :: "32 word"
  cooldown_until :: "instant option"
  last_reason :: "CliErrorReason option"

definition new_cooldown_state :: CooldownState where
  "new_cooldown_state = \<lparr>error_count = 0, cooldown_until = None, last_reason = None\<rparr>"

definition is_in_cooldown :: "instant \<Rightarrow> CooldownState \<Rightarrow> nat option \<times> CooldownState" where
  "is_in_cooldown now cd =
     (case cooldown_until cd of
        Some until \<Rightarrow>
          if now < until then (Some (until - now), cd)
          else (None, cd\<lparr>error_count := 0, cooldown_until := None, last_reason := None\<rparr>)
      | None \<Rightarrow> (None, cd))"

text \<open>\<open>record_failure\<close> reads the clock twice, in the guard and for the new window.\<close>

definition cli_record_failure ::
  "CliErrorReason \<Rightarrow> instant \<Rightarrow> instant \<Rightarrow> CooldownState \<Rightarrow> CooldownState" where
  "cli_record_failure reason now now' cd =
     (if (case cooldown_until cd of None \<Rightarrow> False | Some u \<Rightarrow> now < u) then cd
      else
        let n = error_count cd + 1
        in cd\<lparr>error_count := n, last_reason := Some reason,
              cooldown_until := Some (now' + from_millis (unat (cooldown_ms reason n)))\<rparr>)"

definition cli_record_success :: "CooldownState \<Rightarrow> CooldownState" where
  "cli_record_success cd = cd\<lparr>error_count := 0, cooldown_until := None, last_reason := None\<rparr>"

section \<open>Configuration and command line\<close>

datatype CliOutputFormat = OutJson | OutText | OutJsonl
datatype CliInputMode = InArg | InStdin
datatype CliSessionMode = SessAlways | SessExisting | SessNone
datatype SystemPromptWhen = SpFirst | SpAlways | SpNever

record CliBackendConfig =
  cfg_command :: string
  cfg_args :: "string list"
  cfg_resume_args :: "string list"
  cfg_output :: CliOutputFormat
  cfg_input :: CliInputMode
  cfg_model_arg :: "string option"
  cfg_model_aliases :: "string \<rightharpoonup> string"
  cfg_session_arg :: "string option"
  cfg_session_mode :: CliSessionMode
  cfg_system_prompt_arg :: "string option"
  cfg_prompt_arg :: "string option"
  cfg_timeout_secs :: nat
  cfg_serialize :: bool
  cfg_env :: "string \<rightharpoonup> string"
  cfg_env_key :: "string option"
  cfg_clear_env :: "string list"
  cfg_system_prompt_when :: SystemPromptWhen
  cfg_max_prompt_arg_chars :: nat
  cfg_no_output_timeout_secs :: nat

lemma strip_prefix_shorter:
  "\<lbrakk>strip_prefix pat (c # cs) = Some r; pat \<noteq> []\<rbrakk> \<Longrightarrow> length r < Suc (length cs)"
  using strip_prefix_Some [of pat "c # cs" r]
  by (metis append_self_conv2 length_Cons length_append less_add_same_cancel2 length_greater_0_conv)

text \<open>\<open>s.replace(pat, rep)\<close>: every occurrence from the left, without overlap.\<close>

function replace_all :: "string \<Rightarrow> string \<Rightarrow> string \<Rightarrow> string" where
  "replace_all pat rep s =
     (case s of
        [] \<Rightarrow> []
      | c # cs \<Rightarrow>
          if pat = [] then s
          else (case strip_prefix pat s of
                  Some r \<Rightarrow> rep @ replace_all pat rep r
                | None \<Rightarrow> c # replace_all pat rep cs))"
  by pat_completeness auto
termination
  by (relation "measure (\<lambda>(pat, rep, s). length s)") (auto simp: strip_prefix_shorter)

declare replace_all.simps [simp del]

definition build_argv ::
  "CliBackendConfig \<Rightarrow> string \<Rightarrow> string \<Rightarrow> string option \<Rightarrow> string option \<Rightarrow> bool \<Rightarrow> string list \<times> bool" where
  "build_argv cfg model prompt system_prompt session_id use_resume =
     (let has_session = session_id \<noteq> None;
          sid = (case session_id of None \<Rightarrow> [] | Some s \<Rightarrow> s);
          model_args = (case cfg_model_arg cfg of
              Some a \<Rightarrow> if model \<noteq> [] then [a, model] else []
            | None \<Rightarrow> []);
          should_include_system_prompt = (case cfg_system_prompt_when cfg of
              SpNever \<Rightarrow> False | SpFirst \<Rightarrow> \<not> has_session | SpAlways \<Rightarrow> True);
          system_args =
            (if should_include_system_prompt then
               (case (cfg_system_prompt_arg cfg, system_prompt) of
                  (Some a, Some sp) \<Rightarrow> if sp \<noteq> [] then [a, sp] else []
                | _ \<Rightarrow> [])
             else []);
          session_args =
            (if cfg_session_mode cfg \<noteq> SessNone then
               (case cfg_session_arg cfg of
                  Some a \<Rightarrow> if sid \<noteq> [] then [a, sid] else []
                | None \<Rightarrow> [])
             else []);
          head = cfg_command cfg #
            (if use_resume then map (replace_all ''{session_id}'' sid) (cfg_resume_args cfg)
             else cfg_args cfg @ model_args @ system_args @ session_args)
      in if cfg_input cfg = InArg then
           if length prompt > cfg_max_prompt_arg_chars cfg then (head, True)
           else (head @ (case cfg_prompt_arg cfg of Some pa \<Rightarrow> [pa] | None \<Rightarrow> []) @ [prompt], False)
         else (head, True))"

definition shell_escape :: "string \<Rightarrow> string" where
  "shell_escape s =
     [CHR 0x27] @ concat (map (\<lambda>c. if c = CHR 0x27 then [CHR 0x27, CHR 0x5C, CHR 0x27, CHR 0x27] else [c]) s)
     @ [CHR 0x27]"

definition base_cmd :: "string list \<Rightarrow> string" where
  "base_cmd argv = join '' '' (map shell_escape argv)"

section \<open>The runner\<close>

text \<open>What is started, and how it ends: an error of the launcher, or a finished process.\<close>

datatype exec_request =
    OnHost "string list" "string \<rightharpoonup> string" "string option"
  | InSandbox string

datatype exec_outcome = ExecErr string | Exited int string string

record CliOutput =
  out_text :: string
  out_session_id :: "string option"

record CliRunner =
  sessions :: "string \<rightharpoonup> string"
  session_hashes :: "string \<rightharpoonup> 64 word"
  cooldown :: CooldownState

datatype cli_error =
    InCooldown nat "CliErrorReason option" "32 word"
  | ExecFailed string
  | BadExit int CliErrorReason
  | NoSandbox

definition check_and_invalidate_session ::
  "string \<Rightarrow> 64 word \<Rightarrow> CliRunner \<Rightarrow> bool \<times> CliRunner" where
  "check_and_invalidate_session agent_name context_hash r =
     (let prev = session_hashes r agent_name;
          r1 = r\<lparr>session_hashes := (session_hashes r)(agent_name \<mapsto> context_hash)\<rparr>;
          invalidate = (case prev of None \<Rightarrow> False | Some p \<Rightarrow> p \<noteq> context_hash)
      in if invalidate then (True, r1\<lparr>sessions := (sessions r1)(agent_name := None)\<rparr>)
         else (False, r1))"

text \<open>The reason recorded for an error of the launcher.  \<open>to_lowercase\<close> lowers more than ASCII, but no
  other code point has a lowercase form that is part of one of the two searched words.\<close>

definition exec_err_reason :: "string \<Rightarrow> CliErrorReason" where
  "exec_err_reason e =
     (let msg = to_ascii_lowercase e
      in if contains_str ''timed out'' msg \<or> contains_str ''timeout'' msg then CliTimeout
         else CliUnknown)"

text \<open>\<open>run\<close>: \<open>t0\<close> is the reading of the clock of the check, \<open>t1\<close> and \<open>t2\<close> those of
  \<open>record_failure\<close> when the process has ended.\<close>

definition cli_run ::
  "regexes \<Rightarrow> (exec_request \<Rightarrow> exec_outcome) \<Rightarrow> (CliOutputFormat \<Rightarrow> string \<Rightarrow> CliOutput) \<Rightarrow>
   CliBackendConfig \<Rightarrow> string \<Rightarrow> string \<Rightarrow> string option \<Rightarrow> string \<Rightarrow> bool \<Rightarrow> bool \<Rightarrow> (string \<rightharpoonup> string) \<Rightarrow>
   instant \<times> instant \<times> instant \<Rightarrow> CliRunner \<Rightarrow> (cli_error + CliOutput) \<times> CliRunner" where
  "cli_run re exec parse cfg agent_name prompt system_prompt model sandbox base extra_env clock r =
     (let (t0, t1, t2) = clock; (remaining, cd) = is_in_cooldown t0 (cooldown r); r = r\<lparr>cooldown := cd\<rparr> in
      case remaining of
        Some d \<Rightarrow> (Inl (InCooldown d (last_reason cd) (error_count cd)), r)
      | None \<Rightarrow>
         let resolved_model = (case cfg_model_aliases cfg model of None \<Rightarrow> model | Some m \<Rightarrow> m);
             existing_session = sessions r agent_name;
             use_resume = (existing_session \<noteq> None \<and> cfg_resume_args cfg \<noteq> []);
             (argv, use_stdin) = build_argv cfg resolved_model prompt system_prompt existing_session use_resume;
             stdin_input = (if use_stdin then Some prompt else None);
             merged_env = cfg_env cfg ++ extra_env;
             cmd = (case stdin_input of
                      Some input \<Rightarrow> ''echo '' @ shell_escape input @ '' | '' @ base_cmd argv
                    | None \<Rightarrow> base_cmd argv);
             request = (if base then Some (OnHost argv merged_env stdin_input)
                        else if sandbox then Some (InSandbox cmd) else None)
         in case request of
              None \<Rightarrow> (Inl NoSandbox, r)
            | Some q \<Rightarrow>
               (case exec q of
                  ExecErr e \<Rightarrow>
                    (Inl (ExecFailed e),
                     r\<lparr>cooldown := cli_record_failure (exec_err_reason e) t1 t2 (cooldown r)\<rparr>)
                | Exited code stderr stdout \<Rightarrow>
                    if code \<noteq> 0 then
                      let reason = classify_cli_error re stderr stdout code
                      in (Inl (BadExit code reason),
                          r\<lparr>cooldown := cli_record_failure reason t1 t2 (cooldown r)\<rparr>)
                    else
                      let r = r\<lparr>cooldown := cli_record_success (cooldown r)\<rparr>;
                          output = (case cfg_output cfg of
                                      OutText \<Rightarrow> \<lparr>out_text = trim stdout, out_session_id = None\<rparr>
                                    | fmt \<Rightarrow> parse fmt stdout)
                      in (Inr output,
                          (case out_session_id output of
                             None \<Rightarrow> r
                           | Some sid \<Rightarrow> r\<lparr>sessions := (sessions r)(agent_name \<mapsto> sid)\<rparr>))))"

section \<open>The back-off table\<close>

lemma unat_le_4_cases:
  "min (unat (n :: 32 word)) 4 = 0 \<or> min (unat n) 4 = 1 \<or> min (unat n) 4 = 2 \<or> min (unat n) 4 = 3
   \<or> min (unat n) 4 = 4"
  by linarith

lemma cooldown_ms_positive: "cooldown_ms reason n \<noteq> 0"
  using unat_le_4_cases [of n] by (cases reason) (auto simp: cooldown_ms_def Let_def)

lemma cooldown_ms_bound: "unat (cooldown_ms reason n) \<le> 24 * 3600000"
  using unat_le_4_cases [of n]
  by (cases reason) (auto simp: cooldown_ms_def Let_def min_def)

section \<open>The breaker as a machine\<close>

text \<open>Runs of one runner overlap: every run checks, and later records.  The breaker therefore sees the
  events of all runs in some order; each is one acquisition of its lock.\<close>

datatype breaker_event = Check instant | Fail CliErrorReason instant instant | Succeed

fun breaker_step :: "CooldownState \<Rightarrow> breaker_event \<Rightarrow> CooldownState" where
  "breaker_step cd (Check now) = snd (is_in_cooldown now cd)"
| "breaker_step cd (Fail reason now now') = cli_record_failure reason now now' cd"
| "breaker_step cd Succeed = cli_record_success cd"

text \<open>The three fields say the same: closed (no deadline, no reason, no errors) or open; the bound on
  the counter is the one under which \<open>u32\<close> does not wrap.\<close>

definition breaker_closed :: "CooldownState \<Rightarrow> bool" where
  "breaker_closed cd \<longleftrightarrow> error_count cd = 0 \<and> cooldown_until cd = None \<and> last_reason cd = None"

definition breaker_wf :: "CooldownState \<Rightarrow> bool" where
  "breaker_wf cd \<longleftrightarrow> breaker_closed cd \<or> (cooldown_until cd \<noteq> None \<and> last_reason cd \<noteq> None)"

interpretation breaker: step_machine breaker_step breaker_wf
proof (unfold_locales, goal_cases)
  case (1 s e)
  then show ?case
    by (cases e)
       (auto simp: breaker_wf_def breaker_closed_def is_in_cooldown_def cli_record_failure_def
          cli_record_success_def Let_def split: option.splits)
qed

lemma check_passes_closed:
  "\<lbrakk>breaker_wf cd; fst (is_in_cooldown t cd) = None\<rbrakk> \<Longrightarrow> breaker_closed (snd (is_in_cooldown t cd))"
  by (auto simp: breaker_wf_def breaker_closed_def is_in_cooldown_def split: option.splits if_splits)

lemma closed_fail:
  "breaker_closed cd \<Longrightarrow>
   cli_record_failure reason t t' cd =
     cd\<lparr>error_count := 1, last_reason := Some reason,
        cooldown_until := Some (t' + from_millis (unat (cooldown_ms reason 1)))\<rparr>"
  by (simp add: breaker_closed_def cli_record_failure_def Let_def)

lemma breaker_history_wf: "breaker_wf (foldl breaker_step new_cooldown_state es)"
  by (rule breaker.run_inv) (simp add: breaker_wf_def breaker_closed_def new_cooldown_state_def)

lemma cli_run_bad_exit:
  assumes "cli_run re exec parse cfg a p sp m sb b env (t0, t1, t2) r = (Inl (BadExit code reason), r')"
  shows "fst (is_in_cooldown t0 (cooldown r)) = None"
    and "cooldown r' = cli_record_failure reason t1 t2 (snd (is_in_cooldown t0 (cooldown r)))"
  using assms
  by (auto simp: cli_run_def Let_def split: prod.splits option.splits exec_outcome.splits if_splits)

text \<open>Escalation is dead code for runs that do not overlap: whatever the breaker has seen, in any
  interleaving, a run that is let through starts from a counter that its own check has reset, so its
  failure always opens the first window of its reason and never a longer one.\<close>

theorem failure_after_check_never_escalates:
  assumes "cooldown r = foldl breaker_step new_cooldown_state es"
    and "cli_run re exec parse cfg a p sp m sb b env (t0, t1, t2) r = (Inl (BadExit code reason), r')"
  shows "error_count (cooldown r') = 1 \<and>
         cooldown_until (cooldown r') = Some (t2 + from_millis (unat (cooldown_ms reason 1)))"
  using cli_run_bad_exit [OF assms(2)] check_passes_closed [of "cooldown r" t0] breaker_history_wf [of es]
  by (simp add: assms(1) closed_fail)

theorem failure_after_check_never_escalates_witness:
  "\<exists>r' :: CliRunner. error_count (cooldown r') = 1 \<and> cooldown_until (cooldown r') = Some (from_millis 760000)"
proof -
  define es where "es = [Fail CliUnknown 0 0, Fail CliUnknown (from_millis 40000) (from_millis 40000)]"
  define r where "r = \<lparr>sessions = Map.empty, session_hashes = Map.empty,
    cooldown = foldl breaker_step new_cooldown_state es\<rparr>"
  define cfg where "cfg = \<lparr>cfg_command = ''claude'', cfg_args = [], cfg_resume_args = [], cfg_output = OutText,
    cfg_input = InArg, cfg_model_arg = None, cfg_model_aliases = Map.empty, cfg_session_arg = None,
    cfg_session_mode = SessAlways, cfg_system_prompt_arg = None, cfg_prompt_arg = None,
    cfg_timeout_secs = 300, cfg_serialize = True, cfg_env = Map.empty, cfg_env_key = None,
    cfg_clear_env = [], cfg_system_prompt_when = SpFirst, cfg_max_prompt_arg_chars = 100000,
    cfg_no_output_timeout_secs = 60\<rparr>"
  define re where "re = \<lparr>RE_CONTEXT_OVERFLOW = \<lambda>_. False, RE_SESSION_CORRUPTION = \<lambda>_. False,
    RE_TRANSIENT_HTTP = \<lambda>_. False, RE_RATE_LIMIT = contains_str ''429'', RE_AUTH = \<lambda>_. False,
    RE_BILLING = \<lambda>_. False, RE_OVERLOADED = \<lambda>_. False, RE_RETRY_AFTER = \<lambda>_. None\<rparr>"
  define run where "run = cli_run re (\<lambda>_. Exited 1 ''429'' []) (\<lambda>_ o'. \<lparr>out_text = o', out_session_id = None\<rparr>)
    cfg ''main'' ''hi'' None ''m'' False True Map.empty (from_millis 600000, from_millis 700000, from_millis 700000) r"
  have "error_count (cooldown r) = 2 \<and> cooldown_until (cooldown r) = Some (from_millis 190000)"
    by (simp add: r_def es_def cli_record_failure_def new_cooldown_state_def cooldown_ms_def from_millis_def Let_def)
  then have "is_in_cooldown (from_millis 600000) (cooldown r) = (None, new_cooldown_state)"
    by (simp add: is_in_cooldown_def from_millis_def new_cooldown_state_def)
  then have bad: "run = (Inl (BadExit 1 CliRateLimit), snd run)"
    by (simp add: run_def cli_run_def cfg_def re_def build_argv_def classify_cli_error_def classify_str_def
        starts_with_def Let_def)
  have "error_count (cooldown (snd run)) = 1 \<and>
        cooldown_until (cooldown (snd run)) =
          Some (from_millis 700000 + from_millis (unat (cooldown_ms CliRateLimit 1)))"
    by (rule failure_after_check_never_escalates [OF _ bad [unfolded run_def], where es = es, folded run_def])
       (simp add: r_def)
  moreover have "from_millis 700000 + from_millis (unat (cooldown_ms CliRateLimit 1)) = from_millis 760000"
    by (simp add: cooldown_ms_def from_millis_def)
  ultimately show ?thesis by auto
qed

text \<open>The window of every reason and count is base times a power, at most the cap: the \<open>u64\<close>
  arithmetic never wraps, whatever the \<open>u32\<close> counter.\<close>

theorem cooldown_ms_table:
  "unat (cooldown_ms reason n) =
     (case reason of
        CliRateLimit \<Rightarrow> min (60000 * 5 ^ (min (unat n) 4 - 1)) 3600000
      | CliOverloaded \<Rightarrow> min (60000 * 5 ^ (min (unat n) 4 - 1)) 3600000
      | CliAuth \<Rightarrow> min (18000000 * 2 ^ (min (unat n) 4 - 1)) 86400000
      | CliBilling \<Rightarrow> min (18000000 * 2 ^ (min (unat n) 4 - 1)) 86400000
      | CliTimeout \<Rightarrow> min (30000 * 5 ^ (min (unat n) 4 - 1)) 1800000
      | CliUnknown \<Rightarrow> min (30000 * 5 ^ (min (unat n) 4 - 1)) 1800000)"
  using unat_le_4_cases [of n] by (cases reason) (auto simp: cooldown_ms_def Let_def)

section \<open>Quoting for the shell\<close>

text \<open>The words a POSIX shell reads from a command line that uses only literal characters, single
  quotes, backslashes and blanks; anything else outside quotes (expansions, operators, comments,
  double quotes) is not read and gives \<open>None\<close>.  In quotes every character up to the next quote
  stands for itself.\<close>

definition sh_plain :: "char \<Rightarrow> bool" where
  "sh_plain c \<longleftrightarrow>
     (let n = of_char c :: nat
      in (48 \<le> n \<and> n \<le> 57) \<or> (65 \<le> n \<and> n \<le> 90) \<or> (97 \<le> n \<and> n \<le> 122) \<or> n = 45 \<or> n = 95 \<or> n = 47 \<or> n = 46)"

fun sh_words :: "bool \<Rightarrow> string option \<Rightarrow> string \<Rightarrow> string list option" where
  "sh_words False w [] = Some (case w of None \<Rightarrow> [] | Some acc \<Rightarrow> [acc])"
| "sh_words True w [] = None"
| "sh_words True w (c # cs) =
     (if c = CHR 0x27 then sh_words False w cs
      else sh_words True (Some ((case w of None \<Rightarrow> [] | Some acc \<Rightarrow> acc) @ [c])) cs)"
| "sh_words False w (c # cs) =
     (if c = CHR 0x20 then
        (case w of None \<Rightarrow> sh_words False None cs
         | Some acc \<Rightarrow> map_option ((#) acc) (sh_words False None cs))
      else if c = CHR 0x27 then sh_words True (Some (case w of None \<Rightarrow> [] | Some acc \<Rightarrow> acc)) cs
      else if c = CHR 0x5C then
        (case cs of [] \<Rightarrow> None
         | d # ds \<Rightarrow>
             if d = CHR 0x0A then sh_words False w ds
             else sh_words False (Some ((case w of None \<Rightarrow> [] | Some acc \<Rightarrow> acc) @ [d])) ds)
      else if sh_plain c then sh_words False (Some ((case w of None \<Rightarrow> [] | Some acc \<Rightarrow> acc) @ [c])) cs
      else None)"

lemma sh_words_body:
  "sh_words True (Some acc)
     (concat (map (\<lambda>c. if c = CHR 0x27 then [CHR 0x27, CHR 0x5C, CHR 0x27, CHR 0x27] else [c]) s)
      @ CHR 0x27 # rest) = sh_words False (Some (acc @ s)) rest"
  by (induction s arbitrary: acc) auto

lemma sh_words_escape: "sh_words False None (shell_escape s @ rest) = sh_words False (Some s) rest"
  using sh_words_body [of "[]" s rest] by (simp add: shell_escape_def)

lemma sh_words_join:
  "sh_words False None (join '' '' (map shell_escape argv)) = Some argv"
proof (induction argv rule: induct_list012)
  case (2 x)
  then show ?case using sh_words_escape [of x "[]"] by simp
next
  case (3 x y zs)
  then show ?case by (simp add: sh_words_escape)
qed simp

text \<open>The command line handed to the sandbox's shell is read back as exactly the argument vector:
  no argument, whatever bytes it holds, can end its quotes, add a word or reach an operator.\<close>

theorem base_cmd_words: "sh_words False None (base_cmd argv) = Some argv"
  by (simp add: base_cmd_def sh_words_join)

end
