(* ===== verification/Llm_Call.thy ===== *)
theory Llm_Call
  imports Llm_Errors Tool_Loop
begin

text \<open>
  One language-model call of the pipeline (\<open>agent/pipeline/llm_call.rs\<close>): the three nested retry
  layers (context-overflow recovery, transient retry, deadline retry) and the budget check.

  The provider, the compactor, the clock, the cancellation token and the chunk channel are the
  environment: a record of operations on a world \<open>'w\<close> of any type.  Every operation returns the world
  after it, so time may pass and the session may be cancelled between any two of them.  The state
  also carries a history of what was done, which no definition reads.
\<close>

section \<open>Messages and responses\<close>

record Message =
  msg_role :: MessageRole
  msg_content :: string
  msg_tool_calls :: "ToolCall list option"
  msg_tool_call_id :: "string option"
  msg_thinking_blocks :: "(string \<times> string) list"
  msg_db_id :: "uuid option"

definition plain_message :: "MessageRole \<Rightarrow> string \<Rightarrow> Message" where
  "plain_message role content =
     \<lparr>msg_role = role, msg_content = content, msg_tool_calls = None, msg_tool_call_id = None,
      msg_thinking_blocks = [], msg_db_id = None\<rparr>"

record LlmResponse =
  resp_content :: string
  resp_tool_calls :: "ToolCall list"
  resp_finish_reason :: "string option"
  resp_model :: "string option"
  resp_provider :: "string option"
  resp_fallback_notice :: "string option"

section \<open>Environment, history and state\<close>

record 'w llm_env =
  env_name :: string
  env_supports_prefill :: bool
  env_chat :: "'w \<Rightarrow> Message list \<Rightarrow> (anyhow + LlmResponse) \<times> 'w"
  env_chat_stream :: "'w \<Rightarrow> Message list \<Rightarrow> (anyhow + LlmResponse) \<times> 'w"
  env_compact_force :: "'w \<Rightarrow> Message list \<Rightarrow> Message list \<times> 'w"
  env_is_cancelled :: "'w \<Rightarrow> bool \<times> 'w"
  env_sleep :: "'w \<Rightarrow> nat \<Rightarrow> bool \<times> 'w"
  env_now :: "'w \<Rightarrow> instant \<times> 'w"
  env_draw :: "'w \<Rightarrow> rat \<times> 'w"
  env_send :: "'w \<Rightarrow> string \<Rightarrow> 'w"

datatype llm_event =
    Round "Message list"
  | Called "Message list" "anyhow option"
  | Compacted
  | Slept nat
  | Reconnecting nat nat

record 'w call_state =
  st_messages :: "Message list"
  st_world :: 'w
  st_history :: "llm_event list"

definition remember :: "llm_event \<Rightarrow> 'w call_state \<Rightarrow> 'w call_state" where
  "remember e st = st\<lparr>st_history := st_history st @ [e]\<rparr>"

fun error_of :: "anyhow + LlmResponse \<Rightarrow> anyhow option" where
  "error_of (Inl e) = Some e"
| "error_of (Inr r) = None"

section \<open>Budget\<close>

text \<open>\<open>used\<close> is the answer of the usage query, \<open>None\<close> for a database error; the conversion of a
  negative \<open>i64\<close> to \<open>u64\<close> wraps.\<close>

definition check_budget :: "int option \<Rightarrow> 64 word \<Rightarrow> string + unit" where
  "check_budget used_query daily_budget_tokens =
     (if daily_budget_tokens = 0 then Inr ()
      else let used = word_of_int (case used_query of None \<Rightarrow> 0 | Some n \<Rightarrow> n) :: 64 word
           in if used \<ge> daily_budget_tokens
              then Inl (''Daily token budget exceeded ('' @ nat_str (unat used) @ ''/''
                        @ nat_str (unat daily_budget_tokens) @ '' tokens). Resets at midnight.'')
              else Inr ())"

section \<open>Overflow recovery\<close>

definition is_recoverable_overflow :: "regexes \<Rightarrow> anyhow \<Rightarrow> bool" where
  "is_recoverable_overflow re e \<longleftrightarrow> classify re e = ContextOverflow"

text \<open>One call of the provider with the messages of the state.\<close>

definition call_provider ::
  "('w \<Rightarrow> Message list \<Rightarrow> (anyhow + LlmResponse) \<times> 'w) \<Rightarrow> 'w call_state \<Rightarrow>
     (anyhow + LlmResponse) \<times> 'w call_state" where
  "call_provider chat st =
     (let (r, w) = chat (st_world st) (st_messages st)
      in (r, remember (Called (st_messages st) (error_of r)) (st\<lparr>st_world := w\<rparr>)))"

definition compact_force :: "'w llm_env \<Rightarrow> 'w call_state \<Rightarrow> 'w call_state" where
  "compact_force env st =
     (let (ms, w) = env_compact_force env (st_world st) (st_messages st)
      in remember Compacted (st\<lparr>st_world := w, st_messages := ms\<rparr>))"

definition overflow_recovery ::
  "regexes \<Rightarrow> 'w llm_env \<Rightarrow> ('w \<Rightarrow> Message list \<Rightarrow> (anyhow + LlmResponse) \<times> 'w) \<Rightarrow>
   'w call_state \<Rightarrow> (anyhow + LlmResponse) \<times> 'w call_state" where
  "overflow_recovery re env chat st =
     (case call_provider chat st of
        (Inr resp, st1) \<Rightarrow> (Inr resp, st1)
      | (Inl e, st1) \<Rightarrow>
          if \<not> is_recoverable_overflow re e then (Inl e, st1)
          else call_provider chat (compact_force env st1))"

definition chat_with_overflow_recovery ::
  "regexes \<Rightarrow> 'w llm_env \<Rightarrow> 'w call_state \<Rightarrow> (anyhow + LlmResponse) \<times> 'w call_state" where
  "chat_with_overflow_recovery re env st = overflow_recovery re env (env_chat env) st"

definition chat_stream_with_overflow_recovery ::
  "regexes \<Rightarrow> 'w llm_env \<Rightarrow> 'w call_state \<Rightarrow> (anyhow + LlmResponse) \<times> 'w call_state" where
  "chat_stream_with_overflow_recovery re env st = overflow_recovery re env (env_chat_stream env) st"

section \<open>Transient retry\<close>

definition user_cancelled :: "anyhow + LlmResponse" where
  "user_cancelled = Inl (Typed (UserCancelled PEmpty))"

definition check_cancelled :: "'w llm_env \<Rightarrow> 'w call_state \<Rightarrow> bool \<times> 'w call_state" where
  "check_cancelled env st =
     (let (c, w) = env_is_cancelled env (st_world st) in (c, st\<lparr>st_world := w\<rparr>))"

text \<open>The cancel-aware sleep: whether the session was cancelled during it.\<close>

definition backoff_sleep :: "'w llm_env \<Rightarrow> nat \<Rightarrow> 'w call_state \<Rightarrow> bool \<times> 'w call_state" where
  "backoff_sleep env delay st =
     (let (c, w) = env_sleep env (st_world st) delay in (c, remember (Slept delay) (st\<lparr>st_world := w\<rparr>)))"

text \<open>The delay of a retry.  \<open>attempt\<close> is below \<open>max_attempts\<close>, so \<open>retry_delay_for_error\<close> never
  overflows here.\<close>

definition transient_delay ::
  "regexes \<Rightarrow> RetryConfig \<Rightarrow> 'w llm_env \<Rightarrow> anyhow \<Rightarrow> nat \<Rightarrow> 'w call_state \<Rightarrow> nat \<times> 'w call_state" where
  "transient_delay re config env e attempt st =
     (case extract_retry_after re (anyhow_display e) of
        Some d \<Rightarrow> (d, st)
      | None \<Rightarrow>
          let (x, w) = env_draw env (st_world st)
          in (case retry_delay_for_error config (classify re e) x attempt of None \<Rightarrow> 0 | Some d \<Rightarrow> d,
              st\<lparr>st_world := w\<rparr>))"

fun transient_loop ::
  "regexes \<Rightarrow> RetryConfig \<Rightarrow> 'w llm_env \<Rightarrow> nat \<Rightarrow> nat \<Rightarrow> anyhow option \<Rightarrow> 'w call_state \<Rightarrow>
     (anyhow + LlmResponse) \<times> 'w call_state" where
  "transient_loop re config env 0 attempt last_error st =
     (Inl (case last_error of
             Some e \<Rightarrow> e
           | None \<Rightarrow> Untyped ''LLM stream call failed after retries''), st)"
| "transient_loop re config env (Suc n) attempt last_error st =
     (case check_cancelled env st of
        (True, st1) \<Rightarrow> (user_cancelled, st1)
      | (False, st1) \<Rightarrow>
         (case chat_stream_with_overflow_recovery re env st1 of
            (Inr resp, st2) \<Rightarrow> (Inr resp, st2)
          | (Inl e, st2) \<Rightarrow>
              if \<not> is_retryable (classify re e) then (Inl e, st2)
              else
                let (delay, st3) = transient_delay re config env e attempt st2
                in if n = 0 then transient_loop re config env n (attempt + 1) (Some e) st3
                   else (case backoff_sleep env delay st3 of
                           (True, st4) \<Rightarrow> (user_cancelled, st4)
                         | (False, st4) \<Rightarrow> transient_loop re config env n (attempt + 1) (Some e) st4)))"

definition chat_stream_with_transient_retry ::
  "regexes \<Rightarrow> 'w llm_env \<Rightarrow> 'w call_state \<Rightarrow> (anyhow + LlmResponse) \<times> 'w call_state" where
  "chat_stream_with_transient_retry re env st =
     transient_loop re default_retry env (max_attempts default_retry) 0 None st"

section \<open>Deadline retry\<close>

definition RECONNECTING_PREFIX :: string where
  "RECONNECTING_PREFIX = ''__reconnecting__:''"

definition MAX_TIMEOUT_RETRIES :: nat where
  "MAX_TIMEOUT_RETRIES = 10"

text \<open>\<open>2u64.saturating_pow(attempt).saturating_mul(1000).min(30_000)\<close>.\<close>

definition deadline_delay_ms :: "nat \<Rightarrow> nat" where
  "deadline_delay_ms attempt =
     min (min (min (2 ^ attempt) (2 ^ 64 - 1) * 1000) (2 ^ 64 - 1)) 30000"

text \<open>The signal of a retry, on the timeline and to the interface.\<close>

definition signal_retry :: "'w llm_env \<Rightarrow> nat \<Rightarrow> nat \<Rightarrow> 'w call_state \<Rightarrow> 'w call_state" where
  "signal_retry env attempt delay_ms st =
     remember (Reconnecting attempt delay_ms)
       (st\<lparr>st_world := env_send env (st_world st)
              (RECONNECTING_PREFIX @ nat_str attempt @ '':'' @ nat_str delay_ms)\<rparr>)"

text \<open>The messages prepared for the next attempt: the base and the partial text as an assistant
  message, when the text can be resumed and the provider takes a prefill.\<close>

definition prefill ::
  "'w llm_env \<Rightarrow> Message list \<Rightarrow> PartialState option \<Rightarrow> Message list option" where
  "prefill env base_messages p =
     (case p of
        Some (PText partial) \<Rightarrow>
          if partial \<noteq> [] \<and> env_supports_prefill env
          then Some (base_messages @ [plain_message Assistant partial]) else None
      | _ \<Rightarrow> None)"

text \<open>The deadline of the whole run, when there is one: the error it ends with.\<close>

definition run_expired ::
  "'w llm_env \<Rightarrow> instant \<Rightarrow> nat \<Rightarrow> 'w call_state \<Rightarrow> LlmCallError option \<times> 'w call_state" where
  "run_expired env run_started run_max st =
     (if run_max > 0 then
        let (now, w) = env_now env (st_world st); elapsed = as_secs (now - run_started)
        in (if elapsed \<ge> run_max then Some (MaxDurationExceeded (env_name env) elapsed PEmpty) else None,
            st\<lparr>st_world := w\<rparr>)
      else (None, st))"

function (sequential) deadline_loop ::
  "regexes \<Rightarrow> 'w llm_env \<Rightarrow> Message list \<Rightarrow> instant \<Rightarrow> nat \<Rightarrow> nat \<Rightarrow> Message list option \<Rightarrow>
     'w call_state \<Rightarrow> (anyhow + LlmResponse) \<times> 'w call_state" where
  "deadline_loop re env base_messages run_started run_max attempt prepared st =
     (case run_expired env run_started run_max st of
        (Some err, st1) \<Rightarrow> (Inl (Typed err), st1)
      | (None, st1) \<Rightarrow>
     (case check_cancelled env st1 of
        (True, st2) \<Rightarrow> (user_cancelled, st2)
      | (False, st2) \<Rightarrow>
         let ms = (case prepared of Some p \<Rightarrow> p | None \<Rightarrow> base_messages);
             st3 = remember (Round ms) (st2\<lparr>st_messages := ms\<rparr>)
         in (case chat_stream_with_transient_retry re env st3 of
               (Inr r, st4) \<Rightarrow> (Inr r, st4)
             | (Inl (Untyped e), st4) \<Rightarrow> (Inl (Untyped e), st4)
             | (Inl (Typed te), st4) \<Rightarrow>
                 if \<not> is_call_timeout te then (Inl (Typed te), st4)
                 else if attempt + 1 \<ge> MAX_TIMEOUT_RETRIES then (Inl (Typed te), st4)
                 else
                   let delay_ms = deadline_delay_ms (attempt + 1);
                       st5 = signal_retry env (attempt + 1) delay_ms st4
                   in (case backoff_sleep env (from_millis delay_ms) st5 of
                         (True, st6) \<Rightarrow> (user_cancelled, st6)
                       | (False, st6) \<Rightarrow>
                           deadline_loop re env base_messages run_started run_max (attempt + 1)
                             (prefill env base_messages (partial_state te)) st6))))"
  by pat_completeness auto
termination
  by (relation "measure (\<lambda>(_, _, _, _, _, attempt, _, _). MAX_TIMEOUT_RETRIES - attempt)") auto

declare deadline_loop.simps [simp del]

definition deadline_retry_inner ::
  "regexes \<Rightarrow> 'w llm_env \<Rightarrow> nat \<Rightarrow> 'w call_state \<Rightarrow> (anyhow + LlmResponse) \<times> 'w call_state" where
  "deadline_retry_inner re env run_max_duration_secs st =
     (let (run_started, w) = env_now env (st_world st)
      in deadline_loop re env (st_messages st) run_started run_max_duration_secs 0 None (st\<lparr>st_world := w\<rparr>))"

section \<open>Traces of the retry layers\<close>

text \<open>What each layer may do, as a language of histories indexed by the result.  The definitions above
  produce only such histories; the properties are then rule inductions.\<close>

definition extends :: "'w call_state \<Rightarrow> 'w call_state \<Rightarrow> llm_event list \<Rightarrow> bool" where
  "extends st st' hs \<longleftrightarrow> st_history st' = st_history st @ hs"

lemma extends_refl [simp]: "extends st st []"
  by (simp add: extends_def)

lemma extends_trans: "\<lbrakk>extends a b xs; extends b c ys\<rbrakk> \<Longrightarrow> extends a c (xs @ ys)"
  by (simp add: extends_def)

definition recovery_hist :: "regexes \<Rightarrow> anyhow + LlmResponse \<Rightarrow> llm_event list \<Rightarrow> bool" where
  "recovery_hist re r hs \<longleftrightarrow>
     (\<exists>m. hs = [Called m (error_of r)]) \<or>
     (\<exists>m m' e. classify re e = ContextOverflow \<and>
        hs = [Called m (Some e), Compacted, Called m' (error_of r)])"

inductive transient_hist :: "regexes \<Rightarrow> nat \<Rightarrow> anyhow + LlmResponse \<Rightarrow> llm_event list \<Rightarrow> bool"
  for re where
  exhausted: "transient_hist re 0 (Inl e) []"
| cancelled: "transient_hist re n user_cancelled []"
| answered: "recovery_hist re r hs \<Longrightarrow> transient_hist re (Suc n) r hs"
| retried: "\<lbrakk>recovery_hist re (Inl e) hs; is_retryable (classify re e);
     ss = [] \<or> ss = [Slept d]; transient_hist re n r ts\<rbrakk> \<Longrightarrow> transient_hist re (Suc n) r (hs @ ss @ ts)"

inductive deadline_hist ::
  "regexes \<Rightarrow> 'w llm_env \<Rightarrow> Message list \<Rightarrow> nat \<Rightarrow> Message list option \<Rightarrow> anyhow + LlmResponse \<Rightarrow>
     llm_event list \<Rightarrow> bool"
  for re env base where
  expired: "deadline_hist re env base a p (Inl (Typed (MaxDurationExceeded nm el PEmpty))) []"
| stopped: "deadline_hist re env base a p user_cancelled []"
| final: "\<lbrakk>transient_hist re 5 r ts; \<forall>te. r = Inl (Typed te) \<longrightarrow> is_call_timeout te \<longrightarrow> a + 1 \<ge> 10\<rbrakk> \<Longrightarrow>
     deadline_hist re env base a p r (Round (case p of Some m \<Rightarrow> m | None \<Rightarrow> base) # ts)"
| sleeping: "\<lbrakk>transient_hist re 5 (Inl (Typed te)) ts; is_call_timeout te; a + 1 < 10\<rbrakk> \<Longrightarrow>
     deadline_hist re env base a p user_cancelled
       (Round (case p of Some m \<Rightarrow> m | None \<Rightarrow> base) # ts
        @ [Reconnecting (a + 1) (deadline_delay_ms (a + 1)), Slept d])"
| again: "\<lbrakk>transient_hist re 5 (Inl (Typed te)) ts; is_call_timeout te; a + 1 < 10;
     deadline_hist re env base (a + 1) (prefill env base (partial_state te)) r rest\<rbrakk> \<Longrightarrow>
     deadline_hist re env base a p r
       (Round (case p of Some m \<Rightarrow> m | None \<Rightarrow> base) # ts
        @ [Reconnecting (a + 1) (deadline_delay_ms (a + 1)), Slept d] @ rest)"

lemma extends_call_provider:
  "call_provider chat st = (r, st') \<Longrightarrow> extends st st' [Called (st_messages st) (error_of r)]"
  by (auto simp: call_provider_def Let_def remember_def extends_def split: prod.splits)

lemma extends_compact: "extends st (compact_force env st) [Compacted]"
  by (simp add: compact_force_def Let_def remember_def extends_def split: prod.splits)

lemma extends_check: "check_cancelled env st = (c, st') \<Longrightarrow> extends st st' []"
  by (auto simp: check_cancelled_def Let_def extends_def split: prod.splits)

lemma extends_sleep: "backoff_sleep env d st = (c, st') \<Longrightarrow> extends st st' [Slept d]"
  by (auto simp: backoff_sleep_def Let_def remember_def extends_def split: prod.splits)

lemma extends_delay: "transient_delay re config env e a st = (d, st') \<Longrightarrow> extends st st' []"
  by (auto simp: transient_delay_def Let_def extends_def split: prod.splits option.splits)

lemma extends_expired: "run_expired env s m st = (x, st') \<Longrightarrow> extends st st' []"
  by (auto simp: run_expired_def Let_def extends_def split: prod.splits if_splits)

lemma extends_signal: "extends st (signal_retry env a d st) [Reconnecting a d]"
  by (simp add: signal_retry_def remember_def extends_def)

lemma overflow_recovery_hist:
  assumes "overflow_recovery re env chat st = (r, st')"
  shows "\<exists>hs. extends st st' hs \<and> recovery_hist re r hs"
proof -
  obtain r1 st1 where c: "call_provider chat st = (r1, st1)" by fastforce
  show ?thesis
  proof (cases "\<exists>e. r1 = Inl e \<and> classify re e = ContextOverflow")
    case True
    then obtain e where e: "r1 = Inl e" "classify re e = ContextOverflow" by blast
    have second: "call_provider chat (compact_force env st1) = (r, st')"
      using assms e by (simp add: overflow_recovery_def c is_recoverable_overflow_def)
    have "extends st st' ([Called (st_messages st) (Some e)] @ [Compacted]
            @ [Called (st_messages (compact_force env st1)) (error_of r)])"
      using extends_call_provider [OF c] extends_compact [of st1 env] extends_call_provider [OF second] e
      by (simp add: extends_def)
    then show ?thesis using e(2) by (auto simp: recovery_hist_def)
  next
    case False
    then have "r1 = r \<and> st1 = st'"
      using assms by (auto simp: overflow_recovery_def c is_recoverable_overflow_def split: sum.splits if_splits)
    then show ?thesis using extends_call_provider [OF c] by (auto simp: recovery_hist_def)
  qed
qed

lemma transient_loop_hist:
  "transient_loop re config env n a l st = (r, st') \<Longrightarrow> \<exists>hs. extends st st' hs \<and> transient_hist re n r hs"
proof (induction n arbitrary: a l st)
  case 0
  then show ?case by (auto intro: transient_hist.exhausted extends_refl)
next
  case (Suc n)
  obtain c st1 where c: "check_cancelled env st = (c, st1)" by fastforce
  note e1 = extends_check [OF c]
  show ?case
  proof (cases c)
    case True
    then have "r = user_cancelled" "st' = st1" using Suc.prems c by auto
    then show ?thesis using e1 transient_hist.cancelled by blast
  next
    case False
    obtain r2 st2 where o2: "chat_stream_with_overflow_recovery re env st1 = (r2, st2)" by fastforce
    obtain hs where hs: "extends st1 st2 hs" "recovery_hist re r2 hs"
      using overflow_recovery_hist [OF o2 [unfolded chat_stream_with_overflow_recovery_def]] by blast
    have e2: "extends st st2 hs" using extends_trans [OF e1 hs(1)] by simp
    show ?thesis
    proof (cases "\<exists>e. r2 = Inl e \<and> is_retryable (classify re e)")
      case False
      then have "r = r2" "st' = st2" using Suc.prems c o2 \<open>\<not> c\<close> by (auto split: sum.splits)
      then show ?thesis using e2 hs(2) transient_hist.answered by blast
    next
      case True
      then obtain e where e: "r2 = Inl e" "is_retryable (classify re e)" by blast
      obtain d st3 where d: "transient_delay re config env e a st2 = (d, st3)" by fastforce
      have e3: "extends st st3 hs" using extends_trans [OF e2 extends_delay [OF d]] by simp
      show ?thesis
      proof (cases "n = 0")
        case True
        then have "transient_loop re config env n (a + 1) (Some e) st3 = (r, st')"
          using Suc.prems c o2 d e \<open>\<not> c\<close> by simp
        then obtain ts where ts: "extends st3 st' ts" "transient_hist re n r ts" using Suc.IH by blast
        have "extends st st' (hs @ [] @ ts)" using extends_trans [OF e3 ts(1)] by simp
        then show ?thesis using transient_hist.retried [OF hs(2) [unfolded e(1)] e(2) _ ts(2)] by blast
      next
        case n: False
        obtain c4 st4 where b: "backoff_sleep env d st3 = (c4, st4)" by fastforce
        have e4: "extends st st4 (hs @ [Slept d])" by (rule extends_trans [OF e3 extends_sleep [OF b]])
        obtain ts where ts: "extends st4 st' ts" "transient_hist re n r ts"
        proof (cases c4)
          case True
          then have "r = user_cancelled \<and> st' = st4" using Suc.prems c o2 d e b n \<open>\<not> c\<close> by simp
          then show thesis using that transient_hist.cancelled extends_refl by blast
        next
          case False
          then have "transient_loop re config env n (a + 1) (Some e) st4 = (r, st')"
            using Suc.prems c o2 d e b n \<open>\<not> c\<close> by simp
          then show thesis using that Suc.IH by blast
        qed
        have "extends st st' (hs @ [Slept d] @ ts)" using extends_trans [OF e4 ts(1)] by simp
        then show ?thesis using transient_hist.retried [OF hs(2) [unfolded e(1)] e(2) _ ts(2)] by blast
      qed
    qed
  qed
qed

lemma transient_retry_hist:
  "chat_stream_with_transient_retry re env st = (r, st') \<Longrightarrow>
   \<exists>hs. extends st st' hs \<and> transient_hist re 5 r hs"
  using transient_loop_hist by (simp add: chat_stream_with_transient_retry_def default_retry_def)

text \<open>One round of the deadline loop: the state after its call, or the end of the loop before it.\<close>

lemma deadline_round:
  assumes "run_expired env s0 m st = (None, st1)" "check_cancelled env st1 = (False, st2)"
    and ms: "ms = (case p of Some x \<Rightarrow> x | None \<Rightarrow> base)"
    and "chat_stream_with_transient_retry re env (remember (Round ms) (st2\<lparr>st_messages := ms\<rparr>)) = (r, st4)"
  obtains ts where "extends st st4 (Round ms # ts)" "transient_hist re 5 r ts"
proof -
  obtain ts where ts: "extends (remember (Round ms) (st2\<lparr>st_messages := ms\<rparr>)) st4 ts" "transient_hist re 5 r ts"
    using transient_retry_hist [OF assms(4)] by blast
  moreover have "extends st st2 []"
    using extends_trans [OF extends_expired [OF assms(1)] extends_check [OF assms(2)]] by simp
  ultimately have "extends st st4 (Round ms # ts)" by (simp add: extends_def remember_def)
  then show thesis using ts(2) that by blast
qed

lemma deadline_loop_hist:
  "deadline_loop re env base s0 m a p st = (r, st') \<Longrightarrow>
   \<exists>hs. extends st st' hs \<and> deadline_hist re env base a p r hs"
proof (induction "10 - a" arbitrary: a p st rule: less_induct)
  case less
  note loop = less.prems [unfolded deadline_loop.simps [of re env base s0 m a p st]]
  obtain x st1 where x: "run_expired env s0 m st = (x, st1)" by fastforce
  obtain c st2 where c: "check_cancelled env st1 = (c, st2)" by fastforce
  define ms where "ms = (case p of Some x \<Rightarrow> x | None \<Rightarrow> base)"
  obtain r4 st4 where r4: "chat_stream_with_transient_retry re env
      (remember (Round ms) (st2\<lparr>st_messages := ms\<rparr>)) = (r4, st4)" by fastforce
  show ?case
  proof (cases "x = None \<and> \<not> c")
    case False
    then show ?thesis
      using loop x c extends_expired [OF x] extends_trans [OF extends_expired [OF x] extends_check [OF c]]
      by (cases x) (auto simp: run_expired_def Let_def intro: deadline_hist.expired deadline_hist.stopped
            split: if_splits prod.splits)
  next
    case True
    obtain ts where ts: "extends st st4 (Round ms # ts)" "transient_hist re 5 r4 ts"
      using deadline_round [OF _ _ ms_def r4] x c True by metis
    show ?thesis
    proof (cases "\<exists>te. r4 = Inl (Typed te) \<and> is_call_timeout te \<and> a + 1 < 10")
      case False
      then have "r = r4" "st' = st4"
        using loop True x c r4
        by (auto simp: Let_def ms_def MAX_TIMEOUT_RETRIES_def split: sum.splits anyhow.splits if_splits)
      moreover have "deadline_hist re env base a p r4 (Round ms # ts)"
        unfolding ms_def using ts(2) False by (intro deadline_hist.final) auto
      ultimately show ?thesis using ts(1) by blast
    next
      case again: True
      then obtain te where te: "r4 = Inl (Typed te)" "is_call_timeout te" "a + 1 < 10" by blast
      define d where "d = deadline_delay_ms (a + 1)"
      obtain c6 st6 where b: "backoff_sleep env (from_millis d) (signal_retry env (a + 1) d st4) = (c6, st6)"
        by fastforce
      have e6: "extends st st6 (Round ms # ts @ [Reconnecting (a + 1) d, Slept (from_millis d)])"
        using ts(1) extends_signal [of st4 env "a + 1" d] extends_sleep [OF b] by (simp add: extends_def)
      show ?thesis
      proof (cases c6)
        case True
        then have "r = user_cancelled" "st' = st6"
          using loop \<open>x = None \<and> \<not> c\<close> x c r4 te b
          by (auto simp: Let_def ms_def d_def MAX_TIMEOUT_RETRIES_def)
        moreover have "deadline_hist re env base a p user_cancelled
            (Round ms # ts @ [Reconnecting (a + 1) d, Slept (from_millis d)])"
          unfolding ms_def d_def using ts(2) te by (intro deadline_hist.sleeping) auto
        ultimately show ?thesis using e6 by blast
      next
        case False
        then have "deadline_loop re env base s0 m (a + 1) (prefill env base (partial_state te)) st6 = (r, st')"
          using loop \<open>x = None \<and> \<not> c\<close> x c r4 te b
          by (auto simp: Let_def ms_def d_def MAX_TIMEOUT_RETRIES_def)
        moreover have "10 - (a + 1) < 10 - a" using te(3) by simp
        ultimately obtain rest where rest: "extends st6 st' rest"
            "deadline_hist re env base (a + 1) (prefill env base (partial_state te)) r rest"
          using less.hyps by blast
        have "deadline_hist re env base a p r
            (Round ms # ts @ [Reconnecting (a + 1) d, Slept (from_millis d)] @ rest)"
          unfolding ms_def d_def using ts(2) te rest(2) by (intro deadline_hist.again) auto
        moreover have "extends st st' (Round ms # ts @ [Reconnecting (a + 1) d, Slept (from_millis d)] @ rest)"
          using extends_trans [OF e6 rest(1)] by simp
        ultimately show ?thesis by blast
      qed
    qed
  qed
qed

text \<open>The call of a whole turn, from an empty history.\<close>

definition start_state :: "Message list \<Rightarrow> 'w \<Rightarrow> 'w call_state" where
  "start_state base w = \<lparr>st_messages = base, st_world = w, st_history = []\<rparr>"

lemma deadline_retry_hist:
  assumes "deadline_retry_inner re env m (start_state base w) = (r, st')"
  shows "deadline_hist re env base 0 None r (st_history st')"
proof -
  obtain t w' where t: "env_now env w = (t, w')" by fastforce
  have "deadline_loop re env base t m 0 None ((start_state base w)\<lparr>st_world := w'\<rparr>) = (r, st')"
    using assms by (simp add: deadline_retry_inner_def start_state_def t)
  from deadline_loop_hist [OF this] show ?thesis by (auto simp: extends_def start_state_def)
qed

section \<open>Bounds of one call\<close>

fun is_call :: "llm_event \<Rightarrow> bool" where
  "is_call (Called m e) = True"
| "is_call _ = False"

fun signal_of :: "llm_event \<Rightarrow> (nat \<times> nat) option" where
  "signal_of (Reconnecting a d) = Some (a, d)"
| "signal_of _ = None"

fun round_of :: "llm_event \<Rightarrow> Message list option" where
  "round_of (Round m) = Some m"
| "round_of _ = None"

fun call_error :: "llm_event \<Rightarrow> anyhow option option" where
  "call_error (Called m e) = Some e"
| "call_error _ = None"

abbreviation signals :: "llm_event list \<Rightarrow> (nat \<times> nat) list" where
  "signals \<equiv> List.map_filter signal_of"

abbreviation rounds :: "llm_event list \<Rightarrow> Message list list" where
  "rounds \<equiv> List.map_filter round_of"

abbreviation call_errors :: "llm_event list \<Rightarrow> anyhow option list" where
  "call_errors \<equiv> List.map_filter call_error"

lemma map_filter_append [simp]: "List.map_filter f (xs @ ys) = List.map_filter f xs @ List.map_filter f ys"
  by (simp add: List.map_filter_def)

declare List.map_filter_simps [simp]

lemma recovery_hist_view:
  assumes "recovery_hist re r hs"
  shows "length (filter is_call hs) \<le> 2" "signals hs = []" "rounds hs = []"
  using assms by (auto simp: recovery_hist_def)

lemma transient_hist_view:
  assumes "transient_hist re n r hs"
  shows "length (filter is_call hs) \<le> 2 * n \<and> signals hs = [] \<and> rounds hs = []"
  using assms
proof induction
  case (answered r hs n)
  then show ?case using recovery_hist_view [OF answered] by simp
next
  case (retried e hs ss d n r ts)
  then show ?case using recovery_hist_view [OF retried(1)] by auto
qed simp_all

lemma deadline_delay_formula: "a < 60 \<Longrightarrow> deadline_delay_ms a = min (2 ^ a * 1000) 30000"
proof -
  assume "a < 60"
  then have "(2::nat) ^ a < 2 ^ 60" by (intro power_strict_increasing) auto
  then show ?thesis by (simp add: deadline_delay_ms_def min_def)
qed

lemma deadline_hist_calls:
  "deadline_hist re env base a p r hs \<Longrightarrow> length (filter is_call hs) \<le> 10 * (10 - a) \<or> 10 \<le> a"
proof (induction rule: deadline_hist.induct)
  case (again te ts a r rest d p)
  then show ?case using transient_hist_view [OF again(1)] by auto
qed (auto dest: transient_hist_view)

lemma deadline_hist_rounds:
  "deadline_hist re env base a p r hs \<Longrightarrow> length (rounds hs) \<le> 10 - a \<or> 10 \<le> a"
proof (induction rule: deadline_hist.induct)
  case (again te ts a r rest d p)
  then show ?case using transient_hist_view [OF again(1)] by auto
qed (auto dest: transient_hist_view)

lemma deadline_hist_signals:
  "deadline_hist re env base a p r hs \<Longrightarrow>
   prefix (signals hs) (map (\<lambda>i. (i, deadline_delay_ms i)) [a + 1..<10])"
proof (induction rule: deadline_hist.induct)
  case (sleeping te ts a p d)
  then show ?case using transient_hist_view [OF sleeping(1)] by (simp add: upt_conv_Cons)
next
  case (again te ts a r rest d p)
  then show ?case using transient_hist_view [OF again(1)] by (simp add: upt_conv_Cons)
qed (auto dest: transient_hist_view)

text \<open>C25. One call of the pipeline always ends, whatever the provider, the clock and the user do: at
  most ten rounds and one hundred requests to the provider, and the reconnect signals shown to the
  user are attempts 1, 2, ... in order with delays of two seconds doubling up to thirty.\<close>

theorem deadline_retry_bounded:
  "let hs = st_history (snd (deadline_retry_inner re env run_max (start_state base w)))
   in length (rounds hs) \<le> 10 \<and> length (filter is_call hs) \<le> 100 \<and>
      prefix (signals hs) [(1, 2000), (2, 4000), (3, 8000), (4, 16000), (5, 30000), (6, 30000),
                           (7, 30000), (8, 30000), (9, 30000)]"
proof -
  obtain r st' where run: "deadline_retry_inner re env run_max (start_state base w) = (r, st')" by fastforce
  note h = deadline_retry_hist [OF run]
  have "map (\<lambda>i. (i, deadline_delay_ms i)) [0 + 1..<10] =
        [(1, 2000), (2, 4000), (3, 8000), (4, 16000), (5, 30000), (6, 30000), (7, 30000), (8, 30000), (9, 30000)]"
    by (simp add: upt_rec deadline_delay_formula)
  then show ?thesis
    using deadline_hist_rounds [OF h] deadline_hist_calls [OF h] deadline_hist_signals [OF h] run
    by (simp add: Let_def)
qed

section \<open>Which errors are retried\<close>

lemma deadline_hist_starts:
  assumes "deadline_hist re env base a p r hs"
    and "p = None \<or> (\<exists>t. p = Some (base @ [plain_message Assistant t]) \<and> t \<noteq> [] \<and> env_supports_prefill env)"
  shows "\<forall>m \<in> set (rounds hs). m = base \<or>
           (\<exists>t. m = base @ [plain_message Assistant t] \<and> t \<noteq> [] \<and> env_supports_prefill env)"
  using assms
proof (induction rule: deadline_hist.induct)
  case (again te ts a r rest d p)
  have "prefill env base x = None \<or> (\<exists>t. prefill env base x = Some (base @ [plain_message Assistant t])
          \<and> t \<noteq> [] \<and> env_supports_prefill env)" for x
    by (auto simp: prefill_def split: option.splits PartialState.splits)
  then show ?case using again transient_hist_view [OF again(1)] by auto
qed (auto dest: transient_hist_view)

lemma deadline_hist_timeout:
  assumes "deadline_hist re env base a p (Inl (Typed te)) hs" "is_call_timeout te" "a < 10"
  shows "length (rounds hs) = 10 - a \<or> (\<exists>nm el. te = MaxDurationExceeded nm el PEmpty)"
  using assms
proof (induction a p "Inl (Typed te) :: anyhow + LlmResponse" hs rule: deadline_hist.induct)
  case (final ts a p)
  then show ?case using transient_hist_view [OF final(1)] by auto
next
  case (again te' ts a rest d p)
  then show ?case using transient_hist_view [OF again(1)] by auto
qed (auto simp: user_cancelled_def)

text \<open>A stalled stream is given up only after ten rounds, and every round starts over from the
  messages the call was given: either exactly those, or those and one assistant message with the
  text already streamed, and the latter only to a provider that continues a prefill.\<close>

theorem timeouts_are_retried_from_base:
  assumes "deadline_retry_inner re env run_max (start_state base w) = (Inl (Typed (InactivityTimeout nm n part)), st')"
  shows "length (rounds (st_history st')) = 10 \<and>
         (\<forall>m \<in> set (rounds (st_history st')). m = base \<or>
            (\<exists>t. m = base @ [plain_message Assistant t] \<and> t \<noteq> [] \<and> env_supports_prefill env))"
  using deadline_hist_timeout [OF deadline_retry_hist [OF assms]]
    deadline_hist_starts [OF deadline_retry_hist [OF assms]]
  by simp

text \<open>A provider whose streams all end with the same error, in a world where nothing else happens.\<close>

definition failing_env :: "anyhow \<Rightarrow> unit llm_env" where
  "failing_env e =
     \<lparr>env_name = ''stalled'', env_supports_prefill = False,
      env_chat = (\<lambda>w m. (Inl e, w)), env_chat_stream = (\<lambda>w m. (Inl e, w)),
      env_compact_force = (\<lambda>w m. (m, w)), env_is_cancelled = (\<lambda>w. (False, w)),
      env_sleep = (\<lambda>w d. (False, w)), env_now = (\<lambda>w. (0, w)), env_draw = (\<lambda>w. (0, w)),
      env_send = (\<lambda>w s. w)\<rparr>"

definition no_regexes :: regexes where
  "no_regexes =
     \<lparr>RE_CONTEXT_OVERFLOW = \<lambda>_. False, RE_SESSION_CORRUPTION = \<lambda>_. False, RE_TRANSIENT_HTTP = \<lambda>_. False,
      RE_RATE_LIMIT = \<lambda>_. False, RE_AUTH = \<lambda>_. False, RE_BILLING = \<lambda>_. False, RE_OVERLOADED = \<lambda>_. False,
      RE_RETRY_AFTER = \<lambda>_. None\<rparr>"

lemma failing_transient:
  "\<lbrakk>\<not> is_retryable (classify re e); classify re e \<noteq> ContextOverflow\<rbrakk> \<Longrightarrow>
   chat_stream_with_transient_retry re (failing_env e) st =
     (Inl e, remember (Called (st_messages st) (Some e)) st)"
  by (cases st)
     (simp add: chat_stream_with_transient_retry_def default_retry_def eval_nat_numeral check_cancelled_def
        failing_env_def chat_stream_with_overflow_recovery_def overflow_recovery_def call_provider_def
        is_recoverable_overflow_def)

lemma failing_env_ops:
  "check_cancelled (failing_env e) st = (False, st)"
  "backoff_sleep (failing_env e) d st = (False, remember (Slept d) st)"
  "prefill (failing_env e) b p = None"
  "env_now (failing_env e) w = (0, w)"
  by (cases st; simp add: failing_env_def check_cancelled_def backoff_sleep_def prefill_def remember_def
        split: option.splits PartialState.splits)+

lemma failing_deadline_step:
  "is_call_timeout te \<Longrightarrow>
   fst (deadline_loop re (failing_env (Typed te)) base s0 0 a None st) =
     (if a + 1 \<ge> 10 then Inl (Typed te)
      else fst (deadline_loop re (failing_env (Typed te)) base s0 0 (a + 1) None
        (remember (Slept (from_millis (deadline_delay_ms (a + 1))))
          (signal_retry (failing_env (Typed te)) (a + 1) (deadline_delay_ms (a + 1))
            (remember (Called base (Some (Typed te))) (remember (Round base) (st\<lparr>st_messages := base\<rparr>)))))))"
  by (subst deadline_loop.simps)
     (simp add: run_expired_def failing_env_ops failing_transient classify_CallTimeout_iff Let_def MAX_TIMEOUT_RETRIES_def remember_def)

lemma failing_deadline:
  "is_call_timeout te \<Longrightarrow> fst (deadline_loop re (failing_env (Typed te)) base s0 0 a None st) = Inl (Typed te)"
proof (induction "10 - a" arbitrary: a st rule: less_induct)
  case less
  have "10 - (a + 1) < 10 - a" if "\<not> 10 \<le> a + 1" using that by simp
  then show ?case using less by (subst failing_deadline_step) auto
qed

theorem timeouts_are_retried_from_base_witness:
  "\<exists>st'. deadline_retry_inner no_regexes (failing_env (Typed (InactivityTimeout ''stalled'' 60 PEmpty))) 0
            (start_state [plain_message User ''hi''] ())
          = (Inl (Typed (InactivityTimeout ''stalled'' 60 PEmpty)), st') \<and>
         length (rounds (st_history st')) = 10 \<and>
         set (rounds (st_history st')) \<subseteq> {[plain_message User ''hi'']}"
proof -
  define env where "env = failing_env (Typed (InactivityTimeout ''stalled'' 60 PEmpty))"
  obtain r st' where run: "deadline_retry_inner no_regexes env 0 (start_state [plain_message User ''hi''] ()) = (r, st')"
    by fastforce
  have "r = Inl (Typed (InactivityTimeout ''stalled'' 60 PEmpty))"
    using run failing_deadline [where te = "InactivityTimeout ''stalled'' 60 PEmpty"]
    by (simp add: env_def deadline_retry_inner_def start_state_def failing_env_ops) (metis fst_conv)
  then show ?thesis
    using run timeouts_are_retried_from_base [of no_regexes env 0 "[plain_message User ''hi'']" "()"]
    by (auto simp: env_def failing_env_def [where e = "Typed (InactivityTimeout ''stalled'' 60 PEmpty)"])
qed

text \<open>An error after which the same provider is asked again.\<close>

definition asks_again :: "regexes \<Rightarrow> anyhow option \<Rightarrow> bool" where
  "asks_again re e \<longleftrightarrow>
     (\<exists>x. e = Some x \<and> (is_retryable (classify re x) \<or> classify re x = ContextOverflow))"

lemma butlast_append_all:
  "\<lbrakk>\<forall>x \<in> set xs. P x; \<forall>x \<in> set (butlast ys). P x\<rbrakk> \<Longrightarrow> \<forall>x \<in> set (butlast (xs @ ys)). P x"
  by (auto simp: butlast_append dest: in_set_butlastD)

lemma recovery_hist_errors:
  assumes "recovery_hist re r hs"
  shows "\<forall>e \<in> set (butlast (call_errors hs)). asks_again re e"
    and "\<lbrakk>r = Inl e; is_retryable (classify re e)\<rbrakk> \<Longrightarrow> \<forall>x \<in> set (call_errors hs). asks_again re x"
  using assms by (auto simp: recovery_hist_def asks_again_def)

lemma transient_hist_errors:
  "transient_hist re n r hs \<Longrightarrow> \<forall>e \<in> set (butlast (call_errors hs)). asks_again re e"
proof (induction rule: transient_hist.induct)
  case (answered r hs n)
  then show ?case by (rule recovery_hist_errors(1))
next
  case (retried e hs ss d n r ts)
  have "call_errors ss = []" using retried(3) by auto
  then show ?case
    using recovery_hist_errors(2) [OF retried(1) refl retried(2)] retried.IH
      butlast_append_all [of "call_errors hs" "asks_again re" "call_errors ts"] by simp
qed simp_all

text \<open>The inner retry loop asks the same provider again only after an overloaded or transient error,
  or once after a compaction when the context was too large: a rate limit, a timeout, an
  authentication or billing error is never retried there, and at most ten requests are made.\<close>

theorem transient_retry_only_transient:
  "let es = call_errors (st_history (snd (chat_stream_with_transient_retry re env (start_state base w))))
   in length es \<le> 10 \<and> (\<forall>e \<in> set (butlast es). asks_again re e)"
proof -
  obtain r st' where run: "chat_stream_with_transient_retry re env (start_state base w) = (r, st')" by fastforce
  then have h: "transient_hist re 5 r (st_history st')"
    using transient_retry_hist [OF run] by (auto simp: extends_def start_state_def)
  have "length (call_errors hs) = length (filter is_call hs)" for hs
    by (induction hs rule: induct_list012) (auto split: llm_event.splits option.splits elim: call_error.elims)
  then show ?thesis using transient_hist_view [OF h] transient_hist_errors [OF h] run
    by (simp add: Let_def)
qed

theorem transient_retry_only_transient_witness:
  "let es = call_errors (st_history (snd (chat_stream_with_transient_retry no_regexes
              (failing_env (Untyped ''429'')) (start_state [] ()))))
   in es = [Some (Untyped ''429'')] \<and> length es \<le> 10 \<and> list_all (asks_again no_regexes) (butlast es)"
  using transient_retry_only_transient [of no_regexes "failing_env (Untyped ''429'')" "[]" "()"]
  by (simp add: Let_def list_all_iff [symmetric] failing_transient no_regexes_def classify_str_def remember_def
      start_state_def)

end
