(* ===== verification/Cooldowns.thy ===== *)
theory Cooldowns
  imports Llm_Errors
begin

text \<open>
  The process-wide provider cooldown registry (\<open>agent/provider_cooldown.rs\<close>): a map from provider
  names to the \<open>Instant\<close> until which the provider is to be avoided, with lazy eviction on reads, and
  the walk of the reserve chain that consults it.  An instant is a number of nanoseconds; every
  operation takes the reading of \<open>Instant::now()\<close> it makes as an argument.

  The locales \<open>deadline_store\<close> and \<open>clearable_store\<close> state what a client may rely on, whatever a
  store does with expired entries; the registry of this theory and the route cooldowns of the
  routing provider interpret them.
\<close>

section \<open>Stores of deadlines\<close>

locale deadline_store =
  fixes put :: "'k \<Rightarrow> instant \<Rightarrow> 's \<Rightarrow> 's"
    and ask :: "'k \<Rightarrow> instant \<Rightarrow> 's \<Rightarrow> bool \<times> 's"
    and deadline :: "'s \<Rightarrow> 'k \<Rightarrow> instant option"
  assumes put_deadline: "deadline (put k u s) = (deadline s)(k \<mapsto> u)"
    and ask_answer: "fst (ask k t s) \<longleftrightarrow> (\<exists>u. deadline s k = Some u \<and> t < u)"
    and ask_keeps: "deadline (snd (ask k t s)) k' = deadline s k' \<or>
                    (\<exists>u. deadline s k' = Some u \<and> u \<le> t \<and> deadline (snd (ask k t s)) k' = None)"
begin

lemma ask_after_put: "fst (ask k t (put k u s)) \<longleftrightarrow> t < u"
  by (simp add: ask_answer put_deadline)

lemma ask_other: "k \<noteq> k' \<Longrightarrow> fst (ask k' t (put k u s)) = fst (ask k' t s)"
  by (simp add: ask_answer put_deadline)

text \<open>What the store may do on a read is invisible to every later read.\<close>

lemma ask_unobservable:
  assumes "t \<le> t'"
  shows "fst (ask k' t' (snd (ask k t s))) = fst (ask k' t' s)"
  unfolding ask_answer
  using ask_keeps [of k t s k'] assms
  by (metis leD option.distinct(1) option.sel order.trans)

lemma asks_unobservable:
  assumes "\<forall>(k, t) \<in> set qs. t \<le> t'"
  shows "fst (ask k' t' (fold (\<lambda>(k, t) s. snd (ask k t s)) qs s)) = fst (ask k' t' s)"
  using assms
proof (induction qs arbitrary: s)
  case (Cons q qs)
  obtain k t where q: "q = (k, t)" by (cases q)
  show ?case using Cons.IH [of "snd (ask k t s)"] Cons.prems ask_unobservable [of t t' k' k s]
    by (simp add: q)
qed simp

end

text \<open>A store that also forgets on request.  \<open>run_store\<close> is the sequence of answers; \<open>run_ideal\<close> is
  the abstract store: a plain map that only writes and clears change.\<close>

datatype 'k store_event = Put 'k instant | Clear 'k | Ask 'k instant

fun run_ideal :: "('k \<rightharpoonup> instant) \<Rightarrow> 'k store_event list \<Rightarrow> bool list" where
  "run_ideal m [] = []"
| "run_ideal m (Put k u # es) = run_ideal (m(k \<mapsto> u)) es"
| "run_ideal m (Clear k # es) = run_ideal (m(k := None)) es"
| "run_ideal m (Ask k t # es) = (case m k of None \<Rightarrow> False | Some u \<Rightarrow> t < u) # run_ideal m es"

fun ask_times :: "'k store_event list \<Rightarrow> instant list" where
  "ask_times [] = []"
| "ask_times (Ask k t # es) = t # ask_times es"
| "ask_times (_ # es) = ask_times es"

locale clearable_store = deadline_store put ask deadline
  for put :: "'k \<Rightarrow> instant \<Rightarrow> 's \<Rightarrow> 's"
  and ask :: "'k \<Rightarrow> instant \<Rightarrow> 's \<Rightarrow> bool \<times> 's"
  and deadline :: "'s \<Rightarrow> 'k \<Rightarrow> instant option" +
  fixes clear :: "'k \<Rightarrow> 's \<Rightarrow> 's"
  assumes clear_deadline: "deadline (clear k s) = (deadline s)(k := None)"
begin

fun run_store :: "'s \<Rightarrow> 'k store_event list \<Rightarrow> bool list" where
  "run_store s [] = []"
| "run_store s (Put k u # es) = run_store (put k u s) es"
| "run_store s (Clear k # es) = run_store (clear k s) es"
| "run_store s (Ask k t # es) = fst (ask k t s) # run_store (snd (ask k t s)) es"

definition agrees :: "instant \<Rightarrow> 's \<Rightarrow> ('k \<rightharpoonup> instant) \<Rightarrow> bool" where
  "agrees T s m \<longleftrightarrow>
     (\<forall>k. deadline s k = m k \<or> (deadline s k = None \<and> (\<exists>u. m k = Some u \<and> u \<le> T)))"

lemma agrees_ask:
  assumes "agrees T s m" "T \<le> t"
  shows "agrees t (snd (ask k t s)) m"
    and "fst (ask k t s) = (case m k of None \<Rightarrow> False | Some u \<Rightarrow> t < u)"
proof -
  show "agrees t (snd (ask k t s)) m"
    unfolding agrees_def
  proof
    fix k'
    show "deadline (snd (ask k t s)) k' = m k' \<or>
          (deadline (snd (ask k t s)) k' = None \<and> (\<exists>u. m k' = Some u \<and> u \<le> t))"
      using assms ask_keeps [of k t s k'] unfolding agrees_def
      by (metis order.trans option.distinct(1))
  qed
  show "fst (ask k t s) = (case m k of None \<Rightarrow> False | Some u \<Rightarrow> t < u)"
    using assms unfolding agrees_def ask_answer
    by (auto split: option.splits dest!: spec [of _ k])
qed

lemma run_refines:
  assumes "agrees T s m" "sorted (ask_times es)" "\<forall>t \<in> set (ask_times es). T \<le> t"
  shows "run_store s es = run_ideal m es"
  using assms
proof (induction es arbitrary: T s m)
  case (Cons e es)
  show ?case
  proof (cases e)
    case (Ask k t)
    then show ?thesis using Cons.IH [OF agrees_ask(1)] Cons.prems agrees_ask(2) by auto
  next
    case (Put k u)
    have "agrees T (put k u s) (m(k \<mapsto> u))"
      using Cons.prems(1) by (auto simp: agrees_def put_deadline)
    then have "run_store (put k u s) es = run_ideal (m(k \<mapsto> u)) es"
      using Cons.IH [OF _ _ _] Cons.prems(2,3) unfolding Put by (simp only: ask_times.simps)
    then show ?thesis by (simp only: Put run_store.simps run_ideal.simps)
  next
    case (Clear k)
    have "agrees T (clear k s) (m(k := None))"
      using Cons.prems(1) by (auto simp: agrees_def clear_deadline)
    then have "run_store (clear k s) es = run_ideal (m(k := None)) es"
      using Cons.IH [OF _ _ _] Cons.prems(2,3) unfolding Clear by (simp only: ask_times.simps)
    then show ?thesis by (simp only: Clear run_store.simps run_ideal.simps)
  qed
qed simp

end

section \<open>The provider registry\<close>

type_synonym ProviderCooldowns = "string \<rightharpoonup> instant"

definition new_cooldowns :: ProviderCooldowns where
  "new_cooldowns = Map.empty"

definition insert_cooldown :: "instant \<Rightarrow> string \<Rightarrow> nat \<Rightarrow> ProviderCooldowns \<Rightarrow> ProviderCooldowns" where
  "insert_cooldown now provider_name dur m = m(provider_name \<mapsto> now + dur)"

definition record_failure ::
  "instant \<Rightarrow> string \<Rightarrow> LlmErrorClass \<Rightarrow> ProviderCooldowns \<Rightarrow> ProviderCooldowns" where
  "record_failure now provider_name class m =
     insert_cooldown now provider_name (cooldown_duration class) m"

definition record_success :: "string \<Rightarrow> ProviderCooldowns \<Rightarrow> ProviderCooldowns" where
  "record_success provider_name m = m(provider_name := None)"

definition is_cooled :: "string \<Rightarrow> instant \<Rightarrow> ProviderCooldowns \<Rightarrow> bool \<times> ProviderCooldowns" where
  "is_cooled provider_name now m =
     (case m provider_name of
        None \<Rightarrow> (False, m)
      | Some until \<Rightarrow>
          if now < until then (True, m) else (False, m(provider_name := None)))"

text \<open>\<open>SlotEntry\<close> of \<open>db/profiles.rs\<close>, and the walk of the reserve chain.  The reading of the clock at
  position \<open>idx\<close> is \<open>clk idx\<close>.\<close>

record SlotEntry =
  provider :: string
  model :: "string option"
  voice :: "string option"

function resolve_next_uncooled ::
  "SlotEntry list \<Rightarrow> (nat \<Rightarrow> instant) \<Rightarrow> ProviderCooldowns \<Rightarrow> nat \<Rightarrow>
     (SlotEntry \<times> nat) option \<times> ProviderCooldowns" where
  "resolve_next_uncooled chain clk m idx =
     (if 1 + idx < length chain then
        let entry = chain ! (1 + idx); (c, m') = is_cooled (provider entry) (clk idx) m
        in if \<not> c then (Some (entry, idx), m')
           else resolve_next_uncooled chain clk m' (idx + 1)
      else (None, m))"
  by pat_completeness auto
termination
  by (relation "measure (\<lambda>(chain, _, _, idx). length chain - idx)") auto

declare resolve_next_uncooled.simps [simp del]

section \<open>The registry is a clearable store\<close>

definition put_until :: "string \<Rightarrow> instant \<Rightarrow> ProviderCooldowns \<Rightarrow> ProviderCooldowns" where
  "put_until k u m = m(k \<mapsto> u)"

interpretation pc: clearable_store put_until is_cooled "\<lambda>m. m" record_success
  by unfold_locales (auto simp: put_until_def is_cooled_def record_success_def split: option.splits)

lemma record_failure_put: "record_failure now p c m = put_until p (now + cooldown_duration c) m"
  by (simp add: record_failure_def insert_cooldown_def put_until_def)

text \<open>The operations of the registry as a sequence, with the readings of the clock each makes.\<close>

datatype cooldown_op = Failed string LlmErrorClass instant | Succeeded string | Queried string instant

fun run_cooldowns :: "ProviderCooldowns \<Rightarrow> cooldown_op list \<Rightarrow> bool list" where
  "run_cooldowns m [] = []"
| "run_cooldowns m (Failed p c now # ops) = run_cooldowns (record_failure now p c m) ops"
| "run_cooldowns m (Succeeded p # ops) = run_cooldowns (record_success p m) ops"
| "run_cooldowns m (Queried p now # ops) =
     fst (is_cooled p now m) # run_cooldowns (snd (is_cooled p now m)) ops"

text \<open>The specification: a provider is cooled at \<open>t\<close> exactly when the last failure or success recorded for it
  before is a failure of a class whose window, counted from that failure, is not over at \<open>t\<close>.\<close>

fun last_outcome :: "string \<Rightarrow> cooldown_op list \<Rightarrow> (LlmErrorClass \<times> instant) option" where
  "last_outcome p [] = None"
| "last_outcome p (Failed q c now # ops) =
     (case last_outcome p ops of
        Some r \<Rightarrow> Some r
      | None \<Rightarrow> if p = q \<and> Succeeded p \<notin> set ops then Some (c, now) else None)"
| "last_outcome p (_ # ops) = last_outcome p ops"

fun spec_cooldowns :: "cooldown_op list \<Rightarrow> cooldown_op list \<Rightarrow> bool list" where
  "spec_cooldowns past [] = []"
| "spec_cooldowns past (Queried p now # ops) =
     (case last_outcome p past of
        None \<Rightarrow> False
      | Some (c, t) \<Rightarrow> now < t + cooldown_duration c) # spec_cooldowns (past @ [Queried p now]) ops"
| "spec_cooldowns past (op # ops) = spec_cooldowns (past @ [op]) ops"

fun query_times :: "cooldown_op list \<Rightarrow> instant list" where
  "query_times [] = []"
| "query_times (Queried p t # ops) = t # query_times ops"
| "query_times (_ # ops) = query_times ops"

fun as_event :: "cooldown_op \<Rightarrow> string store_event" where
  "as_event (Failed p c now) = Put p (now + cooldown_duration c)"
| "as_event (Succeeded p) = Clear p"
| "as_event (Queried p t) = Ask p t"

lemma run_cooldowns_store: "run_cooldowns m ops = pc.run_store m (map as_event ops)"
  by (induction m ops rule: run_cooldowns.induct)
     (simp_all add: record_failure_put)

lemma ask_times_query: "ask_times (map as_event ops) = query_times ops"
  by (induction ops rule: query_times.induct) auto

lemma last_outcome_snoc:
  "last_outcome p (past @ [Queried q t]) = last_outcome p past"
  "last_outcome p (past @ [Succeeded q]) = (if p = q then None else last_outcome p past)"
  "last_outcome p (past @ [Failed q c t]) = (if p = q then Some (c, t) else last_outcome p past)"
proof -
  show "last_outcome p (past @ [Queried q t]) = last_outcome p past"
    by (induction p past rule: last_outcome.induct) (auto split: option.splits)
  show "last_outcome p (past @ [Succeeded q]) = (if p = q then None else last_outcome p past)"
    by (induction p past rule: last_outcome.induct) (auto split: option.splits)
  show "last_outcome p (past @ [Failed q c t]) = (if p = q then Some (c, t) else last_outcome p past)"
    by (induction p past rule: last_outcome.induct) (auto split: option.splits)
qed

definition outcome_map :: "cooldown_op list \<Rightarrow> ProviderCooldowns" where
  "outcome_map past p = map_option (\<lambda>(c, t). t + cooldown_duration c) (last_outcome p past)"

lemma outcome_map_snoc:
  "outcome_map (past @ [Queried q t]) = outcome_map past"
  "outcome_map (past @ [Succeeded q]) = (outcome_map past)(q := None)"
  "outcome_map (past @ [Failed q c t]) = (outcome_map past)(q \<mapsto> t + cooldown_duration c)"
  by (auto simp: outcome_map_def last_outcome_snoc fun_eq_iff)

lemma ideal_spec: "run_ideal (outcome_map past) (map as_event ops) = spec_cooldowns past ops"
proof (induction past ops rule: spec_cooldowns.induct)
  case (2 past p now ops)
  have "run_ideal (outcome_map past) (map as_event ops) = spec_cooldowns (past @ [Queried p now]) ops"
    using 2 by (simp add: outcome_map_snoc)
  moreover have "(case outcome_map past p of None \<Rightarrow> False | Some u \<Rightarrow> now < u)
                 = (case last_outcome p past of None \<Rightarrow> False | Some (c, t) \<Rightarrow> now < t + cooldown_duration c)"
    by (auto simp: outcome_map_def split: option.splits)
  ultimately show ?case by simp
qed (simp_all add: outcome_map_snoc del: fun_upd_apply)

text \<open>Queried at times that do not go backwards, the registry with its lazy eviction gives exactly
  the answers of the specification, which looks only at the history of outcomes: a provider is
  cooled precisely while the window of the last failure recorded after its last success is open.\<close>

theorem provider_cooldowns_refine:
  assumes "sorted (query_times ops)"
  shows "run_cooldowns new_cooldowns ops = spec_cooldowns [] ops"
proof -
  have "pc.agrees 0 new_cooldowns (outcome_map [])"
    by (simp add: pc.agrees_def new_cooldowns_def outcome_map_def)
  then have "pc.run_store new_cooldowns (map as_event ops) = run_ideal (outcome_map []) (map as_event ops)"
    using assms by (intro pc.run_refines) (auto simp: ask_times_query)
  then show ?thesis by (simp add: run_cooldowns_store ideal_spec)
qed

theorem provider_cooldowns_refine_witness:
  "run_cooldowns new_cooldowns
     [Failed ''openai'' RateLimit 10, Queried ''openai'' 20, Queried ''zai'' 20,
      Queried ''openai'' (from_secs 61), Queried ''openai'' (from_secs 61)]
   = [True, False, False, False]"
  using provider_cooldowns_refine
    [of "[Failed ''openai'' RateLimit 10, Queried ''openai'' 20, Queried ''zai'' 20,
          Queried ''openai'' (from_secs 61), Queried ''openai'' (from_secs 61)]"]
  by (simp add: from_secs_def)

section \<open>The walk of the reserve chain\<close>

definition cooled_at :: "ProviderCooldowns \<Rightarrow> string \<Rightarrow> instant \<Rightarrow> bool" where
  "cooled_at m p t \<longleftrightarrow> (\<exists>u. m p = Some u \<and> t < u)"

lemma fst_is_cooled: "fst (is_cooled p t m) = cooled_at m p t"
  by (simp add: pc.ask_answer cooled_at_def)

lemma cooled_at_is_cooled: "t \<le> t' \<Longrightarrow> cooled_at (snd (is_cooled p t m)) q t' = cooled_at m q t'"
  using pc.ask_unobservable [of t t' q p m] by (simp add: fst_is_cooled)

lemma resolve_step:
  "1 + idx < length chain \<Longrightarrow>
   resolve_next_uncooled chain clk m idx =
     (if cooled_at m (provider (chain ! (1 + idx))) (clk idx)
      then resolve_next_uncooled chain clk
             (snd (is_cooled (provider (chain ! (1 + idx))) (clk idx) m)) (Suc idx)
      else (Some (chain ! (1 + idx), idx), snd (is_cooled (provider (chain ! (1 + idx))) (clk idx) m)))"
  by (subst resolve_next_uncooled.simps) (auto simp: Let_def fst_is_cooled [symmetric] split: prod.splits)

lemma resolve_end: "\<not> 1 + idx < length chain \<Longrightarrow> resolve_next_uncooled chain clk m idx = (None, m)"
  by (subst resolve_next_uncooled.simps) simp

text \<open>Position \<open>j\<close> of the chain is the first one from \<open>idx\<close> on whose provider is not cooled.\<close>

definition first_uncooled ::
  "SlotEntry list \<Rightarrow> (nat \<Rightarrow> instant) \<Rightarrow> ProviderCooldowns \<Rightarrow> nat \<Rightarrow> SlotEntry \<Rightarrow> nat \<Rightarrow> bool" where
  "first_uncooled chain clk m idx e j \<longleftrightarrow>
     idx \<le> j \<and> 1 + j < length chain \<and> e = chain ! (1 + j) \<and> \<not> cooled_at m (provider e) (clk j)
     \<and> (\<forall>i. idx \<le> i \<longrightarrow> i < j \<longrightarrow> cooled_at m (provider (chain ! (1 + i))) (clk i))"

lemma first_uncooled_Suc:
  "cooled_at m (provider (chain ! (1 + idx))) (clk idx) \<Longrightarrow>
   first_uncooled chain clk m idx e j \<longleftrightarrow> first_uncooled chain clk m (Suc idx) e j"
  unfolding first_uncooled_def by (metis Suc_leD Suc_leI le_neq_implies_less)

lemma first_uncooled_here:
  "\<not> cooled_at m (provider (chain ! (1 + idx))) (clk idx) \<Longrightarrow>
   first_uncooled chain clk m idx e j \<longleftrightarrow> j = idx \<and> 1 + j < length chain \<and> e = chain ! (1 + j)"
  unfolding first_uncooled_def by (metis le_neq_implies_less le_refl not_less)

lemma first_uncooled_cong:
  "(\<And>q i. idx \<le> i \<Longrightarrow> cooled_at m' q (clk i) = cooled_at m q (clk i)) \<Longrightarrow>
   first_uncooled chain clk m' idx e j \<longleftrightarrow> first_uncooled chain clk m idx e j"
  unfolding first_uncooled_def by metis

lemma resolve_least:
  assumes "mono clk"
  shows "fst (resolve_next_uncooled chain clk m idx) = Some (e, j) \<longleftrightarrow> first_uncooled chain clk m idx e j"
proof (induction "length chain - idx" arbitrary: m idx)
  case 0
  then show ?case by (simp add: resolve_end first_uncooled_def)
next
  case (Suc n)
  show ?case
  proof (cases "1 + idx < length chain")
    case True
    define m' where "m' = snd (is_cooled (provider (chain ! (1 + idx))) (clk idx) m)"
    have m': "cooled_at m' q (clk i) = cooled_at m q (clk i)" if "Suc idx \<le> i" for q i
      using cooled_at_is_cooled [of "clk idx" "clk i"] monoD [OF assms, of idx i] that
      by (simp add: m'_def)
    have IH: "fst (resolve_next_uncooled chain clk m' (Suc idx)) = Some (e, j) \<longleftrightarrow>
              first_uncooled chain clk m (Suc idx) e j"
      using Suc(2) Suc(1) [of "Suc idx" m'] first_uncooled_cong [of "Suc idx" m' clk m, OF m'] by simp
    show ?thesis
    proof (cases "cooled_at m (provider (chain ! (1 + idx))) (clk idx)")
      case c: True
      then show ?thesis using IH first_uncooled_Suc [of m chain idx clk e j]
        by (simp add: resolve_step [OF True] m'_def)
    next
      case False
      then show ?thesis using first_uncooled_here [of m chain idx clk e j] True
        by (auto simp: resolve_step [OF True])
    qed
  next
    case False
    then show ?thesis by (simp add: resolve_end first_uncooled_def)
  qed
qed

end
