(* ===== verification/Routing.thy ===== *)
theory Routing
  imports Llm_Call Cooldowns
begin

text \<open>
  The routing provider (\<open>agent/providers/routing.rs\<close>): the choice of a route by the latest user
  message, the cooldown of routes, and the failover of \<open>chat\<close> and \<open>chat_stream\<close> through the
  remaining routes.

  The providers behind the routes are the parameter \<open>call\<close>: a call on a route in a world \<open>'w\<close> gives
  its result, whether it has sent chunks to the user before ending, and the world after it.  \<open>clock w i\<close>
  is the \<open>i\<close>-th reading of the clock between two calls.  \<open>to_lowercase\<close> is the parameter \<open>lower\<close>:
  its Unicode tables are the standard library's.
\<close>

section \<open>Routes\<close>

record RouteEntry =
  condition :: string
  key :: string
  provider_name :: string
  cooldown_dur :: nat

record RoutingProvider =
  routes :: "RouteEntry list"
  cooldowns :: "string \<rightharpoonup> instant"
  max_failover_attempts :: "32 word"

text \<open>The keyword lists of the semantic conditions, Russian words as their UTF-8 bytes.\<close>

definition FINANCIAL_KEYWORDS :: "string list" where
  "FINANCIAL_KEYWORDS =
    [utf8 [208, 191, 208, 190, 209, 128, 209, 130, 209, 132, 208, 181, 208, 187, 209, 140],
     utf8 [208, 176, 208, 186, 209, 134, 208, 184, 208, 184],
     utf8 [208, 177, 209, 131, 208, 188, 208, 176, 208, 179, 208, 184],
     utf8 [208, 180, 208, 184, 208, 178, 208, 184, 208, 180, 208, 181, 208, 189, 208, 180, 209, 139],
     utf8 [208, 180, 208, 190, 209, 133, 208, 190, 208, 180, 208, 189, 208, 190, 209, 129, 209, 130, 209, 140],
     utf8 [208, 191, 209, 128, 208, 184, 208, 177, 209, 139, 208, 187, 209, 140],
     utf8 [209, 131, 208, 177, 209, 139, 209, 130, 208, 190, 208, 186], ''imoex'',
     utf8 [209, 128, 209, 130, 209, 129],
     utf8 [208, 188, 208, 190, 209, 129, 208, 177, 208, 184, 209, 128, 208, 182, 208, 176], ''moex'',
     utf8 [208, 190, 208, 177, 208, 187, 208, 184, 208, 179, 208, 176, 209, 134, 208, 184, 208, 184],
     utf8 [209, 132, 208, 190, 208, 189, 208, 180], ''etf'', utf8 [208, 191, 208, 176, 208, 184],
     utf8 [208, 186, 208, 190, 209, 130, 208, 184, 209, 128, 208, 190, 208, 178, 208, 186, 208, 184],
     utf8 [208, 184, 208, 189, 208, 178, 208, 181, 209, 129, 209, 130, 208, 184, 209, 134],
     utf8 [208, 177, 209, 128, 208, 190, 208, 186, 208, 181, 209, 128],
     utf8 [208, 191, 208, 190, 208, 183, 208, 184, 209, 134, 208, 184, 208, 184],
     utf8 [208, 176, 208, 186, 209, 130, 208, 184, 208, 178, 209, 139],
     utf8 [209, 130, 208, 184, 208, 186, 208, 181, 209, 128], ''portfolio'', ''shares'', ''dividend'',
     ''yield'', ''return'', ''profit'', ''loss'', ''stock'', ''bond'', ''equity'', ''ticker'', ''market'']"

definition ANALYTICAL_KEYWORDS :: "string list" where
  "ANALYTICAL_KEYWORDS =
    [
     utf8 [208, 176, 208, 189, 208, 176, 208, 187, 208, 184, 208, 183, 208, 184, 209, 128, 209, 131, 208, 185],
     utf8 [208, 191, 208, 190, 208, 180, 209, 129, 209, 135, 208, 184, 209, 130, 208, 176, 208, 185],
     utf8 [208, 191, 208, 190, 209, 129, 209, 135, 208, 184, 209, 130, 208, 176, 208, 185],
     utf8 [208, 178, 209, 139, 209, 135, 208, 184, 209, 129, 208, 187, 208, 184],
     utf8 [209, 128, 208, 176, 209, 129, 209, 129, 209, 135, 208, 184, 209, 130, 208, 176, 208, 185],
     utf8 [209, 129, 209, 128, 208, 176, 208, 178, 208, 189, 208, 184],
     utf8 [208, 186, 208, 190, 209, 128, 209, 128, 208, 181, 208, 187, 209, 143, 209, 134, 208, 184, 209, 143],
     utf8 [209, 129, 209, 128, 208, 181, 208, 180, 208, 189, 208, 181, 208, 181],
     utf8 [208, 188, 208, 181, 208, 180, 208, 184, 208, 176, 208, 189, 208, 176],
     utf8 [209, 129, 209, 130, 208, 176, 209, 130, 208, 184, 209, 129, 209, 130, 208, 184, 208, 186, 208, 176],
     utf8 [208, 180, 208, 184, 208, 189, 208, 176, 208, 188, 208, 184, 208, 186, 208, 176],
     utf8 [209, 130, 209, 128, 208, 181, 208, 189, 208, 180],
     utf8 [208, 191, 209, 128, 208, 190, 209, 134, 208, 181, 208, 189, 209, 130],
     utf8 [208, 191, 209, 128, 208, 190, 208, 179, 208, 189, 208, 190, 208, 183],
     utf8 [208, 176, 208, 179, 209, 128, 208, 181, 208, 179, 208, 184, 209, 128, 209, 131, 208, 185],
     utf8 [209, 129, 208, 179, 209, 128, 209, 131, 208, 191, 208, 191, 208, 184, 209, 128, 209, 131, 208, 185],
     ''analyze'', ''calculate'', ''compute'', ''correlation'', ''average'', ''median'', ''statistics'',
     ''trend'', ''forecast'', ''aggregate'']"

definition CODE_KEYWORDS :: "string list" where
  "CODE_KEYWORDS =
    [utf8 [209, 129, 208, 186, 209, 128, 208, 184, 208, 191, 209, 130], utf8 [208, 186, 208, 190, 208, 180],
     utf8 [208, 183, 208, 176, 208, 191, 209, 131, 209, 129, 209, 130, 208, 184],
     utf8 [208, 178, 209, 139, 208, 191, 208, 190, 208, 187, 208, 189, 208, 184], ''python'', ''bash'',
     utf8 [208, 189, 208, 176, 208, 191, 208, 184, 209, 136, 208, 184, 32, 209, 129, 208, 186, 209, 128, 208, 184, 208, 191, 209, 130],
     utf8 [208, 189, 208, 176, 208, 191, 208, 184, 209, 136, 208, 184, 32, 208, 186, 208, 190, 208, 180],
     ''script'', ''code'', ''execute'', ''run script'', ''run code'']"

text \<open>A configured route, and the provider its connection resolves to (\<open>None\<close> when it has no
  connection, names no row, or cannot be built).\<close>

record route_config =
  rc_condition :: string
  rc_connection :: "string option"
  rc_cooldown_secs :: nat

definition route_entry :: "(string \<Rightarrow> string option) \<Rightarrow> route_config \<Rightarrow> RouteEntry option" where
  "route_entry build r =
     (case rc_connection r of
        None \<Rightarrow> None
      | Some conn \<Rightarrow>
          if conn = [] then None
          else case build conn of
                 None \<Rightarrow> None
               | Some name \<Rightarrow>
                   Some \<lparr>condition = rc_condition r, key = rc_condition r @ '':'' @ name,
                         provider_name = name, cooldown_dur = from_secs (max (rc_cooldown_secs r) 1)\<rparr>)"

definition sentinel_entry :: RouteEntry where
  "sentinel_entry = \<lparr>condition = ''default'', key = ''unconfigured:sentinel'',
     provider_name = ''unconfigured'', cooldown_dur = from_secs 1\<rparr>"

definition create_routing_provider ::
  "(string \<Rightarrow> string option) \<Rightarrow> route_config list \<Rightarrow> 32 word \<Rightarrow> RoutingProvider" where
  "create_routing_provider build rs cap =
     (let entries = List.map_filter (route_entry build) rs
      in \<lparr>routes = (if entries = [] then [sentinel_entry] else entries),
          cooldowns = Map.empty, max_failover_attempts = cap\<rparr>)"

definition contains_any :: "string \<Rightarrow> string list \<Rightarrow> bool" where
  "contains_any t kws = list_ex (\<lambda>kw. contains_str kw t) kws"

definition last_user_msg :: "Message list \<Rightarrow> string" where
  "last_user_msg msgs =
     (case find (\<lambda>m. msg_role m = User) (rev msgs) of None \<Rightarrow> [] | Some m \<Rightarrow> msg_content m)"

definition route_matches ::
  "(string \<Rightarrow> string) \<Rightarrow> Message list \<Rightarrow> bool \<Rightarrow> string \<Rightarrow> bool" where
  "route_matches lower msgs has_tools cond =
     (let msg = last_user_msg msgs; l = lower msg in
      if cond = ''short'' then length msg < 300
      else if cond = ''long'' then length msg > 2000
      else if cond = ''with_tools'' then has_tools
      else if cond = ''financial'' then contains_any l FINANCIAL_KEYWORDS
      else if cond = ''analytical'' then contains_any l ANALYTICAL_KEYWORDS
      else if cond = ''code'' then contains_any l CODE_KEYWORDS
      else cond = ''default'' \<or> cond = ''always'')"

definition select_route ::
  "(string \<Rightarrow> string) \<Rightarrow> RoutingProvider \<Rightarrow> Message list \<Rightarrow> bool \<Rightarrow> RouteEntry option" where
  "select_route lower rp msgs has_tools =
     (case find (\<lambda>e. route_matches lower msgs has_tools (condition e)) (routes rp) of
        Some e \<Rightarrow> Some e
      | None \<Rightarrow> if routes rp = [] then None else Some (last (routes rp)))"

section \<open>Cooldown of routes\<close>

definition is_on_cooldown :: "string \<Rightarrow> instant \<Rightarrow> RoutingProvider \<Rightarrow> bool" where
  "is_on_cooldown name now rp =
     (case cooldowns rp name of None \<Rightarrow> False | Some e \<Rightarrow> now < e)"

definition set_cooldown :: "string \<Rightarrow> instant \<Rightarrow> nat \<Rightarrow> RoutingProvider \<Rightarrow> RoutingProvider" where
  "set_cooldown name now duration rp = rp\<lparr>cooldowns := (cooldowns rp)(name \<mapsto> now + duration)\<rparr>"

fun failover_reason :: "LlmCallError \<Rightarrow> string" where
  "failover_reason (ConnectTimeout _ _) = ''connect_timeout''"
| "failover_reason (RequestTimeout _ _) = ''request_timeout''"
| "failover_reason (InactivityTimeout _ _ _) = ''inactivity''"
| "failover_reason (Server5xx _ _) = ''5xx''"
| "failover_reason (Network _) = ''network''"
| "failover_reason (SchemaError _ _ _) = ''schema_pre_stream''"
| "failover_reason _ = ''typed_other''"

definition handle_provider_error ::
  "regexes \<Rightarrow> instant \<Rightarrow> anyhow \<Rightarrow> string \<Rightarrow> nat \<Rightarrow> RoutingProvider \<Rightarrow> string option \<times> RoutingProvider" where
  "handle_provider_error re now e route_key route_cooldown rp =
     (case e of
        Typed err \<Rightarrow>
          if \<not> llm_failover_worthy err then
            (None,
             (case err of
                AuthError _ _ \<Rightarrow> set_cooldown route_key now (from_secs (max (as_secs route_cooldown) 300)) rp
              | _ \<Rightarrow> rp))
          else
            let cd = (case err of
                        AuthError _ _ \<Rightarrow> from_secs (max (as_secs route_cooldown) 300)
                      | _ \<Rightarrow> max route_cooldown (from_secs 1))
            in (Some (failover_reason err), set_cooldown route_key now cd rp)
      | Untyped s \<Rightarrow>
          let cd = min (cooldown_duration (classify re e)) route_cooldown
          in (Some ''untyped'', if cd \<noteq> 0 then set_cooldown route_key now cd rp else rp))"

text \<open>The routes that may serve as fallbacks; the reading of the clock for the route at position
  \<open>i\<close> is \<open>clk i\<close>.\<close>

definition available_fallbacks :: "string \<Rightarrow> (nat \<Rightarrow> instant) \<Rightarrow> RoutingProvider \<Rightarrow> RouteEntry list" where
  "available_fallbacks exclude_key clk rp =
     map snd (filter (\<lambda>(i, e). key e \<noteq> exclude_key \<and> \<not> is_on_cooldown (key e) (clk i) rp)
       (enumerate 0 (routes rp)))"

section \<open>The calls\<close>

datatype route_result = Answered LlmResponse | Errored anyhow

text \<open>\<open>call e w\<close>: the outcome, whether chunks reached the user before it, and the world after it.\<close>

type_synonym 'w route_call = "RouteEntry \<Rightarrow> 'w \<Rightarrow> route_result \<times> bool \<times> 'w"

record 'w route_state =
  rs_rp :: RoutingProvider
  rs_world :: 'w
  rs_calls :: "(RouteEntry \<times> route_result \<times> bool) list"

definition call_route :: "'w route_call \<Rightarrow> RouteEntry \<Rightarrow> 'w route_state \<Rightarrow> (route_result \<times> bool) \<times> 'w route_state" where
  "call_route call e s =
     (case call e (rs_world s) of (r, sent, w) \<Rightarrow>
        ((r, sent), s\<lparr>rs_world := w, rs_calls := rs_calls s @ [(e, r, sent)]\<rparr>))"

definition fallback_notice :: "string \<Rightarrow> string \<Rightarrow> bool \<Rightarrow> string" where
  "fallback_notice primary_display fb_name primary_skipped =
     map (char_of :: nat \<Rightarrow> char) [226, 134, 170, 239, 184, 143] @ '' '' @ primary_display
     @ map (char_of :: nat \<Rightarrow> char) [32, 226, 134, 146, 32] @ fb_name
     @ '' ('' @ (if primary_skipped then ''cooldown'' else ''primary_failed'') @ '')''"

text \<open>The fallback loop; \<open>streaming\<close> tells \<open>chat_stream\<close>, which does not go on after chunks were sent,
  from \<open>chat\<close>, which never sends any before its result.\<close>

fun try_fallbacks ::
  "regexes \<Rightarrow> ('w \<Rightarrow> instant) \<Rightarrow> 'w route_call \<Rightarrow> bool \<Rightarrow> string \<Rightarrow> bool \<Rightarrow> nat \<Rightarrow> RouteEntry list \<Rightarrow>
     'w route_state \<Rightarrow> (anyhow + LlmResponse) \<times> 'w route_state" where
  "try_fallbacks re clk call streaming primary_display primary_skipped idx [] s =
     (Inl (Untyped (if streaming then ''all streaming providers failed (including fallbacks)''
                    else ''all providers failed (including fallbacks)'')), s)"
| "try_fallbacks re clk call streaming primary_display primary_skipped idx (fb # fbs) s =
     (if word_of_nat idx \<ge> max_failover_attempts (rs_rp s) then
        (Inl (Untyped (if streaming then ''all streaming providers failed (including fallbacks)''
                       else ''all providers failed (including fallbacks)'')), s)
      else case call_route call fb s of
          ((Answered resp, _), s1) \<Rightarrow>
            (Inr (resp\<lparr>resp_fallback_notice :=
                      Some (fallback_notice primary_display (provider_name fb) primary_skipped)\<rparr>), s1)
        | ((Errored e, sent), s1) \<Rightarrow>
            (case handle_provider_error re (clk (rs_world s1)) e (key fb) (cooldown_dur fb) (rs_rp s1) of
               (reason, rp) \<Rightarrow>
                 if streaming \<and> sent \<or> reason = None then (Inl e, s1\<lparr>rs_rp := rp\<rparr>)
                 else try_fallbacks re clk call streaming primary_display primary_skipped (idx + 1) fbs
                        (s1\<lparr>rs_rp := rp\<rparr>)))"

definition run_fallbacks ::
  "regexes \<Rightarrow> ('w \<Rightarrow> nat \<Rightarrow> instant) \<Rightarrow> 'w route_call \<Rightarrow> bool \<Rightarrow> RouteEntry \<Rightarrow> bool \<Rightarrow> 'w route_state \<Rightarrow>
     (anyhow + LlmResponse) \<times> 'w route_state" where
  "run_fallbacks re clock call streaming primary primary_skipped s =
     try_fallbacks re (\<lambda>w. clock w 0) call streaming (provider_name primary) primary_skipped 0
       (available_fallbacks (key primary) (clock (rs_world s)) (rs_rp s)) s"

definition routed_chat ::
  "regexes \<Rightarrow> (string \<Rightarrow> string) \<Rightarrow> ('w \<Rightarrow> nat \<Rightarrow> instant) \<Rightarrow> 'w route_call \<Rightarrow> bool \<Rightarrow>
     Message list \<Rightarrow> bool \<Rightarrow> 'w route_state \<Rightarrow> (anyhow + LlmResponse) \<times> 'w route_state" where
  "routed_chat re lower clock call streaming msgs has_tools s =
     (case select_route lower (rs_rp s) msgs has_tools of
        None \<Rightarrow> (Inl (Untyped ''RoutingProvider has no routes''), s)
      | Some primary \<Rightarrow>
          if is_on_cooldown (key primary) (clock (rs_world s) 0) (rs_rp s)
          then run_fallbacks re clock call streaming primary True s
          else case call_route call primary s of
              ((Answered resp, _), s1) \<Rightarrow> (Inr resp, s1)
            | ((Errored e, sent), s1) \<Rightarrow>
                (case handle_provider_error re (clock (rs_world s1) 0) e (key primary) (cooldown_dur primary)
                        (rs_rp s1) of
                   (reason, rp) \<Rightarrow>
                     if streaming \<and> sent \<or> reason = None then (Inl e, s1\<lparr>rs_rp := rp\<rparr>)
                     else run_fallbacks re clock call streaming primary False (s1\<lparr>rs_rp := rp\<rparr>)))"

text \<open>The two entry points of the provider.\<close>

definition routing_chat ::
  "regexes \<Rightarrow> (string \<Rightarrow> string) \<Rightarrow> ('w \<Rightarrow> nat \<Rightarrow> instant) \<Rightarrow> 'w route_call \<Rightarrow>
     Message list \<Rightarrow> bool \<Rightarrow> 'w route_state \<Rightarrow> (anyhow + LlmResponse) \<times> 'w route_state" where
  "routing_chat re lower clock call = routed_chat re lower clock call False"

definition routing_chat_stream ::
  "regexes \<Rightarrow> (string \<Rightarrow> string) \<Rightarrow> ('w \<Rightarrow> nat \<Rightarrow> instant) \<Rightarrow> 'w route_call \<Rightarrow>
     Message list \<Rightarrow> bool \<Rightarrow> 'w route_state \<Rightarrow> (anyhow + LlmResponse) \<times> 'w route_state" where
  "routing_chat_stream re lower clock call = routed_chat re lower clock call True"

section \<open>Route cooldowns are a store of deadlines\<close>

definition route_put :: "string \<Rightarrow> instant \<Rightarrow> RoutingProvider \<Rightarrow> RoutingProvider" where
  "route_put k u rp = rp\<lparr>cooldowns := (cooldowns rp)(k \<mapsto> u)\<rparr>"

definition route_ask :: "string \<Rightarrow> instant \<Rightarrow> RoutingProvider \<Rightarrow> bool \<times> RoutingProvider" where
  "route_ask k now rp = (is_on_cooldown k now rp, rp)"

interpretation rc: deadline_store route_put route_ask cooldowns
  by unfold_locales (auto simp: route_put_def route_ask_def is_on_cooldown_def split: option.splits)

lemma set_cooldown_put: "set_cooldown k now d rp = route_put k (now + d) rp"
  by (simp add: set_cooldown_def route_put_def)

lemma is_on_cooldown_set:
  "is_on_cooldown k' t (set_cooldown k now d rp) =
     (if k = k' then t < now + d else is_on_cooldown k' t rp)"
  using rc.ask_after_put [of k t "now + d" rp] rc.ask_other [of k k' t "now + d" rp]
  by (auto simp: set_cooldown_put route_ask_def)

section \<open>Failover\<close>

text \<open>A call after which another route may be tried: it failed before anything was shown to the user,
  with an error that a different provider may not have.\<close>

fun passes_on :: "bool \<Rightarrow> RouteEntry \<times> route_result \<times> bool \<Rightarrow> bool" where
  "passes_on streaming (e, Answered r, sent) = False"
| "passes_on streaming (e, Errored (Typed err), sent) = (llm_failover_worthy err \<and> \<not> (streaming \<and> sent))"
| "passes_on streaming (e, Errored (Untyped x), sent) = (\<not> (streaming \<and> sent))"

lemma handle_provider_error_None:
  "fst (handle_provider_error re now e k d rp) = None \<longleftrightarrow> (\<exists>err. e = Typed err \<and> \<not> llm_failover_worthy err)"
  by (cases e) (auto simp: handle_provider_error_def Let_def)

lemma handle_provider_error_other:
  "k' \<noteq> k \<Longrightarrow> cooldowns (snd (handle_provider_error re now e k d rp)) k' = cooldowns rp k'"
  by (auto simp: handle_provider_error_def set_cooldown_def Let_def split: anyhow.splits LlmCallError.splits)

lemma handle_provider_error_cap [simp]:
  "max_failover_attempts (snd (handle_provider_error re now e k d rp)) = max_failover_attempts rp"
  "routes (snd (handle_provider_error re now e k d rp)) = routes rp"
  by (auto simp: handle_provider_error_def set_cooldown_def Let_def split: anyhow.splits LlmCallError.splits)

lemma passes_on_iff:
  "passes_on streaming (e, Errored x, sent) \<longleftrightarrow>
     \<not> (streaming \<and> sent \<or> fst (handle_provider_error re now x k d rp) = None)"
  by (cases x) (auto simp: handle_provider_error_None)

text \<open>The calls that are made are those of an initial part of the fallbacks, each but the last passing
  on; the counter stops the loop at the cap.\<close>

lemma of_nat_unat_id: "word_of_nat (unat (x :: 32 word)) = x"
  by simp

lemma try_fallbacks_calls:
  assumes "try_fallbacks re clk call streaming pd ps idx fbs s = (r, s')"
    and "idx \<le> unat (max_failover_attempts (rs_rp s))"
  shows "\<exists>cs. rs_calls s' = rs_calls s @ cs \<and> prefix (map fst cs) fbs
           \<and> (\<forall>c \<in> set (butlast cs). passes_on streaming c)
           \<and> idx + length cs \<le> unat (max_failover_attempts (rs_rp s))"
  using assms
proof (induction fbs arbitrary: idx s)
  case (Cons fb fbs)
  show ?case
  proof (cases "word_of_nat idx \<ge> max_failover_attempts (rs_rp s)")
    case True
    then show ?thesis using Cons.prems by auto
  next
    case False
    then have lt: "idx < unat (max_failover_attempts (rs_rp s))"
      using Cons.prems(2) of_nat_unat_id [of "max_failover_attempts (rs_rp s)"]
      by (cases "idx = unat (max_failover_attempts (rs_rp s))") auto
    obtain x sent w where c: "call fb (rs_world s) = (x, sent, w)" using prod_cases3 by blast
    define s1 where "s1 = s\<lparr>rs_world := w, rs_calls := rs_calls s @ [(fb, x, sent)]\<rparr>"
    show ?thesis
    proof (cases "passes_on streaming (fb, x, sent)")
      case False
      then have "rs_calls s' = rs_calls s @ [(fb, x, sent)]"
        using Cons.prems(1) \<open>\<not> word_of_nat idx \<ge> _\<close> c
          passes_on_iff [of streaming fb _ sent re "clk w" "key fb" "cooldown_dur fb" "rs_rp s"]
        by (cases x) (auto simp: call_route_def split: prod.splits if_splits)
      then show ?thesis using lt by (intro exI [of _ "[(fb, x, sent)]"]) auto
    next
      case True
      then obtain e where x: "x = Errored e" by (cases x) auto
      obtain reason rp where h: "handle_provider_error re (clk w) e (key fb) (cooldown_dur fb) (rs_rp s) = (reason, rp)"
        by fastforce
      have "\<not> (streaming \<and> sent \<or> reason = None)"
        using True h passes_on_iff [of streaming fb e sent re "clk w" "key fb" "cooldown_dur fb" "rs_rp s"]
        by (simp add: x)
      then have rec: "try_fallbacks re clk call streaming pd ps (idx + 1) fbs (s1\<lparr>rs_rp := rp\<rparr>) = (r, s')"
        using Cons.prems(1) \<open>\<not> word_of_nat idx \<ge> _\<close> c h by (auto simp: call_route_def x s1_def split: if_splits)
      have cap: "max_failover_attempts rp = max_failover_attempts (rs_rp s)"
        using handle_provider_error_cap(1) [of re "clk w" e "key fb" "cooldown_dur fb" "rs_rp s"] h by simp
      obtain cs where cs: "rs_calls s' = rs_calls s1 @ cs" "prefix (map fst cs) fbs"
          "\<forall>c \<in> set (butlast cs). passes_on streaming c"
          "Suc idx + length cs \<le> unat (max_failover_attempts (rs_rp s))"
        using Cons.IH [OF rec] lt by (auto simp: cap)
      have "\<forall>c \<in> set (butlast ((fb, x, sent) # cs)). passes_on streaming c"
        using cs(3) True by simp
      then show ?thesis using cs by (intro exI [of _ "(fb, x, sent) # cs"]) (simp add: s1_def)
    qed
  qed
qed simp

lemma available_fallbacks_keys:
  "e \<in> set (available_fallbacks k clk rp) \<Longrightarrow>
     e \<in> set (routes rp) \<and> key e \<noteq> k \<and> (\<exists>i. \<not> is_on_cooldown (key e) (clk i) rp)"
  by (auto simp: available_fallbacks_def in_set_enumerate_eq)

lemma run_fallbacks_calls:
  assumes "run_fallbacks re clock call streaming primary ps s = (r, s')"
  shows "\<exists>cs. rs_calls s' = rs_calls s @ cs
           \<and> (\<forall>c \<in> set cs. key (fst c) \<noteq> key primary \<and>
                (\<exists>i. \<not> is_on_cooldown (key (fst c)) (clock (rs_world s) i) (rs_rp s)))
           \<and> (\<forall>c \<in> set (butlast cs). passes_on streaming c)
           \<and> length cs \<le> unat (max_failover_attempts (rs_rp s))"
proof -
  obtain cs where cs: "rs_calls s' = rs_calls s @ cs"
      "prefix (map fst cs) (available_fallbacks (key primary) (clock (rs_world s)) (rs_rp s))"
      "\<forall>c \<in> set (butlast cs). passes_on streaming c"
      "length cs \<le> unat (max_failover_attempts (rs_rp s))"
    using try_fallbacks_calls [OF assms [unfolded run_fallbacks_def]] by auto
  have "key (fst c) \<noteq> key primary \<and> (\<exists>i. \<not> is_on_cooldown (key (fst c)) (clock (rs_world s) i) (rs_rp s))"
    if "c \<in> set cs" for c
  proof (rule conjunct2 [OF available_fallbacks_keys])
    show "fst c \<in> set (available_fallbacks (key primary) (clock (rs_world s)) (rs_rp s))"
      using that set_mono_prefix [OF cs(2)] by auto
  qed
  then show ?thesis using cs by blast
qed

lemma routed_chat_calls:
  assumes "routed_chat re lower clock call streaming msgs has_tools s = (r, s')"
  shows "\<exists>cs. rs_calls s' = rs_calls s @ cs \<and> length cs \<le> 1 + unat (max_failover_attempts (rs_rp s))
           \<and> (\<forall>c \<in> set (butlast cs). passes_on streaming c)
           \<and> (\<forall>c \<in> set cs. \<exists>w i. \<not> is_on_cooldown (key (fst c)) (clock w i) (rs_rp s))"
proof (cases "select_route lower (rs_rp s) msgs has_tools")
  case None
  then show ?thesis using assms by (auto simp: routed_chat_def)
next
  case (Some primary)
  show ?thesis
  proof (cases "is_on_cooldown (key primary) (clock (rs_world s) 0) (rs_rp s)")
    case True
    then have "run_fallbacks re clock call streaming primary True s = (r, s')"
      using assms Some by (simp add: routed_chat_def)
    from run_fallbacks_calls [OF this] show ?thesis by (metis trans_le_add2)
  next
    case fresh: False
    obtain x sent w where c: "call primary (rs_world s) = (x, sent, w)" using prod_cases3 by blast
    define s1 where "s1 = s\<lparr>rs_world := w, rs_calls := rs_calls s @ [(primary, x, sent)]\<rparr>"
    show ?thesis
    proof (cases "passes_on streaming (primary, x, sent)")
      case False
      then have "rs_calls s' = rs_calls s @ [(primary, x, sent)]"
        using assms Some fresh c
          passes_on_iff [of streaming primary _ sent re "clock w 0" "key primary" "cooldown_dur primary" "rs_rp s"]
        by (cases x) (auto simp: routed_chat_def call_route_def split: prod.splits if_splits)
      then show ?thesis using fresh by (intro exI [of _ "[(primary, x, sent)]"]) auto
    next
      case True
      then obtain e where x: "x = Errored e" by (cases x) auto
      obtain reason rp where
        h: "handle_provider_error re (clock w 0) e (key primary) (cooldown_dur primary) (rs_rp s) = (reason, rp)"
        by fastforce
      have "\<not> (streaming \<and> sent \<or> reason = None)"
        using True h passes_on_iff [of streaming primary e sent re "clock w 0" "key primary" "cooldown_dur primary" "rs_rp s"]
        by (simp add: x)
      then have rec: "run_fallbacks re clock call streaming primary False (s1\<lparr>rs_rp := rp\<rparr>) = (r, s')"
        using assms Some fresh c h by (auto simp: routed_chat_def call_route_def x s1_def split: if_splits)
      have rp: "max_failover_attempts rp = max_failover_attempts (rs_rp s)"
        "k \<noteq> key primary \<Longrightarrow> is_on_cooldown k t rp = is_on_cooldown k t (rs_rp s)" for k t
        using handle_provider_error_cap(1) [of re "clock w 0" e "key primary" "cooldown_dur primary" "rs_rp s"]
          handle_provider_error_other [of k "key primary" re "clock w 0" e "cooldown_dur primary" "rs_rp s"] h
        by (simp_all add: is_on_cooldown_def)
      obtain cs where cs: "rs_calls s' = rs_calls s1 @ cs"
          "\<forall>c \<in> set cs. \<exists>w i. \<not> is_on_cooldown (key (fst c)) (clock w i) (rs_rp s)"
          "\<forall>c \<in> set (butlast cs). passes_on streaming c"
          "length cs \<le> unat (max_failover_attempts (rs_rp s))"
        using run_fallbacks_calls [OF rec] rp by simp metis
      have "\<forall>c \<in> set (butlast ((primary, x, sent) # cs)). passes_on streaming c"
        using cs(3) True by simp
      then show ?thesis using cs fresh
        by (intro exI [of _ "(primary, x, sent) # cs"]) (auto simp: s1_def)
    qed
  qed
qed


text \<open>Two routes, the first of which fails before its first chunk.\<close>

definition two_routes :: RoutingProvider where
  "two_routes =
     \<lparr>routes = [\<lparr>condition = ''default'', key = ''default:zai'', provider_name = ''zai'', cooldown_dur = from_secs 60\<rparr>,
                \<lparr>condition = ''fallback'', key = ''fallback:openai'', provider_name = ''openai'', cooldown_dur = from_secs 60\<rparr>],
      cooldowns = Map.empty, max_failover_attempts = 3\<rparr>"

definition first_fails :: "unit route_call" where
  "first_fails e w =
     (if key e = ''default:zai'' then (Errored (Typed (ConnectTimeout ''zai'' 10)), False, ())
      else (Answered \<lparr>resp_content = ''hi'', resp_tool_calls = [], resp_finish_reason = None, resp_model = None,
              resp_provider = None, resp_fallback_notice = None\<rparr>, True, ()))"


end
