(* ===== verification/Thinking.thy ===== *)
theory Thinking
  imports Llm_Call
begin

text \<open>
  Thinking blocks (\<open>agent/thinking.rs\<close>): removing \<open><think>...</think>\<close> and its variants from a
  complete response (\<open>strip_thinking\<close>) and from a stream of chunks (\<open>ThinkingFilter\<close>), the
  heuristic that finds an unfinished answer, and the result text of a run.

  The tags are ASCII and a string is its UTF-8 bytes, so the byte searches of the code are list
  searches.  \<open>str::to_lowercase\<close> is the parameter \<open>lower\<close>.
\<close>

section \<open>Tags\<close>

text \<open>\<open>bytes.windows(tag.len()).position(|w| w.eq_ignore_ascii_case(tag))\<close> for a lower-case tag.\<close>

fun find_ci :: "string \<Rightarrow> string \<Rightarrow> nat option" where
  "find_ci tag [] = None"
| "find_ci tag (c # cs) =
     (if starts_with tag (to_ascii_lowercase (c # cs)) then Some 0
      else map_option Suc (find_ci tag cs))"

fun first_tag :: "string list \<Rightarrow> string \<Rightarrow> (nat \<times> string) option" where
  "first_tag [] t = None"
| "first_tag (tag # tags) t =
     (case find_ci tag t of Some pos \<Rightarrow> Some (pos, tag) | None \<Rightarrow> first_tag tags t)"

definition open_tags :: "string list" where
  "open_tags = [''<think>'', ''<thinking>'', ''<thinking '', ''<think '', ''<thought>'', ''<antthinking>'']"

definition close_tags :: "string list" where
  "close_tags = [''</think>'', ''</thinking>'', ''</thought>'', ''</antthinking>'']"

definition find_open_tag_ascii :: "string \<Rightarrow> nat option" where
  "find_open_tag_ascii t = map_option fst (first_tag open_tags t)"

definition find_close_tag_ascii :: "string \<Rightarrow> nat option" where
  "find_close_tag_ascii t = map_option (\<lambda>(pos, tag). pos + length tag) (first_tag close_tags t)"

text \<open>\<open>s.find(c)\<close> and \<open>s.rfind(c)\<close> for one ASCII character.\<close>

fun find_char :: "char \<Rightarrow> string \<Rightarrow> nat option" where
  "find_char d [] = None"
| "find_char d (c # cs) = (if c = d then Some 0 else map_option Suc (find_char d cs))"

fun rfind_char :: "char \<Rightarrow> string \<Rightarrow> nat option" where
  "rfind_char d [] = None"
| "rfind_char d (c # cs) =
     (case rfind_char d cs of Some n \<Rightarrow> Some (Suc n) | None \<Rightarrow> if c = d then Some 0 else None)"

lemma find_ci_bound: "find_ci tag t = Some p \<Longrightarrow> p + length tag \<le> length t"
proof (induction t arbitrary: p)
  case (Cons c cs)
  show ?case
  proof (cases "starts_with tag (to_ascii_lowercase (c # cs))")
    case True
    then obtain r where "to_ascii_lowercase (c # cs) = tag @ r" by (auto simp: starts_with_iff)
    then have "length tag \<le> length (c # cs)"
      by (metis le_add1 length_append length_map to_ascii_lowercase_def)
    then show ?thesis using Cons.prems True by simp
  next
    case False
    then show ?thesis using Cons by auto
  qed
qed simp

lemma first_tag_bound: "first_tag tags t = Some (p, tag) \<Longrightarrow> tag \<in> set tags \<and> p + length tag \<le> length t"
  by (induction tags t rule: first_tag.induct) (auto split: option.splits dest: find_ci_bound)

lemma find_open_tag_bound: "find_open_tag_ascii t = Some p \<Longrightarrow> p < length t"
  using first_tag_bound [of open_tags t p]
  by (auto simp: find_open_tag_ascii_def open_tags_def)

lemma find_close_tag_bound:
  assumes "find_close_tag_ascii t = Some p"
  shows "0 < p \<and> p \<le> length t"
proof -
  obtain q tag where "first_tag close_tags t = Some (q, tag)" "p = q + length tag"
    using assms by (auto simp: find_close_tag_ascii_def)
  then show ?thesis using first_tag_bound [of close_tags t q tag] by (auto simp: close_tags_def)
qed

section \<open>Complete responses\<close>

text \<open>The loop of \<open>strip_thinking\<close> on the rest of the text; what it returns is pushed to the result.\<close>

function strip_loop :: "string \<Rightarrow> string" where
  "strip_loop rest =
     (case find_open_tag_ascii rest of
        None \<Rightarrow> rest
      | Some start \<Rightarrow>
          take start rest @
          (case find_char (CHR 0x3E) (drop start rest) of
             None \<Rightarrow> []
           | Some p \<Rightarrow>
               (case find_close_tag_ascii (drop (start + p + 1) rest) of
                  None \<Rightarrow> []
                | Some close_len \<Rightarrow> strip_loop (drop (start + p + 1 + close_len) rest))))"
  by pat_completeness auto
termination
  by (relation "measure length") (auto dest: find_open_tag_bound)

declare strip_loop.simps [simp del]

definition strip_thinking :: "string \<Rightarrow> string" where
  "strip_thinking t = trim (strip_loop t)"

section \<open>Streams\<close>

record ThinkingFilter =
  in_thinking :: bool
  buffer :: string

definition new_filter :: ThinkingFilter where
  "new_filter = \<lparr>in_thinking = False, buffer = []\<rparr>"

definition tag_starts :: "string list" where
  "tag_starts = [''<think>'', ''<thinking>'', ''<thought>'', ''<antthinking>'',
                 ''</think>'', ''</thinking>'', ''</thought>'', ''</antthinking>'']"

definition safe_emit_len :: "string \<Rightarrow> nat" where
  "safe_emit_len t =
     (case rfind_char (CHR 0x3C) t of
        None \<Rightarrow> length t
      | Some pos \<Rightarrow>
          if list_ex (starts_with (to_ascii_lowercase (drop pos t))) tag_starts then pos else length t)"

text \<open>The loop of \<open>process\<close>: the text emitted, and the filter.  Skipping an opening tag leaves the
  buffer shorter, and so does finding a closing one.\<close>

function process_loop :: "ThinkingFilter \<Rightarrow> string \<times> ThinkingFilter" where
  "process_loop f =
     (if in_thinking f then
        (case find_close_tag_ascii (buffer f) of
           Some pos \<Rightarrow> process_loop (f\<lparr>buffer := drop pos (buffer f), in_thinking := False\<rparr>)
         | None \<Rightarrow>
             ([], if length (buffer f) > 20
                  then f\<lparr>buffer := drop (floor_char_boundary (buffer f) (length (buffer f) - 20)) (buffer f)\<rparr>
                  else f))
      else
        (case find_open_tag_ascii (buffer f) of
           Some pos \<Rightarrow>
             let rest = drop pos (buffer f);
                 buf = (case find_char (CHR 0x3E) rest of Some e \<Rightarrow> drop (e + 1) rest | None \<Rightarrow> []);
                 (out, f') = process_loop (f\<lparr>buffer := buf, in_thinking := True\<rparr>)
             in (take pos (buffer f) @ out, f')
         | None \<Rightarrow>
             let safe = safe_emit_len (buffer f)
             in (take safe (buffer f), f\<lparr>buffer := drop safe (buffer f)\<rparr>)))"
  by pat_completeness auto
termination
proof (relation "measure (\<lambda>f. length (buffer f))", goal_cases)
  case (2 f pos)
  then show ?case using find_close_tag_bound [of "buffer f" pos] by (simp; linarith)
next
  case (3 f pos rest buf)
  have "pos < length (buffer f)" using 3 find_open_tag_bound by blast
  then show ?case using 3 by (auto split: option.splits)
qed simp

declare process_loop.simps [simp del]

definition process_chunk :: "string \<Rightarrow> ThinkingFilter \<Rightarrow> string \<times> ThinkingFilter" where
  "process_chunk chunk f = process_loop (f\<lparr>buffer := buffer f @ chunk\<rparr>)"

fun stream_out :: "ThinkingFilter \<Rightarrow> string list \<Rightarrow> string" where
  "stream_out f [] = []"
| "stream_out f (c # cs) = (case process_chunk c f of (out, f') \<Rightarrow> out @ stream_out f' cs)"

section \<open>Unfinished answers and result text\<close>

definition incomplete_markers :: "string list" where
  "incomplete_markers =
    [
     utf8 [208, 180, 208, 176, 208, 187, 208, 181, 208, 181, 32, 208, 189, 209, 131, 208, 182, 208, 189, 208, 190],
     utf8 [209, 129, 208, 187, 208, 181, 208, 180, 209, 131, 209, 142, 209, 137, 208, 184, 208, 185, 32, 209, 136, 208, 176, 208, 179],
     utf8 [208, 190, 209, 129, 209, 130, 208, 176, 208, 187, 208, 190, 209, 129, 209, 140, 32, 209, 129, 208, 180, 208, 181, 208, 187, 208, 176, 209, 130, 209, 140],
     utf8 [208, 183, 208, 176, 209, 130, 208, 181, 208, 188, 32, 208, 189, 209, 131, 208, 182, 208, 189, 208, 190],
     utf8 [209, 130, 208, 181, 208, 191, 208, 181, 209, 128, 209, 140, 32, 208, 189, 209, 131, 208, 182, 208, 189, 208, 190],
     utf8 [208, 189, 209, 131, 208, 182, 208, 189, 208, 190, 32, 208, 181, 209, 137, 209, 145],
     utf8 [208, 189, 209, 131, 208, 182, 208, 189, 208, 190, 32, 208, 181, 209, 137, 208, 181],
     utf8 [208, 191, 209, 128, 208, 184, 209, 129, 209, 130, 209, 131, 208, 191, 208, 176, 209, 142, 32, 208, 186],
     utf8 [208, 191, 208, 181, 209, 128, 208, 181, 209, 133, 208, 190, 208, 182, 209, 131, 32, 208, 186],
     ''next step'', ''remaining steps'', ''i'' @ [CHR 0x27] @ ''ll now'', ''i will then'', ''starting with'',
     ''todo:'', ''need to also'', ''let'' @ [CHR 0x27] @ ''s begin by'']"

definition incomplete_exclusions :: "string list" where
  "incomplete_exclusions =
    [utf8 [208, 188, 208, 190, 208, 182, 208, 181, 209, 136, 209, 140],
     utf8 [209, 133, 208, 190, 209, 135, 208, 181, 209, 136, 209, 140],
     utf8 [209, 133, 208, 190, 209, 130, 208, 184, 209, 130, 208, 181],
     utf8 [208, 181, 209, 129, 208, 187, 208, 184, 32, 208, 189, 209, 131, 208, 182, 208, 189, 208, 190],
     utf8 [208, 191, 209, 128, 208, 184, 32, 208, 189, 208, 181, 208, 190, 208, 177, 209, 133, 208, 190, 208, 180, 208, 184, 208, 188, 208, 190, 209, 129, 209, 130, 208, 184],
     utf8 [208, 188, 208, 190, 208, 182, 208, 189, 208, 190, 32, 209, 130, 208, 176, 208, 186, 208, 182, 208, 181],
     utf8 [209, 128, 208, 181, 208, 186, 208, 190, 208, 188, 208, 181, 208, 189, 208, 180, 209, 131, 209, 142],
     utf8 [208, 191, 209, 128, 208, 181, 208, 180, 208, 187, 208, 176, 208, 179, 208, 176, 209, 142],
     utf8 [208, 182, 208, 180, 209, 131, 32, 209, 130, 208, 178, 208, 190, 208, 184, 209, 133],
     utf8 [208, 182, 208, 180, 209, 131, 32, 208, 178, 208, 176, 209, 136, 208, 184, 209, 133],
     ''would you like'', ''do you want'', ''if you need'', ''you can'', ''let me know'']"

definition looks_incomplete :: "(string \<Rightarrow> string) \<Rightarrow> string \<Rightarrow> bool" where
  "looks_incomplete lower t =
     (let l = lower t; trimmed = trim t;
          fence = [CHR 0x60, CHR 0x60, CHR 0x60];
          is_open_code_block =
            (contains_str fence trimmed \<and> \<not> ends_with fence trimmed \<and> \<not> ends_with (fence @ [CHR 0x0A]) trimmed);
          ends_with_list_marker =
            (ends_with '':'' trimmed \<or> ends_with ''-'' trimmed
             \<or> (trimmed \<noteq> [] \<and> 48 \<le> (of_char (last trimmed) :: nat) \<and> (of_char (last trimmed) :: nat) \<le> 57));
          has_marker = list_ex (\<lambda>m. contains_str m l) incomplete_markers;
          has_exclusion = list_ex (\<lambda>m. contains_str m l) incomplete_exclusions
      in (has_marker \<or> is_open_code_block \<or> ends_with_list_marker) \<and> \<not> has_exclusion)"

definition extract_result_text :: "string \<Rightarrow> Message list \<Rightarrow> string" where
  "extract_result_text content msgs =
     (let stripped = strip_thinking content in
      if trim stripped \<noteq> [] then stripped
      else case find (\<lambda>m. msg_role m = Tool) (rev msgs) of
          Some last_tool \<Rightarrow>
            ''[No summary from agent. Last tool output:]'' @ [CHR 0x0A] @ take_chars 3000 (msg_content last_tool)
        | None \<Rightarrow> ''(no result)'')"

section \<open>Searches in a text with few angle brackets\<close>

abbreviation lt :: char where "lt \<equiv> CHR 0x3C"

lemma ascii_lower_lt [simp]: "ascii_lower c = lt \<longleftrightarrow> c = lt"
proof -
  have "(of_char (char_of (of_char c + 32 :: nat) :: char) :: nat) = of_char c + 32"
    if "of_char c \<le> (90 :: nat)" using that by simp
  then have "char_of (of_char c + 32 :: nat) \<noteq> lt" if "65 \<le> (of_char c :: nat)" "of_char c \<le> (90 :: nat)"
    using that by (auto dest: arg_cong [where f = "of_char :: char \<Rightarrow> nat"])
  moreover have "c = lt \<Longrightarrow> (of_char c :: nat) = 60" by simp
  ultimately show ?thesis by (auto simp: ascii_lower_def Let_def)
qed

lemma find_ci_skip:
  "lt \<notin> set u \<Longrightarrow> find_ci (lt # tg) (u @ t) = map_option ((+) (length u)) (find_ci (lt # tg) t)"
proof (induction u)
  case Nil
  then show ?case by (simp add: option.map_ident)
next
  case (Cons c u)
  then have "\<not> starts_with (lt # tg) (to_ascii_lowercase (c # u @ t))"
    by (auto simp: starts_with_iff to_ascii_lowercase_def)
  then show ?case using Cons by (simp add: option.map_comp comp_def)
qed

lemma find_ci_short: "length t < length tag \<Longrightarrow> find_ci tag t = None"
  using find_ci_bound [of tag t] by (cases "find_ci tag t") auto

lemma find_ci_free: "lt \<notin> set u \<Longrightarrow> find_ci (lt # tg) u = None"
  using find_ci_skip [of u tg "[]"] by simp

lemma find_ci_tail: "\<lbrakk>lt \<notin> set u; length v < Suc (length tg)\<rbrakk> \<Longrightarrow> find_ci (lt # tg) (u @ v) = None"
  by (simp add: find_ci_skip find_ci_short)

lemma first_tag_None:
  "(\<And>tag. tag \<in> set tags \<Longrightarrow> find_ci tag t = None) \<Longrightarrow> first_tag tags t = None"
  by (induction tags) auto

lemma no_open_tag: "\<lbrakk>lt \<notin> set u; length v < 7\<rbrakk> \<Longrightarrow> find_open_tag_ascii (u @ v) = None"
  unfolding find_open_tag_ascii_def
  by (subst first_tag_None) (auto simp: open_tags_def intro!: find_ci_tail)

lemma no_close_tag: "\<lbrakk>lt \<notin> set u; length v < 8\<rbrakk> \<Longrightarrow> find_close_tag_ascii (u @ v) = None"
  unfolding find_close_tag_ascii_def
  by (subst first_tag_None) (auto simp: close_tags_def intro!: find_ci_tail)

lemma open_tag_here: "lt \<notin> set u \<Longrightarrow> find_open_tag_ascii (u @ ''<think>'' @ w) = Some (length u)"
  by (simp add: find_open_tag_ascii_def open_tags_def find_ci_skip starts_with_def to_ascii_lowercase_def ascii_lower_def)

lemma close_tag_here: "lt \<notin> set x \<Longrightarrow> find_close_tag_ascii (x @ ''</think>'' @ w) = Some (length x + 8)"
  by (simp add: find_close_tag_ascii_def close_tags_def find_ci_skip starts_with_def to_ascii_lowercase_def ascii_lower_def)

lemma rfind_char_free: "d \<notin> set u \<Longrightarrow> rfind_char d u = None"
  by (induction u) auto

lemma rfind_char_last: "d \<notin> set v \<Longrightarrow> rfind_char d (u @ d # v) = Some (length u)"
  by (induction u) (auto simp: rfind_char_free)

lemma safe_emit_free: "lt \<notin> set u \<Longrightarrow> safe_emit_len u = length u"
  by (simp add: safe_emit_len_def rfind_char_free)

lemma think_prefix_cases:
  assumes "prefix v ''<think>''" "v \<noteq> ''<think>''" "v \<noteq> []"
  shows "v \<in> set [''<'', ''<t'', ''<th'', ''<thi'', ''<thin'', ''<think'']"
  using assms by (auto simp: prefix_Cons)

lemma safe_emit_partial:
  assumes "prefix v ''<think>''" "v \<noteq> ''<think>''" "v \<noteq> []" "lt \<notin> set u"
  shows "safe_emit_len (u @ v) = length u"
proof -
  obtain v' where v: "v = lt # v'" "lt \<notin> set v'"
    using think_prefix_cases [OF assms(1-3)] by auto
  have "starts_with (to_ascii_lowercase v) ''<think>''"
    using think_prefix_cases [OF assms(1-3)]
    by (auto simp: starts_with_def to_ascii_lowercase_def ascii_lower_def)
  then show ?thesis
    using rfind_char_last [OF v(2), of u] by (simp add: safe_emit_len_def v(1) tag_starts_def)
qed

section \<open>One step of the stream filter\<close>

lemma process_plain:
  assumes "lt \<notin> set u" "prefix v ''<think>''" "v \<noteq> ''<think>''"
  shows "process_loop \<lparr>in_thinking = False, buffer = u @ v\<rparr> = (u, \<lparr>in_thinking = False, buffer = v\<rparr>)"
proof -
  have "length v < length ''<think>''"
    using assms(2,3) by (metis le_neq_implies_less prefix_length_le prefix_order.antisym prefix_length_prefix
        prefix_order.order_refl)
  then have "length v < 7" by simp
  then have "find_open_tag_ascii (u @ v) = None" using assms(1) by (intro no_open_tag)
  moreover have "safe_emit_len (u @ v) = length u"
    using safe_emit_free [of u] safe_emit_partial [of v u] assms by (cases "v = []") auto
  ultimately show ?thesis by (subst process_loop.simps) (simp add: Let_def)
qed

lemma process_open:
  assumes "lt \<notin> set u"
  shows "process_loop \<lparr>in_thinking = False, buffer = u @ ''<think>'' @ w\<rparr> =
         (case process_loop \<lparr>in_thinking = True, buffer = w\<rparr> of (out, f) \<Rightarrow> (u @ out, f))"
  using open_tag_here [OF assms, of w]
  by (subst process_loop.simps) (simp add: Let_def)

lemma process_close:
  assumes "lt \<notin> set x"
  shows "process_loop \<lparr>in_thinking = True, buffer = x @ ''</think>'' @ w\<rparr> =
         process_loop \<lparr>in_thinking = False, buffer = w\<rparr>"
  using close_tag_here [OF assms, of w]
  by (subst process_loop.simps) simp

text \<open>Inside a block, at least the last twenty bytes are kept.\<close>

lemma process_inside:
  assumes "lt \<notin> set x" "length v < 8"
  obtains y where "process_loop \<lparr>in_thinking = True, buffer = x @ v\<rparr> = ([], \<lparr>in_thinking = True, buffer = y @ v\<rparr>)"
    "suffix y x"
proof -
  define b where "b = x @ v"
  define cut where "cut = (if length b > 20 then floor_char_boundary b (length b - 20) else 0)"
  have "cut \<le> length x"
    using floor_char_boundary_le [of b "length b - 20"] assms(2) by (auto simp: cut_def b_def)
  then have "drop cut b = drop cut x @ v" by (simp add: b_def)
  moreover have "process_loop \<lparr>in_thinking = True, buffer = b\<rparr> = ([], \<lparr>in_thinking = True, buffer = drop cut b\<rparr>)"
    using no_close_tag [OF assms] by (subst process_loop.simps) (simp add: b_def [symmetric] cut_def)
  ultimately show thesis using that [of "drop cut x"] by (simp add: b_def suffix_drop)
qed

section \<open>A stream with one block\<close>

text \<open>Where the filter stands, by the text still to come: before the block, inside it, after it.  The last
  argument is what is still to be shown.\<close>

inductive awaits :: "ThinkingFilter \<Rightarrow> string \<Rightarrow> string \<Rightarrow> bool" where
  before: "\<lbrakk>lt \<notin> set u; lt \<notin> set body; lt \<notin> set post; b @ r = u @ ''<think>'' @ body @ ''</think>'' @ post;
     b = [] \<or> u = [] \<and> length b < 7\<rbrakk> \<Longrightarrow>
     awaits \<lparr>in_thinking = False, buffer = b\<rparr> r (u @ post)"
| inside: "\<lbrakk>lt \<notin> set x; lt \<notin> set post; b @ r = x @ ''</think>'' @ post; length b < length x + 8\<rbrakk> \<Longrightarrow>
     awaits \<lparr>in_thinking = True, buffer = b\<rparr> r post"
| after: "lt \<notin> set r \<Longrightarrow> awaits \<lparr>in_thinking = False, buffer = []\<rparr> r r"

lemma step_after:
  assumes "lt \<notin> set (w @ r)"
  shows "\<exists>f e. process_loop \<lparr>in_thinking = False, buffer = w\<rparr> = (w, f) \<and> awaits f r e \<and> w @ r = w @ e"
  using process_plain [of w "[]"] assms by (auto intro!: awaits.after)

text \<open>The part of the closing tag that has arrived stays whole in the buffer.\<close>

lemma step_partial:
  assumes "lt \<notin> set x'" "length v < 8" "x = x' @ z" "v = [] \<or> z = []" "lt \<notin> set x" "lt \<notin> set post"
    and "v @ r = z @ ''</think>'' @ post"
  shows "\<exists>f. process_loop \<lparr>in_thinking = True, buffer = x' @ v\<rparr> = ([], f) \<and> awaits f r post"
proof -
  obtain y where y: "process_loop \<lparr>in_thinking = True, buffer = x' @ v\<rparr> = ([], \<lparr>in_thinking = True, buffer = y @ v\<rparr>)"
      "suffix y x'"
    using process_inside [OF assms(1,2)] by metis
  have "lt \<notin> set (y @ z)" using assms(1,3,5) set_mono_suffix [OF y(2)] by auto
  moreover have "(y @ v) @ r = (y @ z) @ ''</think>'' @ post" using assms(7) by simp
  moreover have "length (y @ v) < length (y @ z) + 8" using assms(2,4) by auto
  ultimately have "awaits \<lparr>in_thinking = True, buffer = y @ v\<rparr> r post" using assms(6) by (intro awaits.inside)
  then show ?thesis using y(1) by blast
qed

lemma append_longer:
  assumes "a @ r = t @ rest" "length t \<le> length a"
  shows "\<exists>w. a = t @ w \<and> w @ r = rest"
  using assms by (auto simp: append_eq_append_conv2)

lemma step_inside:
  assumes "lt \<notin> set x" "lt \<notin> set post" "w @ r = x @ ''</think>'' @ post"
  shows "\<exists>out f e. process_loop \<lparr>in_thinking = True, buffer = w\<rparr> = (out, f) \<and> awaits f r e \<and> post = out @ e"
proof -
  consider us where "w @ us = x" "r = us @ ''</think>'' @ post"
    | us where "w = x @ us" "us @ r = ''</think>'' @ post"
    using assms(3) unfolding append_eq_append_conv2 by metis
  then show ?thesis
  proof cases
    case 1
    then show ?thesis using step_partial [of w "[]" x us post r] assms(1,2) by auto
  next
    case 2
    show ?thesis
    proof (cases "length us < 8")
      case True
      then show ?thesis using step_partial [of x us x "[]" post r] assms(1,2) 2 by auto
    next
      case False
      then obtain w' where us: "us = ''</think>'' @ w'" "w' @ r = post"
        using append_longer [OF 2(2)] by auto
      then show ?thesis using process_close [OF assms(1), of w'] step_after [of w' r] assms(2) 2(1) by auto
    qed
  qed
qed

lemma step_before:
  assumes "lt \<notin> set u" "lt \<notin> set body" "lt \<notin> set post"
    and "w @ r = u @ ''<think>'' @ body @ ''</think>'' @ post"
  shows "\<exists>out f e. process_loop \<lparr>in_thinking = False, buffer = w\<rparr> = (out, f) \<and> awaits f r e \<and> u @ post = out @ e"
proof -
  consider us where "w @ us = u" "r = us @ ''<think>'' @ body @ ''</think>'' @ post"
    | us where "w = u @ us" "us @ r = ''<think>'' @ body @ ''</think>'' @ post"
    using assms(4) unfolding append_eq_append_conv2 by metis
  then show ?thesis
  proof cases
    case 1
    then have "lt \<notin> set w" "lt \<notin> set us" using assms(1) by auto
    then have "awaits \<lparr>in_thinking = False, buffer = []\<rparr> r (us @ post)"
      using 1 assms(2,3) by (intro awaits.before) auto
    then show ?thesis using process_plain [of w "[]"] \<open>lt \<notin> set w\<close> 1 by auto
  next
    case 2
    show ?thesis
    proof (cases "length us < 7")
      case True
      have "prefix us (us @ r)" "prefix ''<think>'' (us @ r)" by (simp, unfold 2(2), simp)
      then have p: "prefix us ''<think>''" "us \<noteq> ''<think>''"
        using prefix_length_prefix True by (fastforce, auto)
      then have "awaits \<lparr>in_thinking = False, buffer = us\<rparr> r ([] @ post)"
        using True 2(2) assms(2,3) by (intro awaits.before) auto
      then show ?thesis using process_plain [OF assms(1) p] 2(1) by auto
    next
      case False
      then obtain w' where us: "us = ''<think>'' @ w'" "w' @ r = body @ ''</think>'' @ post"
        using append_longer [OF 2(2)] by auto
      then show ?thesis
        using process_open [OF assms(1), of w'] step_inside [OF assms(2,3) us(2)] 2(1) by fastforce
    qed
  qed
qed

lemma awaits_stream: "awaits f (concat cs) e \<Longrightarrow> stream_out f cs = e"
proof (induction cs arbitrary: f e)
  case Nil
  then show ?case by (cases rule: awaits.cases) auto
next
  case (Cons c cs)
  have "\<exists>out f' e'. process_chunk c f = (out, f') \<and> awaits f' (concat cs) e' \<and> e = out @ e'"
    using Cons.prems
  proof (cases rule: awaits.cases)
    case (before u body post b)
    then show ?thesis using step_before [of u body post "b @ c" "concat cs"] by (simp add: process_chunk_def)
  next
    case (inside x b)
    then show ?thesis using step_inside [of x e "b @ c" "concat cs"] by (simp add: process_chunk_def)
  next
    case (after)
    then show ?thesis using step_after [of c "concat cs"] by (auto simp: process_chunk_def)
  qed
  then show ?case using Cons.IH by auto
qed



text \<open>What is held back as the possible start of a tag is never released: a response that ends in an open
  angle bracket loses it.\<close>

lemma trailing_bracket_is_lost: "lt \<notin> set u \<Longrightarrow> stream_out new_filter [u @ ''<''] = u"
  using process_plain [of u "''<''"] by (simp add: new_filter_def process_chunk_def)

section \<open>Blocks of different tags\<close>

text \<open>The opening tags are searched one after the other over the whole text and not by position, so a
  \<open><think>\<close> anywhere makes \<open>strip_thinking\<close> copy everything before it, complete blocks of
  the other tags included.\<close>

theorem strip_thinking_copies_before_think:
  assumes "find_ci ''<think>'' t = Some p"
  shows "prefix (take p t) (strip_loop t)"
  using assms by (subst strip_loop.simps) (simp add: find_open_tag_ascii_def open_tags_def)

theorem strip_thinking_copies_before_think_witness:
  "prefix ''<thought>secret</thought> use '' (strip_loop ''<thought>secret</thought> use <think>'')"
  using strip_thinking_copies_before_think [of "''<thought>secret</thought> use <think>''" 30]
  by (simp add: starts_with_def to_ascii_lowercase_def ascii_lower_def)

end
