(* ===== verification/Turn_Layers.thy ===== *)
theory Turn_Layers
  imports Thinking Cooldowns
begin

text \<open>
  The recovery layers of one turn (\<open>agent/pipeline/behaviour.rs\<close> and their use in
  \<open>agent/pipeline/execute.rs\<close>): which layers interactive and scheduled turns have, the switch to a
  reserve provider of the profile's \<open>text\<close> chain, session recovery, the empty-response retry, the
  auto-continue nudge and the guard against repeating an interrupted tool call.

  The JSON reader of a tool policy and \<open>str::to_lowercase\<close> are parameters; the emitted stream events are not part of the state.  Readings of the clock are
  arguments.
\<close>

section \<open>Policies and layers\<close>

definition AUTO_CONTINUE_NUDGE :: string where
  "AUTO_CONTINUE_NUDGE =
     ''[system] You described remaining steps but didn'' @ [CHR 0x27]
     @ ''t execute them. Continue and complete the task using tools.''"

definition INTERRUPTED_VERIFY_BLOCK_RESULT :: string where
  "INTERRUPTED_VERIFY_BLOCK_RESULT =
     ''Error: blocked by the interrupted-verify guard. The previous turn was interrupted before this tool'' @ [CHR 0x27]
     @ ''s result was recorded, so this action may have ALREADY taken effect. Do NOT blindly repeat it ''
     @ map (char_of :: nat \<Rightarrow> char) [226, 128, 148]
     @ '' first verify the current state with a read-only check (read the file, list the directory/process, inspect the result), then decide whether the action still needs to run.''"

definition INTERRUPTED_VERIFY_TAG :: string where
  "INTERRUPTED_VERIFY_TAG = ''[interrupted:verify]''"

definition NON_IDEMPOTENT_TOOLS :: "string list" where
  "NON_IDEMPOTENT_TOOLS = [''code_exec'', ''process'', ''workspace_delete'', ''workspace_rename'']"

definition is_non_idempotent_tool :: "string \<Rightarrow> bool" where
  "is_non_idempotent_tool name \<longleftrightarrow> name \<in> set NON_IDEMPOTENT_TOOLS"

definition last_tool_result_is_interrupted_verify :: "Message list \<Rightarrow> bool" where
  "last_tool_result_is_interrupted_verify msgs =
     (case find (\<lambda>m. msg_role m = Tool) (rev msgs) of
        None \<Rightarrow> False
      | Some m \<Rightarrow> starts_with INTERRUPTED_VERIFY_TAG (msg_content m))"

definition should_block_interrupted_batch :: "Message list \<Rightarrow> ToolCall list \<Rightarrow> bool" where
  "should_block_interrupted_batch msgs tool_calls \<longleftrightarrow>
     last_tool_result_is_interrupted_verify msgs
     \<and> list_ex (\<lambda>tc. is_non_idempotent_tool (tc_name tc)) tool_calls"

record FallbackPolicy =
  consecutive_failure_threshold :: nat

definition fallback_from_loop_config :: "ToolLoopConfig \<Rightarrow> FallbackPolicy" where
  "fallback_from_loop_config c = \<lparr>consecutive_failure_threshold = max_consecutive_failures c\<rparr>"

record AutoContinuePolicy =
  max_continues :: nat
  retry_on_empty :: bool

definition auto_continue_from_loop_config :: "ToolLoopConfig \<Rightarrow> AutoContinuePolicy" where
  "auto_continue_from_loop_config c = \<lparr>max_continues = max_auto_continues c, retry_on_empty = True\<rparr>"

record 'p BehaviourLayers =
  layer_fallback :: "FallbackPolicy option"
  layer_auto_continue :: "AutoContinuePolicy option"
  layer_session_recovery :: "string option"
  layer_tool_policy_override :: "'p option"
  layer_forced_final_call :: bool
  layer_interrupted_verify_guard :: bool

definition for_interactive :: "ToolLoopConfig \<Rightarrow> string \<Rightarrow> 'p BehaviourLayers" where
  "for_interactive c user_text =
     \<lparr>layer_fallback = Some (fallback_from_loop_config c),
      layer_auto_continue = Some \<lparr>max_continues = 0, retry_on_empty = True\<rparr>,
      layer_session_recovery = Some user_text,
      layer_tool_policy_override = None,
      layer_forced_final_call = False,
      layer_interrupted_verify_guard = False\<rparr>"

definition for_cron ::
  "(json \<Rightarrow> 'p option) \<Rightarrow> ToolLoopConfig \<Rightarrow> string option \<Rightarrow> json option \<Rightarrow> 'p BehaviourLayers" where
  "for_cron parse_policy c msg_text policy_override =
     \<lparr>layer_fallback = Some (fallback_from_loop_config c),
      layer_auto_continue = Some (auto_continue_from_loop_config c),
      layer_session_recovery = Some (case msg_text of None \<Rightarrow> [] | Some t \<Rightarrow> t),
      layer_tool_policy_override = Option.bind policy_override parse_policy,
      layer_forced_final_call = True,
      layer_interrupted_verify_guard = True\<rparr>"

section \<open>Providers of the chain\<close>

record ProviderRow =
  pr_name :: string
  pr_provider_type :: string
  pr_default_model :: "string option"

text \<open>\<open>LlmProvider::name\<close> of the provider that \<open>build_provider\<close> or \<open>build_cli_provider\<close> makes from a row:
  it depends on the row's type only.\<close>

definition instance_name :: "ProviderRow \<Rightarrow> string" where
  "instance_name row =
     (let t = pr_provider_type row in
      if t = ''anthropic'' \<or> t = ''kimi'' then ''anthropic''
      else if t = ''google'' \<or> t = ''gemini'' then ''google''
      else t)"

record LiveProvider =
  lp_name :: string
  lp_model :: "string option"

text \<open>\<open>llm_call::create_fallback_provider\<close>: \<open>rows\<close> is the providers table (\<open>Inl\<close> a database error), \<open>buildable\<close>
  whether the construction from a row succeeds.\<close>

definition create_fallback_provider ::
  "(string \<Rightarrow> unit + ProviderRow option) \<Rightarrow> (ProviderRow \<Rightarrow> bool) \<Rightarrow> string option \<Rightarrow> string option \<Rightarrow>
     LiveProvider option" where
  "create_fallback_provider rows buildable fallback_provider_name model_override =
     (case fallback_provider_name of
        None \<Rightarrow> None
      | Some fb_name \<Rightarrow>
          (case rows fb_name of
             Inl _ \<Rightarrow> None
           | Inr None \<Rightarrow> None
           | Inr (Some row) \<Rightarrow>
               if buildable row then
                 Some \<lparr>lp_name = instance_name row,
                       lp_model = (case model_override of Some m \<Rightarrow> Some m | None \<Rightarrow> pr_default_model row)\<rparr>
               else None))"

record engine =
  eng_primary :: string
  eng_profile :: string
  eng_text_chain :: "SlotEntry list option"
  eng_rows :: "string \<Rightarrow> unit + ProviderRow option"
  eng_buildable :: "ProviderRow \<Rightarrow> bool"

definition engine_create_fallback ::
  "engine \<Rightarrow> (nat \<Rightarrow> instant) \<Rightarrow> nat \<Rightarrow> ProviderCooldowns \<Rightarrow> (LiveProvider \<times> nat) option \<times> ProviderCooldowns" where
  "engine_create_fallback eng clk chain_idx m =
     (case eng_text_chain eng of
        None \<Rightarrow> (None, m)
      | Some chain \<Rightarrow>
          (case resolve_next_uncooled chain clk m chain_idx of
             (None, m') \<Rightarrow> (None, m')
           | (Some (entry, resolved_idx), m') \<Rightarrow>
               (map_option (\<lambda>p. (p, resolved_idx))
                  (create_fallback_provider (eng_rows eng) (eng_buildable eng)
                     (Some (provider entry)) (model entry)), m')))"

text \<open>\<open>slots->'text'\<close> of the profiles table by profile name; \<open>None\<close> without a row or a value.\<close>

type_synonym profiles = "string \<rightharpoonup> json"

definition promote_provider_in_profile :: "string \<Rightarrow> nat \<Rightarrow> profiles \<Rightarrow> profiles" where
  "promote_provider_in_profile profile_name from_idx ps =
     (case Option.bind (ps profile_name) as_array of
        None \<Rightarrow> ps
      | Some arr \<Rightarrow>
          if from_idx = 0 \<or> from_idx \<ge> length arr then ps
          else ps(profile_name \<mapsto> JArr (arr ! from_idx # take from_idx arr @ drop (from_idx + 1) arr)))"

section \<open>State of a turn\<close>

record LayerRuntimeState =
  consecutive_failures :: nat
  using_fallback :: bool
  fallback_provider :: "LiveProvider option"
  fallback_chain_idx :: nat
  did_reset_session :: bool
  auto_continue_count :: nat
  empty_retry_count :: nat

definition initial_layer_state :: LayerRuntimeState where
  "initial_layer_state =
     \<lparr>consecutive_failures = 0, using_fallback = False, fallback_provider = None, fallback_chain_idx = 0,
      did_reset_session = False, auto_continue_count = 0, empty_retry_count = 0\<rparr>"

definition adopt_fallback :: "LiveProvider \<Rightarrow> LayerRuntimeState \<Rightarrow> LayerRuntimeState" where
  "adopt_fallback p ls =
     ls\<lparr>fallback_provider := Some p, using_fallback := True,
        fallback_chain_idx := fallback_chain_idx ls + 1, consecutive_failures := 0\<rparr>"

record turn_state =
  ts_layer :: LayerRuntimeState
  ts_cooldowns :: ProviderCooldowns
  ts_profiles :: profiles
  ts_messages :: "Message list"

definition live_provider_name :: "engine \<Rightarrow> LayerRuntimeState \<Rightarrow> string" where
  "live_provider_name eng ls =
     (case (using_fallback ls, fallback_provider ls) of
        (True, Some fb) \<Rightarrow> lp_name fb
      | _ \<Rightarrow> eng_primary eng)"

text \<open>The check at the start of a turn.\<close>

definition turn_start ::
  "'p BehaviourLayers \<Rightarrow> engine \<Rightarrow> instant \<Rightarrow> (nat \<Rightarrow> instant) \<Rightarrow> turn_state \<Rightarrow> turn_state" where
  "turn_start layers eng now clk ts =
     (if layer_fallback layers = None then ts
      else case is_cooled (eng_primary eng) now (ts_cooldowns ts) of
          (False, m) \<Rightarrow> ts\<lparr>ts_cooldowns := m\<rparr>
        | (True, m) \<Rightarrow>
            (case engine_create_fallback eng clk 0 m of
               (None, m') \<Rightarrow> ts\<lparr>ts_cooldowns := m'\<rparr>
             | (Some (p, resolved_idx), m') \<Rightarrow>
                 ts\<lparr>ts_cooldowns := m',
                    ts_layer := adopt_fallback p ((ts_layer ts)\<lparr>fallback_chain_idx := resolved_idx\<rparr>)\<rparr>))"

section \<open>The end of one model call\<close>

datatype iteration_end = Continue | Fail | Finish string | RunTools

definition llm_ok :: "engine \<Rightarrow> turn_state \<Rightarrow> turn_state" where
  "llm_ok eng ts =
     ts\<lparr>ts_layer := (ts_layer ts)\<lparr>consecutive_failures := 0\<rparr>,
        ts_cooldowns := record_success (live_provider_name eng (ts_layer ts)) (ts_cooldowns ts)\<rparr>"

text \<open>The promotion that a switch persists, as the code does it.\<close>

definition persist_switch :: "engine \<Rightarrow> nat \<Rightarrow> profiles \<Rightarrow> profiles" where
  "persist_switch eng resolved_idx ps =
     (case eng_text_chain eng of
        None \<Rightarrow> ps
      | Some chain \<Rightarrow>
          if resolved_idx > 0 \<and> resolved_idx < length chain
          then promote_provider_in_profile (eng_profile eng) resolved_idx ps else ps)"

definition recover_session :: "string \<Rightarrow> Message list \<Rightarrow> Message list" where
  "recover_session original_user_text msgs =
     filter (\<lambda>m. msg_role m = System) msgs @ [plain_message User original_user_text]"

definition fallback_layer ::
  "FallbackPolicy \<Rightarrow> engine \<Rightarrow> LlmErrorClass \<Rightarrow> instant \<Rightarrow> (nat \<Rightarrow> instant) \<Rightarrow> turn_state \<Rightarrow> bool \<times> turn_state" where
  "fallback_layer policy eng err_class now clk ts =
     (let ls = (ts_layer ts)\<lparr>consecutive_failures := consecutive_failures (ts_layer ts) + 1\<rparr>;
          worthy = is_failover_worthy err_class;
          m = (if worthy then record_failure now (live_provider_name eng ls) err_class (ts_cooldowns ts)
               else ts_cooldowns ts);
          ts1 = ts\<lparr>ts_layer := ls, ts_cooldowns := m\<rparr>
      in if worthy \<or> consecutive_failures ls \<ge> consecutive_failure_threshold policy then
           (case engine_create_fallback eng clk (fallback_chain_idx ls) m of
              (None, m') \<Rightarrow> (False, ts1\<lparr>ts_cooldowns := m'\<rparr>)
            | (Some (p, resolved_idx), m') \<Rightarrow>
                (True, ts1\<lparr>ts_cooldowns := m',
                           ts_layer := adopt_fallback p (ls\<lparr>fallback_chain_idx := resolved_idx\<rparr>),
                           ts_profiles := persist_switch eng resolved_idx (ts_profiles ts1)\<rparr>))
         else (False, ts1))"

definition llm_error ::
  "regexes \<Rightarrow> 'p BehaviourLayers \<Rightarrow> engine \<Rightarrow> instant \<Rightarrow> (nat \<Rightarrow> instant) \<Rightarrow> anyhow \<Rightarrow> turn_state \<Rightarrow>
     iteration_end \<times> turn_state" where
  "llm_error re layers eng now clk e ts =
     (let err_class = classify re e in
      case (layer_session_recovery layers, err_class, did_reset_session (ts_layer ts)) of
        (Some original_user_text, SessionCorruption, False) \<Rightarrow>
          (Continue, ts\<lparr>ts_layer := (ts_layer ts)\<lparr>did_reset_session := True\<rparr>,
                        ts_messages := recover_session original_user_text (ts_messages ts)\<rparr>)
      | _ \<Rightarrow>
          (case layer_fallback layers of
             None \<Rightarrow> (Fail, ts)
           | Some policy \<Rightarrow>
               (case fallback_layer policy eng err_class now clk ts of
                  (True, ts') \<Rightarrow> (Continue, ts')
                | (False, ts') \<Rightarrow> (Fail, ts'))))"

section \<open>The response of one model call\<close>

definition is_upstream_empty_garbage :: "string \<Rightarrow> bool" where
  "is_upstream_empty_garbage t \<longleftrightarrow> starts_with ''(Empty response:'' (trim_start t)"

text \<open>A response without tool calls: retried when empty, nudged when it looks unfinished, or final.\<close>

definition no_tools_response ::
  "(string \<Rightarrow> string) \<Rightarrow> 'p BehaviourLayers \<Rightarrow> string \<Rightarrow> turn_state \<Rightarrow> iteration_end \<times> turn_state" where
  "no_tools_response lower layers partial ts =
     (let s0 = strip_thinking partial;
          stripped = (if is_upstream_empty_garbage s0 then [] else s0);
          ls = ts_layer ts
      in case layer_auto_continue layers of
           None \<Rightarrow> (Finish stripped, ts)
         | Some ac \<Rightarrow>
             if retry_on_empty ac \<and> stripped = [] \<and> empty_retry_count ls < 1 then
               (Continue, ts\<lparr>ts_layer := ls\<lparr>empty_retry_count := empty_retry_count ls + 1\<rparr>\<rparr>)
             else if auto_continue_count ls < max_continues ac \<and> stripped \<noteq> [] \<and> looks_incomplete lower stripped then
               (Continue, ts\<lparr>ts_layer := ls\<lparr>auto_continue_count := auto_continue_count ls + 1\<rparr>,
                             ts_messages := ts_messages ts @ [plain_message User AUTO_CONTINUE_NUDGE]\<rparr>)
             else (Finish stripped, ts))"

definition assistant_message :: "string \<Rightarrow> ToolCall list \<Rightarrow> (string \<times> string) list \<Rightarrow> Message" where
  "assistant_message partial tool_calls thinking_blocks =
     (plain_message Assistant (strip_thinking partial))
       \<lparr>msg_tool_calls := Some tool_calls, msg_thinking_blocks := thinking_blocks\<rparr>"

definition blocked_message :: "ToolCall \<Rightarrow> Message" where
  "blocked_message tc = (plain_message Tool INTERRUPTED_VERIFY_BLOCK_RESULT)\<lparr>msg_tool_call_id := Some (tc_id tc)\<rparr>"

text \<open>A response with tool calls: appended, then refused by the guard or handed to the executor.\<close>

definition tools_response ::
  "'p BehaviourLayers \<Rightarrow> string \<Rightarrow> ToolCall list \<Rightarrow> (string \<times> string) list \<Rightarrow> turn_state \<Rightarrow>
     iteration_end \<times> turn_state" where
  "tools_response layers partial tool_calls thinking_blocks ts =
     (let msgs = ts_messages ts @ [assistant_message partial tool_calls thinking_blocks]
      in if layer_interrupted_verify_guard layers \<and> should_block_interrupted_batch msgs tool_calls then
           (Continue, ts\<lparr>ts_messages := msgs @ map blocked_message tool_calls\<rparr>)
         else (RunTools, ts\<lparr>ts_messages := msgs\<rparr>))"

section \<open>One iteration of the turn loop\<close>

datatype llm_outcome =
    LlmErr anyhow instant "nat \<Rightarrow> instant"
  | LlmText string
  | LlmTools string "ToolCall list" "(string \<times> string) list"

fun iteration ::
  "regexes \<Rightarrow> (string \<Rightarrow> string) \<Rightarrow> 'p BehaviourLayers \<Rightarrow> engine \<Rightarrow> llm_outcome \<Rightarrow> turn_state \<Rightarrow>
     iteration_end \<times> turn_state" where
  "iteration re lower layers eng (LlmErr e now clk) ts = llm_error re layers eng now clk e ts"
| "iteration re lower layers eng (LlmText partial) ts =
     no_tools_response lower layers partial (llm_ok eng ts)"
| "iteration re lower layers eng (LlmTools partial tcs tbs) ts =
     tools_response layers partial tcs tbs (llm_ok eng ts)"

text \<open>The iterations that continue the loop without running a tool, for a sequence of outcomes.\<close>

fun overhead ::
  "regexes \<Rightarrow> (string \<Rightarrow> string) \<Rightarrow> 'p BehaviourLayers \<Rightarrow> engine \<Rightarrow> llm_outcome list \<Rightarrow> turn_state \<Rightarrow> nat" where
  "overhead re lower layers eng [] ts = 0"
| "overhead re lower layers eng (x # xs) ts =
     (case iteration re lower layers eng x ts of
        (Continue, ts') \<Rightarrow> Suc (overhead re lower layers eng xs ts')
      | _ \<Rightarrow> 0)"

section \<open>A turn ends\<close>

lemma resolve_bounds:
  "fst (resolve_next_uncooled chain clk m idx) = Some (e, j) \<Longrightarrow>
   idx \<le> j \<and> 1 + j < length chain \<and> e = chain ! (1 + j)"
proof (induction chain clk m idx rule: resolve_next_uncooled.induct)
  case (1 chain clk m idx)
  show ?case
  proof (cases "1 + idx < length chain \<and> cooled_at m (provider (chain ! (1 + idx))) (clk idx)")
    case True
    define mm where "mm = snd (is_cooled (provider (chain ! (1 + idx))) (clk idx) m)"
    have c: "is_cooled (provider (chain ! (1 + idx))) (clk idx) m = (True, mm)"
      using True fst_is_cooled [of "provider (chain ! (1 + idx))" "clk idx" m]
      by (simp add: mm_def prod_eq_iff)
    have "fst (resolve_next_uncooled chain clk mm (idx + 1)) = Some (e, j)"
      using "1.prems" True by (simp add: resolve_step mm_def)
    then show ?thesis using "1.IH" [OF _ refl c [symmetric] refl] True by simp
  next
    case False
    then show ?thesis using "1.prems"
      by (cases "1 + idx < length chain") (auto simp: resolve_step resolve_end)
  qed
qed

lemma engine_create_fallback_Some:
  assumes "engine_create_fallback eng clk idx m = (Some (p, j), m')"
  shows "\<exists>chain. eng_text_chain eng = Some chain \<and> idx \<le> j \<and> 1 + j < length chain \<and>
           create_fallback_provider (eng_rows eng) (eng_buildable eng)
             (Some (provider (chain ! (1 + j)))) (model (chain ! (1 + j))) = Some p"
proof -
  obtain chain where chain: "eng_text_chain eng = Some chain"
    using assms by (auto simp: engine_create_fallback_def split: option.splits)
  obtain e where e: "fst (resolve_next_uncooled chain clk m idx) = Some (e, j)"
    "create_fallback_provider (eng_rows eng) (eng_buildable eng) (Some (provider e)) (model e) = Some p"
    using assms by (auto simp: engine_create_fallback_def chain split: prod.splits option.splits)
  then show ?thesis using chain resolve_bounds [OF e(1)] by auto
qed

text \<open>What is left of the one-shot and bounded resources of the layers.\<close>

definition reserves :: "engine \<Rightarrow> nat" where
  "reserves eng = (case eng_text_chain eng of None \<Rightarrow> 0 | Some chain \<Rightarrow> length chain - 1)"

definition continues :: "'p BehaviourLayers \<Rightarrow> nat" where
  "continues layers = (case layer_auto_continue layers of None \<Rightarrow> 0 | Some ac \<Rightarrow> max_continues ac)"

definition resources :: "'p BehaviourLayers \<Rightarrow> engine \<Rightarrow> turn_state \<Rightarrow> nat" where
  "resources layers eng ts =
     (reserves eng - fallback_chain_idx (ts_layer ts))
     + (if did_reset_session (ts_layer ts) then 0 else 1)
     + (1 - empty_retry_count (ts_layer ts))
     + (continues layers - auto_continue_count (ts_layer ts))
     + (if last_tool_result_is_interrupted_verify (ts_messages ts) then 1 else 0)"

lemma last_tool_append_other:
  "msg_role x \<noteq> Tool \<Longrightarrow>
   last_tool_result_is_interrupted_verify (ms @ [x]) = last_tool_result_is_interrupted_verify ms"
  by (simp add: last_tool_result_is_interrupted_verify_def)

lemma last_tool_recover: "\<not> last_tool_result_is_interrupted_verify (recover_session u ms)"
proof -
  have "find (\<lambda>m. msg_role m = Tool) (rev (recover_session u ms)) = None"
    by (auto simp: find_None_iff recover_session_def plain_message_def)
  then show ?thesis by (simp add: last_tool_result_is_interrupted_verify_def)
qed

lemma block_result_no_tag: "\<not> starts_with INTERRUPTED_VERIFY_TAG INTERRUPTED_VERIFY_BLOCK_RESULT"
  by (simp add: starts_with_def INTERRUPTED_VERIFY_TAG_def INTERRUPTED_VERIFY_BLOCK_RESULT_def)

lemma last_tool_blocked:
  assumes "tcs \<noteq> []"
  shows "\<not> last_tool_result_is_interrupted_verify (ms @ map blocked_message tcs)"
proof -
  obtain tcs' tc where "tcs = tcs' @ [tc]" using assms by (cases tcs rule: rev_cases) auto
  then show ?thesis using block_result_no_tag
    by (simp add: last_tool_result_is_interrupted_verify_def blocked_message_def plain_message_def)
qed

lemma resources_llm_ok [simp]: "resources layers eng (llm_ok eng ts) = resources layers eng ts"
  by (simp add: resources_def llm_ok_def)

lemma fallback_layer_switch:
  assumes "fallback_layer policy eng c now clk ts = (True, ts')"
  shows "\<exists>chain p j. eng_text_chain eng = Some chain \<and> fallback_chain_idx (ts_layer ts) \<le> j
           \<and> 1 + j < length chain
           \<and> create_fallback_provider (eng_rows eng) (eng_buildable eng)
               (Some (provider (chain ! (1 + j)))) (model (chain ! (1 + j))) = Some p
           \<and> ts_layer ts' = (ts_layer ts)\<lparr>consecutive_failures := 0, using_fallback := True,
               fallback_provider := Some p, fallback_chain_idx := 1 + j\<rparr>
           \<and> ts_profiles ts' = persist_switch eng j (ts_profiles ts)
           \<and> ts_messages ts' = ts_messages ts"
proof -
  define ls where "ls = (ts_layer ts)\<lparr>consecutive_failures := consecutive_failures (ts_layer ts) + 1\<rparr>"
  define m where "m = (if is_failover_worthy c then record_failure now (live_provider_name eng ls) c (ts_cooldowns ts)
    else ts_cooldowns ts)"
  obtain r m' where f: "engine_create_fallback eng clk (fallback_chain_idx ls) m = (r, m')" by fastforce
  obtain p j where r: "r = Some (p, j)"
      "ts_layer ts' = adopt_fallback p (ls\<lparr>fallback_chain_idx := j\<rparr>)"
      "ts_profiles ts' = persist_switch eng j (ts_profiles ts)" "ts_messages ts' = ts_messages ts"
    using assms f
    by (auto simp: fallback_layer_def Let_def ls_def m_def split: if_splits option.splits)
  obtain chain where "eng_text_chain eng = Some chain" "fallback_chain_idx ls \<le> j" "1 + j < length chain"
      "create_fallback_provider (eng_rows eng) (eng_buildable eng)
         (Some (provider (chain ! (1 + j)))) (model (chain ! (1 + j))) = Some p"
    using engine_create_fallback_Some [OF f [unfolded r(1)]] by blast
  then show ?thesis using r
    by (intro exI [of _ chain] exI [of _ p] exI [of _ j]) (simp add: ls_def adopt_fallback_def)
qed

lemma llm_error_decreases:
  assumes "llm_error re layers eng now clk e ts = (Continue, ts')"
  shows "resources layers eng ts' < resources layers eng ts"
proof (cases "\<exists>u. layer_session_recovery layers = Some u \<and> classify re e = SessionCorruption
                \<and> \<not> did_reset_session (ts_layer ts)")
  case True
  then obtain u where "ts' = ts\<lparr>ts_layer := (ts_layer ts)\<lparr>did_reset_session := True\<rparr>,
        ts_messages := recover_session u (ts_messages ts)\<rparr>"
    using assms by (auto simp: llm_error_def)
  then show ?thesis using True by (simp add: resources_def last_tool_recover)
next
  case False
  then obtain policy where "fallback_layer policy eng (classify re e) now clk ts = (True, ts')"
    using assms
    by (auto simp: llm_error_def Let_def split: option.splits prod.splits bool.splits LlmErrorClass.splits)
  from fallback_layer_switch [OF this] show ?thesis
    by (auto simp: resources_def reserves_def)
qed

lemma iteration_decreases:
  assumes "iteration re lower layers eng x ts = (Continue, ts')"
  shows "resources layers eng ts' < resources layers eng ts"
proof (cases x)
  case (LlmErr e now clk)
  then show ?thesis using assms llm_error_decreases by simp
next
  case (LlmText partial)
  define t where "t = llm_ok eng ts"
  have "no_tools_response lower layers partial t = (Continue, ts')" using assms LlmText by (simp add: t_def)
  then have "resources layers eng ts' < resources layers eng t"
    by (auto simp: no_tools_response_def Let_def resources_def continues_def last_tool_append_other plain_message_def
        split: option.splits if_splits)
  then show ?thesis by (simp add: t_def)
next
  case (LlmTools partial tcs tbs)
  define t where "t = llm_ok eng ts"
  define ms where "ms = ts_messages t @ [assistant_message partial tcs tbs]"
  have "tools_response layers partial tcs tbs t = (Continue, ts')" using assms LlmTools by (simp add: t_def)
  then have "should_block_interrupted_batch ms tcs" "ts' = t\<lparr>ts_messages := ms @ map blocked_message tcs\<rparr>"
    by (auto simp: tools_response_def Let_def ms_def split: if_splits)
  moreover have "last_tool_result_is_interrupted_verify ms = last_tool_result_is_interrupted_verify (ts_messages t)"
    by (simp add: ms_def last_tool_append_other assistant_message_def plain_message_def)
  ultimately have "resources layers eng ts' < resources layers eng t"
    using last_tool_blocked [of tcs ms] by (cases tcs) (auto simp: resources_def should_block_interrupted_batch_def)
  then show ?thesis by (simp add: t_def)
qed

lemma overhead_le_resources: "overhead re lower layers eng xs ts \<le> resources layers eng ts"
proof (induction xs arbitrary: ts)
  case (Cons x xs)
  show ?case
  proof (cases "iteration re lower layers eng x ts")
    case (Pair r ts')
    show ?thesis
    proof (cases "r = Continue")
      case True
      then show ?thesis using Pair Cons.IH [of ts'] iteration_decreases [of re lower layers eng x ts ts'] by simp
    next
      case False
      then show ?thesis using Pair by (cases r) simp_all
    qed
  qed
qed simp

text \<open>C26. The recovery layers cannot keep a turn alive: whatever the provider answers, at most one
  iteration for each reserve of the chain and each allowed nudge, one session reset, one empty retry
  and one refusal of the interrupted-call guard go by before the turn fails, ends or runs a tool.\<close>

theorem turn_overhead_bounded:
  "overhead re lower layers eng xs ts \<le> reserves eng + continues layers + 3"
  using overhead_le_resources [of re lower layers eng xs ts] by (simp add: resources_def split: if_splits)

section \<open>What a switch persists\<close>

text \<open>A switch makes the reserve at position \<open>i\<close> of the chain the live provider, but when it persists
  the switch it moves the entry before it, at \<open>i - 1\<close>, to the front of the profile: the entry that has
  just failed or was skipped as cooled becomes the primary of later turns, not the one that works.\<close>

theorem switch_promotes_predecessor:
  assumes "fallback_layer policy eng c now clk ts = (True, ts')"
    and "eng_text_chain eng = Some chain"
    and "ts_profiles ts (eng_profile eng) = Some (JArr arr)" and "length arr = length chain"
    and "i = fallback_chain_idx (ts_layer ts')" and "2 \<le> i"
  shows "fallback_provider (ts_layer ts') =
           create_fallback_provider (eng_rows eng) (eng_buildable eng) (Some (provider (chain ! i))) (model (chain ! i))
         \<and> ts_profiles ts' (eng_profile eng) = Some (JArr (arr ! (i - 1) # take (i - 1) arr @ drop i arr))"
proof -
  obtain p j where j: "1 + j < length chain" "i = 1 + j"
      "create_fallback_provider (eng_rows eng) (eng_buildable eng)
         (Some (provider (chain ! (1 + j)))) (model (chain ! (1 + j))) = Some p"
      "fallback_provider (ts_layer ts') = Some p" "ts_profiles ts' = persist_switch eng j (ts_profiles ts)"
    using fallback_layer_switch [OF assms(1)] assms(2,5) by auto
  then show ?thesis using assms(2-4,6)
    by (simp add: persist_switch_def promote_provider_in_profile_def)
qed

definition demo_engine :: engine where
  "demo_engine =
     \<lparr>eng_primary = ''openai'', eng_profile = ''default'',
      eng_text_chain = Some (map (\<lambda>n. \<lparr>provider = n, model = None, voice = None\<rparr>) [''a'', ''b'', ''c'']),
      eng_rows = (\<lambda>n. Inr (Some \<lparr>pr_name = n, pr_provider_type = ''openai'', pr_default_model = None\<rparr>)),
      eng_buildable = (\<lambda>_. True)\<rparr>"

definition demo_turn :: turn_state where
  "demo_turn =
     \<lparr>ts_layer = initial_layer_state\<lparr>fallback_chain_idx := 1\<rparr>, ts_cooldowns = Map.empty,
      ts_profiles = [''default'' \<mapsto> JArr [JStr ''a'', JStr ''b'', JStr ''c'']], ts_messages = []\<rparr>"

theorem switch_promotes_predecessor_witness:
  "\<exists>ts'. fallback_layer \<lparr>consecutive_failure_threshold = 3\<rparr> demo_engine RateLimit 0 (\<lambda>_. 0) demo_turn = (True, ts')
     \<and> fallback_provider (ts_layer ts') =
         create_fallback_provider (eng_rows demo_engine) (eng_buildable demo_engine) (Some ''c'') None
     \<and> ts_profiles ts' ''default'' = Some (JArr [JStr ''b'', JStr ''a'', JStr ''c''])"
proof -
  obtain r ts' where run:
    "fallback_layer \<lparr>consecutive_failure_threshold = 3\<rparr> demo_engine RateLimit 0 (\<lambda>_. 0) demo_turn = (r, ts')"
    by fastforce
  then have "r = True" "fallback_chain_idx (ts_layer ts') = 2"
    by (auto simp: fallback_layer_def demo_engine_def demo_turn_def engine_create_fallback_def initial_layer_state_def
        resolve_next_uncooled.simps is_cooled_def record_failure_def insert_cooldown_def live_provider_name_def
        create_fallback_provider_def adopt_fallback_def Let_def split: if_splits)
  then show ?thesis
    using run switch_promotes_predecessor
      [of "\<lparr>consecutive_failure_threshold = 3\<rparr>" demo_engine RateLimit 0 "\<lambda>_. 0" demo_turn ts'
        "map (\<lambda>n. \<lparr>provider = n, model = None, voice = None\<rparr>) [''a'', ''b'', ''c'']"
        "[JStr ''a'', JStr ''b'', JStr ''c'']" 2]
    by (simp add: demo_engine_def demo_turn_def numeral_2_eq_2)
qed

section \<open>Names of providers\<close>

lemma resolve_cong:
  "(\<And>e. e \<in> set chain \<Longrightarrow> m (provider e) = m' (provider e)) \<Longrightarrow>
   fst (resolve_next_uncooled chain clk m idx) = fst (resolve_next_uncooled chain clk m' idx)"
proof (induction "length chain - idx" arbitrary: m m' idx)
  case 0
  then show ?case by (simp add: resolve_end)
next
  case (Suc n)
  show ?case
  proof (cases "1 + idx < length chain")
    case True
    define q where "q = provider (chain ! (1 + idx))"
    have q: "m q = m' q" using Suc.prems True by (simp add: q_def)
    have "fst (resolve_next_uncooled chain clk (snd (is_cooled q (clk idx) m)) (Suc idx))
          = fst (resolve_next_uncooled chain clk (snd (is_cooled q (clk idx) m')) (Suc idx))"
      using Suc.hyps(2) Suc.prems q by (intro Suc.hyps(1)) (auto simp: is_cooled_def split: option.splits)
    then show ?thesis
      using q unfolding resolve_step [OF True] q_def [symmetric] cooled_at_def by auto
  qed (simp add: resolve_end)
qed

text \<open>The registry is written under the name of the provider instance, which is its type, and the
  chain is looked up under the names of the provider rows.  Unless a row of the chain happens to be
  named like that type, a recorded failure changes nothing for the walk of the chain: the reserve that
  has just failed is chosen again.\<close>

theorem recorded_failure_is_not_found:
  assumes "\<forall>e \<in> set chain. provider e \<noteq> instance_name row"
  shows "fst (resolve_next_uncooled chain clk (record_failure now (instance_name row) c m) idx) =
         fst (resolve_next_uncooled chain clk m idx)"
  using assms by (intro resolve_cong) (simp add: record_failure_def insert_cooldown_def)

theorem recorded_failure_is_not_found_witness:
  "fst (resolve_next_uncooled
          (map (\<lambda>n. \<lparr>provider = n, model = None, voice = None\<rparr>) [''main'', ''zai-backup'']) (\<lambda>_. 5)
          (record_failure 0 (instance_name \<lparr>pr_name = ''zai-backup'', pr_provider_type = ''openai'', pr_default_model = None\<rparr>)
             RateLimit new_cooldowns) 0)
   = Some (\<lparr>provider = ''zai-backup'', model = None, voice = None\<rparr>, 0)"
  using recorded_failure_is_not_found
    [of "map (\<lambda>n. \<lparr>provider = n, model = None, voice = None\<rparr>) [''main'', ''zai-backup'']"
      "\<lparr>pr_name = ''zai-backup'', pr_provider_type = ''openai'', pr_default_model = None\<rparr>" "\<lambda>_. 5" 0 RateLimit
      new_cooldowns 0]
  by (simp add: instance_name_def resolve_next_uncooled.simps new_cooldowns_def is_cooled_def)

section \<open>The guard against repeating an interrupted call\<close>

text \<open>After a crash, a scheduled turn never repeats a tool with lasting effects blindly: when the last
  tool result is the one that crash recovery writes for a lost call, a batch with such a tool is not
  run but answered with the refusal for each of its calls, and the next batch is let through.\<close>

theorem interrupted_guard_fires_once:
  assumes "find (\<lambda>m. msg_role m = Tool) (rev (ts_messages ts)) = Some m"
    and "msg_content m = INTERRUPTED_TOOL_RESULT"
    and "tc \<in> set tcs" and "is_non_idempotent_tool (tc_name tc)"
  shows "\<exists>ts'. tools_response (for_cron parse cfg txt pol) partial tcs tbs ts = (Continue, ts')
           \<and> ts_messages ts' = ts_messages ts @ [assistant_message partial tcs tbs] @ map blocked_message tcs
           \<and> fst (tools_response (for_cron parse cfg txt pol) partial' tcs' tbs' ts') = RunTools"
proof -
  define ms where "ms = ts_messages ts @ [assistant_message partial tcs tbs]"
  have "last_tool_result_is_interrupted_verify (ts_messages ts)"
    using assms(1,2)
    by (simp add: last_tool_result_is_interrupted_verify_def INTERRUPTED_TOOL_RESULT_def INTERRUPTED_VERIFY_TAG_def
        starts_with_def)
  then have "should_block_interrupted_batch ms tcs"
    using assms(3,4)
    by (auto simp: ms_def should_block_interrupted_batch_def last_tool_append_other assistant_message_def
        plain_message_def list_ex_iff)
  then have first: "tools_response (for_cron parse cfg txt pol) partial tcs tbs ts =
      (Continue, ts\<lparr>ts_messages := ms @ map blocked_message tcs\<rparr>)"
    by (simp add: tools_response_def for_cron_def ms_def)
  have "\<not> last_tool_result_is_interrupted_verify ((ms @ map blocked_message tcs) @ [assistant_message partial' tcs' tbs'])"
    using last_tool_blocked [of tcs ms] list.set_cases [OF assms(3)]
    by (subst last_tool_append_other) (auto simp: assistant_message_def plain_message_def)
  then have "fst (tools_response (for_cron parse cfg txt pol) partial' tcs' tbs'
      (ts\<lparr>ts_messages := ms @ map blocked_message tcs\<rparr>)) = RunTools"
    by (simp add: tools_response_def should_block_interrupted_batch_def)
  then show ?thesis using first by (simp add: ms_def)
qed

theorem interrupted_guard_fires_once_witness:
  "\<exists>ts'. tools_response (for_cron (\<lambda>_. Some ()) default_config None None) ''again''
           [\<lparr>tc_id = ''t2'', tc_name = ''code_exec'', tc_arguments = JObj []\<rparr>] []
           (demo_turn\<lparr>ts_messages := [plain_message Tool INTERRUPTED_TOOL_RESULT]\<rparr>) = (Continue, ts')"
  using interrupted_guard_fires_once
    [of "demo_turn\<lparr>ts_messages := [plain_message Tool INTERRUPTED_TOOL_RESULT]\<rparr>"
      "plain_message Tool INTERRUPTED_TOOL_RESULT" "\<lparr>tc_id = ''t2'', tc_name = ''code_exec'', tc_arguments = JObj []\<rparr>"
      "[\<lparr>tc_id = ''t2'', tc_name = ''code_exec'', tc_arguments = JObj []\<rparr>]" "\<lambda>_. Some ()" default_config None None
      "''again''" "[]" "[]" "[]" "[]"]
  by (fastforce simp: plain_message_def is_non_idempotent_tool_def NON_IDEMPOTENT_TOOLS_def)

end
