(* ===== verification/Context_Window.thy ===== *)
theory Context_Window
  imports Llm_Call "HOL-Library.AList" "HOL-Library.Log_Nat"
begin

text \<open>
  The context window of a model and the texts that are cut to fit it: the discovery of the window
  with its process-wide cache (\<open>agent/pipeline/llm_call.rs\<close>), and the truncation and replacement of
  tool results (\<open>agent/pipeline/context.rs\<close>).

  The cache is an association list with distinct keys; its lock is never poisoned, since no code
  that holds it can panic.  A byte count (\<open>usize\<close>) is a \<^typ>\<open>nat\<close>: the products with 4, 50 and 70
  of the code stay far below \<open>2^64\<close> for strings that fit in memory.
\<close>

section \<open>Double precision\<close>

text \<open>A finite \<open>f64\<close> is its value.  An operation yields the exact result rounded to the nearest value
  with a 53-bit significand, ties to even; below \<open>2^-1022\<close> the spacing stays \<open>2^-1074\<close>.  A result
  beyond the largest double is kept as a number instead of an infinity, which every conversion to an
  integer saturates in the same way.  NaN is not modelled.\<close>

definition round_even :: "rat \<Rightarrow> int" where
  "round_even x =
     (let f = \<lfloor>x\<rfloor>; d = x - of_int f
      in if d < 1 / 2 then f else if d > 1 / 2 then f + 1 else if even f then f else f + 1)"

text \<open>The binary exponent of a positive rational.\<close>

definition rat_exponent :: "rat \<Rightarrow> int" where
  "rat_exponent x =
     (let (p, q) = quotient_of x; e = int (floorlog 2 (nat p)) - int (floorlog 2 (nat q))
      in if 2 powi e \<le> x then e else e - 1)"

definition f64_round :: "rat \<Rightarrow> rat" where
  "f64_round x =
     (if x = 0 then 0
      else let u = 2 powi (max (rat_exponent \<bar>x\<bar> - 52) (- 1074)) in of_int (round_even (x / u)) * u)"

definition f64_mul :: "rat \<Rightarrow> rat \<Rightarrow> rat" where
  "f64_mul x y = f64_round (x * y)"

definition f64_div :: "rat \<Rightarrow> rat \<Rightarrow> rat" where
  "f64_div x y = f64_round (x / y)"

text \<open>\<open>x as u32\<close> and \<open>x as usize\<close>: toward zero, saturating at both ends.\<close>

definition f64_as_uint :: "nat \<Rightarrow> rat \<Rightarrow> nat" where
  "f64_as_uint w x = min (nat \<lfloor>x\<rfloor>) (2 ^ w - 1)"

section \<open>The window of a model\<close>

definition default_context_for_model :: "string \<Rightarrow> nat" where
  "default_context_for_model model =
     (let m = to_ascii_lowercase model in
      if contains_str ''gpt-4.1'' m \<or> contains_str ''gpt-5'' m then 1047576
      else if contains_str ''gpt-4'' m \<or> contains_str ''gpt-3.5'' m \<or> contains_str ''o1'' m
              \<or> contains_str ''o3'' m \<or> contains_str ''o4'' m then 128000
      else if contains_str ''claude'' m then 200000
      else if contains_str ''gemini'' m then 1000000
      else if contains_str ''kimi-k2'' m then 262144
      else if contains_str ''kimi'' m then 131072
      else if contains_str ''minimax'' m then 200000
      else if contains_str ''glm-5.2'' m then 1048576
      else if contains_str ''glm-5'' m then 202752
      else if contains_str ''glm'' m then 200000
      else if contains_str ''deepseek'' m then 128000
      else if contains_str ''qwen'' m then 131072
      else 128000)"

record CachedLimit =
  cl_value :: "32 word"
  cl_is_fallback :: bool
  cl_at :: instant

text \<open>Five minutes; instants are milliseconds.\<close>

definition FALLBACK_TTL :: nat where "FALLBACK_TTL = 300000"

type_synonym limit_cache = "(string \<times> CachedLimit) list"

definition cache_context_limit ::
  "string \<Rightarrow> 32 word \<Rightarrow> bool \<Rightarrow> instant \<Rightarrow> limit_cache \<Rightarrow> limit_cache" where
  "cache_context_limit key v is_fallback now =
     AList.update key \<lparr>cl_value = v, cl_is_fallback = is_fallback, cl_at = now\<rparr>"

definition limit_key :: "string \<Rightarrow> string \<Rightarrow> string" where
  "limit_key provider model = provider @ ''::'' @ model"

definition fresh_entry :: "instant \<Rightarrow> CachedLimit \<Rightarrow> bool" where
  "fresh_entry now c \<longleftrightarrow> \<not> cl_is_fallback c \<or> now - cl_at c < FALLBACK_TTL"

text \<open>\<open>resolve_context_limit\<close>.  \<open>override\<close> and \<open>catalog\<close> are the answers of the operator's setting and of
  the catalogue, \<open>hint\<close> is what the provider's network probe answers if it is asked; the clock is read
  once for the age of the cached value and once for the entry that is written.\<close>

definition resolve_context_limit ::
  "string \<Rightarrow> string \<Rightarrow> 32 word option \<Rightarrow> 32 word option \<Rightarrow> 32 word option \<Rightarrow> instant \<Rightarrow> instant \<Rightarrow>
     limit_cache \<Rightarrow> 32 word \<times> limit_cache" where
  "resolve_context_limit provider model override catalog hint t_read t_write cache =
     (let key = limit_key provider model in
      case override of
        Some v \<Rightarrow> (v, cache_context_limit key v False t_write cache)
      | None \<Rightarrow>
          (case catalog of
             Some v \<Rightarrow> (v, cache_context_limit key v False t_write cache)
           | None \<Rightarrow>
               (let probe = (let (v, fb) = (case hint of Some v \<Rightarrow> (v, False)
                                            | None \<Rightarrow> (of_nat (default_context_for_model model), True))
                             in (v, cache_context_limit key v fb t_write cache))
                in case map_of cache key of
                     Some c \<Rightarrow> if fresh_entry t_read c then (cl_value c, cache) else probe
                   | None \<Rightarrow> probe)))"

definition entries_of :: "string \<Rightarrow> limit_cache \<Rightarrow> limit_cache" where
  "entries_of model cache = filter (\<lambda>(key, c). ends_with (''::'' @ model) key) cache"

definition context_limit_tokens :: "limit_cache \<Rightarrow> string \<Rightarrow> 32 word" where
  "context_limit_tokens cache model =
     (case map (cl_value \<circ> snd) (entries_of model cache) of
        [] \<Rightarrow> of_nat (default_context_for_model model)
      | v # vs \<Rightarrow> fold min vs v)"

section \<open>Tool results\<close>

text \<open>\<open>s.chars().count()\<close>: the bytes that do not continue a code point.\<close>

definition continues :: "char \<Rightarrow> bool" where
  "continues c \<longleftrightarrow> 128 \<le> (of_char c :: nat) \<and> (of_char c :: nat) < 192"

definition char_count :: "string \<Rightarrow> nat" where
  "char_count s = length (filter (\<lambda>c. \<not> continues c) s)"

definition truncate_preview :: "string \<Rightarrow> nat \<Rightarrow> string" where
  "truncate_preview s mx =
     (if char_count s \<le> mx then s
      else if mx < 4 then take_chars mx s
      else take_chars (mx - 3) s @ ''...'')"

definition tail_has_error :: "string \<Rightarrow> bool" where
  "tail_has_error region \<longleftrightarrow>
     contains_str ''error'' region \<or> contains_str ''Error'' region
     \<or> contains_str ''failed'' region \<or> contains_str ''exception'' region"

definition truncation_limit :: "limit_cache \<Rightarrow> string \<Rightarrow> nat \<Rightarrow> nat" where
  "truncation_limit cache model current_context_chars =
     max ((unat (context_limit_tokens cache model) * 4 - current_context_chars) * 50 div 100) 2000"

definition truncation_marker :: "nat \<Rightarrow> nat \<Rightarrow> string" where
  "truncation_marker n limit =
     [CHR 0x0A, CHR 0x0A] @ ''[... truncated '' @ nat_str n @ '' '' @ utf8 [0xE2, 0x86, 0x92] @ '' ''
       @ nat_str limit @ '' chars ...]'' @ [CHR 0x0A, CHR 0x0A]"

definition truncate_tool_result :: "limit_cache \<Rightarrow> string \<Rightarrow> string \<Rightarrow> nat \<Rightarrow> string" where
  "truncate_tool_result cache model result current_context_chars =
     (let limit = truncation_limit cache model current_context_chars; n = length result in
      if n \<le> limit then result
      else let tail_region = drop (floor_char_boundary result (n - 1500)) result;
               tail_size = (if tail_has_error tail_region then 1500 else 500);
               marker = truncation_marker n limit;
               head_size = limit - tail_size - length marker;
               head = take (floor_char_boundary result head_size) result;
               tail = drop (floor_char_boundary result (n - tail_size)) result
           in head @ marker @ tail)"

text \<open>\<open>CompactionConfig\<close>.\<close>

record CompactionConfig =
  cc_enabled :: bool
  cc_threshold :: rat
  cc_preserve_tool_calls :: bool
  cc_preserve_last_n :: "32 word"
  cc_max_context_tokens :: "32 word option"
  cc_protect_first_n :: nat
  cc_summary_target_ratio :: rat
  cc_anti_thrash_min_savings :: rat
  cc_anti_thrash_max_skips :: "8 word"
  cc_extract_to_memory :: bool

definition default_compaction :: CompactionConfig where
  "default_compaction =
     \<lparr>cc_enabled = True, cc_threshold = f64_round (8 / 10), cc_preserve_tool_calls = False,
      cc_preserve_last_n = 10, cc_max_context_tokens = None, cc_protect_first_n = 3,
      cc_summary_target_ratio = f64_round (20 / 100), cc_anti_thrash_min_savings = f64_round (10 / 100),
      cc_anti_thrash_max_skips = 2, cc_extract_to_memory = True\<rparr>"

definition preserve_last_n :: "CompactionConfig option \<Rightarrow> nat" where
  "preserve_last_n cfg = (case cfg of None \<Rightarrow> 10 | Some c \<Rightarrow> unat (cc_preserve_last_n c))"

definition compaction_params :: "limit_cache \<Rightarrow> string \<Rightarrow> CompactionConfig option \<Rightarrow> nat \<times> nat" where
  "compaction_params cache model cfg =
     (case Option.bind cfg cc_max_context_tokens of
        Some t \<Rightarrow> unat t
      | None \<Rightarrow> unat (context_limit_tokens cache model),
      preserve_last_n cfg)"

definition compacted_text :: string where "compacted_text = ''[tool result compacted]''"

text \<open>The loop over the first \<open>k\<close> tool results: the messages with the long ones replaced, and the
  number of characters removed.\<close>

fun compact_tools :: "nat \<Rightarrow> Message list \<Rightarrow> Message list \<times> nat" where
  "compact_tools k [] = ([], 0)"
| "compact_tools k (m # ms) =
     (if msg_role m = Tool \<and> k > 0
      then let (ms', r) = compact_tools (k - 1) ms; old_len = char_count (msg_content m)
           in if old_len > 100
              then (m\<lparr>msg_content := compacted_text\<rparr> # ms', (old_len - length compacted_text) + r)
              else (m # ms', r)
      else let (ms', r) = compact_tools k ms in (m # ms', r))"

definition tool_count :: "Message list \<Rightarrow> nat" where
  "tool_count ms = length (filter (\<lambda>m. msg_role m = Tool) ms)"

definition compact_tool_results ::
  "limit_cache \<Rightarrow> string \<Rightarrow> CompactionConfig option \<Rightarrow> Message list \<Rightarrow> nat \<Rightarrow> Message list \<times> nat" where
  "compact_tool_results cache model cfg msgs context_chars =
     (let context_window = unat (context_limit_tokens cache model) * 4; threshold = context_window * 70 div 100
      in if context_chars \<le> threshold then (msgs, context_chars)
         else let to_compact = tool_count msgs - preserve_last_n cfg
              in if to_compact = 0 then (msgs, context_chars)
                 else let (ms, removed) = compact_tools to_compact msgs in (ms, context_chars - removed))"

section \<open>Small integers are exact\<close>

lemma round_even_of_int [simp]: "round_even (of_int i) = i"
  by (simp add: round_even_def)

lemma rat_exponent_of_nat:
  assumes "0 < n" "n < 2 ^ k"
  shows "rat_exponent (of_nat n) < int k"
proof -
  have "floorlog 2 n \<le> k" using assms by (intro floorlog_leI) simp_all
  moreover have "quotient_of (of_nat n) = (int n, 1)" by (simp add: of_nat_rat quotient_of_Fract Rat.normalize_def)
  moreover have "floorlog 2 (nat 1) = 1" by (simp add: floorlog_def)
  ultimately show ?thesis by (simp add: rat_exponent_def Let_def)
qed

lemma f64_round_of_nat:
  assumes "n < 2 ^ 53"
  shows "f64_round (of_nat n) = of_nat n"
proof (cases "n = 0")
  case False
  define k where "k = max (rat_exponent (of_nat n) - 52) (- 1074)"
  have "k \<le> 0" using rat_exponent_of_nat [of n 53] assms False by (simp add: k_def)
  then have u: "(2 :: rat) powi k = 1 / 2 ^ nat (- k)"
    by (simp add: power_int_def inverse_eq_divide power_one_over)
  have "of_nat n / (2 :: rat) powi k = of_int (int n * 2 ^ nat (- k))" by (simp add: u)
  then have "round_even (of_nat n / 2 powi k) = int n * 2 ^ nat (- k)"
    by (metis round_even_of_int)
  then show ?thesis using False by (simp add: f64_round_def Let_def k_def [symmetric] u)
qed (simp add: f64_round_def)

section \<open>The cache of windows\<close>

lemma cached_lookup [simp]:
  "map_of (cache_context_limit k v fb t c) k = Some \<lparr>cl_value = v, cl_is_fallback = fb, cl_at = t\<rparr>"
  by (simp add: cache_context_limit_def update_conv)

lemma cached_keys: "fst ` set (cache_context_limit k v fb t c) = insert k (fst ` set c)"
  unfolding cache_context_limit_def dom_map_of_conv_image_fst [symmetric] by (simp add: update_conv')

lemma limit_key_ends: "ends_with (''::'' @ model) (limit_key provider model)"
  unfolding ends_with_iff limit_key_def by blast

lemma fold_min_le:
  fixes v :: "'a :: linorder"
  shows "x \<in> set (v # vs) \<Longrightarrow> fold min vs v \<le> x"
proof (induction vs arbitrary: v x)
  case (Cons w vs)
  show ?case
  proof (cases "x \<in> set vs")
    case False
    then have "min w v \<le> x" using Cons.prems by auto
    moreover have "fold min vs (min w v) \<le> min w v" by (rule Cons.IH) simp
    ultimately have "fold min vs (min w v) \<le> x" by (rule order_trans [rotated])
    then show ?thesis by simp
  qed (use Cons.IH [of x "min w v"] in simp)
qed simp

lemma fold_min_mem:
  fixes v :: "'a :: linorder"
  shows "fold min vs v \<in> insert v (set vs)"
  by (induction vs arbitrary: v) (simp, metis fold_simps(2) insert_iff list.simps(15) min_def)

lemma context_limit_min:
  assumes "map_of c k = Some e" "ends_with (''::'' @ model) k"
  shows "context_limit_tokens c model \<le> cl_value e"
proof -
  have "(k, e) \<in> set (entries_of model c)"
    using assms by (auto simp: entries_of_def dest: map_of_SomeD)
  then have "cl_value e \<in> set (map (cl_value \<circ> snd) (entries_of model c))" by force
  then show ?thesis unfolding context_limit_tokens_def
    by (cases "map (cl_value \<circ> snd) (entries_of model c)") (simp_all add: fold_min_le)
qed

text \<open>Every resolution leaves an entry with the value it returned.\<close>

lemma resolve_caches:
  "\<exists>e. map_of (snd (resolve_context_limit p m ov cat h t t' c)) (limit_key p m) = Some e
       \<and> cl_value e = fst (resolve_context_limit p m ov cat h t t' c)"
  by (simp add: resolve_context_limit_def Let_def split: option.split prod.split if_split)

definition limit_cache_ok :: "limit_cache \<Rightarrow> bool" where
  "limit_cache_ok c \<longleftrightarrow> distinct (map fst c)"

lemma resolve_cache_ok:
  "limit_cache_ok c \<Longrightarrow> limit_cache_ok (snd (resolve_context_limit p m ov cat h t t' c))"
  by (simp add: limit_cache_ok_def resolve_context_limit_def cache_context_limit_def Let_def distinct_update
      split: option.split prod.split)

lemma resolve_keys:
  "fst ` set (snd (resolve_context_limit p m ov cat h t t' c)) \<subseteq> insert (limit_key p m) (fst ` set c)"
proof -
  have c: "fst ` set c \<subseteq> insert (limit_key p m) (fst ` set c)" by blast
  then show ?thesis
    by (simp add: resolve_context_limit_def Let_def cached_keys c split: option.split prod.split if_split)
qed

lemma context_limit_single:
  assumes "limit_cache_ok c" "map_of c k = Some e" "ends_with (''::'' @ model) k"
    and only: "\<And>k'. k' \<in> fst ` set c \<Longrightarrow> ends_with (''::'' @ model) k' \<Longrightarrow> k' = k"
  shows "context_limit_tokens c model = cl_value e"
proof -
  have "set (entries_of model c) = {(k, e)}"
  proof (intro set_eqI iffI)
    fix x assume "x \<in> set (entries_of model c)"
    then have x: "x \<in> set c" "ends_with (''::'' @ model) (fst x)" by (auto simp: entries_of_def)
    then have "fst x = k" using only by blast
    moreover have "map_of c (fst x) = Some (snd x)"
      using assms(1) x(1) by (simp add: limit_cache_ok_def)
    ultimately show "x \<in> {(k, e)}" using assms(2) by (metis option.inject prod.collapse singletonI)
  next
    fix x assume "x \<in> {(k, e)}"
    then show "x \<in> set (entries_of model c)"
      using assms(3) map_of_SomeD [OF assms(2)] by (simp add: entries_of_def)
  qed
  then have "set (map (cl_value \<circ> snd) (entries_of model c)) = {cl_value e}" by simp
  then obtain v vs where "map (cl_value \<circ> snd) (entries_of model c) = v # vs" "insert v (set vs) = {cl_value e}"
    by (cases "map (cl_value \<circ> snd) (entries_of model c)") auto
  then show ?thesis unfolding context_limit_tokens_def using fold_min_mem [of vs v] by auto
qed

text \<open>The hot path agrees with the discovery: right after a resolution the synchronous reader returns at
  most the resolved window, and exactly it when no other provider has an entry for that model name.\<close>

theorem hot_path_window:
  assumes "resolve_context_limit p m ov cat h t t' c = (v, c')" "limit_cache_ok c"
  shows "context_limit_tokens c' m \<le> v \<and>
         (context_limit_tokens c' m = v \<or>
          (\<exists>k \<in> fst ` set c. k \<noteq> limit_key p m \<and> ends_with (''::'' @ m) k))"
proof -
  obtain e where e: "map_of c' (limit_key p m) = Some e" "cl_value e = v"
    using resolve_caches [of p m ov cat h t t' c] assms(1) by auto
  have ok: "limit_cache_ok c'" using resolve_cache_ok [OF assms(2)] assms(1) by (metis snd_conv)
  have keys: "fst ` set c' \<subseteq> insert (limit_key p m) (fst ` set c)"
    using resolve_keys [of p m ov cat h t t' c] assms(1) by simp
  have "context_limit_tokens c' m = v" if "\<not> (\<exists>k \<in> fst ` set c. k \<noteq> limit_key p m \<and> ends_with (''::'' @ m) k)"
    using context_limit_single [OF ok e(1) limit_key_ends] e(2) keys that by blast
  then show ?thesis using context_limit_min [OF e(1) limit_key_ends] e(2) by blast
qed

theorem hot_path_window_witness:
  "context_limit_tokens [(''a::x'', \<lparr>cl_value = 7, cl_is_fallback = False, cl_at = 0\<rparr>),
                         (''b::x'', \<lparr>cl_value = 9, cl_is_fallback = False, cl_at = 1\<rparr>)] ''x'' \<le> 9"
  using hot_path_window [of "''b''" "''x''" "Some 9" None None 0 1
      "[(''a::x'', \<lparr>cl_value = 7, cl_is_fallback = False, cl_at = 0\<rparr>)]" 9]
  by (simp add: resolve_context_limit_def cache_context_limit_def limit_key_def limit_cache_ok_def)

text \<open>A probed window is final: with no setting and no catalogue entry, later resolutions return it at
  any time and never ask the provider again, while the name heuristic is asked again after
  \<open>FALLBACK_TTL\<close>.\<close>

lemma probe_is_memoized:
  assumes "resolve_context_limit p m None None (Some v) t t' c = (v, c')"
    and "\<And>e. map_of c (limit_key p m) = Some e \<Longrightarrow> \<not> fresh_entry t e"
  shows "resolve_context_limit p m None None h s s' c' = (v, c')"
  using assms by (auto simp: resolve_context_limit_def Let_def fresh_entry_def split: option.splits)

lemma heuristic_expires:
  assumes "map_of c (limit_key p m) = Some e" "cl_is_fallback e" "s \<ge> cl_at e + FALLBACK_TTL"
  shows "fst (resolve_context_limit p m None None (Some v) s s' c) = v"
proof -
  have "\<not> fresh_entry s e" using assms(2,3) unfolding fresh_entry_def by linarith
  then show ?thesis using assms(1) by (simp add: resolve_context_limit_def Let_def)
qed

section \<open>Truncated results\<close>

lemma nat_str_length: "n < 10 ^ Suc k \<Longrightarrow> length (nat_str n) \<le> Suc k"
proof (induction k arbitrary: n)
  case 0
  then show ?case by (subst nat_str.simps) simp
next
  case (Suc k)
  have "n div 10 < 10 ^ Suc k" using Suc.prems by (simp add: less_mult_imp_div_less)
  then show ?case using Suc.IH by (subst nat_str.simps) simp
qed

text \<open>In valid UTF-8 at most three continuation bytes follow each other.\<close>

definition short_runs :: "string \<Rightarrow> bool" where
  "short_runs s \<longleftrightarrow> (\<forall>i < length s - 3. \<exists>j < 4. \<not> continues (s ! (i + j)))"

lemma is_char_boundary_continues: "i < length s \<Longrightarrow> \<not> continues (s ! i) \<Longrightarrow> is_char_boundary s i"
  by (simp add: is_char_boundary_def continues_def)

lemma floor_char_boundary_near:
  assumes "short_runs s" "i \<le> length s"
  shows "i - 3 \<le> floor_char_boundary s i"
proof (cases "i < 4 \<or> i = length s")
  case True
  then show ?thesis
    using floor_char_boundary_greatest [of "length s" i s] by (auto simp: is_char_boundary_def)
next
  case False
  then have "i - 3 < length s - 3" using assms(2) by linarith
  then obtain j where j: "j < 4" "\<not> continues (s ! (i - 3 + j))"
    using assms(1) unfolding short_runs_def by blast
  then have "is_char_boundary s (i - 3 + j)" using False assms(2)
    by (intro is_char_boundary_continues) auto
  then show ?thesis using floor_char_boundary_greatest [of "i - 3 + j" i s] j(1) False by linarith
qed

lemma truncation_limit_bounds:
  "2000 \<le> truncation_limit c m n" "truncation_limit c m n < 10 ^ 20"
proof -
  have "unat (context_limit_tokens c m) < 2 ^ 32"
    using unsigned_less [of "context_limit_tokens c m", where 'a = nat] by simp
  then show "truncation_limit c m n < 10 ^ 20" by (simp add: truncation_limit_def)
qed (simp add: truncation_limit_def)

lemma truncation_marker_length:
  "n < 10 ^ 20 \<Longrightarrow> l < 10 ^ 20 \<Longrightarrow> length (truncation_marker n l) \<le> 80"
  "4 \<le> length (truncation_marker n l)"
  using nat_str_length [of n 19] nat_str_length [of l 19]
  by (simp_all add: truncation_marker_def utf8_def)

text \<open>A tool result is cut to its budget: a result within the limit is unchanged; a longer one becomes a
  prefix, a marker and a suffix of at least 500 bytes, cut on character boundaries, and the whole is
  at most three bytes over the limit (the suffix starts at the boundary before its nominal start).\<close>

theorem truncated_result_fits:
  assumes "short_runs res" "length res < 2 ^ 64"
    and limit_def: "limit = truncation_limit c m used"
  shows "(length res \<le> limit \<longrightarrow> truncate_tool_result c m res used = res) \<and>
         length (truncate_tool_result c m res used) \<le> limit + 3 \<and>
         (limit < length res \<longrightarrow>
           (\<exists>i j. truncate_tool_result c m res used = take i res @ truncation_marker (length res) limit @ drop j res
              \<and> i \<le> j \<and> j + 500 \<le> length res \<and> is_char_boundary res i \<and> is_char_boundary res j))"
proof (cases "length res \<le> limit")
  case False
  define region where "region = drop (floor_char_boundary res (length res - 1500)) res"
  define ts where "ts = (if tail_has_error region then 1500 else 500 :: nat)"
  define mk where "mk = truncation_marker (length res) limit"
  define i where "i = floor_char_boundary res (limit - ts - length mk)"
  define j where "j = floor_char_boundary res (length res - ts)"
  have t: "truncate_tool_result c m res used = take i res @ mk @ drop j res"
    using False unfolding truncate_tool_result_def limit_def [symmetric]
    by (simp add: Let_def region_def ts_def mk_def i_def j_def)
  have b: "limit < 10 ^ 20" "2000 \<le> limit" unfolding limit_def by (rule truncation_limit_bounds)+
  have l: "length res < 10 ^ 20" using assms(2) by simp
  have mk: "length mk \<le> 80" "4 \<le> length mk"
    unfolding mk_def using l b(1) by (simp_all add: truncation_marker_length)
  have ts: "500 \<le> ts" "ts \<le> 1500" by (simp_all add: ts_def)
  have i: "i \<le> limit - ts - length mk" unfolding i_def by (rule floor_char_boundary_le)
  have j: "j \<le> length res - ts" "length res - ts - 3 \<le> j"
    unfolding j_def using floor_char_boundary_near [OF assms(1), of "length res - ts"]
    by (simp_all add: floor_char_boundary_le)
  have "i \<le> j" using i j(2) ts mk b False by linarith
  moreover have "length (take i res @ mk @ drop j res) \<le> limit + 3"
    using i j ts mk b False by simp
  moreover have "j + 500 \<le> length res" using j(1) ts b False by linarith
  moreover have "is_char_boundary res i" "is_char_boundary res j"
    unfolding i_def j_def by (rule floor_char_boundary_ok)+
  ultimately show ?thesis using False unfolding t mk_def by blast
qed (simp add: truncate_tool_result_def limit_def Let_def)

theorem truncated_result_fits_witness:
  "length (truncate_tool_result [(''a::x'', \<lparr>cl_value = 10, cl_is_fallback = False, cl_at = 0\<rparr>)] ''x''
             (replicate 3000 CHR ''a'') 0) \<le> 2003"
proof -
  have "short_runs (replicate 3000 CHR ''a'')"
    by (auto simp: short_runs_def continues_def intro!: exI [of _ "0 :: nat"])
  moreover have "(2000 :: nat) =
      truncation_limit [(''a::x'', \<lparr>cl_value = 10, cl_is_fallback = False, cl_at = 0\<rparr>)] ''x'' 0"
    by (simp add: truncation_limit_def context_limit_tokens_def entries_of_def ends_with_def)
  ultimately show ?thesis
    using truncated_result_fits [of "replicate 3000 CHR ''a''" 2000
        "[(''a::x'', \<lparr>cl_value = 10, cl_is_fallback = False, cl_at = 0\<rparr>)]" "''x''" 0] by simp
qed

lemma char_count_simps [simp]:
  "char_count [] = 0" "char_count (c # cs) = (if continues c then 0 else 1) + char_count cs"
  "char_count (s @ t) = char_count s + char_count t"
  by (simp_all add: char_count_def)

lemma take_chars_count: "char_count (take_chars n s) \<le> n"
  by (induction n s rule: take_chars.induct) (auto simp: continues_def split: nat.splits)

lemma preview_is_bounded: "char_count (truncate_preview s n) \<le> n"
  using take_chars_count [of n s] take_chars_count [of "n - 3" s]
  by (auto simp: truncate_preview_def continues_def)

section \<open>Compacted tool results\<close>

definition total_chars :: "Message list \<Rightarrow> nat" where
  "total_chars ms = sum_list (map (\<lambda>m. char_count (msg_content m)) ms)"

lemma compacted_text_count: "char_count compacted_text = 23" "length compacted_text = 23"
  by (simp_all add: compacted_text_def continues_def)

lemma compact_tools_accounting:
  "compact_tools k ms = (ms', r) \<Longrightarrow> total_chars ms' + r = total_chars ms"
proof (induction k ms arbitrary: ms' r rule: compact_tools.induct)
  case (2 k m ms)
  then show ?case
    by (auto simp: total_chars_def Let_def compacted_text_count split: prod.splits if_splits)
qed (simp add: total_chars_def)

text \<open>Everything but the text of a tool result.\<close>

definition envelope :: "Message \<Rightarrow> Message" where
  "envelope m = (if msg_role m = Tool then m\<lparr>msg_content := []\<rparr> else m)"

lemma compact_tools_envelope: "compact_tools k ms = (ms', r) \<Longrightarrow> map envelope ms' = map envelope ms"
  by (induction k ms arbitrary: ms' r rule: compact_tools.induct)
     (auto simp: envelope_def Let_def split: prod.splits if_splits)

lemma compact_tools_recent:
  "compact_tools k ms = (ms', r) \<Longrightarrow>
     drop k (filter (\<lambda>m. msg_role m = Tool) ms') = drop k (filter (\<lambda>m. msg_role m = Tool) ms)"
proof (induction k ms arbitrary: ms' r rule: compact_tools.induct)
  case (2 k m ms)
  then show ?case
    by (cases k) (auto simp: Let_def split: prod.splits if_splits)
qed simp

text \<open>Old tool results are replaced, nothing else: whatever the budget, the compacted list has the
  same messages with the same roles, calls and ids, the last \<open>preserve_last_n\<close> tool results keep
  their texts, and the running character count drops by exactly what was removed.\<close>

theorem compact_tool_results_spec:
  assumes "compact_tool_results c m cfg ms (total_chars ms + k) = (ms', n)"
  shows "map envelope ms' = map envelope ms \<and> n = total_chars ms' + k \<and>
         drop (tool_count ms - preserve_last_n cfg) (filter (\<lambda>m. msg_role m = Tool) ms') =
         drop (tool_count ms - preserve_last_n cfg) (filter (\<lambda>m. msg_role m = Tool) ms)"
proof (cases "ms' = ms \<and> n = total_chars ms + k")
  case False
  then obtain r where r: "compact_tools (tool_count ms - preserve_last_n cfg) ms = (ms', r)"
      "n = total_chars ms + k - r"
    using assms by (auto simp: compact_tool_results_def Let_def split: if_splits prod.splits)
  show ?thesis
    using compact_tools_accounting [OF r(1)] compact_tools_envelope [OF r(1)] compact_tools_recent [OF r(1)] r(2)
    by simp
qed simp

theorem compact_tool_results_spec_witness:
  "snd (compact_tool_results [(''a::x'', \<lparr>cl_value = 1, cl_is_fallback = False, cl_at = 0\<rparr>)] ''x'' None
          [plain_message Tool ''abc'', plain_message User ''q''] (4 + 3)) =
   total_chars (fst (compact_tool_results [(''a::x'', \<lparr>cl_value = 1, cl_is_fallback = False, cl_at = 0\<rparr>)] ''x'' None
          [plain_message Tool ''abc'', plain_message User ''q''] (4 + 3))) + 3"
proof -
  have "total_chars [plain_message Tool ''abc'', plain_message User ''q''] = 4"
    by (simp add: total_chars_def plain_message_def continues_def)
  then show ?thesis
    using compact_tool_results_spec [of "[(''a::x'', \<lparr>cl_value = 1, cl_is_fallback = False, cl_at = 0\<rparr>)]" "''x''" None
        "[plain_message Tool ''abc'', plain_message User ''q'']" 3]
    by (metis prod.collapse)
qed

end
