(* ===== verification/Compaction.thy ===== *)
theory Compaction
  imports Context_Window Thinking Session_Claims
begin

text \<open>
  Compaction of a conversation by a model (\<open>agent/history.rs\<close>, \<open>agent/pipeline/context.rs\<close>) and the
  \<open>/compact\<close> command that writes its result back to the message table (\<open>agent/pipeline/commands.rs\<close>).

  A provider is a function from a prompt to what its call yielded before the shared deadline, \<open>None\<close>
  when the deadline came first; the two prompts of one compaction differ, so a function can stand
  for any pair of answers.  \<open>serde_json\<close> is a parameter: \<open>js\<close> prints a value, \<open>parse_facts\<close> reads an
  array of strings.  Indexing past the end of a vector panics, which is the result \<^const>\<open>None\<close>.
\<close>

section \<open>Sizes and texts\<close>

definition call_tokens :: "(json \<Rightarrow> string) \<Rightarrow> ToolCall \<Rightarrow> nat" where
  "call_tokens js t = (length (js (tc_arguments t)) + length (tc_name t) + 20) div 4"

definition message_tokens :: "(json \<Rightarrow> string) \<Rightarrow> Message \<Rightarrow> nat" where
  "message_tokens js m =
     length (msg_content m) div 4 + 10
     + (case msg_tool_calls m of None \<Rightarrow> 0 | Some tc \<Rightarrow> sum_list (map (call_tokens js) tc))"

definition estimate_tokens :: "(json \<Rightarrow> string) \<Rightarrow> Message list \<Rightarrow> nat" where
  "estimate_tokens js ms = sum_list (map (message_tokens js) ms)"

fun role_label :: "MessageRole \<Rightarrow> string" where
  "role_label User = ''User''"
| "role_label Assistant = ''Assistant''"
| "role_label System = ''System''"
| "role_label Tool = ''Tool''"

definition format_messages_for_compaction :: "Message list \<Rightarrow> string" where
  "format_messages_for_compaction ms =
     concat (map (\<lambda>m. ''['' @ role_label (msg_role m) @ '']: '' @ msg_content m @ [CHR 0x0A, CHR 0x0A]) ms)"

definition lang_hint :: "string option \<Rightarrow> string" where
  "lang_hint lang =
     (if lang = Some ''ru'' then '' Write each fact in Russian.''
      else if lang = Some ''en'' then '' Write each fact in English.'' else [])"

definition extraction_text :: string where
  "extraction_text =
     ''Extract key facts from this conversation as a JSON array of strings.'' @ [CHR 0x0A, CHR 0x0A]
     @ ''MUST PRESERVE:'' @ [CHR 0x0A]
     @ ''- Active tasks with their current status and progress (e.g. '' @ [CHR 0x27]
     @ ''5/17 items done'' @ [CHR 0x27] @ '')'' @ [CHR 0x0A]
     @ ''- All identifiers: UUIDs, URLs, file paths, IPs, hostnames, port numbers, ''
     @ ''service names'' @ [CHR 0x0A] @ ''- Decisions made and their rationale'' @ [CHR 0x0A]
     @ ''- User preferences and requirements discovered'' @ [CHR 0x0A]
     @ ''- Error conditions encountered and their resolutions'' @ [CHR 0x0A]
     @ ''- Commitments, action items, and deadlines'' @ [CHR 0x0A, CHR 0x0A] @ ''MAY OMIT:''
     @ [CHR 0x0A] @ ''- Routine greetings and confirmations'' @ [CHR 0x0A]
     @ ''- Tool calls that succeeded without noteworthy results'' @ [CHR 0x0A]
     @ ''- Repeated information already captured in other facts'' @ [CHR 0x0A, CHR 0x0A]
     @ ''Each fact must be self-contained and useful without the original conversation.''"

definition extraction_prompt :: "string option \<Rightarrow> string \<Rightarrow> Message list" where
  "extraction_prompt lang formatted =
     [plain_message System
        (extraction_text @ lang_hint lang @ [CHR 0x0A] @ ''Return ONLY the JSON array, no other text.''),
      plain_message User formatted]"

definition summary_text :: string where
  "summary_text =
     '' as a structured context checkpoint for an assistant that will continue the ''
     @ ''work. Use EXACTLY these Markdown sections, in order:'' @ [CHR 0x0A] @ ''## Objective''
     @ [CHR 0x0A] @ ''[What the user is ultimately trying to accomplish]'' @ [CHR 0x0A]
     @ ''## Work State'' @ [CHR 0x0A] @ ''[Completed: '' @ utf8 [0xE2, 0x80, 0xA6] @ '' / Active: ''
     @ utf8 [0xE2, 0x80, 0xA6] @ '' / Blocked: '' @ utf8 [0xE2, 0x80, 0xA6] @ '' ''
     @ utf8 [0xE2, 0x80, 0x94] @ '' include exact error messages]'' @ [CHR 0x0A] @ ''## Key Decisions''
     @ [CHR 0x0A] @ ''[Important technical decisions and WHY]'' @ [CHR 0x0A] @ ''## Open Questions''
     @ [CHR 0x0A] @ ''[Unanswered questions or blockers; write '' @ [CHR 0x22] @ ''None.'' @ [CHR 0x22]
     @ '' if none]'' @ [CHR 0x0A] @ ''## Next Move'' @ [CHR 0x0A]
     @ ''[Concrete next steps, framed as context not instructions]'' @ [CHR 0x0A, CHR 0x0A]
     @ ''Preserve exact identifiers: UUIDs, URLs, file paths, IPs, hostnames, port ''
     @ ''numbers, line numbers. NEVER include API keys, tokens, or secrets '' @ utf8 [0xE2, 0x80, 0x94]
     @ '' write [REDACTED]. Be concrete and terse; omit a section'' @ [CHR 0x27]
     @ ''s bullets only if truly empty.''"

definition summary_prompt :: "string option \<Rightarrow> string \<Rightarrow> Message list" where
  "summary_prompt lang formatted =
     [plain_message System
        (''Summarize this conversation ''
           @ (if lang = Some ''en'' then ''in English'' else ''in Russian'') @ summary_text),
      plain_message User formatted]"

section \<open>The cut\<close>

definition nth_opt :: "'a list \<Rightarrow> nat \<Rightarrow> 'a option" where
  "nth_opt xs i = (if i < length xs then Some (xs ! i) else None)"

text \<open>\<open>while end > start && messages[end].role == Tool { end -= 1 }\<close>.\<close>

fun back_over_tools :: "Message list \<Rightarrow> nat \<Rightarrow> nat \<Rightarrow> nat option" where
  "back_over_tools ms start 0 = Some 0"
| "back_over_tools ms start (Suc e) =
     (if Suc e > start
      then case nth_opt ms (Suc e) of
             None \<Rightarrow> None
           | Some m \<Rightarrow> if msg_role m = Tool then back_over_tools ms start e else Some (Suc e)
      else Some (Suc e))"

text \<open>\<open>if end > start && messages[end]\<close> is an assistant with calls \<open>{ end -= 1 }\<close>.\<close>

definition back_over_call :: "Message list \<Rightarrow> nat \<Rightarrow> nat \<Rightarrow> nat option" where
  "back_over_call ms start e =
     (if e > start
      then case nth_opt ms e of
             None \<Rightarrow> None
           | Some m \<Rightarrow> Some (if msg_role m = Assistant \<and> msg_tool_calls m \<noteq> None then e - 1 else e)
      else Some e)"

definition has_system :: "Message list \<Rightarrow> bool" where
  "has_system ms \<longleftrightarrow> ms \<noteq> [] \<and> msg_role (hd ms) = System"

definition cut_start :: "Message list \<Rightarrow> nat" where
  "cut_start ms = (if has_system ms then 1 else 0)"

text \<open>The slice to compact, \<open>Some None\<close> when there is too little.\<close>

definition cut_range :: "Message list \<Rightarrow> nat \<Rightarrow> (nat \<times> nat) option option" where
  "cut_range ms preserve =
     (let start = cut_start ms in
      if length ms \<le> start + preserve then Some None
      else case back_over_tools ms start (length ms - preserve) of
             None \<Rightarrow> None
           | Some e \<Rightarrow>
               (case back_over_call ms start e of
                  None \<Rightarrow> None
                | Some e' \<Rightarrow> Some (if e' \<le> start then None else Some (start, e'))))"

section \<open>Compaction\<close>

type_synonym timed_chat = "Message list \<Rightarrow> (anyhow + LlmResponse) option"

definition answer :: "timed_chat \<Rightarrow> Message list \<Rightarrow> string option" where
  "answer chat prompt =
     (case chat prompt of Some (Inr r) \<Rightarrow> Some (resp_content r) | _ \<Rightarrow> None)"

definition summary_message :: "string \<Rightarrow> Message list" where
  "summary_message content =
     (let text = strip_thinking content in
      if trim text = [] then []
      else [plain_message System (''[Previous conversation summary]'' @ [CHR 0x0A] @ text)])"

definition COMPACTION_MESSAGE_FLOOR :: nat where "COMPACTION_MESSAGE_FLOOR = 150"

definition compact_if_needed_inner ::
  "(json \<Rightarrow> string) \<Rightarrow> (string \<Rightarrow> string list option) \<Rightarrow> timed_chat \<Rightarrow> timed_chat option \<Rightarrow> nat \<Rightarrow> nat \<Rightarrow>
   string option \<Rightarrow> bool \<Rightarrow> Message list \<Rightarrow> (string list option \<times> Message list) option" where
  "compact_if_needed_inner js parse_facts provider compaction_provider max_tokens preserve lang force ms =
     (let chat = (case compaction_provider of None \<Rightarrow> provider | Some p \<Rightarrow> p);
          total = estimate_tokens js ms; threshold = max_tokens * 80 div 100 in
      if \<not> force \<and> total < threshold \<and> length ms < COMPACTION_MESSAGE_FLOOR then Some (None, ms)
      else case cut_range ms preserve of
             None \<Rightarrow> None
           | Some None \<Rightarrow> Some (None, ms)
           | Some (Some (start, end)) \<Rightarrow>
               (let formatted = format_messages_for_compaction (take (end - start) (drop start ms)) in
                case answer chat (extraction_prompt lang formatted) of
                  None \<Rightarrow> Some (None, ms)
                | Some facts_text \<Rightarrow>
                    (let facts = (case parse_facts facts_text of None \<Rightarrow> [] | Some fs \<Rightarrow> fs) in
                     case answer chat (summary_prompt lang formatted) of
                       None \<Rightarrow> Some (None, ms)
                     | Some summary \<Rightarrow>
                         Some (if facts = [] then None else Some facts,
                               take start ms @ summary_message summary @ drop end ms))))"

definition compact_if_needed ::
  "(json \<Rightarrow> string) \<Rightarrow> (string \<Rightarrow> string list option) \<Rightarrow> timed_chat \<Rightarrow> timed_chat option \<Rightarrow> nat \<Rightarrow> nat \<Rightarrow>
   string option \<Rightarrow> Message list \<Rightarrow> (string list option \<times> Message list) option" where
  "compact_if_needed js parse_facts provider compaction_provider max_tokens preserve lang =
     compact_if_needed_inner js parse_facts provider compaction_provider max_tokens preserve lang False"

definition force_compact ::
  "(json \<Rightarrow> string) \<Rightarrow> (string \<Rightarrow> string list option) \<Rightarrow> timed_chat \<Rightarrow> timed_chat option \<Rightarrow> nat \<Rightarrow>
   string option \<Rightarrow> Message list \<Rightarrow> (string list option \<times> Message list) option" where
  "force_compact js parse_facts provider compaction_provider preserve lang =
     compact_if_needed_inner js parse_facts provider compaction_provider 0 preserve lang True"

section \<open>The progress header\<close>

definition iteration_count :: "LoopDetector \<Rightarrow> nat" where
  "iteration_count d = sum_list (map snd (tool_counts d))"

text \<open>\<open>iter\<close> is the order in which the hash map lists its entries.  Only ASCII letters are lower-cased:
  no other character has \<open>e\<close>, \<open>r\<close> or \<open>o\<close> as its lower case.\<close>

definition generate_progress_header ::
  "((string \<times> nat) list \<Rightarrow> (string \<times> nat) list) \<Rightarrow> Message list \<Rightarrow> LoopDetector \<Rightarrow> string" where
  "generate_progress_header iter ms d =
     (let sorted = sort_key (\<lambda>e. - int (snd e)) (iter (tool_counts d));
          top_tools = map (\<lambda>(name, n). name @ ''('' @ nat_str n @ '')'') (take 5 sorted);
          error_count = length (filter (\<lambda>m. msg_role m = Tool
                          \<and> contains_str ''error'' (to_ascii_lowercase (msg_content m))) ms);
          tools_str = (if top_tools = [] then ''none'' else join '', '' top_tools)
      in ''[Session Progress] Iterations: '' @ nat_str (iteration_count d) @ ''. Tools called: '' @ tools_str @ ''.''
         @ (if error_count > 0
            then '' Errors encountered: '' @ nat_str error_count @ '' tool failures.'' else []))"

definition is_progress_header :: "Message \<Rightarrow> bool" where
  "is_progress_header m \<longleftrightarrow>
     (msg_role m = Tool \<or> msg_role m = System) \<and> starts_with ''[Session Progress]'' (msg_content m)"

definition remove_progress_header :: "Message list \<Rightarrow> Message list" where
  "remove_progress_header ms = filter (\<lambda>m. \<not> is_progress_header m) ms"

definition insert_header :: "string \<Rightarrow> Message list \<Rightarrow> Message list" where
  "insert_header header ms =
     (let pos = cut_start ms in take pos ms @ [plain_message System header] @ drop pos ms)"

section \<open>Compaction in a turn\<close>

datatype compaction_effect =
    AuditCompaction nat "nat option"
  | IndexFacts "string list"
  | NotifyCompaction string

definition after_compaction ::
  "((string \<times> nat) list \<Rightarrow> (string \<times> nat) list) \<Rightarrow> nat option \<Rightarrow> bool \<Rightarrow> string \<Rightarrow> LoopDetector option \<Rightarrow>
   string list option \<times> Message list \<Rightarrow> Message list \<times> compaction_effect list" where
  "after_compaction iter max_tokens ui agent detector r =
     (case r of
        (None, ms) \<Rightarrow> (ms, [])
      | (Some facts, ms) \<Rightarrow>
          ((case detector of
              None \<Rightarrow> ms
            | Some det \<Rightarrow>
                (let ms1 = remove_progress_header ms
                 in insert_header (generate_progress_header iter ms1 det) ms1)),
           [AuditCompaction (length facts) max_tokens, IndexFacts facts]
             @ (if ui then [NotifyCompaction agent] else [])))"

definition compact_messages ::
  "(json \<Rightarrow> string) \<Rightarrow> (string \<Rightarrow> string list option) \<Rightarrow> ((string \<times> nat) list \<Rightarrow> (string \<times> nat) list) \<Rightarrow>
   limit_cache \<Rightarrow> string \<Rightarrow> CompactionConfig option \<Rightarrow> string \<Rightarrow> timed_chat \<Rightarrow> timed_chat option \<Rightarrow> bool \<Rightarrow> string \<Rightarrow>
   LoopDetector option \<Rightarrow> Message list \<Rightarrow> (Message list \<times> compaction_effect list) option" where
  "compact_messages js parse_facts iter cache model cfg lang provider compaction_provider ui agent detector ms =
     (let (max_tokens, preserve) = compaction_params cache model cfg in
      map_option (after_compaction iter (Some max_tokens) ui agent detector)
        (compact_if_needed js parse_facts provider compaction_provider max_tokens preserve (Some lang) ms))"

definition compact_messages_force ::
  "(json \<Rightarrow> string) \<Rightarrow> (string \<Rightarrow> string list option) \<Rightarrow> ((string \<times> nat) list \<Rightarrow> (string \<times> nat) list) \<Rightarrow>
   CompactionConfig option \<Rightarrow> string \<Rightarrow> timed_chat \<Rightarrow> timed_chat option \<Rightarrow> bool \<Rightarrow> string \<Rightarrow>
   LoopDetector option \<Rightarrow> Message list \<Rightarrow> (Message list \<times> compaction_effect list) option" where
  "compact_messages_force js parse_facts iter cfg lang provider compaction_provider ui agent detector ms =
     map_option (after_compaction iter None ui agent detector)
       (force_compact js parse_facts provider compaction_provider (preserve_last_n cfg) (Some lang) ms)"

section \<open>The command\<close>

text \<open>\<open>parse_calls\<close> and \<open>calls_json\<close> are \<open>serde_json\<close> on a list of tool calls.\<close>

definition row_role :: "string \<Rightarrow> MessageRole" where
  "row_role s = (if s = ''user'' then User else if s = ''assistant'' then Assistant
                 else if s = ''tool'' then Tool else System)"

definition message_of_row :: "(json \<Rightarrow> ToolCall list option) \<Rightarrow> message_row \<Rightarrow> Message" where
  "message_of_row parse_calls m =
     (plain_message (row_role (m_role m)) (m_content m))
       \<lparr>msg_tool_calls := Option.bind (m_tool_calls m) parse_calls, msg_tool_call_id := m_tool_call_id m\<rparr>"

definition row_of_message ::
  "(ToolCall list \<Rightarrow> json option) \<Rightarrow> uuid \<Rightarrow> uuid \<Rightarrow> timestamp \<Rightarrow> Message \<Rightarrow> message_row" where
  "row_of_message calls_json i sid now m =
     (new_message i sid (role_str (msg_role m)) (msg_content m) now)
       \<lparr>m_tool_calls := Option.bind (msg_tool_calls m) calls_json, m_tool_call_id := msg_tool_call_id m\<rparr>"

fun insert_rows :: "(nat \<Rightarrow> message_row) \<Rightarrow> nat \<Rightarrow> nat \<Rightarrow> db \<Rightarrow> db_error + db" where
  "insert_rows row i 0 d = Inr d"
| "insert_rows row i (Suc n) d =
     (case insert_message (row i) d of Inl e \<Rightarrow> Inl e | Inr d' \<Rightarrow> insert_rows row (Suc i) n d')"

text \<open>The transaction: \<open>now()\<close> is the time of its start for every row.\<close>

definition replace_messages ::
  "(ToolCall list \<Rightarrow> json option) \<Rightarrow> (nat \<Rightarrow> uuid) \<Rightarrow> timestamp \<Rightarrow> uuid \<Rightarrow> Message list \<Rightarrow> db \<Rightarrow> db_error + db" where
  "replace_messages calls_json fresh now sid ms d =
     insert_rows (\<lambda>i. row_of_message calls_json (fresh i) sid now (ms ! i)) 0 (length ms)
       (delete_messages (\<lambda>m. m_session_id m = sid) d)"

datatype compact_reply =
    NoSession
  | CompactDone nat nat nat
  | CompactNotNeeded
  | PersistFailed db_error

text \<open>\<open>compact_if_needed\<close> never returns an error, so the retry of the command is never taken; a panic
  ends the command.\<close>

definition compact_command ::
  "(json \<Rightarrow> string) \<Rightarrow> (string \<Rightarrow> string list option) \<Rightarrow> (json \<Rightarrow> ToolCall list option) \<Rightarrow>
   (ToolCall list \<Rightarrow> json option) \<Rightarrow> timed_chat \<Rightarrow> timed_chat option \<Rightarrow> CompactionConfig option \<Rightarrow> string \<Rightarrow>
   nat option \<Rightarrow> (nat \<Rightarrow> uuid) \<Rightarrow> timestamp \<Rightarrow> uuid option \<Rightarrow> db \<Rightarrow>
   (compact_reply \<times> compaction_effect list \<times> db) option" where
  "compact_command js parse_facts parse_calls calls_json provider compaction_provider cfg lang
     max_history fresh now active d =
     (case active of
        None \<Rightarrow> Some (NoSession, [], d)
      | Some sid \<Rightarrow>
          (let lim = (case max_history of None \<Rightarrow> 50 | Some n \<Rightarrow> n);
               ms = map (message_of_row parse_calls) (load_messages sid (Some lim) d)
           in case compact_if_needed js parse_facts provider compaction_provider 0 (preserve_last_n cfg)
                     (Some lang) ms of
                None \<Rightarrow> None
              | Some (None, ms') \<Rightarrow> Some (CompactNotNeeded, [], d)
              | Some (Some facts, ms') \<Rightarrow>
                  (case replace_messages calls_json fresh now sid ms' d of
                     Inl e \<Rightarrow> Some (PersistFailed e, [IndexFacts facts], d)
                   | Inr d' \<Rightarrow>
                       Some (CompactDone (length ms) (length ms') (length facts), [IndexFacts facts], d'))))"

section \<open>The cut keeps the recent messages\<close>

lemma nth_opt_Some [simp]: "i < length xs \<Longrightarrow> nth_opt xs i = Some (xs ! i)"
  by (simp add: nth_opt_def)

lemma nth_opt_None [simp]: "length xs \<le> i \<Longrightarrow> nth_opt xs i = None"
  by (simp add: nth_opt_def)

lemma back_over_tools_total:
  "e < length ms \<Longrightarrow> \<exists>e'. back_over_tools ms start e = Some e' \<and> e' \<le> e \<and> (start \<le> e \<longrightarrow> start \<le> e')
     \<and> (start < e' \<longrightarrow> msg_role (ms ! e') \<noteq> Tool)"
proof (induction e)
  case (Suc e)
  then obtain e' where "back_over_tools ms start e = Some e'" "e' \<le> e" "start \<le> e \<longrightarrow> start \<le> e'"
      "start < e' \<longrightarrow> msg_role (ms ! e') \<noteq> Tool" by auto
  then show ?case using Suc.prems by auto
qed simp

lemma back_over_call_total:
  "e < length ms \<Longrightarrow> \<exists>e'. back_over_call ms start e = Some e' \<and> e' \<le> e
     \<and> (e' = e \<or> e' = e - 1 \<and> msg_role (ms ! e) = Assistant \<and> msg_tool_calls (ms ! e) \<noteq> None)"
  by (auto simp: back_over_call_def)

text \<open>Either the kept part starts with a message that is no tool result, or its second message is an
  assistant message with calls.\<close>

definition clean_cut :: "Message list \<Rightarrow> nat \<Rightarrow> bool" where
  "clean_cut ms e \<longleftrightarrow>
     msg_role (ms ! e) \<noteq> Tool
     \<or> msg_role (ms ! Suc e) = Assistant \<and> msg_tool_calls (ms ! Suc e) \<noteq> None"

lemma cut_range_total:
  assumes "0 < preserve"
  obtains (none) "cut_range ms preserve = Some None"
  | (cut) e where "cut_range ms preserve = Some (Some (cut_start ms, e))" "cut_start ms < e"
      "e + preserve \<le> length ms" "clean_cut ms e"
proof (cases "length ms \<le> cut_start ms + preserve")
  case True
  then show ?thesis using none by (simp add: cut_range_def Let_def)
next
  case False
  then have l: "length ms - preserve < length ms" using assms by linarith
  obtain e where e: "back_over_tools ms (cut_start ms) (length ms - preserve) = Some e"
      "e \<le> length ms - preserve" "cut_start ms < e \<longrightarrow> msg_role (ms ! e) \<noteq> Tool"
    using back_over_tools_total [OF l] by blast
  then have "e < length ms" using l by linarith
  then obtain e' where e': "back_over_call ms (cut_start ms) e = Some e'" "e' \<le> e"
      "e' = e \<or> e' = e - 1 \<and> msg_role (ms ! e) = Assistant \<and> msg_tool_calls (ms ! e) \<noteq> None"
    using back_over_call_total by blast
  have "cut_range ms preserve = Some (if e' \<le> cut_start ms then None else Some (cut_start ms, e'))"
    using False e(1) e'(1) by (simp add: cut_range_def Let_def)
  moreover have "e' + preserve \<le> length ms" using e(2) e'(2) False by linarith
  moreover have "clean_cut ms e'" if "cut_start ms < e'"
    using that e(3) e'(2,3) by (cases e) (auto simp: clean_cut_def)
  ultimately show ?thesis using none cut by (cases "e' \<le> cut_start ms") auto
qed

lemma cut_start_le: "cut_start ms \<le> length ms"
  by (cases ms) (auto simp: cut_start_def has_system_def)

lemma summary_message_length: "length (summary_message s) \<le> 1"
  by (simp add: summary_message_def Let_def)

text \<open>The two forms of a compaction's result.\<close>

lemma compact_inner_cases:
  assumes "0 < preserve"
  obtains (same) "compact_if_needed_inner js pf provider cp mx preserve lang force ms = Some (None, ms)"
  | (cut) facts s e where
      "compact_if_needed_inner js pf provider cp mx preserve lang force ms =
         Some (facts, take (cut_start ms) ms @ summary_message s @ drop e ms)"
      "cut_start ms < e" "e + preserve \<le> length ms" "clean_cut ms e"
      "\<exists>p p'. answer (case cp of None \<Rightarrow> provider | Some c \<Rightarrow> c) p = Some s
              \<and> answer (case cp of None \<Rightarrow> provider | Some c \<Rightarrow> c) p' \<noteq> None"
proof (cases "\<not> force \<and> estimate_tokens js ms < mx * 80 div 100 \<and> length ms < COMPACTION_MESSAGE_FLOOR")
  case True
  then show ?thesis using same by (simp add: compact_if_needed_inner_def Let_def)
next
  case gate: False
  show ?thesis
    using assms
  proof (cases rule: cut_range_total [where ms = ms])
    case none
    then show ?thesis using same gate by (simp add: compact_if_needed_inner_def Let_def)
  next
    case (cut e)
    let ?chat = "case cp of None \<Rightarrow> provider | Some c \<Rightarrow> c"
    let ?f = "format_messages_for_compaction (take (e - cut_start ms) (drop (cut_start ms) ms))"
    show ?thesis
    proof (cases "answer ?chat (extraction_prompt lang ?f) = None \<or> answer ?chat (summary_prompt lang ?f) = None")
      case True
      then show ?thesis using same gate cut(1)
        by (auto simp: compact_if_needed_inner_def Let_def split: option.splits)
    next
      case False
      then obtain s t where st: "answer ?chat (summary_prompt lang ?f) = Some s"
        "answer ?chat (extraction_prompt lang ?f) = Some t" by auto
      define fs where "fs = (case pf t of None \<Rightarrow> [] | Some fs \<Rightarrow> fs)"
      have eq: "compact_if_needed_inner js pf provider cp mx preserve lang force ms =
          Some (if fs = [] then None else Some fs, take (cut_start ms) ms @ summary_message s @ drop e ms)"
        using gate cut(1) st by (auto simp: compact_if_needed_inner_def Let_def fs_def)
      show ?thesis using st by (intro that(2) [OF eq cut(2,3,4)]) auto
    qed
  qed
qed

lemma compaction_bounds:
  assumes "0 < preserve"
  shows "\<exists>facts ms'. compact_if_needed_inner js pf provider cp mx preserve lang force ms = Some (facts, ms')
     \<and> take (cut_start ms) ms' = take (cut_start ms) ms
     \<and> suffix (drop (length ms - preserve) ms) ms' \<and> length ms' \<le> length ms"
  using assms
proof (cases rule: compact_inner_cases [where js = js and pf = pf and provider = provider and cp = cp
      and mx = mx and lang = lang and force = force and ms = ms])
  case same
  then show ?thesis by (simp add: suffix_drop)
next
  case (cut facts s e)
  let ?ms' = "take (cut_start ms) ms @ summary_message s @ drop e ms"
  have "suffix (drop (length ms - preserve) ms) (drop e ms)"
    using cut(3) suffix_drop [of "length ms - preserve - e" "drop e ms"] by simp
  then have "suffix (drop (length ms - preserve) ms) ?ms'"
    by (metis append.assoc suffix_appendI)
  moreover have "take (cut_start ms) ?ms' = take (cut_start ms) ms"
    using cut_start_le [of ms] by simp
  moreover have "length ?ms' \<le> length ms"
    using cut(2,3) summary_message_length [of s] cut_start_le [of ms] by simp
  ultimately show ?thesis using cut(1) by blast
qed

text \<open>C10. Compaction never loses what it must keep: with a positive \<open>preserve_last_n\<close> it always returns
  (it never panics), the system message stays first, the last \<open>preserve_last_n\<close> messages stay
  verbatim at the end, and the list never grows.\<close>

theorem compaction_keeps_recent:
  assumes "0 < preserve"
  shows "\<exists>facts ms'. compact_if_needed_inner js pf provider cp mx preserve lang force ms = Some (facts, ms')
     \<and> take (cut_start ms) ms' = take (cut_start ms) ms
     \<and> suffix (drop (length ms - preserve) ms) ms' \<and> length ms' \<le> length ms"
  using assms by (rule compaction_bounds)

theorem compaction_keeps_recent_witness:
  "\<exists>facts ms'. compact_if_needed_inner (\<lambda>j. []) (\<lambda>s. None) (\<lambda>p. None) None 0 (Suc 0) None True
       [plain_message System ''s'', plain_message User ''a'', plain_message User ''b''] = Some (facts, ms')
     \<and> take (Suc 0) ms' = [plain_message System ''s''] \<and> suffix [plain_message User ''b''] ms' \<and> length ms' \<le> Suc (Suc (Suc 0))"
  using compaction_keeps_recent [of "Suc 0" "\<lambda>j. []" "\<lambda>s. None" "\<lambda>p. None" None 0 None True
      "[plain_message System ''s'', plain_message User ''a'', plain_message User ''b'']"]
  by (simp add: cut_start_def has_system_def plain_message_def numeral_eq_Suc)

lemma compact_unanswered:
  assumes "0 < preserve" "\<And>p. answer (case cp of None \<Rightarrow> provider | Some c \<Rightarrow> c) p = None"
  shows "compact_if_needed_inner js pf provider cp mx preserve lang force ms = Some (None, ms)"
  using assms(1)
  by (cases rule: compact_inner_cases [where js = js and pf = pf and provider = provider and cp = cp
      and mx = mx and lang = lang and force = force and ms = ms]) (use assms(2) in auto)

text \<open>Compaction fails open: when no call of the provider is answered in time, the messages are
  untouched and no fact is reported.\<close>

theorem compaction_fails_open:
  assumes "0 < preserve" "\<And>p. answer (case cp of None \<Rightarrow> provider | Some c \<Rightarrow> c) p = None"
  shows "compact_if_needed_inner js pf provider cp mx preserve lang force ms = Some (None, ms)"
  using assms by (rule compact_unanswered)

theorem compaction_fails_open_witness:
  "compact_if_needed_inner (\<lambda>j. []) (\<lambda>s. None) (\<lambda>p. None) None 0 1 None True
     [plain_message User ''a'', plain_message User ''b''] =
   Some (None, [plain_message User ''a'', plain_message User ''b''])"
  by (rule compaction_fails_open) (simp_all add: answer_def)

text \<open>With \<open>preserve_last_n = 0\<close>, which the configuration accepts, the first access is past the end.\<close>

lemma zero_preserve_panics:
  assumes "cut_start ms < length ms" "force \<or> mx = 0"
  shows "compact_if_needed_inner js pf provider cp mx 0 lang force ms = None"
proof -
  have "back_over_tools ms (cut_start ms) (length ms) = None"
    using assms(1) by (cases "length ms") (auto simp: nth_opt_def)
  then have "cut_range ms 0 = None" using assms(1) by (simp add: cut_range_def Let_def)
  then show ?thesis using assms(2) by (auto simp: compact_if_needed_inner_def Let_def)
qed

text \<open>The second step back is one too many: the assistant message is kept already, and the message
  before it may be the result of an earlier call that is compacted away.\<close>

definition call_message :: "string \<Rightarrow> Message" where
  "call_message i =
     (plain_message Assistant [])\<lparr>msg_tool_calls := Some [\<lparr>tc_id = i, tc_name = ''t'', tc_arguments = JNull\<rparr>]\<rparr>"

definition result_message :: "string \<Rightarrow> Message" where
  "result_message i = (plain_message Tool ''ok'')\<lparr>msg_tool_call_id := Some i\<rparr>"

lemma cut_orphans_result:
  "cut_range [plain_message User ''q'', call_message ''c1'', result_message ''c1'',
              call_message ''c2'', result_message ''c2''] 1 = Some (Some (0, 2))"
  by (simp add: cut_range_def cut_start_def has_system_def call_message_def result_message_def
      plain_message_def back_over_call_def nth_opt_def numeral_eq_Suc)


section \<open>The header is replaced\<close>

lemma generated_header: "is_progress_header (plain_message System (generate_progress_header iter ms d))"
  by (simp add: is_progress_header_def plain_message_def generate_progress_header_def Let_def starts_with_def)

lemma filter_insert_header:
  "filter P (insert_header h ms) =
     filter P (take (cut_start ms) ms) @ (if P (plain_message System h) then [plain_message System h] else [])
       @ filter P (drop (cut_start ms) ms)"
  by (simp add: insert_header_def Let_def)

text \<open>Compactions in one turn do not pile up headers: after a compaction that reported facts there is
  exactly one progress header, and removing it gives back the compacted messages without theirs.\<close>

theorem one_progress_header:
  assumes "after_compaction iter mx ui agent (Some det) (Some facts, ms) = (ms', eff)"
  shows "length (filter is_progress_header ms') = 1 \<and> remove_progress_header ms' = remove_progress_header ms"
proof -
  let ?ms1 = "remove_progress_header ms"
  let ?h = "generate_progress_header iter ?ms1 det"
  have ms': "ms' = insert_header ?h ?ms1"
    using assms by (simp add: after_compaction_def Let_def)
  have none: "filter is_progress_header (take n ?ms1) = []" "filter is_progress_header (drop n ?ms1) = []" for n
    by (auto simp: remove_progress_header_def filter_empty_conv dest: in_set_takeD in_set_dropD)
  then have all: "filter (\<lambda>m. \<not> is_progress_header m) (take n ?ms1) = take n ?ms1"
      "filter (\<lambda>m. \<not> is_progress_header m) (drop n ?ms1) = drop n ?ms1" for n
    by (auto simp: filter_id_conv filter_empty_conv)
  show ?thesis
    using generated_header [of iter ?ms1 det] none all
    unfolding ms' remove_progress_header_def [of "insert_header ?h ?ms1"] filter_insert_header by simp
qed

theorem one_progress_header_witness:
  "length (filter is_progress_header
     (fst (after_compaction id None False ''a'' (Some (new_detector default_config))
        (Some [''f''], [plain_message System ''s'', plain_message System ''[Session Progress] old''])))) = 1"
  using one_progress_header [of id None False "''a''" "new_detector default_config" "[''f'']"
      "[plain_message System ''s'', plain_message System ''[Session Progress] old'']"]
  by (metis prod.collapse)

section \<open>The command rewrites the session\<close>

lemma insert_rows_messages:
  "insert_rows row i n d = Inr d' \<Longrightarrow> messages d' = messages d @ map row [i ..< i + n]"
proof (induction n arbitrary: i d)
  case (Suc n)
  then obtain d1 where "insert_message (row i) d = Inr d1" "insert_rows row (Suc i) n d1 = Inr d'"
    by (auto split: sum.splits)
  then show ?case using Suc.IH [of "Suc i" d1] insert_message_Inr [of "row i" d d1]
    by (simp add: upt_conv_Cons del: upt_Suc)
qed simp

lemma insert_rows_ok: "db_ok d \<Longrightarrow> insert_rows row i n d = Inr d' \<Longrightarrow> db_ok d'"
  by (induction row i n d rule: insert_rows.induct) (auto split: sum.splits dest: db_ok_insert_message)

lemma replace_messages_ok: "db_ok d \<Longrightarrow> replace_messages cj fresh now sid ms d = Inr d' \<Longrightarrow> db_ok d'"
  unfolding replace_messages_def by (rule insert_rows_ok [OF db_ok_delete_messages])

definition session_rows :: "uuid \<Rightarrow> db \<Rightarrow> message_row list" where
  "session_rows sid d = filter (\<lambda>m. m_session_id m = sid) (messages d)"

lemma replace_messages_rows:
  assumes "replace_messages cj fresh now sid ms d = Inr d'"
  shows "session_rows sid d' = map (\<lambda>i. row_of_message cj (fresh i) sid now (ms ! i)) [0 ..< length ms]"
proof -
  have "session_rows sid (delete_messages (\<lambda>m. m_session_id m = sid) d) = []"
    by (auto simp: session_rows_def delete_messages_def Let_def filter_empty_conv)
  moreover have "messages d' = messages (delete_messages (\<lambda>m. m_session_id m = sid) d)
      @ map (\<lambda>i. row_of_message cj (fresh i) sid now (ms ! i)) [0 ..< length ms]"
    using insert_rows_messages [OF assms [unfolded replace_messages_def]] by simp
  ultimately show ?thesis
    by (simp add: session_rows_def filter_map o_def row_of_message_def new_message_def)
qed

text \<open>What \<open>/compact\<close> leaves: when it reports success, the session has at most as many rows as it loaded
  (\<open>max_history_messages\<close>, 50 by default), whatever it had before; every row is new, has no parent and
  the same timestamp, and the tables stay consistent.\<close>

theorem compact_command_rewrites:
  assumes "compact_command js pf pc cj provider cp cfg lang mh fresh now (Some sid) d =
             Some (CompactDone before after n, eff, d')"
    and "db_ok d" "0 < preserve_last_n cfg"
  shows "db_ok d' \<and> length (session_rows sid d') \<le> (case mh of None \<Rightarrow> 50 | Some k \<Rightarrow> k)
     \<and> list_all (\<lambda>m. m_created_at m = now \<and> m_parent_message_id m = None \<and> m_id m \<in> range fresh)
         (session_rows sid d')"
proof -
  define lim where "lim = (case mh of None \<Rightarrow> 50 :: nat | Some k \<Rightarrow> k)"
  define ms where "ms = map (message_of_row pc) (load_messages sid (Some lim) d)"
  obtain facts ms' where c: "compact_if_needed js pf provider cp 0 (preserve_last_n cfg) (Some lang) ms =
        Some (Some facts, ms')" and r: "replace_messages cj fresh now sid ms' d = Inr d'"
    using assms(1) unfolding compact_command_def option.case lim_def [symmetric] Let_def ms_def [symmetric]
    by (auto split: option.splits sum.splits)
  have "length ms' \<le> length ms"
    using compaction_bounds [OF assms(3)] c unfolding compact_if_needed_def by (metis option.inject prod.inject)
  also have "length ms \<le> lim" by (simp add: ms_def load_messages_def order_asc_def)
  finally have "length (session_rows sid d') \<le> lim" using replace_messages_rows [OF r] by simp
  moreover have "list_all (\<lambda>m. m_created_at m = now \<and> m_parent_message_id m = None \<and> m_id m \<in> range fresh)
      (session_rows sid d')"
    unfolding replace_messages_rows [OF r] by (auto simp: list_all_iff row_of_message_def new_message_def)
  ultimately show ?thesis using replace_messages_ok [OF assms(2) r] unfolding lim_def by blast
qed

definition compact_example :: db where
  "compact_example =
     \<lparr>sessions = [new_session_row 1 ''a'' ''u'' ''c'' 0],
      messages = [new_message 1 1 ''user'' ''x'' 1, new_message 2 1 ''assistant'' ''y'' 2, new_message 3 1 ''user'' ''z'' 3],
      timeline = [], timeline_seq = 0\<rparr>"

definition silent_chat :: timed_chat where
  "silent_chat p = Some (Inr \<lparr>resp_content = [], resp_tool_calls = [], resp_finish_reason = None,
     resp_model = None, resp_provider = None, resp_fallback_notice = None\<rparr>)"

lemma compact_example_ok: "db_ok compact_example"
  by code_simp

lemma silent_summary [simp]: "answer silent_chat p = Some []" "summary_message [] = []"
proof -
  have "find_open_tag_ascii [] = None"
    by (simp add: find_open_tag_ascii_def open_tags_def)
  then have "strip_loop [] = []" by (simp add: strip_loop.simps)
  then show "summary_message [] = []"
    by (simp add: summary_message_def strip_thinking_def trim_def trim_start_def trim_end_def)
qed (simp add: answer_def silent_chat_def)

lemma compact_example_run:
  "compact_command (\<lambda>j. []) (\<lambda>s. Some [''f'']) (\<lambda>j. None) (\<lambda>c. None) silent_chat None
     (Some (default_compaction\<lparr>cc_preserve_last_n := 1\<rparr>)) ''en'' None (\<lambda>i. i + 10) 9 (Some 1) compact_example =
   Some (CompactDone 3 1 1, [IndexFacts [''f'']],
     compact_example\<lparr>sessions := [(new_session_row 1 ''a'' ''u'' ''c'' 0)\<lparr>s_last_message_at := 9\<rparr>],
                     messages := [new_message 10 1 ''user'' ''z'' 9]\<rparr>)"
proof -
  have l: "load_messages 1 (Some 50) compact_example = messages compact_example"
    by (simp add: load_messages_def live_messages_def compact_example_def new_message_def order_desc_def
        order_asc_def)
  have k: "cut_range (map (message_of_row (\<lambda>j. None)) (messages compact_example)) 1 = Some (Some (0, 2))"
    by (simp add: cut_range_def cut_start_def has_system_def compact_example_def message_of_row_def row_role_def
        plain_message_def new_message_def nth_opt_def back_over_call_def numeral_eq_Suc)
  have c: "compact_if_needed (\<lambda>j. []) (\<lambda>s. Some [''f'']) silent_chat None 0 1 (Some ''en'')
      (map (message_of_row (\<lambda>j. None)) (messages compact_example)) =
      Some (Some [''f''], [plain_message User ''z''])"
    using k by (simp add: compact_if_needed_def compact_if_needed_inner_def)
      (simp add: compact_example_def message_of_row_def row_role_def plain_message_def new_message_def)
  have r: "replace_messages (\<lambda>c. None) (\<lambda>i. i + 10) 9 1 [plain_message User ''z''] compact_example =
      Inr (compact_example\<lparr>sessions := [(new_session_row 1 ''a'' ''u'' ''c'' 0)\<lparr>s_last_message_at := 9\<rparr>],
                     messages := [new_message 10 1 ''user'' ''z'' 9]\<rparr>)"
    by code_simp
  show ?thesis
    using l c r by (simp add: compact_command_def preserve_last_n_def) (simp add: compact_example_def)
qed

theorem compact_command_rewrites_witness:
  "db_ok (compact_example\<lparr>sessions := [(new_session_row 1 ''a'' ''u'' ''c'' 0)\<lparr>s_last_message_at := 9\<rparr>],
                     messages := [new_message 10 1 ''user'' ''z'' 9]\<rparr>)"
  using compact_command_rewrites [OF compact_example_run compact_example_ok] by (simp add: preserve_last_n_def)

section \<open>Recovery from an overflow\<close>

text \<open>The compactor of the retry layers is \<^const>\<open>compact_messages_force\<close> without a detector.\<close>

definition forced_compactor ::
  "(json \<Rightarrow> string) \<Rightarrow> (string \<Rightarrow> string list option) \<Rightarrow> ((string \<times> nat) list \<Rightarrow> (string \<times> nat) list) \<Rightarrow>
   CompactionConfig option \<Rightarrow> string \<Rightarrow> ('w \<Rightarrow> timed_chat) \<Rightarrow> 'w llm_env \<Rightarrow> bool" where
  "forced_compactor js pf iter cfg lang provider env \<longleftrightarrow>
     (\<forall>w ms ms' eff. compact_messages_force js pf iter cfg lang (provider w) None False [] None ms = Some (ms', eff)
        \<longrightarrow> fst (env_compact_force env w ms) = ms')"

lemma force_keeps_recent:
  assumes "0 < preserve_last_n cfg"
  shows "\<exists>ms' eff. compact_messages_force js pf iter cfg lang provider cp ui agent None ms = Some (ms', eff)
     \<and> suffix (drop (length ms - preserve_last_n cfg) ms) ms' \<and> length ms' \<le> length ms"
proof -
  obtain facts ms' where c: "force_compact js pf provider cp (preserve_last_n cfg) (Some lang) ms = Some (facts, ms')"
      "suffix (drop (length ms - preserve_last_n cfg) ms) ms'" "length ms' \<le> length ms"
    using compaction_bounds [OF assms] unfolding force_compact_def by blast
  moreover have "fst (after_compaction iter None ui agent None (facts, ms')) = ms'"
    by (simp add: after_compaction_def split: option.split)
  ultimately show ?thesis by (metis (no_types, lifting) compact_messages_force_def option.simps(9) prod.collapse)
qed

text \<open>A call that overflowed is repeated with the recent messages intact: whatever the provider of the
  compaction answers, the messages after the recovery end with the last \<open>preserve_last_n\<close> messages of
  the failed call and are not more than it had.\<close>

theorem overflow_retry_keeps_recent:
  assumes "forced_compactor js pf iter cfg lang provider env" "0 < preserve_last_n cfg"
  shows "suffix (drop (length (st_messages st) - preserve_last_n cfg) (st_messages st))
           (st_messages (snd (overflow_recovery re env chat st)))
         \<and> length (st_messages (snd (overflow_recovery re env chat st))) \<le> length (st_messages st)"
proof -
  have same: "st_messages (snd (call_provider chat s)) = st_messages s" for s :: "'a call_state"
    by (simp add: call_provider_def remember_def split: prod.split)
  have keep: "suffix (drop (length (st_messages s) - preserve_last_n cfg) (st_messages s))
        (st_messages (compact_force env s)) \<and> length (st_messages (compact_force env s)) \<le> length (st_messages s)" for s
  proof -
    obtain ms' eff where c: "compact_messages_force js pf iter cfg lang (provider (st_world s)) None False [] None
        (st_messages s) = Some (ms', eff)" "suffix (drop (length (st_messages s) - preserve_last_n cfg) (st_messages s)) ms'"
        "length ms' \<le> length (st_messages s)"
      using force_keeps_recent [OF assms(2)] by blast
    then have "fst (env_compact_force env (st_world s) (st_messages s)) = ms'"
      using assms(1) unfolding forced_compactor_def by blast
    then have "st_messages (compact_force env s) = ms'"
      by (auto simp: compact_force_def remember_def split: prod.split)
    then show ?thesis using c(2,3) by simp
  qed
  obtain r s1 where c: "call_provider chat st = (r, s1)" by fastforce
  then have s1: "st_messages s1 = st_messages st" using same [of st] by simp
  show ?thesis
    using keep [of s1] same [of "compact_force env s1"] s1
    by (cases r) (auto simp: overflow_recovery_def c suffix_drop)
qed

theorem overflow_retry_keeps_recent_witness:
  "suffix [plain_message User ''b'']
     (st_messages (snd (overflow_recovery (no_regexes\<lparr>RE_CONTEXT_OVERFLOW := \<lambda>s. True\<rparr>)
        (failing_env (Untyped [])) (env_chat (failing_env (Untyped [])))
        \<lparr>st_messages = [plain_message User ''a'', plain_message User ''b''], st_world = (), st_history = []\<rparr>)))"
proof -
  let ?cfg = "Some (default_compaction\<lparr>cc_preserve_last_n := 1\<rparr>)"
  have n: "preserve_last_n ?cfg = 1" by (simp add: preserve_last_n_def)
  have "force_compact (\<lambda>j. []) (\<lambda>s. None) (\<lambda>p. None) None 1 (Some ''en'') ms = Some (None, ms)" for ms
    unfolding force_compact_def by (rule compact_unanswered) (simp_all add: answer_def)
  then have "forced_compactor (\<lambda>j. []) (\<lambda>s. None) id ?cfg ''en'' (\<lambda>w p. None) (failing_env (Untyped []))"
    by (simp add: forced_compactor_def compact_messages_force_def after_compaction_def n failing_env_def)
  from overflow_retry_keeps_recent [OF this, of
      "\<lparr>st_messages = [plain_message User ''a'', plain_message User ''b''], st_world = (), st_history = []\<rparr>"
      "no_regexes\<lparr>RE_CONTEXT_OVERFLOW := \<lambda>s. True\<rparr>" "env_chat (failing_env (Untyped []))"]
  show ?thesis by (simp add: n)
qed


end
