(* ===== verification/Compression.thy ===== *)
theory Compression
  imports Compaction Session_Paging
begin

text \<open>
  The compressor of a turn (\<open>agent/compressor.rs\<close> and \<open>compress_messages\<close> of \<open>agent/history.rs\<close>): when to
  compress, and the five phases that prune old tool results, choose a head and a tail, summarise the
  middle, assemble the new list and repair its tool-call pairs.  The boundary is written to the
  message table and the timeline of the session store.

  A provider is a function from a prompt to the outcome of its call: the two calls of a compression
  run concurrently and their prompts differ, so a function stands for any pair of outcomes.  \<open>hash\<close> is
  \<open>DefaultHasher\<close> on a text.  \<open>mark_ok\<close> and \<open>event_ok\<close> say whether the two best-effort writes reached the
  database.
\<close>

section \<open>The compressor\<close>

record Compressor =
  previous_summary :: "string option"
  ineffective_count :: "8 word"
  last_prompt_tokens :: "32 word"
  compression_count :: "32 word"
  context_limit :: "32 word"

definition new_compressor :: "32 word \<Rightarrow> Compressor" where
  "new_compressor limit =
     \<lparr>previous_summary = None, ineffective_count = 0, last_prompt_tokens = 0, compression_count = 0,
      context_limit = limit\<rparr>"

text \<open>\<open>serde_json::from_value::<CompressorState>\<close>: an object with the fields by name (an absent option is
  \<open>None\<close>, other members are ignored) or an array with the fields in order.\<close>

definition parse_uint :: "nat \<Rightarrow> json \<Rightarrow> nat option" where
  "parse_uint mx j =
     (case j of
        JNum s \<Rightarrow> if s \<noteq> [] \<and> list_all (\<lambda>c. 48 \<le> (of_char c :: nat) \<and> (of_char c :: nat) \<le> 57) s
                      \<and> digits_val s \<le> mx then Some (digits_val s) else None
      | _ \<Rightarrow> None)"

fun parse_opt_str :: "json option \<Rightarrow> string option option" where
  "parse_opt_str None = Some None"
| "parse_opt_str (Some JNull) = Some None"
| "parse_opt_str (Some (JStr s)) = Some (Some s)"
| "parse_opt_str (Some _) = None"

definition state_of_fields ::
  "json option \<Rightarrow> json option \<Rightarrow> json option \<Rightarrow> (string option \<times> nat \<times> nat) option" where
  "state_of_fields ps ic cc =
     Option.bind (parse_opt_str ps) (\<lambda>s.
       Option.bind (Option.bind ic (parse_uint 255)) (\<lambda>i.
         Option.bind (Option.bind cc (parse_uint (2 ^ 32 - 1))) (\<lambda>c. Some (s, i, c))))"

fun compressor_state :: "json \<Rightarrow> (string option \<times> nat \<times> nat) option" where
  "compressor_state (JObj ms) =
     state_of_fields (map_of ms ''previous_summary'') (map_of ms ''ineffective_count'')
       (map_of ms ''compression_count'')"
| "compressor_state (JArr [ps, ic, cc]) = state_of_fields (Some ps) (Some ic) (Some cc)"
| "compressor_state _ = None"

definition compressor_load :: "json option \<Rightarrow> 32 word \<Rightarrow> Compressor" where
  "compressor_load state limit =
     (case Option.bind state compressor_state of
        None \<Rightarrow> new_compressor limit
      | Some (s, i, c) \<Rightarrow>
          (new_compressor limit)\<lparr>previous_summary := s, ineffective_count := of_nat i, compression_count := of_nat c\<rparr>)"

definition compressor_to_json :: "Compressor \<Rightarrow> json" where
  "compressor_to_json c =
     JObj [(''previous_summary'', case previous_summary c of None \<Rightarrow> JNull | Some s \<Rightarrow> JStr s),
           (''ineffective_count'', JNum (nat_str (unat (ineffective_count c)))),
           (''compression_count'', JNum (nat_str (unat (compression_count c))))]"

definition HARD_COMPACT_CEILING :: rat where "HARD_COMPACT_CEILING = f64_round (92 / 100)"

text \<open>\<open>(context_limit as f64 * x) as u32\<close>.\<close>

definition limit_fraction :: "Compressor \<Rightarrow> rat \<Rightarrow> nat" where
  "limit_fraction c x = f64_as_uint 32 (f64_mul (of_nat (unat (context_limit c))) x)"

definition should_compress :: "CompactionConfig \<Rightarrow> Compressor \<Rightarrow> bool" where
  "should_compress cfg c =
     (if \<not> cc_enabled cfg then False
      else if last_prompt_tokens c = 0 then False
      else if unat (last_prompt_tokens c) < limit_fraction c (cc_threshold cfg) then False
      else if unat (last_prompt_tokens c) \<ge> limit_fraction c HARD_COMPACT_CEILING then True
      else if ineffective_count c \<ge> cc_anti_thrash_max_skips cfg then False
      else True)"

definition update_token_count :: "32 word \<Rightarrow> Compressor \<Rightarrow> Compressor" where
  "update_token_count n c = c\<lparr>last_prompt_tokens := n\<rparr>"

text \<open>\<open>saturating_add(1)\<close>.\<close>

definition sat_inc :: "'a::len word \<Rightarrow> 'a word" where
  "sat_inc w = (if w = - 1 then w else w + 1)"

definition savings :: "32 word \<Rightarrow> 32 word \<Rightarrow> rat" where
  "savings tokens_before tokens_after =
     (if tokens_before > 0
      then f64_div (of_nat (unat tokens_before - unat tokens_after)) (of_nat (unat tokens_before)) else 0)"

definition record_compression_result ::
  "32 word \<Rightarrow> 32 word \<Rightarrow> CompactionConfig \<Rightarrow> Compressor \<Rightarrow> Compressor" where
  "record_compression_result tokens_before tokens_after cfg c =
     c\<lparr>ineffective_count :=
          (if savings tokens_before tokens_after < cc_anti_thrash_min_savings cfg
           then sat_inc (ineffective_count c) else 0),
        compression_count := sat_inc (compression_count c)\<rparr>"

text \<open>The column \<open>sessions.compaction_state\<close>, kept beside the tables.\<close>

type_synonym compaction_column = "uuid \<rightharpoonup> json"

definition get_compaction_state :: "uuid \<Rightarrow> db \<Rightarrow> compaction_column \<Rightarrow> json option" where
  "get_compaction_state sid d col = (if session_exists d sid then col sid else None)"

definition set_compaction_state :: "uuid \<Rightarrow> json \<Rightarrow> db \<Rightarrow> compaction_column \<Rightarrow> compaction_column" where
  "set_compaction_state sid v d col = (if session_exists d sid then col(sid \<mapsto> v) else col)"

section \<open>Pruning\<close>

definition duplicate_text :: string where
  "duplicate_text =
     ''[Duplicate tool output '' @ utf8 [0xE2, 0x80, 0x94] @ '' same content as a more recent call]''"

text \<open>Pass 1 from the last message to the first: \<open>seen\<close> is the index of the newest result with a hash,
  \<open>canon\<close> the indices that later duplicates refer to.\<close>

fun dedup ::
  "(string \<Rightarrow> 64 word) \<Rightarrow> nat \<Rightarrow> nat \<Rightarrow> Message list \<Rightarrow> (64 word \<rightharpoonup> nat) \<Rightarrow> nat list \<Rightarrow> Message list \<times> nat list" where
  "dedup hash prune_end 0 ms seen canon = (ms, canon)"
| "dedup hash prune_end (Suc i) ms seen canon =
     (let m = ms ! i; content = msg_content m in
      if msg_role m \<noteq> Tool \<or> length content < 200 then dedup hash prune_end i ms seen canon
      else case seen (hash content) of
             Some newer \<Rightarrow>
               if i < newer \<and> i < prune_end
               then dedup hash prune_end i (ms[i := m\<lparr>msg_content := duplicate_text\<rparr>]) seen (newer # canon)
               else dedup hash prune_end i ms seen canon
           | None \<Rightarrow> dedup hash prune_end i ms (seen(hash content \<mapsto> i)) canon)"

definition pruned_text :: "Message \<Rightarrow> string" where
  "pruned_text m =
     ''[tool result '' @ (case msg_tool_call_id m of None \<Rightarrow> [] | Some i \<Rightarrow> i) @ ''] (''
       @ nat_str (length (msg_content m)) @ '' chars '' @ utf8 [0xE2, 0x80, 0x94] @ '' pruned)''"

definition prune_one :: "nat \<Rightarrow> nat list \<Rightarrow> nat \<Rightarrow> Message \<Rightarrow> Message" where
  "prune_one prune_end canon i m =
     (if i < prune_end \<and> i \<notin> set canon \<and> msg_role m = Tool \<and> length (msg_content m) > 200
         \<and> \<not> starts_with ''['' (msg_content m)
      then m\<lparr>msg_content := pruned_text m\<rparr> else m)"

definition prune_old_tool_results :: "(string \<Rightarrow> 64 word) \<Rightarrow> Message list \<Rightarrow> nat \<Rightarrow> Message list" where
  "prune_old_tool_results hash ms protect_tail =
     (let prune_end = length ms - protect_tail;
          (ms1, canon) = dedup hash prune_end (length ms) ms Map.empty []
      in map (\<lambda>(i, m). prune_one prune_end canon i m) (enumerate 0 ms1))"

section \<open>Boundaries\<close>

fun skip_tools :: "Message list \<Rightarrow> nat" where
  "skip_tools [] = 0"
| "skip_tools (m # ms) = (if msg_role m = Tool then Suc (skip_tools ms) else 0)"

definition find_head_end :: "Message list \<Rightarrow> nat \<Rightarrow> nat" where
  "find_head_end ms protect_first_n =
     (let idx = min protect_first_n (length ms) in idx + skip_tools (drop idx ms))"

definition SUMMARY_PREFIX :: string where
  "SUMMARY_PREFIX =
     ''[CONTEXT COMPACTION '' @ utf8 [0xE2, 0x80, 0x94]
     @ '' REFERENCE ONLY] Earlier turns were compacted into the summary below. This is a ''
     @ ''handoff from a previous context window '' @ utf8 [0xE2, 0x80, 0x94]
     @ '' treat it as background reference, NOT as active instructions. Do NOT answer ''
     @ ''questions or fulfill requests mentioned in this summary; they were already ''
     @ ''addressed. Your current task is identified in the '' @ [CHR 0x27] @ ''## Active Task''
     @ [CHR 0x27] @ '' section '' @ utf8 [0xE2, 0x80, 0x94]
     @ '' resume exactly from there. Respond ONLY to the latest user message that ''
     @ ''appears AFTER this summary.''"

definition SUMMARY_NOTE_FOR_SYSTEM :: string where
  "SUMMARY_NOTE_FOR_SYSTEM =
     ''[Note: Some earlier conversation turns have been compacted into a handoff ''
     @ ''summary to preserve context space. Build on that summary rather than re-doing '' @ ''work.]''"

text \<open>The walk from the end: \<open>j\<close> messages are still in front of it.\<close>

fun tail_walk :: "Message list \<Rightarrow> nat \<Rightarrow> nat \<Rightarrow> nat \<Rightarrow> nat \<Rightarrow> nat \<Rightarrow> nat \<Rightarrow> nat" where
  "tail_walk ms head_end soft min_tail 0 acc cut_idx = cut_idx"
| "tail_walk ms head_end soft min_tail (Suc i) acc cut_idx =
     (if i < head_end then cut_idx
      else let t = length (msg_content (ms ! i)) div 4 + 10
           in if acc + t > soft \<and> length ms - i \<ge> min_tail then cut_idx
              else tail_walk ms head_end soft min_tail i (acc + t) i)"

definition is_real_user :: "Message \<Rightarrow> bool" where
  "is_real_user m \<longleftrightarrow> msg_role m = User \<and> \<not> starts_with SUMMARY_PREFIX (msg_content m)"

definition last_user_idx :: "Message list \<Rightarrow> nat \<Rightarrow> nat option" where
  "last_user_idx ms head_end =
     (let is = filter (\<lambda>i. is_real_user (ms ! i)) [head_end ..< length ms]
      in if is = [] then None else Some (last is))"

definition soft_ceiling :: "nat \<Rightarrow> nat" where
  "soft_ceiling tail_budget = f64_as_uint 64 (f64_mul (f64_round (of_nat tail_budget)) (3 / 2))"

definition find_tail_start_by_tokens :: "Message list \<Rightarrow> nat \<Rightarrow> nat \<Rightarrow> nat option" where
  "find_tail_start_by_tokens ms head_end tail_budget =
     (let n = length ms in
      if n \<le> head_end + 1 then Some n
      else let min_tail = min 3 (n - head_end - 1);
               cut0 = tail_walk ms head_end (soft_ceiling tail_budget) min_tail n 0 n;
               cut1 = min cut0 (n - min_tail);
               user = last_user_idx ms head_end;
               cut2 = (case user of Some u \<Rightarrow> if u < cut1 then u else cut1 | None \<Rightarrow> cut1)
           in Option.bind (back_over_tools ms head_end cut2) (\<lambda>cut3.
                Option.bind (back_over_call ms head_end cut3) (\<lambda>cut4.
                  Some (if user = Some head_end \<and> cut4 \<le> head_end then head_end
                        else max cut4 (head_end + 1)))))"

section \<open>Pairs of calls and results\<close>

definition calls_of :: "Message \<Rightarrow> string list" where
  "calls_of m =
     (if msg_role m = Assistant then map tc_id (case msg_tool_calls m of None \<Rightarrow> [] | Some tc \<Rightarrow> tc) else [])"

definition surviving_call_ids :: "Message list \<Rightarrow> string list" where
  "surviving_call_ids ms = concat (map calls_of ms)"

definition result_call_ids :: "Message list \<Rightarrow> string list" where
  "result_call_ids ms = List.map_filter msg_tool_call_id (filter (\<lambda>m. msg_role m = Tool) ms)"

definition stub_text :: string where
  "stub_text =
     ''[Result from earlier conversation '' @ utf8 [0xE2, 0x80, 0x94] @ '' see context summary above]''"

definition stub :: "string \<Rightarrow> Message" where
  "stub call_id = (plain_message Tool stub_text)\<lparr>msg_tool_call_id := Some call_id\<rparr>"

definition keeps_result :: "string list \<Rightarrow> Message \<Rightarrow> bool" where
  "keeps_result surviving m \<longleftrightarrow>
     msg_role m = Tool \<longrightarrow> (case msg_tool_call_id m of None \<Rightarrow> False | Some i \<Rightarrow> i \<in> set surviving)"

definition sanitize_tool_pairs :: "Message list \<Rightarrow> Message list" where
  "sanitize_tool_pairs ms =
     (let surviving = surviving_call_ids ms; results = result_call_ids ms;
          kept = filter (keeps_result surviving) ms;
          missing = filter (\<lambda>i. i \<notin> set results) surviving
      in if missing = [] then kept
         else concat (map (\<lambda>m. m # map stub (filter (\<lambda>i. i \<in> set missing) (calls_of m))) kept))"

section \<open>The summary\<close>

definition MIN_SUMMARY_TOKENS :: nat where "MIN_SUMMARY_TOKENS = 2000"
definition SUMMARY_TOKENS_CEILING :: nat where "SUMMARY_TOKENS_CEILING = 12000"
definition SUMMARY_RATIO :: rat where "SUMMARY_RATIO = f64_round (20 / 100)"

definition summary_budget :: "nat \<Rightarrow> nat" where
  "summary_budget content_tokens =
     min (max (f64_as_uint 64 (f64_mul (f64_round (of_nat content_tokens)) SUMMARY_RATIO)) MIN_SUMMARY_TOKENS)
       SUMMARY_TOKENS_CEILING"

definition summary_template :: "nat \<Rightarrow> string" where
  "summary_template budget =
     ''## Active Task'' @ [CHR 0x0A] @ ''[THE SINGLE MOST IMPORTANT FIELD. Copy the user''
     @ [CHR 0x27] @ ''s most recent request verbatim. If no outstanding task, write '' @ [CHR 0x22]
     @ ''None.'' @ [CHR 0x22] @ '']'' @ [CHR 0x0A, CHR 0x0A] @ ''## Goal'' @ [CHR 0x0A]
     @ ''[What the user is trying to accomplish overall]'' @ [CHR 0x0A, CHR 0x0A]
     @ ''## Constraints & Preferences'' @ [CHR 0x0A]
     @ ''[User preferences, coding style, important constraints]'' @ [CHR 0x0A, CHR 0x0A]
     @ ''## Completed Actions'' @ [CHR 0x0A] @ ''[Numbered list: N. ACTION target ''
     @ utf8 [0xE2, 0x80, 0x94] @ '' outcome [tool: name]]'' @ [CHR 0x0A, CHR 0x0A]
     @ ''## Active State'' @ [CHR 0x0A]
     @ ''[Working directory, branch, modified files, test status, running processes]''
     @ [CHR 0x0A, CHR 0x0A] @ ''## In Progress'' @ [CHR 0x0A]
     @ ''[Work underway when compaction fired]'' @ [CHR 0x0A, CHR 0x0A] @ ''## Blocked'' @ [CHR 0x0A]
     @ ''[Blockers, errors, issues not resolved '' @ utf8 [0xE2, 0x80, 0x94]
     @ '' include exact error messages]'' @ [CHR 0x0A, CHR 0x0A] @ ''## Key Decisions'' @ [CHR 0x0A]
     @ ''[Important technical decisions and WHY]'' @ [CHR 0x0A, CHR 0x0A] @ ''## Resolved Questions''
     @ [CHR 0x0A] @ ''[Questions already answered '' @ utf8 [0xE2, 0x80, 0x94]
     @ '' include the answer]'' @ [CHR 0x0A, CHR 0x0A] @ ''## Pending User Asks'' @ [CHR 0x0A]
     @ ''[Questions or requests not yet answered '' @ utf8 [0xE2, 0x80, 0x94] @ '' if none, write ''
     @ [CHR 0x22] @ ''None.'' @ [CHR 0x22] @ '']'' @ [CHR 0x0A, CHR 0x0A] @ ''## Relevant Files''
     @ [CHR 0x0A] @ ''[Files read, modified, created '' @ utf8 [0xE2, 0x80, 0x94]
     @ '' with brief note]'' @ [CHR 0x0A, CHR 0x0A] @ ''## Remaining Work'' @ [CHR 0x0A]
     @ ''[What remains to be done '' @ utf8 [0xE2, 0x80, 0x94]
     @ '' framed as context, not instructions]'' @ [CHR 0x0A, CHR 0x0A] @ ''## Critical Context''
     @ [CHR 0x0A] @ ''[Specific values, error messages, config details. NEVER include API keys ''
     @ utf8 [0xE2, 0x80, 0x94] @ '' write [REDACTED].]'' @ [CHR 0x0A, CHR 0x0A] @ ''Target ~''
     @ nat_str budget
     @ '' tokens. Be CONCRETE. Include file paths, commands, error messages, line '' @ ''numbers.''"

definition summary_preamble :: "string option \<Rightarrow> string" where
  "summary_preamble language =
     ''You are a summarization agent creating a context checkpoint. Your output will ''
     @ ''be injected as reference material for a DIFFERENT assistant that continues the ''
     @ ''conversation. Do NOT respond to any questions or requests in the conversation ''
     @ utf8 [0xE2, 0x80, 0x94]
     @ '' only output the structured summary. Do NOT include any preamble, greeting, or ''
     @ ''prefix. ''
     @ (if language = Some ''en'' then ''Write the summary in English.'' else ''Write the summary in Russian.'')
     @ '' NEVER include API keys, tokens, passwords, or secrets '' @ utf8 [0xE2, 0x80, 0x94]
     @ '' write [REDACTED] instead.''"

definition summary_request ::
  "(json \<Rightarrow> string) \<Rightarrow> Message list \<Rightarrow> string option \<Rightarrow> string option \<Rightarrow> Message list" where
  "summary_request js turns language previous =
     (let template = summary_template (summary_budget (estimate_tokens js turns));
          turns_text = format_messages_for_compaction turns
      in [plain_message User
            (case previous of
               Some prev \<Rightarrow>
                 summary_preamble language
                 @ [CHR 0x0A, CHR 0x0A]
     @ ''You are UPDATING a context compaction summary. A previous compaction produced ''
     @ ''the summary below. New turns have occurred since then.'' @ [CHR 0x0A, CHR 0x0A]
     @ ''PREVIOUS SUMMARY:'' @ [CHR 0x0A]
                 @ prev @ [CHR 0x0A, CHR 0x0A] @ ''NEW TURNS TO INCORPORATE:'' @ [CHR 0x0A] @ turns_text
                 @ [CHR 0x0A, CHR 0x0A]
     @ ''Update the summary using the structure below. PRESERVE all existing relevant ''
     @ ''info. ADD new completed actions (continue numbering). Move answered questions ''
     @ ''to Resolved. Update Active Task to the user'' @ [CHR 0x27]
     @ ''s most recent unfulfilled request.'' @ [CHR 0x0A, CHR 0x0A] @ template
             | None \<Rightarrow>
                 summary_preamble language
                 @ [CHR 0x0A, CHR 0x0A]
     @ ''Create a structured handoff summary for a different assistant that will ''
     @ ''continue this conversation.'' @ [CHR 0x0A, CHR 0x0A] @ ''TURNS TO SUMMARIZE:'' @ [CHR 0x0A]
                 @ turns_text @ [CHR 0x0A, CHR 0x0A] @ template)])"

type_synonym chat_fn = "Message list \<Rightarrow> anyhow + LlmResponse"

definition generate_hermes_summary ::
  "(json \<Rightarrow> string) \<Rightarrow> chat_fn \<Rightarrow> Message list \<Rightarrow> string option \<Rightarrow> string option \<Rightarrow> string option" where
  "generate_hermes_summary js chat turns language previous =
     (case chat (summary_request js turns language previous) of
        Inl e \<Rightarrow> None
      | Inr r \<Rightarrow> (let summary = trim (resp_content r) in
                   if summary = [] then None else Some (SUMMARY_PREFIX @ [CHR 0x0A] @ summary)))"

definition facts_text :: string where
  "facts_text =
     ''Extract key facts from this conversation as a JSON array of strings.'' @ [CHR 0x0A]
     @ ''MUST PRESERVE: active tasks with progress, UUIDs/URLs/file paths/IPs, decisions ''
     @ ''and rationale, user preferences, error conditions and resolutions, commitments.'' @ [CHR 0x0A]
     @ ''MAY OMIT: routine greetings, tool calls without noteworthy results, repeated '' @ ''info.''
     @ [CHR 0x0A] @ ''Each fact must be self-contained.''"

definition extract_facts_only ::
  "(string \<Rightarrow> string list option) \<Rightarrow> chat_fn \<Rightarrow> Message list \<Rightarrow> string option \<Rightarrow> string list" where
  "extract_facts_only parse_facts chat turns language =
     (case chat [plain_message System
                   (facts_text @ lang_hint language @ [CHR 0x0A] @ ''Return ONLY the JSON array, no other text.''),
                 plain_message User (format_messages_for_compaction turns)] of
        Inl e \<Rightarrow> []
      | Inr r \<Rightarrow> (case parse_facts (resp_content r) of None \<Rightarrow> [] | Some fs \<Rightarrow> fs))"

definition fallback_summary :: "nat \<Rightarrow> string" where
  "fallback_summary n =
     SUMMARY_PREFIX @ [CHR 0x0A] @ ''Summary generation was unavailable. '' @ nat_str n
     @ '' message(s) were removed to free context space. Continue based on the recent messages below.''"

section \<open>Compression\<close>

definition note_system :: "Message list \<Rightarrow> Message list" where
  "note_system head =
     (case head of
        [] \<Rightarrow> []
      | m # ms \<Rightarrow>
          (if msg_role m = System \<and> \<not> contains_str SUMMARY_NOTE_FOR_SYSTEM (msg_content m)
           then m\<lparr>msg_content := msg_content m @ [CHR 0x0A, CHR 0x0A] @ SUMMARY_NOTE_FOR_SYSTEM\<rparr> else m) # ms)"

definition force_user_leading :: "Message list \<Rightarrow> bool" where
  "force_user_leading head \<longleftrightarrow> head = [] \<or> list_all (\<lambda>m. msg_role m = System) head"

definition summary_role :: "Message list \<Rightarrow> MessageRole" where
  "summary_role head =
     (if force_user_leading head
         \<or> (head \<noteq> [] \<and> (msg_role (last head) = Assistant \<or> msg_role (last head) = Tool))
      then User else Assistant)"

fun other_role :: "MessageRole \<Rightarrow> MessageRole" where
  "other_role User = Assistant"
| "other_role _ = User"

definition separator :: string where
  "separator = [CHR 0x0A, CHR 0x0A] @ ''--- END OF CONTEXT SUMMARY '' @ utf8 [0xE2, 0x80, 0x94]
     @ '' respond to the message below ---'' @ [CHR 0x0A, CHR 0x0A]"

definition first_role :: "Message list \<Rightarrow> MessageRole option" where
  "first_role ms = (case ms of [] \<Rightarrow> None | m # _ \<Rightarrow> Some (msg_role m))"

text \<open>Phase 4.  \<open>note_system\<close> keeps the roles, so the last role of the assembled head is that of the head.\<close>

definition assemble :: "Message list \<Rightarrow> string \<Rightarrow> Message list \<Rightarrow> Message list" where
  "assemble head summary tail =
     (let role = summary_role head; assembled = note_system head;
          merge = first_role tail = Some role
                  \<and> assembled \<noteq> [] \<and> msg_role (last assembled) = other_role role
      in if \<not> merge
         then let r = (if force_user_leading head then role
                       else if first_role tail = Some role then other_role role else role)
              in assembled @ [plain_message r summary] @ tail
         else assembled
              @ (case tail of [] \<Rightarrow> []
                 | m # ms \<Rightarrow> m\<lparr>msg_content := summary @ separator @ msg_content m\<rparr> # ms))"

definition tail_budget :: "Compressor \<Rightarrow> CompactionConfig \<Rightarrow> nat" where
  "tail_budget c cfg =
     f64_as_uint 64 (f64_mul (f64_mul (of_nat (unat (context_limit c))) (cc_threshold cfg)) (cc_summary_target_ratio cfg))"

definition persist_boundary ::
  "(uuid \<Rightarrow> string) \<Rightarrow> timestamp \<Rightarrow> bool \<Rightarrow> bool \<Rightarrow> uuid \<Rightarrow> 32 word \<Rightarrow> string \<Rightarrow> uuid list \<Rightarrow> uuid option \<Rightarrow>
   uuid option \<Rightarrow> 32 word \<Rightarrow> 32 word \<Rightarrow> db \<Rightarrow> db" where
  "persist_boundary uuid_str now mark_ok event_ok sid segment summary ids first_compressed first_live tb ta d =
     (if ids = [] then d
      else let d1 = (if mark_ok then mark_messages_compressed ids d else d)
           in if \<not> event_ok then d1
              else case insert_compression_event uuid_str now sid segment summary first_compressed first_live
                          (int (unat tb)) (int (unat ta)) d1 of
                     Inl e \<Rightarrow> d1 | Inr d2 \<Rightarrow> d2)"

text \<open>The result is the extracted facts and the new messages, compressor and tables; \<^const>\<open>None\<close> is a
  panic.\<close>

definition compress_messages ::
  "(json \<Rightarrow> string) \<Rightarrow> (string \<Rightarrow> string list option) \<Rightarrow> (string \<Rightarrow> 64 word) \<Rightarrow> (uuid \<Rightarrow> string) \<Rightarrow> chat_fn \<Rightarrow>
   timestamp \<Rightarrow> bool \<Rightarrow> bool \<Rightarrow> uuid \<Rightarrow> string option \<Rightarrow> CompactionConfig \<Rightarrow>
   Message list \<times> Compressor \<times> db \<Rightarrow> (string list \<times> Message list \<times> Compressor \<times> db) option" where
  "compress_messages js parse_facts hash uuid_str chat now mark_ok event_ok sid language cfg st =
     (let (ms, c, d) = st;
          tokens_before = of_nat (estimate_tokens js ms) :: 32 word;
          pruned = prune_old_tool_results hash ms (unat (cc_preserve_last_n cfg));
          head_end = find_head_end pruned (cc_protect_first_n cfg)
      in case find_tail_start_by_tokens pruned head_end (tail_budget c cfg) of
           None \<Rightarrow> None
         | Some tail_start \<Rightarrow>
             if head_end \<ge> tail_start then Some ([], ms, c, d)
             else
               let turns = take (tail_start - head_end) (drop head_end pruned);
                   tail = drop tail_start pruned; head = take head_end pruned;
                   ids = List.map_filter msg_db_id turns;
                   first_compressed = msg_db_id (hd turns);
                   first_live = Option.bind (nth_opt pruned tail_start) msg_db_id;
                   summary = (case generate_hermes_summary js chat turns language (previous_summary c) of
                                Some s \<Rightarrow> s | None \<Rightarrow> fallback_summary (length turns));
                   facts = (if cc_extract_to_memory cfg then extract_facts_only parse_facts chat turns language else []);
                   ms' = sanitize_tool_pairs (assemble head summary tail);
                   tokens_after = of_nat (estimate_tokens js ms') :: 32 word;
                   c' = record_compression_result tokens_before tokens_after cfg (c\<lparr>previous_summary := Some summary\<rparr>)
               in Some (facts, ms', c',
                    persist_boundary uuid_str now mark_ok event_ok sid (compression_count c) summary ids
                      first_compressed first_live tokens_before tokens_after d))"

text \<open>The step of \<open>execute\<close> before a model call, and the token count it takes from the response.\<close>

definition proactive_compression ::
  "(json \<Rightarrow> string) \<Rightarrow> (string \<Rightarrow> string list option) \<Rightarrow> (string \<Rightarrow> 64 word) \<Rightarrow> (uuid \<Rightarrow> string) \<Rightarrow> chat_fn \<Rightarrow>
   chat_fn option \<Rightarrow> timestamp \<Rightarrow> bool \<Rightarrow> bool \<Rightarrow> uuid \<Rightarrow> string \<Rightarrow> CompactionConfig option \<Rightarrow>
   (Message list \<times> Compressor \<times> db) \<times> nat \<Rightarrow> ((Message list \<times> Compressor \<times> db) \<times> nat) option" where
  "proactive_compression js parse_facts hash uuid_str provider compaction_provider now mark_ok event_ok sid
     language cfg s =
     (case s of (st, context_chars) \<Rightarrow>
      case cfg of
        Some c \<Rightarrow>
          if cc_enabled c \<and> should_compress c (fst (snd st))
          then map_option (\<lambda>(_, st'). (st', total_chars (fst st')))
                 (compress_messages js parse_facts hash uuid_str
                    (case compaction_provider of None \<Rightarrow> provider | Some p \<Rightarrow> p)
                    now mark_ok event_ok sid (Some language) c st)
          else Some (st, context_chars)
      | None \<Rightarrow> Some (st, context_chars))"

definition note_usage :: "32 word option \<Rightarrow> nat \<Rightarrow> Compressor \<Rightarrow> Compressor" where
  "note_usage input_tokens context_chars c =
     (case input_tokens of
        Some n \<Rightarrow> update_token_count n c
      | None \<Rightarrow> (let estimated = of_nat (context_chars div 4) in
                  if estimated > last_prompt_tokens c then update_token_count estimated c else c))"

section \<open>The state survives a turn\<close>

lemma nat_str_digits: "nat_str n \<noteq> [] \<and> list_all (\<lambda>c. 48 \<le> (of_char c :: nat) \<and> (of_char c :: nat) \<le> 57) (nat_str n)"
proof (induction n rule: nat_str.induct)
  case (1 n)
  then show ?case by (subst (1 2) nat_str.simps) auto
qed

lemma parse_uint_nat_str: "n \<le> mx \<Longrightarrow> parse_uint mx (JNum (nat_str n)) = Some n"
  using nat_str_digits [of n] by (simp add: parse_uint_def)

lemma unat_le_max: "unat w \<le> 2 ^ LENGTH('a) - 1" for w :: "'a::len word"
proof -
  have "unat w < 2 ^ LENGTH('a)" by (rule unsigned_less)
  then show ?thesis by linarith
qed

lemma compressor_load_to_json:
  "compressor_load (Some (compressor_to_json c)) limit = c\<lparr>last_prompt_tokens := 0, context_limit := limit\<rparr>"
  using unat_le_max [of "ineffective_count c"] unat_le_max [of "compression_count c"]
  by (cases c) (simp add: compressor_load_def compressor_to_json_def state_of_fields_def parse_uint_nat_str
      new_compressor_def split: option.split)

text \<open>The compressor survives the database: loading what was stored gives back the summary and both
  counters, with the token count of the new turn at zero.\<close>

theorem compressor_roundtrip:
  "compressor_load (Some (compressor_to_json c)) (context_limit c) = c\<lparr>last_prompt_tokens := 0\<rparr>"
  by (simp add: compressor_load_to_json)

text \<open>A turn that ends before \<open>execute\<close> is finalised with a fresh compressor, which overwrites the summary
  and the counters of the session.\<close>

lemma placeholder_wipes_state:
  assumes "session_exists d sid"
  shows "compressor_load
           (get_compaction_state sid d (set_compaction_state sid (compressor_to_json (new_compressor 0)) d col)) limit =
         new_compressor limit"
  using assms
  by (simp add: get_compaction_state_def set_compaction_state_def compressor_load_to_json)
     (simp add: new_compressor_def)

section \<open>When to compress\<close>

definition streak :: "bool list \<Rightarrow> nat" where
  "streak hs = length (takeWhile (\<lambda>b. b) (rev hs))"

definition counts_results :: "CompactionConfig \<Rightarrow> bool list \<Rightarrow> Compressor \<Rightarrow> bool" where
  "counts_results cfg hs c \<longleftrightarrow>
     unat (ineffective_count c) = min 255 (streak hs) \<and> unat (compression_count c) = min (2 ^ 32 - 1) (length hs)"

definition result_step :: "CompactionConfig \<Rightarrow> Compressor \<Rightarrow> 32 word \<times> 32 word \<Rightarrow> Compressor" where
  "result_step cfg c r = record_compression_result (fst r) (snd r) cfg c"

definition ineffective :: "CompactionConfig \<Rightarrow> 32 word \<times> 32 word \<Rightarrow> bool" where
  "ineffective cfg r \<longleftrightarrow> savings (fst r) (snd r) < cc_anti_thrash_min_savings cfg"

lemma unat_sat_inc: "unat (sat_inc w) = min (2 ^ LENGTH('a) - 1) (unat w + 1)" for w :: "'a::len word"
proof (cases "w = - 1")
  case True
  then show ?thesis by (simp add: sat_inc_def unsigned_minus_1_eq_mask mask_eq_exp_minus_1)
next
  case False
  then have "1 + w \<noteq> 0" by (simp add: eq_neg_iff_add_eq_0 add.commute)
  then have "unat (w + 1) = unat w + 1" by (simp add: unatSuc add.commute)
  then show ?thesis using False unsigned_less [of "w + 1", where 'a = nat] by (simp add: sat_inc_def)
qed

lemma streak_snoc: "streak (hs @ [b]) = (if b then Suc (streak hs) else 0)"
  by (simp add: streak_def)

interpretation results: history_machine "result_step cfg" "\<lambda>r. [ineffective cfg r]" "counts_results cfg"
  for cfg
  by unfold_locales
     (auto simp: counts_results_def result_step_def record_compression_result_def ineffective_def unat_sat_inc
       streak_snoc)

text \<open>The gate is what its comments say: after any sequence of compressions, the next one is allowed
  exactly when compression is enabled, the prompt has reached the threshold, and the prompt is within
  8 percent of the window or fewer than \<open>anti_thrash_max_skips\<close> compressions in a row were
  ineffective.  The counter is a byte that saturates, so a limit of 255 is the largest streak seen.\<close>

theorem compression_gate:
  assumes "c = (foldl (result_step cfg) (new_compressor limit) rs)\<lparr>last_prompt_tokens := n\<rparr>"
  shows "should_compress cfg c \<longleftrightarrow>
     cc_enabled cfg \<and> n \<noteq> 0 \<and> limit_fraction c (cc_threshold cfg) \<le> unat n
     \<and> (limit_fraction c HARD_COMPACT_CEILING \<le> unat n
        \<or> min 255 (streak (map (ineffective cfg) rs)) < unat (cc_anti_thrash_max_skips cfg))"
proof -
  have "counts_results cfg [] (new_compressor limit)"
    by (simp add: counts_results_def new_compressor_def streak_def)
  from results.run_tracks [OF this, of rs]
  have "unat (ineffective_count c) = min 255 (streak (map (ineffective cfg) rs))"
    using assms by (simp add: counts_results_def concat_map_singleton)
  moreover have "last_prompt_tokens c = n" using assms by simp
  ultimately show ?thesis
    unfolding should_compress_def word_le_nat_alt by (auto simp: not_le not_less)
qed

theorem compression_gate_witness:
  "should_compress (default_compaction\<lparr>cc_threshold := 1 / 2\<rparr>) ((new_compressor 100)\<lparr>last_prompt_tokens := 95\<rparr>)"
proof -
  let ?c = "(new_compressor 100)\<lparr>last_prompt_tokens := 95\<rparr>"
  let ?cfg = "default_compaction\<lparr>cc_threshold := 1 / 2\<rparr>"
  have "f64_round 50 = 50" using f64_round_of_nat [of 50] by simp
  then have "limit_fraction ?c (1 / 2) = 50"
    by (simp add: limit_fraction_def f64_mul_def f64_as_uint_def new_compressor_def)
  then show ?thesis
    using compression_gate [where c = ?c and cfg = ?cfg and limit = 100 and rs = "[]" and n = 95]
    by (simp add: streak_def default_compaction_def)
qed

text \<open>Without usage numbers from the model the count never goes down, so a compression near the window is
  followed by another one before every later call, however much it saved.\<close>

lemma compression_refires:
  assumes "should_compress cfg c" "limit_fraction c HARD_COMPACT_CEILING \<le> unat (last_prompt_tokens c)"
    and "chars div 4 \<le> unat (last_prompt_tokens c)"
  shows "should_compress cfg
           (note_usage None chars (record_compression_result tb ta cfg (c\<lparr>previous_summary := s\<rparr>)))"
proof -
  have "chars div 4 < 2 ^ 32"
    using assms(3) unsigned_less [of "last_prompt_tokens c", where 'a = nat] by simp
  then have "\<not> last_prompt_tokens c < (of_nat (chars div 4) :: 32 word)"
    using assms(3) by (simp add: word_less_nat_alt unat_of_nat)
  then show ?thesis using assms(1,2)
    by (auto simp: should_compress_def note_usage_def record_compression_result_def limit_fraction_def split: if_splits)
qed

section \<open>Pruning keeps the content reachable\<close>

definition dup_of :: "Message \<Rightarrow> Message" where
  "dup_of m = m\<lparr>msg_content := duplicate_text\<rparr>"

text \<open>The slot of a message after pass 1, with the newer copies it may refer to.\<close>

definition slot_ok :: "(string \<Rightarrow> 64 word) \<Rightarrow> nat \<Rightarrow> Message list \<Rightarrow> Message list \<Rightarrow> nat set \<Rightarrow> nat \<Rightarrow> bool" where
  "slot_ok hash pe ms ms' canon i \<longleftrightarrow>
     ms' ! i = ms ! i
     \<or> ms' ! i = dup_of (ms ! i) \<and> msg_role (ms ! i) = Tool \<and> i < pe
       \<and> (\<exists>j \<in> canon. i < j \<and> hash (msg_content (ms ! j)) = hash (msg_content (ms ! i)))"

definition settled :: "Message list \<Rightarrow> Message list \<Rightarrow> nat \<Rightarrow> nat \<Rightarrow> bool" where
  "settled ms ms' k j \<longleftrightarrow> k \<le> j \<and> j < length ms \<and> ms' ! j = ms ! j"

definition dedup_inv ::
  "(string \<Rightarrow> 64 word) \<Rightarrow> nat \<Rightarrow> Message list \<Rightarrow> nat \<Rightarrow> Message list \<Rightarrow> (64 word \<rightharpoonup> nat) \<Rightarrow> nat list \<Rightarrow> bool" where
  "dedup_inv hash pe ms k ms' seen canon \<longleftrightarrow>
     length ms' = length ms
     \<and> (\<forall>h j. seen h = Some j \<longrightarrow> settled ms ms' k j \<and> hash (msg_content (ms ! j)) = h)
     \<and> (\<forall>j \<in> set canon. settled ms ms' k j)
     \<and> (\<forall>i < k. ms' ! i = ms ! i)
     \<and> (\<forall>i < length ms. slot_ok hash pe ms ms' (set canon) i)"

lemma settled_mono: "settled ms ms' (Suc i) j \<Longrightarrow> settled ms ms' i j"
  by (simp add: settled_def)

lemma settled_update: "settled ms ms' (Suc i) j \<Longrightarrow> settled ms (ms'[i := x]) i j"
  by (auto simp: settled_def)

lemma slot_ok_update:
  "slot_ok hash pe ms ms' A k \<Longrightarrow> k \<noteq> i \<Longrightarrow> A \<subseteq> B \<Longrightarrow> slot_ok hash pe ms (ms'[i := x]) B k"
  by (auto simp: slot_ok_def)

lemma dedup_inv_skip:
  assumes "dedup_inv hash pe ms (Suc i) ms' seen canon"
  shows "dedup_inv hash pe ms i ms' seen canon"
  using assms settled_mono unfolding dedup_inv_def by (metis less_SucI)

lemma dedup_inv_see:
  assumes "dedup_inv hash pe ms (Suc i) ms' seen canon" "i < length ms"
  shows "dedup_inv hash pe ms i ms' (seen(hash (msg_content (ms ! i)) \<mapsto> i)) canon"
proof -
  have "settled ms ms' i i" using assms by (simp add: dedup_inv_def settled_def)
  moreover have "\<forall>h j. seen h = Some j \<longrightarrow> settled ms ms' i j \<and> hash (msg_content (ms ! j)) = h"
    using assms(1) settled_mono unfolding dedup_inv_def by blast
  ultimately have "\<forall>h j. (seen(hash (msg_content (ms ! i)) \<mapsto> i)) h = Some j \<longrightarrow>
      settled ms ms' i j \<and> hash (msg_content (ms ! j)) = h"
    by simp
  then show ?thesis using dedup_inv_skip [OF assms(1)] unfolding dedup_inv_def by blast
qed

lemma dedup_inv_replace:
  assumes inv: "dedup_inv hash pe ms (Suc i) ms' seen canon" and i: "i < length ms" "i < pe" "msg_role (ms ! i) = Tool"
    and newer: "seen (hash (msg_content (ms ! i))) = Some j"
  shows "dedup_inv hash pe ms i (ms'[i := dup_of (ms ! i)]) seen (j # canon)"
proof -
  have len: "length ms' = length ms" and sj: "settled ms ms' (Suc i) j"
    and hj: "hash (msg_content (ms ! j)) = hash (msg_content (ms ! i))"
    using inv newer unfolding dedup_inv_def by blast+
  have slot: "slot_ok hash pe ms (ms'[i := dup_of (ms ! i)]) (set (j # canon)) k" if "k < length ms" for k
  proof (cases "k = i")
    case True
    then show ?thesis using i len sj hj by (auto simp: slot_ok_def settled_def)
  next
    case False
    then show ?thesis using inv that unfolding dedup_inv_def
      by (auto intro: slot_ok_update [of hash pe ms ms' "set canon"])
  qed
  have "\<forall>k < i. ms'[i := dup_of (ms ! i)] ! k = ms ! k" using inv by (simp add: dedup_inv_def)
  moreover have "\<forall>h k. seen h = Some k \<longrightarrow> settled ms (ms'[i := dup_of (ms ! i)]) i k \<and> hash (msg_content (ms ! k)) = h"
    "\<forall>k \<in> set (j # canon). settled ms (ms'[i := dup_of (ms ! i)]) i k"
    using inv sj settled_update unfolding dedup_inv_def by (blast, auto)
  ultimately show ?thesis using slot len unfolding dedup_inv_def by simp
qed

lemma dedup_result:
  "dedup_inv hash pe ms k ms' seen canon \<Longrightarrow> k \<le> length ms \<Longrightarrow> dedup hash pe k ms' seen canon = (ms1, canon1) \<Longrightarrow>
     dedup_inv hash pe ms 0 ms1 Map.empty canon1"
proof (induction k arbitrary: ms' seen canon)
  case 0
  then show ?case by (simp add: dedup_inv_def)
next
  case (Suc i)
  have i: "i < length ms" "ms' ! i = ms ! i" using Suc.prems(1,2) by (simp_all add: dedup_inv_def)
  have rec: "dedup_inv hash pe ms 0 ms1 Map.empty canon1"
    if "dedup_inv hash pe ms i ms2 seen2 canon2" "dedup hash pe i ms2 seen2 canon2 = (ms1, canon1)" for ms2 seen2 canon2
    using Suc.IH [OF that(1)] i(1) that(2) by simp
  note step = Suc.prems(3) [unfolded dedup.simps Let_def i(2)]
  show ?case
  proof (cases "msg_role (ms ! i) \<noteq> Tool \<or> length (msg_content (ms ! i)) < 200")
    case True
    then show ?thesis using rec [OF dedup_inv_skip [OF Suc.prems(1)]] step by simp
  next
    case False
    show ?thesis
    proof (cases "seen (hash (msg_content (ms ! i)))")
      case None
      then show ?thesis using False rec [OF dedup_inv_see [OF Suc.prems(1) i(1)]] step by simp
    next
      case (Some j)
      then show ?thesis
        using False step rec [OF dedup_inv_skip [OF Suc.prems(1)]]
          rec [OF dedup_inv_replace [OF Suc.prems(1) i(1) _ _ Some]]
        by (cases "i < j \<and> i < pe") (auto simp: dup_of_def)
    qed
  qed
qed

lemma duplicate_text_short: "length duplicate_text \<le> 200"
  by (simp add: duplicate_text_def utf8_def)

lemma prune_one_dup: "prune_one pe canon i (dup_of m) = dup_of m"
  using duplicate_text_short by (simp add: prune_one_def dup_of_def)

lemma prune_one_canon: "i \<in> set canon \<Longrightarrow> prune_one pe canon i m = m"
  by (simp add: prune_one_def)

lemma dedup_start: "dedup_inv hash pe ms (length ms) ms Map.empty []"
  by (simp add: dedup_inv_def slot_ok_def)

text \<open>What pruning does to the message at an index.\<close>

definition prune_ok :: "(string \<Rightarrow> 64 word) \<Rightarrow> nat \<Rightarrow> Message list \<Rightarrow> Message list \<Rightarrow> nat \<Rightarrow> bool" where
  "prune_ok hash pe ms ms' i \<longleftrightarrow>
     ms' ! i = ms ! i
     \<or> msg_role (ms ! i) = Tool \<and> i < pe
       \<and> (ms' ! i = (ms ! i)\<lparr>msg_content := pruned_text (ms ! i)\<rparr> \<and> 200 < length (msg_content (ms ! i))
          \<or> ms' ! i = dup_of (ms ! i)
            \<and> (\<exists>j. i < j \<and> j < length ms \<and> ms' ! j = ms ! j
                  \<and> hash (msg_content (ms ! j)) = hash (msg_content (ms ! i))))"

lemma prune_old_tool_results_ok:
  assumes "ms' = prune_old_tool_results hash ms protect_tail"
  shows "length ms' = length ms"
    and "i < length ms \<Longrightarrow> prune_ok hash (length ms - protect_tail) ms ms' i"
proof -
  define pe where "pe = length ms - protect_tail"
  obtain ms1 canon where d: "dedup hash pe (length ms) ms Map.empty [] = (ms1, canon)" by fastforce
  have inv: "dedup_inv hash pe ms 0 ms1 Map.empty canon"
    using dedup_result [OF dedup_start _ d] by simp
  then have len: "length ms1 = length ms" by (simp add: dedup_inv_def)
  have ms': "ms' = map (\<lambda>(i, m). prune_one pe canon i m) (enumerate 0 ms1)"
    using assms d by (simp add: prune_old_tool_results_def pe_def)
  then show "length ms' = length ms" by (simp add: len)
  have nth: "ms' ! k = prune_one pe canon k (ms1 ! k)" if "k < length ms" for k
    using that by (simp add: ms' len nth_enumerate_eq)
  assume i: "i < length ms"
  show "prune_ok hash (length ms - protect_tail) ms ms' i"
  proof (cases "ms1 ! i = ms ! i")
    case True
    then show ?thesis
      unfolding prune_ok_def pe_def [symmetric] nth [OF i] by (simp add: prune_one_def)
  next
    case False
    then obtain j where j: "j \<in> set canon" "i < j" "hash (msg_content (ms ! j)) = hash (msg_content (ms ! i))"
      and s: "ms1 ! i = dup_of (ms ! i)" "msg_role (ms ! i) = Tool" "i < pe"
      using inv i unfolding dedup_inv_def slot_ok_def by blast
    have "j < length ms" "ms1 ! j = ms ! j" using inv j(1) by (simp_all add: dedup_inv_def settled_def)
    then have "ms' ! j = ms ! j" using nth j(1) by (simp add: prune_one_canon)
    moreover have "ms' ! i = dup_of (ms ! i)" by (simp add: nth [OF i] s(1) prune_one_dup)
    ultimately show ?thesis unfolding prune_ok_def pe_def [symmetric] using j s \<open>j < length ms\<close> by blast
  qed
qed

lemma pruned_not_dup: "pruned_text m \<noteq> duplicate_text"
  by (simp add: pruned_text_def duplicate_text_def)

text \<open>Pruning loses no recent result and no only copy of a duplicated one: the messages, their roles and
  ids stay, the last \<open>preserve_last_n\<close> messages are untouched, and a result replaced by the duplicate
  note is still there verbatim at a later index, if the hash is injective on the results.\<close>

theorem prune_keeps_content:
  assumes "inj_on hash (msg_content ` set ms)" "ms' = prune_old_tool_results hash ms n"
  shows "length ms' = length ms \<and> drop (length ms - n) ms' = drop (length ms - n) ms
     \<and> map envelope ms' = map envelope ms
     \<and> (\<forall>i < length ms. ms' ! i = dup_of (ms ! i) \<and> ms' ! i \<noteq> ms ! i \<longrightarrow>
          (\<exists>j > i. j < length ms \<and> msg_content (ms' ! j) = msg_content (ms ! i)))"
proof (intro conjI allI impI)
  show len: "length ms' = length ms" using prune_old_tool_results_ok(1) [OF assms(2)] .
  note ok = prune_old_tool_results_ok(2) [OF assms(2)]
  show "drop (length ms - n) ms' = drop (length ms - n) ms"
  proof (rule nth_equalityI)
    fix i assume "i < length (drop (length ms - n) ms')"
    then have "length ms - n + i < length ms" by (simp add: len)
    then show "drop (length ms - n) ms' ! i = drop (length ms - n) ms ! i"
      using ok [of "length ms - n + i"] by (simp add: len prune_ok_def)
  qed (simp add: len)
  show "map envelope ms' = map envelope ms"
  proof (rule nth_equalityI)
    fix i assume "i < length (map envelope ms')"
    then show "map envelope ms' ! i = map envelope ms ! i"
      using ok [of i] by (auto simp: len prune_ok_def envelope_def dup_of_def)
  qed (simp add: len)
  fix i assume i: "i < length ms" and d: "ms' ! i = dup_of (ms ! i) \<and> ms' ! i \<noteq> ms ! i"
  then have "ms' ! i \<noteq> (ms ! i)\<lparr>msg_content := pruned_text (ms ! i)\<rparr>"
    using pruned_not_dup by (metis dup_of_def Message.select_convs(2) Message.surjective Message.update_convs(2))
  then obtain j where j: "i < j" "j < length ms" "ms' ! j = ms ! j"
      "hash (msg_content (ms ! j)) = hash (msg_content (ms ! i))"
    using ok [OF i] d unfolding prune_ok_def by blast
  then have "msg_content (ms ! j) = msg_content (ms ! i)"
    using assms(1) i by (auto dest: inj_onD)
  then show "\<exists>j > i. j < length ms \<and> msg_content (ms' ! j) = msg_content (ms ! i)" using j by auto
qed

theorem prune_keeps_content_witness:
  "drop 1 (prune_old_tool_results (\<lambda>s. of_nat (length s))
      [(result_message ''a'')\<lparr>msg_content := replicate 300 CHR ''x''\<rparr>,
       (result_message ''b'')\<lparr>msg_content := replicate 300 CHR ''x''\<rparr>] 1) =
   [(result_message ''b'')\<lparr>msg_content := replicate 300 CHR ''x''\<rparr>]"
  using prune_keeps_content [of "\<lambda>s. of_nat (length s)" "[(result_message ''a'')\<lparr>msg_content := replicate 300 CHR ''x''\<rparr>,
       (result_message ''b'')\<lparr>msg_content := replicate 300 CHR ''x''\<rparr>]" _ 1, OF _ refl]
  by simp

section \<open>Head and tail\<close>

lemma skip_tools_le: "skip_tools ms \<le> length ms"
  by (induction ms) auto

lemma find_head_end_le: "find_head_end ms n \<le> length ms"
  using skip_tools_le [of "drop (min n (length ms)) ms"] by (simp add: find_head_end_def Let_def)

lemma tail_walk_bounds:
  "head_end \<le> cut_idx \<Longrightarrow> cut_idx \<le> n \<Longrightarrow> j \<le> n \<Longrightarrow> head_end \<le> tail_walk ms head_end soft mt j acc cut_idx
     \<and> tail_walk ms head_end soft mt j acc cut_idx \<le> n"
  by (induction j arbitrary: acc cut_idx) (auto simp: Let_def)

lemma last_user_idx_bounds:
  "last_user_idx ms h = Some u \<Longrightarrow> h \<le> u \<and> u < length ms \<and> is_real_user (ms ! u)"
proof -
  assume "last_user_idx ms h = Some u"
  then have "filter (\<lambda>i. is_real_user (ms ! i)) [h ..< length ms] \<noteq> []"
    "u = last (filter (\<lambda>i. is_real_user (ms ! i)) [h ..< length ms])"
    by (auto simp: last_user_idx_def Let_def split: if_splits)
  then have "u \<in> set (filter (\<lambda>i. is_real_user (ms ! i)) [h ..< length ms])"
    using last_in_set by blast
  then show ?thesis by simp
qed

lemma last_user_idx_eq:
  assumes "h \<le> u" "u < length ms" "is_real_user (ms ! u)"
    and "\<And>i. u < i \<Longrightarrow> i < length ms \<Longrightarrow> \<not> is_real_user (ms ! i)"
  shows "last_user_idx ms h = Some u"
proof -
  have "[h ..< length ms] = [h ..< u] @ u # [Suc u ..< length ms]"
    using assms(1,2) upt_add_eq_append [of h u "length ms - u"] by (simp add: upt_conv_Cons)
  moreover have "filter (\<lambda>i. is_real_user (ms ! i)) [Suc u ..< length ms] = []"
    using assms(4) by (auto simp: filter_empty_conv)
  ultimately show ?thesis using assms(3) by (simp add: last_user_idx_def Let_def)
qed

lemma tail_start_ok:
  assumes "h + 1 < length ms"
  shows "\<exists>t. find_tail_start_by_tokens ms h budget = Some t \<and> h \<le> t
     \<and> t + min 3 (length ms - h - 1) \<le> length ms
     \<and> (\<forall>u. last_user_idx ms h = Some u \<longrightarrow> t \<le> u)"
proof -
  define n where "n = length ms"
  define mt where "mt = min 3 (n - h - 1)"
  define user where "user = last_user_idx ms h"
  define cut1 where "cut1 = min (tail_walk ms h (soft_ceiling budget) mt n 0 n) (n - mt)"
  define cut2 where "cut2 = (case user of Some u \<Rightarrow> if u < cut1 then u else cut1 | None \<Rightarrow> cut1)"
  have mt: "1 \<le> mt" "mt \<le> n - h - 1" using assms by (auto simp: mt_def n_def)
  have "h \<le> tail_walk ms h (soft_ceiling budget) mt n 0 n"
    using tail_walk_bounds [of h n n n ms "soft_ceiling budget" mt 0] assms by (simp add: n_def)
  then have c1: "h \<le> cut1" "cut1 \<le> n - mt" using mt by (auto simp: cut1_def)
  have u: "h \<le> u" if "user = Some u" for u using that last_user_idx_bounds by (simp add: user_def)
  have c2: "h \<le> cut2" "cut2 \<le> n - mt" "\<And>u. user = Some u \<Longrightarrow> cut2 \<le> u"
    using c1 u by (auto simp: cut2_def split: option.splits)
  then have l2: "cut2 < length ms" using mt by (simp add: n_def)
  then obtain cut3 where c3: "back_over_tools ms h cut2 = Some cut3" "cut3 \<le> cut2"
    using back_over_tools_total by blast
  then obtain cut4 where c4: "back_over_call ms h cut3 = Some cut4" "cut4 \<le> cut3"
    using back_over_call_total [of cut3 ms h] l2 by (auto dest: order.strict_trans1)
  let ?t = "if user = Some h \<and> cut4 \<le> h then h else max cut4 (h + 1)"
  have "\<not> n \<le> h + 1" using assms by (simp add: n_def)
  then have "find_tail_start_by_tokens ms h budget = Some ?t"
    unfolding find_tail_start_by_tokens_def Let_def n_def [symmetric] mt_def [symmetric] user_def [symmetric]
      cut1_def [symmetric] cut2_def [symmetric]
    using c3(1) c4(1) by simp
  moreover have "?t + mt \<le> n" using c2(2) c3(2) c4(2) mt by (auto simp: max_def)
  moreover have "?t \<le> u" if "user = Some u" for u
    using that u [OF that] c2(3) [OF that] c3(2) c4(2) by (auto simp: max_def)
  ultimately show ?thesis unfolding mt_def n_def user_def by auto
qed

section \<open>Every call has a result\<close>

definition paired :: "Message list \<Rightarrow> bool" where
  "paired ms \<longleftrightarrow>
     set (surviving_call_ids ms) = set (result_call_ids ms)
     \<and> list_all (\<lambda>m. msg_role m = Tool \<longrightarrow> msg_tool_call_id m \<noteq> None) ms"

lemma set_surviving_call_ids: "set (surviving_call_ids ms) = (\<Union>m \<in> set ms. set (calls_of m))"
  by (simp add: surviving_call_ids_def)

lemma set_result_call_ids: "set (result_call_ids ms) = {i. \<exists>m \<in> set ms. msg_role m = Tool \<and> msg_tool_call_id m = Some i}"
  by (auto simp: result_call_ids_def set_map_filter)

lemma stub_simps [simp]:
  "msg_role (stub i) = Tool" "msg_tool_call_id (stub i) = Some i" "calls_of (stub i) = []"
  by (simp_all add: stub_def plain_message_def calls_of_def)

lemma calls_of_tool [simp]: "msg_role m = Tool \<Longrightarrow> calls_of m = []"
  by (simp add: calls_of_def)

definition missing_calls :: "Message list \<Rightarrow> string list" where
  "missing_calls ms = filter (\<lambda>i. i \<notin> set (result_call_ids ms)) (surviving_call_ids ms)"

lemma sanitize_eq:
  "sanitize_tool_pairs ms =
     concat (map (\<lambda>m. m # map stub (filter (\<lambda>i. i \<in> set (missing_calls ms)) (calls_of m)))
       (filter (keeps_result (surviving_call_ids ms)) ms))"
proof (cases "missing_calls ms = []")
  case True
  then show ?thesis by (simp add: sanitize_tool_pairs_def Let_def missing_calls_def)
next
  case False
  then show ?thesis by (simp add: sanitize_tool_pairs_def Let_def missing_calls_def [symmetric])
qed

lemma set_sanitize:
  "set (sanitize_tool_pairs ms) =
     {m \<in> set ms. keeps_result (surviving_call_ids ms) m} \<union> stub ` set (missing_calls ms)"
proof -
  have "set (missing_calls ms) \<subseteq> (\<Union>m \<in> {m \<in> set ms. keeps_result (surviving_call_ids ms) m}. set (calls_of m))"
    by (force simp: missing_calls_def set_surviving_call_ids keeps_result_def calls_of_def)
  then show ?thesis unfolding sanitize_eq by fastforce
qed

lemma sanitize_calls: "set (surviving_call_ids (sanitize_tool_pairs ms)) = set (surviving_call_ids ms)"
proof -
  have "(\<Union>m \<in> {m \<in> set ms. keeps_result (surviving_call_ids ms) m}. set (calls_of m)) = set (surviving_call_ids ms)"
    by (force simp: set_surviving_call_ids keeps_result_def calls_of_def)
  then show ?thesis unfolding set_surviving_call_ids [of "sanitize_tool_pairs ms"] set_sanitize by auto
qed

lemma sanitize_paired: "paired (sanitize_tool_pairs ms)"
proof -
  have "set (result_call_ids (sanitize_tool_pairs ms)) =
      {i \<in> set (surviving_call_ids ms). i \<in> set (result_call_ids ms)} \<union> set (missing_calls ms)"
    unfolding set_result_call_ids [of "sanitize_tool_pairs ms"] set_sanitize bex_Un
    by (auto simp: keeps_result_def set_result_call_ids split: option.splits)
  also have "\<dots> = set (surviving_call_ids ms)" by (auto simp: missing_calls_def)
  finally have "set (surviving_call_ids (sanitize_tool_pairs ms)) = set (result_call_ids (sanitize_tool_pairs ms))"
    by (simp add: sanitize_calls)
  moreover have "list_all (\<lambda>m. msg_role m = Tool \<longrightarrow> msg_tool_call_id m \<noteq> None) (sanitize_tool_pairs ms)"
    unfolding list_all_iff set_sanitize by (auto simp: keeps_result_def split: option.splits)
  ultimately show ?thesis by (simp add: paired_def)
qed

lemma sanitize_others:
  "filter (\<lambda>m. msg_role m \<noteq> Tool) (sanitize_tool_pairs ms) = filter (\<lambda>m. msg_role m \<noteq> Tool) ms"
proof -
  have one: "filter (\<lambda>m. msg_role m \<noteq> Tool) (m # map stub (filter P (calls_of m))) =
      (if msg_role m \<noteq> Tool then [m] else [])" for P m by (auto simp: filter_empty_conv)
  have "filter (\<lambda>m. msg_role m \<noteq> Tool) (concat (map (\<lambda>m. m # map stub (filter P (calls_of m))) xs)) =
      filter (\<lambda>m. msg_role m \<noteq> Tool) xs" for P xs
    by (induction xs) (simp_all add: one del: filter.simps(2), simp)
  moreover have "filter (\<lambda>m. msg_role m \<noteq> Tool) (filter (keeps_result A) ms) = filter (\<lambda>m. msg_role m \<noteq> Tool) ms" for A
    by (induction ms) (auto simp: keeps_result_def)
  ultimately show ?thesis unfolding sanitize_eq by simp
qed

lemma sanitize_paired_id: "paired ms \<Longrightarrow> sanitize_tool_pairs ms = ms"
proof -
  assume p: "paired ms"
  then have "missing_calls ms = []" by (simp add: missing_calls_def paired_def filter_empty_conv)
  moreover have "filter (keeps_result (surviving_call_ids ms)) ms = ms"
    using p by (auto simp: filter_id_conv keeps_result_def paired_def list_all_iff set_result_call_ids split: option.splits)
  ultimately show ?thesis by (simp add: sanitize_tool_pairs_def Let_def missing_calls_def)
qed

text \<open>Repair of the pairs: in the result every tool call of an assistant message has a tool result and
  every tool result answers a call; no other message is changed, moved or dropped, and a list that is
  already paired is returned as it is.\<close>

theorem sanitize_repairs_pairs:
  "paired (sanitize_tool_pairs ms)
   \<and> filter (\<lambda>m. msg_role m \<noteq> Tool) (sanitize_tool_pairs ms) = filter (\<lambda>m. msg_role m \<noteq> Tool) ms
   \<and> sanitize_tool_pairs (sanitize_tool_pairs ms) = sanitize_tool_pairs ms"
  by (simp add: sanitize_paired sanitize_others sanitize_paired_id)

section \<open>Compression\<close>

text \<open>Pruning looks at tool results only, so the boundaries are those of the original messages.\<close>

lemma prune_roles: "map msg_role (prune_old_tool_results hash ms n) = map msg_role ms"
proof (rule nth_equalityI)
  show "length (map msg_role (prune_old_tool_results hash ms n)) = length (map msg_role ms)"
    by (simp add: prune_old_tool_results_ok(1) [OF refl])
  fix i assume "i < length (map msg_role (prune_old_tool_results hash ms n))"
  then have "i < length ms" by (simp add: prune_old_tool_results_ok(1) [OF refl])
  then show "map msg_role (prune_old_tool_results hash ms n) ! i = map msg_role ms ! i"
    using prune_old_tool_results_ok(2) [OF refl, of i ms hash n] prune_old_tool_results_ok(1) [OF refl, of hash ms n]
    by (auto simp: prune_ok_def dup_of_def)
qed

lemma prune_nth:
  assumes "i < length ms"
  shows "msg_db_id (prune_old_tool_results hash ms n ! i) = msg_db_id (ms ! i)"
    and "msg_role (ms ! i) \<noteq> Tool \<Longrightarrow> prune_old_tool_results hash ms n ! i = ms ! i"
  using prune_old_tool_results_ok(2) [OF refl assms, of hash n] by (auto simp: prune_ok_def dup_of_def)

lemma skip_tools_roles: "map msg_role xs = map msg_role ys \<Longrightarrow> skip_tools xs = skip_tools ys"
  by (induction xs ys rule: list_induct2') auto

lemma find_head_end_prune: "find_head_end (prune_old_tool_results hash ms k) n = find_head_end ms n"
proof -
  let ?p = "prune_old_tool_results hash ms k"
  have l: "length ?p = length ms" by (rule prune_old_tool_results_ok(1) [OF refl])
  have "skip_tools (drop i ?p) = skip_tools (drop i ms)" for i
    by (rule skip_tools_roles) (simp add: drop_map [symmetric] prune_roles)
  then show ?thesis by (simp add: find_head_end_def l)
qed

text \<open>The two outcomes.\<close>

definition middle_ids :: "Message list \<Rightarrow> nat \<Rightarrow> nat \<Rightarrow> uuid list" where
  "middle_ids ms h t = List.map_filter msg_db_id (take (t - h) (drop h ms))"

lemma compress_cases:
  obtains (skipped) "compress_messages js pf hash us chat now mok eok sid lang cfg (ms, c, d) = Some ([], ms, c, d)"
  | (compressed) p h t facts summary tb ta where
      "p = prune_old_tool_results hash ms (unat (cc_preserve_last_n cfg))"
      "h = find_head_end ms (cc_protect_first_n cfg)" "h < t" "t \<le> length ms"
      "\<And>u. h + 1 < length ms \<Longrightarrow> last_user_idx p h = Some u \<Longrightarrow> t \<le> u"
      "compress_messages js pf hash us chat now mok eok sid lang cfg (ms, c, d) =
         Some (facts, sanitize_tool_pairs (assemble (take h p) summary (drop t p)),
           record_compression_result tb ta cfg (c\<lparr>previous_summary := Some summary\<rparr>),
           persist_boundary us now mok eok sid (compression_count c) summary (middle_ids p h t)
             (msg_db_id (p ! h)) (Option.bind (nth_opt p t) msg_db_id) tb ta d)"
proof -
  define p where "p = prune_old_tool_results hash ms (unat (cc_preserve_last_n cfg))"
  define h where "h = find_head_end p (cc_protect_first_n cfg)"
  have h: "h = find_head_end ms (cc_protect_first_n cfg)" by (simp add: h_def p_def find_head_end_prune)
  have len: "length p = length ms" unfolding p_def by (rule prune_old_tool_results_ok(1) [OF refl])
  obtain t where t: "find_tail_start_by_tokens p h (tail_budget c cfg) = Some t" "t \<le> length ms"
    and user: "\<And>u. h + 1 < length ms \<Longrightarrow> last_user_idx p h = Some u \<Longrightarrow> t \<le> u"
  proof (cases "h + 1 < length p")
    case True
    then show ?thesis using tail_start_ok [OF True, of "tail_budget c cfg"] that len by auto
  next
    case False
    then have "find_tail_start_by_tokens p h (tail_budget c cfg) = Some (length p)"
      by (simp add: find_tail_start_by_tokens_def)
    then show ?thesis using that [of "length p"] False len by simp
  qed
  show ?thesis
  proof (cases "h < t")
    case False
    then have "compress_messages js pf hash us chat now mok eok sid lang cfg (ms, c, d) = Some ([], ms, c, d)"
      using t(1) by (simp add: compress_messages_def p_def [symmetric] h_def [symmetric] Let_def)
    then show ?thesis by (rule skipped)
  next
    case True
    define turns where "turns = take (t - h) (drop h p)"
    have hd: "hd turns = p ! h" unfolding turns_def using True t(2) len by (simp add: hd_drop_conv_nth hd_take)
    define summary where "summary = (case generate_hermes_summary js chat turns lang (previous_summary c) of
        Some s \<Rightarrow> s | None \<Rightarrow> fallback_summary (length turns))"
    define ms' where "ms' = sanitize_tool_pairs (assemble (take h p) summary (drop t p))"
    have "compress_messages js pf hash us chat now mok eok sid lang cfg (ms, c, d) =
         Some (if cc_extract_to_memory cfg then extract_facts_only pf chat turns lang else [], ms',
           record_compression_result (of_nat (estimate_tokens js ms)) (of_nat (estimate_tokens js ms')) cfg
             (c\<lparr>previous_summary := Some summary\<rparr>),
           persist_boundary us now mok eok sid (compression_count c) summary (middle_ids p h t)
             (msg_db_id (p ! h)) (Option.bind (nth_opt p t) msg_db_id)
             (of_nat (estimate_tokens js ms)) (of_nat (estimate_tokens js ms')) d)"
      using t(1) True
      by (simp add: compress_messages_def p_def [symmetric] h_def [symmetric] Let_def middle_ids_def hd
          turns_def [symmetric] summary_def [symmetric] ms'_def [symmetric])
    then show ?thesis unfolding ms'_def using compressed [OF p_def h True t(2) user] by blast
  qed
qed

text \<open>The assembled list.\<close>

lemma note_system_roles: "map msg_role (note_system ms) = map msg_role ms"
  by (cases ms) (auto simp: note_system_def)

lemma note_system_user: "m \<in> set ms \<Longrightarrow> msg_role m = User \<Longrightarrow> m \<in> set (note_system ms)"
  by (cases ms) (auto simp: note_system_def)

lemma last_role: "map msg_role xs = map msg_role ys \<Longrightarrow> xs \<noteq> [] \<Longrightarrow> msg_role (last xs) = msg_role (last ys)"
  by (metis last_map map_is_Nil_conv)

lemma assemble_forced:
  assumes "force_user_leading head"
  shows "assemble head summary tail = note_system head @ [plain_message User summary] @ tail"
proof -
  have "msg_role (last (note_system head)) = System" if "note_system head \<noteq> []"
    using assms that last_role [OF note_system_roles that]
    by (cases head) (auto simp: force_user_leading_def list_all_iff note_system_def)
  then show ?thesis using assms by (auto simp: assemble_def summary_role_def Let_def)
qed

text \<open>Messages of the head and the tail stay, the first of the tail perhaps behind the summary.\<close>

lemma assemble_tail:
  "i < length tail \<Longrightarrow> \<exists>m \<in> set (assemble head summary tail).
     msg_role m = msg_role (tail ! i) \<and> suffix (msg_content (tail ! i)) (msg_content m)"
proof (cases tail)
  case (Cons m ms)
  assume i: "i < length tail"
  show ?thesis
  proof (cases i)
    case 0
    have "\<exists>x \<in> set (assemble head summary tail). x = m \<or> x = m\<lparr>msg_content := summary @ separator @ msg_content m\<rparr>"
      by (auto simp: assemble_def Let_def Cons)
    then obtain x where x: "x \<in> set (assemble head summary tail)" "msg_role x = msg_role m"
      "\<exists>zs. msg_content x = zs @ msg_content m" by fastforce
    then have "suffix (msg_content m) (msg_content x)" unfolding suffix_def by blast
    then show ?thesis using 0 Cons x(1,2) by auto
  next
    case (Suc k)
    then have "tail ! i \<in> set (assemble head summary tail)"
      using i Cons by (auto simp: assemble_def Let_def)
    then show ?thesis by blast
  qed
qed simp

lemma assemble_head: "m \<in> set head \<Longrightarrow> msg_role m = User \<Longrightarrow> m \<in> set (assemble head summary tail)"
  by (auto simp: assemble_def Let_def dest: note_system_user)



lemma middle_ids_iff:
  assumes "t \<le> length p"
  shows "k \<in> set (middle_ids p h t) \<longleftrightarrow> (\<exists>i. h \<le> i \<and> i < t \<and> msg_db_id (p ! i) = Some k)"
proof -
  have "m \<in> set (take (t - h) (drop h p)) \<longleftrightarrow> (\<exists>i. h \<le> i \<and> i < t \<and> p ! i = m)" for m
  proof
    assume "m \<in> set (take (t - h) (drop h p))"
    then obtain j where "j < t - h" "j < length p - h" "p ! (h + j) = m" by (auto simp: in_set_conv_nth)
    then show "\<exists>i. h \<le> i \<and> i < t \<and> p ! i = m" by (intro exI [of _ "h + j"]) simp
  next
    assume "\<exists>i. h \<le> i \<and> i < t \<and> p ! i = m"
    then obtain i where "h \<le> i" "i < t" "p ! i = m" by blast
    then show "m \<in> set (take (t - h) (drop h p))"
      using assms by (auto simp: in_set_conv_nth intro!: exI [of _ "i - h"])
  qed
  then show ?thesis by (auto simp: middle_ids_def set_map_filter)
qed

lemma mark_messages_eq:
  "messages (mark_messages_compressed ids d) =
     update_where (\<lambda>m. m_id m \<in> set ids) (\<lambda>m. m\<lparr>m_compressed := True\<rparr>) (messages d)"
  "sessions (mark_messages_compressed ids d) = sessions d"
  by (simp_all add: mark_messages_compressed_def update_where_def)

lemma mark_messages_ok: "db_ok d \<Longrightarrow> db_ok (mark_messages_compressed ids d)"
  unfolding mark_messages_compressed_def
  by (auto intro!: db_ok_update_messages simp: keeps_message_keys_def message_text_ok_def)

lemma persist_boundary_effect:
  assumes "d' = persist_boundary us now True eok sid seg s ids fc fl tb ta d"
  shows "messages d' = messages (mark_messages_compressed ids d) \<and> sessions d' = sessions d
     \<and> (db_ok d \<longrightarrow> db_ok d')"
proof -
  let ?d1 = "mark_messages_compressed ids d"
  have "d' = ?d1 \<or> insert_compression_event us now sid seg s fc fl (int (unat tb)) (int (unat ta)) ?d1 = Inr d'"
    using assms by (auto simp: persist_boundary_def Let_def mark_messages_compressed_def split: if_splits sum.splits)
  moreover have "messages d' = messages ?d1" "sessions d' = sessions ?d1"
    if "insert_compression_event us now sid seg s fc fl (int (unat tb)) (int (unat ta)) ?d1 = Inr d'"
    using that by (auto simp: insert_compression_event_def insert_timeline_def split: if_splits)
  ultimately show ?thesis
    using mark_messages_eq(2) [of ids d] mark_messages_ok [of d ids]
    by (auto simp: insert_compression_event_def intro: db_ok_insert_timeline)
qed

text \<open>The rows of the middle, and no others, leave the live transcript: when the write reaches the
  database, the message rows that get the compressed flag are those of the messages between the head
  and the tail; sessions are untouched and the tables stay consistent.\<close>

theorem compression_marks_middle:
  assumes "compress_messages js pf hash us chat now True eok sid lang cfg (ms, c, d) = Some (facts, ms', c', d')"
    and "db_ok d"
  shows "\<exists>h t. h \<le> t \<and> t \<le> length ms \<and>
     messages d' = update_where (\<lambda>m. \<exists>i. h \<le> i \<and> i < t \<and> msg_db_id (ms ! i) = Some (m_id m))
       (\<lambda>m. m\<lparr>m_compressed := True\<rparr>) (messages d)
     \<and> sessions d' = sessions d \<and> db_ok d'"
proof (cases rule: compress_cases [where js = js and pf = pf and hash = hash and us = us and chat = chat and now = now
      and mok = True and eok = eok and sid = sid and lang = lang and cfg = cfg and ms = ms and c = c and d = d])
  case skipped
  then show ?thesis using assms by (intro exI [of _ 0]) (simp add: update_where_def)
next
  case (compressed p h t fs summary tb ta)
  have len: "length p = length ms" unfolding compressed(1) by (rule prune_old_tool_results_ok(1) [OF refl])
  have same: "msg_db_id (p ! i) = msg_db_id (ms ! i)" if "i < t" for i
    using prune_nth(1) [of i ms] that compressed(4) unfolding compressed(1) by simp
  have "k \<in> set (middle_ids p h t) \<longleftrightarrow> (\<exists>i. h \<le> i \<and> i < t \<and> msg_db_id (ms ! i) = Some k)" for k
    using middle_ids_iff [of t p k h] compressed(4) len same by auto
  moreover have "d' = persist_boundary us now True eok sid (compression_count c) summary (middle_ids p h t)
             (msg_db_id (p ! h)) (Option.bind (nth_opt p t) msg_db_id) tb ta d"
    using compressed(6) assms(1) by simp
  from persist_boundary_effect [OF this]
  have "messages d' = update_where (\<lambda>m. m_id m \<in> set (middle_ids p h t)) (\<lambda>m. m\<lparr>m_compressed := True\<rparr>) (messages d)
      \<and> sessions d' = sessions d \<and> db_ok d'"
    using assms(2) by (simp add: mark_messages_eq)
  ultimately show ?thesis using compressed(3,4) by (intro exI [of _ h] exI [of _ t]) simp
qed

theorem compression_marks_middle_witness:
  "\<exists>facts ms' c' d'.
     compress_messages (\<lambda>j. []) (\<lambda>s. None) (\<lambda>s. 0) (\<lambda>i. []) (\<lambda>p. Inl (Untyped [])) 0 True True 1 None
       (default_compaction\<lparr>cc_protect_first_n := 1\<rparr>)
       ([plain_message System ''s'', (plain_message User ''q'')\<lparr>msg_db_id := Some 2\<rparr>], new_compressor 1000, compact_example)
       = Some (facts, ms', c', d') \<and> sessions d' = sessions compact_example \<and> db_ok d'"
proof -
  let ?ms = "[plain_message System ''s'', (plain_message User ''q'')\<lparr>msg_db_id := Some 2\<rparr>]"
  let ?run = "compress_messages (\<lambda>j. []) (\<lambda>s. None) (\<lambda>s. 0) (\<lambda>i. []) (\<lambda>p. Inl (Untyped [])) 0 True True 1 None
      (default_compaction\<lparr>cc_protect_first_n := 1\<rparr>) (?ms, new_compressor 1000, compact_example)"
  obtain facts ms' c' d' where r: "?run = Some (facts, ms', c', d')"
    by (rule compress_cases [of "\<lambda>j. []" "\<lambda>s. None" "\<lambda>s. 0" "\<lambda>i. []" "\<lambda>p. Inl (Untyped [])" 0 True True 1 None
          "default_compaction\<lparr>cc_protect_first_n := 1\<rparr>" ?ms "new_compressor 1000" compact_example]) blast+
  from compression_marks_middle [OF r compact_example_ok] show ?thesis using r by blast
qed

lemma sanitize_plain_prefix:
  assumes "list_all (\<lambda>m. msg_role m = System \<or> msg_role m = User) xs"
  shows "\<exists>zs. sanitize_tool_pairs (xs @ ys) = xs @ zs"
proof -
  have "filter (keeps_result A) xs = xs" for A
    using assms by (auto simp: filter_id_conv keeps_result_def list_all_iff)
  moreover have "concat (map (\<lambda>m. m # map stub (filter P (calls_of m))) xs) = xs" for P
    using assms by (induction xs) (auto simp: calls_of_def)
  ultimately show ?thesis unfolding sanitize_eq by simp
qed

text \<open>A compressed conversation whose head is the system prompt starts with a user message, as the
  Messages API requires: the first message that is no system message is the summary, with role user.\<close>

theorem compressed_starts_with_user:
  assumes "list_all (\<lambda>m. msg_role m = System) (take (find_head_end ms (cc_protect_first_n cfg)) ms)"
    and "compress_messages js pf hash us chat now mok eok sid lang cfg (ms, c, d) = Some (facts, ms', c', d')"
  shows "ms' = ms \<or> (\<exists>s rest. dropWhile (\<lambda>m. msg_role m = System) ms' = plain_message User s # rest)"
proof (cases rule: compress_cases [where js = js and pf = pf and hash = hash and us = us and chat = chat and now = now
      and mok = mok and eok = eok and sid = sid and lang = lang and cfg = cfg and ms = ms and c = c and d = d])
  case skipped
  then show ?thesis using assms(2) by simp
next
  case (compressed p h t fs summary tb ta)
  have roles: "map msg_role (take h p) = map msg_role (take h ms)"
    unfolding compressed(1) by (simp add: take_map [symmetric] prune_roles)
  then have "list_all (\<lambda>r. r = System) (map msg_role (take h p))"
    using assms(1) by (simp add: compressed(2) list_all_iff)
  then have head: "list_all (\<lambda>m. msg_role m = System) (take h p)" by (simp add: list_all_iff)
  then have "list_all (\<lambda>r. r = System) (map msg_role (note_system (take h p)))"
    by (simp add: note_system_roles list_all_iff)
  then have noted: "\<forall>m \<in> set (note_system (take h p)). msg_role m = System" by (simp add: list_all_iff)
  then obtain zs where z: "sanitize_tool_pairs ((note_system (take h p) @ [plain_message User summary]) @ drop t p) =
      (note_system (take h p) @ [plain_message User summary]) @ zs"
    using sanitize_plain_prefix [of "note_system (take h p) @ [plain_message User summary]"]
    by (auto simp: list_all_iff plain_message_def)
  have "ms' = sanitize_tool_pairs (assemble (take h p) summary (drop t p))"
    using compressed(6) assms(2) by simp
  then have "ms' = note_system (take h p) @ plain_message User summary # zs"
    using head z by (simp add: assemble_forced force_user_leading_def)
  then have "dropWhile (\<lambda>m. msg_role m = System) ms' = plain_message User summary # zs"
    using noted by (simp add: dropWhile_append1 dropWhile_eq_Nil_conv [THEN iffD2] dropWhile_append plain_message_def)
  then show ?thesis by blast
qed

theorem compressed_starts_with_user_witness:
  "\<exists>facts ms' c' d'.
     compress_messages (\<lambda>j. []) (\<lambda>s. None) (\<lambda>s. 0) (\<lambda>i. []) (\<lambda>p. Inl (Untyped [])) 0 True True 1 None
       (default_compaction\<lparr>cc_protect_first_n := 1\<rparr>)
       ([plain_message System ''s'', plain_message Assistant ''a'', plain_message User ''q''], new_compressor 1000, empty_db)
       = Some (facts, ms', c', d')
     \<and> (ms' = [plain_message System ''s'', plain_message Assistant ''a'', plain_message User ''q'']
        \<or> (\<exists>s rest. dropWhile (\<lambda>m. msg_role m = System) ms' = plain_message User s # rest))"
proof -
  let ?ms = "[plain_message System ''s'', plain_message Assistant ''a'', plain_message User ''q'']"
  let ?cfg = "default_compaction\<lparr>cc_protect_first_n := 1\<rparr>"
  let ?run = "compress_messages (\<lambda>j. []) (\<lambda>s. None) (\<lambda>s. 0) (\<lambda>i. []) (\<lambda>p. Inl (Untyped [])) 0 True True 1 None ?cfg
      (?ms, new_compressor 1000, empty_db)"
  obtain facts ms' c' d' where r: "?run = Some (facts, ms', c', d')"
    by (rule compress_cases [of "\<lambda>j. []" "\<lambda>s. None" "\<lambda>s. 0" "\<lambda>i. []" "\<lambda>p. Inl (Untyped [])" 0 True True 1 None ?cfg ?ms
          "new_compressor 1000" empty_db]) blast+
  have "list_all (\<lambda>m. msg_role m = System) (take (find_head_end ?ms (cc_protect_first_n ?cfg)) ?ms)"
    by (simp add: find_head_end_def plain_message_def)
  from compressed_starts_with_user [OF this r] show ?thesis using r by blast
qed

section \<open>Two boundaries that are off\<close>

definition two_rounds :: "Message list" where
  "two_rounds = [plain_message System ''s'', plain_message User ''q'', call_message ''c1'', result_message ''c1'',
     call_message ''c2'', result_message ''c2'', call_message ''c3'', result_message ''c3'']"

text \<open>As in \<^const>\<open>cut_range\<close>, the step back over the assistant message is one too many: the tail starts with
  the result of a call that is summarised, and the repair drops that result.\<close>

lemma compression_drops_result:
  "find_tail_start_by_tokens two_rounds 2 0 = Some 3"
  "result_message ''c1'' \<notin> set (take 1 (drop 2 two_rounds))"
  "result_message ''c1'' \<notin> set (sanitize_tool_pairs (assemble (take 2 two_rounds) summary (drop 3 two_rounds)))"
proof -
  have soft: "soft_ceiling 0 = 0" by (simp add: soft_ceiling_def f64_mul_def f64_round_def f64_as_uint_def)
  have user: "last_user_idx two_rounds 2 = None"
    by (simp add: last_user_idx_def two_rounds_def upt_rec is_real_user_def call_message_def result_message_def
        plain_message_def nth_Cons')
  have len: "length two_rounds = 8" by (simp add: two_rounds_def)
  have nths: "msg_role (two_rounds ! 5) = Tool" "two_rounds ! 4 = call_message ''c2''"
    by (simp_all add: two_rounds_def result_message_def plain_message_def)
  have "tail_walk two_rounds 2 0 3 (Suc 5) a 6 = 6" for a unfolding tail_walk.simps Let_def len by simp
  then have w6: "tail_walk two_rounds 2 0 3 6 a 6 = 6" for a by simp
  have "tail_walk two_rounds 2 0 3 (Suc 6) a 7 = 6" for a
    unfolding tail_walk.simps Let_def len by (simp add: w6)
  then have w7: "tail_walk two_rounds 2 0 3 7 a 7 = 6" for a by simp
  have "tail_walk two_rounds 2 0 3 (Suc 7) 0 8 = 6" unfolding tail_walk.simps Let_def len by (simp add: w7)
  then have walk: "tail_walk two_rounds 2 0 3 8 0 8 = 6" by simp
  have "back_over_tools two_rounds 2 (Suc 3) = Some 4"
    unfolding back_over_tools.simps using nths(2) by (simp add: nth_opt_def len call_message_def plain_message_def)
  then have b4: "back_over_tools two_rounds 2 4 = Some 4" by simp
  have "back_over_tools two_rounds 2 (Suc 4) = Some 4"
    unfolding back_over_tools.simps using nths(1) by (simp add: nth_opt_def len b4)
  then have b5: "back_over_tools two_rounds 2 5 = Some 4" by simp
  show "find_tail_start_by_tokens two_rounds 2 0 = Some 3"
    unfolding find_tail_start_by_tokens_def Let_def len soft user
    using walk b5 nths(2) by (simp add: back_over_call_def nth_opt_def len call_message_def plain_message_def)
  show "result_message ''c1'' \<notin> set (take 1 (drop 2 two_rounds))"
    by (simp add: two_rounds_def call_message_def result_message_def plain_message_def numeral_eq_Suc)
  have a: "assemble (take 2 two_rounds) summary (drop 3 two_rounds) =
      note_system (take 2 two_rounds) @ [plain_message Assistant summary] @ drop 3 two_rounds"
    by (simp add: assemble_def Let_def summary_role_def force_user_leading_def first_role_def two_rounds_def
        result_message_def plain_message_def numeral_eq_Suc)
  have hd: "calls_of m = []" if "m \<in> set (note_system (take 2 two_rounds))" for m
    using that by (auto simp: note_system_def two_rounds_def calls_of_def plain_message_def numeral_eq_Suc
        split: if_splits)
  have tl: "''c1'' \<notin> set (calls_of m)" if "m \<in> set ([plain_message Assistant summary] @ drop 3 two_rounds)" for m
    using that
    by (auto simp: two_rounds_def calls_of_def plain_message_def call_message_def result_message_def numeral_eq_Suc)
  have "''c1'' \<notin> set (calls_of m)"
    if "m \<in> set (note_system (take 2 two_rounds) @ [plain_message Assistant summary] @ drop 3 two_rounds)" for m
    using that hd [of m] tl [of m] unfolding set_append Un_iff by fastforce
  then have "''c1'' \<notin> set (surviving_call_ids (assemble (take 2 two_rounds) summary (drop 3 two_rounds)))"
    unfolding a set_surviving_call_ids by blast
  then show "result_message ''c1'' \<notin> set (sanitize_tool_pairs (assemble (take 2 two_rounds) summary (drop 3 two_rounds)))"
    unfolding set_sanitize
    by (auto simp: keeps_result_def result_message_def stub_def plain_message_def stub_text_def)
qed

text \<open>With exactly one message after the head the tail is empty, although the last user message should
  always be in it: the request of the turn itself is replaced by a summary.\<close>

lemma sole_message_is_compressed:
  "length ms = find_head_end ms n + 1 \<Longrightarrow> find_tail_start_by_tokens ms (find_head_end ms n) budget = Some (length ms)"
  by (simp add: find_tail_start_by_tokens_def)


end
