(* ===== verification/Tool_Policy.thy ===== *)
theory Tool_Policy
  imports Tool_Loop "HOL-Library.List_Lexorder" "HOL-Library.Char_ord"
begin

text \<open>
  Which tools an agent is offered and which calls of it are dispatched
  (\<open>agent/pipeline/dispatch.rs\<close>, \<open>agent/dispatcher/rewrite.rs\<close> and \<open>lookup.rs\<close>,
  \<open>agent/channel_kind.rs\<close>, the subagent filters of \<open>pipeline/subagent.rs\<close>,
  \<open>subagent_runner.rs\<close> and \<open>tool_defs.rs\<close>, and the partition of \<open>context_builder.rs\<close>).

  The wildcard matcher is shown equal to the declarative meaning of a glob; the offered tools
  respect the deny list of the agent, the one of a job and the global block list; a dispatched
  call never names a tool that is literally in the deny list, nor, in a subagent, one of the
  tools withheld from subagents.  The dispatcher's gate compares names literally where the filter
  of the offered tools uses globs, so the two differ; the last section states how.
\<close>

section \<open>Patterns\<close>

text \<open>\<open>rest.windows(n).position(|w| w == seg)\<close>, for a non-empty segment.\<close>

fun window_position :: "string \<Rightarrow> string \<Rightarrow> nat option" where
  "window_position seg [] = (if seg = [] then Some 0 else None)"
| "window_position seg (c # cs) =
     (if starts_with seg (c # cs) then Some 0 else map_option Suc (window_position seg cs))"

text \<open>The loop over the literal segments; \<open>rest\<close> is \<open>name[pos..]\<close>, \<open>i\<close> the index of the
  segment.\<close>

fun match_segments ::
  "bool \<Rightarrow> bool \<Rightarrow> nat \<Rightarrow> nat \<Rightarrow> string \<Rightarrow> string list \<Rightarrow> bool" where
  "match_segments anchored_start anchored_end i final rest [] = True"
| "match_segments anchored_start anchored_end i final rest (seg # segs) =
     (if i = 0 \<and> anchored_start
      then starts_with seg rest
           \<and> match_segments anchored_start anchored_end (Suc i) final (drop (length seg) rest) segs
      else if i = final \<and> anchored_end
      then length seg \<le> length rest \<and> ends_with seg rest
           \<and> match_segments anchored_start anchored_end (Suc i) final [] segs
      else case window_position seg rest of
             Some idx \<Rightarrow> match_segments anchored_start anchored_end (Suc i) final
                           (drop (idx + length seg) rest) segs
           | None \<Rightarrow> False)"

definition tool_pattern_matches :: "string \<Rightarrow> string \<Rightarrow> bool" where
  "tool_pattern_matches pattern nm =
     (if CHR ''*'' \<notin> set pattern then pattern = nm
      else let segments = filter (\<lambda>s. s \<noteq> []) (split_on (CHR ''*'') pattern)
           in if segments = [] then True
              else match_segments (\<not> starts_with ''*'' pattern) (\<not> ends_with ''*'' pattern)
                     0 (length segments - 1) nm segments)"

text \<open>What a pattern means: \<open>*\<close> stands for any run of characters, everything else for itself.\<close>

fun glob :: "string \<Rightarrow> string \<Rightarrow> bool" where
  "glob [] n = (n = [])"
| "glob (c # p) [] = (c = CHR ''*'' \<and> glob p [])"
| "glob (c # p) (d # n) =
     (if c = CHR ''*'' then glob p (d # n) \<or> glob (c # p) n else c = d \<and> glob p n)"

lemma glob_star: "glob (CHR ''*'' # p) n \<longleftrightarrow> (\<exists>m. suffix m n \<and> glob p m)"
proof (induction n)
  case (Cons d n)
  then show ?case by (auto simp: suffix_Cons)
qed simp

text \<open>The same by the literal pieces between the stars.\<close>

fun pieces_match :: "string list \<Rightarrow> string \<Rightarrow> bool" where
  "pieces_match [] n = False"
| "pieces_match [w] n = (n = w)"
| "pieces_match (w # v # ws) n = (\<exists>r m. n = w @ r \<and> suffix m r \<and> pieces_match (v # ws) m)"

lemma pieces_match_Cons: "ws \<noteq> [] \<Longrightarrow>
  pieces_match (w # ws) n = (\<exists>r m. n = w @ r \<and> suffix m r \<and> pieces_match ws m)"
  by (cases ws) auto

lemma glob_pieces: "glob p n = pieces_match (split_on (CHR ''*'') p) n"
proof (induction p arbitrary: n)
  case (Cons c p)
  show ?case
  proof (cases "c = CHR ''*''")
    case True
    then show ?thesis using Cons.IH by (auto simp: glob_star pieces_match_Cons)
  next
    case False
    obtain w ws where w: "split_on (CHR ''*'') p = w # ws" by (meson neq_Nil_conv split_on_ne)
    have "pieces_match ((c # w) # ws) n = (\<exists>m. n = c # m \<and> pieces_match (w # ws) m)"
      by (cases ws) auto
    then show ?thesis using False Cons.IH w by (cases n) auto
  qed
qed simp

text \<open>Segments that may start anywhere; the last one has to end the name when \<open>ae\<close>.\<close>

fun floats :: "bool \<Rightarrow> string list \<Rightarrow> string \<Rightarrow> bool" where
  "floats ae [] m = (\<not> ae \<or> m = [])"
| "floats ae (s # ss) m = (\<exists>r. suffix (s @ r) m \<and> floats ae ss r)"

lemma floats_mono: "\<lbrakk>floats ae ss r; suffix r m; ss \<noteq> [] \<or> \<not> ae\<rbrakk> \<Longrightarrow> floats ae ss m"
  by (cases ss) (auto intro: suffix_order.trans)

lemma floats_last: "floats True [s] m \<longleftrightarrow> ends_with s m"
  by (auto simp: ends_with_iff suffix_def)

lemma pieces_floats:
  "ws \<noteq> [] \<Longrightarrow> (\<exists>m'. suffix m' m \<and> pieces_match ws m')
     = floats (last ws \<noteq> []) (filter (\<lambda>s. s \<noteq> []) ws) m"
proof (induction ws arbitrary: m rule: induct_list012)
  case (2 w)
  then show ?case by (cases "w = []") (auto intro: exI [of _ "[]"])
next
  case (3 w v ws)
  have IH: "(\<exists>m'. suffix m' r \<and> pieces_match (v # ws) m')
      = floats (last (v # ws) \<noteq> []) (filter (\<lambda>s. s \<noteq> []) (v # ws)) r" for r
    using "3.IH"(2) by simp
  show ?case
  proof (cases "w = []")
    case True
    then have "(\<exists>m'. suffix m' m \<and> pieces_match (w # v # ws) m')
        = (\<exists>m'. suffix m' m \<and> pieces_match (v # ws) m')"
      by (auto intro: suffix_order.trans)
    then show ?thesis using IH [of m] True by simp
  next
    case False
    have "(\<exists>m'. suffix m' m \<and> pieces_match (w # v # ws) m')
        = (\<exists>r. suffix (w @ r) m \<and> (\<exists>m'. suffix m' r \<and> pieces_match (v # ws) m'))"
      by auto
    then show ?thesis using IH False by simp
  qed
qed simp

lemma window_position_SomeD:
  "window_position s m = Some i \<Longrightarrow> \<exists>a r. m = a @ s @ r \<and> length a = i"
proof (induction m arbitrary: i)
  case (Cons c m)
  show ?case
  proof (cases "starts_with s (c # m)")
    case True
    then show ?thesis using Cons.prems by (auto simp: starts_with_iff)
  next
    case False
    then obtain j where j: "window_position s m = Some j" "i = Suc j" using Cons.prems by auto
    from Cons.IH [OF j(1)] obtain a r where "m = a @ s @ r" "length a = j" by auto
    then show ?thesis using j(2) by (intro exI [of _ "c # a"] exI [of _ r]) simp
  qed
qed (auto split: if_splits)

lemma window_position_first:
  "m = a @ s @ r \<Longrightarrow> \<exists>i. window_position s m = Some i \<and> i \<le> length a"
proof (induction a arbitrary: m)
  case Nil
  then have "starts_with s m" by (auto simp: starts_with_iff)
  then show ?case by (cases m) (auto simp: starts_with_iff)
next
  case (Cons c a)
  then show ?case by (cases m) (fastforce simp: starts_with_iff)+
qed

text \<open>Taking the leftmost occurrence never loses a match.\<close>

lemma floats_leftmost:
  assumes "ss \<noteq> [] \<or> \<not> ae"
  shows "floats ae (s # ss) m =
           (case window_position s m of Some i \<Rightarrow> floats ae ss (drop (i + length s) m) | None \<Rightarrow> False)"
proof
  assume "floats ae (s # ss) m"
  then obtain a r where m: "m = a @ s @ r" and r: "floats ae ss r" by (auto simp: suffix_def)
  from window_position_first [OF m] obtain i
    where i: "window_position s m = Some i" "i \<le> length a" by auto
  have "suffix r (drop (i + length s) m)"
    using m i(2) by (auto simp: suffix_def intro!: exI [of _ "drop (i + length s) (a @ s)"])
  then show "case window_position s m of Some i \<Rightarrow> floats ae ss (drop (i + length s) m) | None \<Rightarrow> False"
    using floats_mono [OF r] assms i(1) by simp
next
  assume *: "case window_position s m of Some i \<Rightarrow> floats ae ss (drop (i + length s) m) | None \<Rightarrow> False"
  then obtain i where i: "window_position s m = Some i" by (auto split: option.splits)
  then obtain a r where "m = a @ s @ r" "length a = i" using window_position_SomeD by blast
  then show "floats ae (s # ss) m" using * i by (auto simp: suffix_def)
qed

lemma match_floating:
  assumes "i \<noteq> 0 \<or> \<not> as" "ss \<noteq> [] \<or> \<not> ae" "final + 1 = i + length ss"
  shows "match_segments as ae i final m ss = floats ae ss m"
  using assms
proof (induction ss arbitrary: i m)
  case (Cons s ss)
  show ?case
  proof (cases "ss = [] \<and> ae")
    case True
    then have "i = final" using Cons.prems(3) by simp
    then show ?thesis using True Cons.prems(1) floats_last [of s m]
      by (auto simp: ends_with_iff)
  next
    case False
    then have ss: "ss \<noteq> [] \<or> \<not> ae" by auto
    then have "\<not> (i = final \<and> ae)" using Cons.prems(3) by (cases ss) auto
    then show ?thesis
      using Cons.prems Cons.IH [of "Suc i"] ss unfolding floats_leftmost [OF ss]
      by (auto split: option.splits)
  qed
qed simp

lemma split_on_first_empty:
  "split_on d p = w # ws \<Longrightarrow> ws \<noteq> [] \<Longrightarrow> (w = []) = starts_with [d] p"
  by (cases p) (auto simp: starts_with_iff split: if_splits list.splits)

lemma split_on_last_empty:
  "d \<in> set p \<Longrightarrow> (last (split_on d p) = []) = ends_with [d] p"
proof (induction p)
  case (Cons c p)
  show ?case
  proof (cases "d \<in> set p")
    case True
    then have ne: "ends_with [d] (c # p) = ends_with [d] p"
      by (auto simp: ends_with_iff Cons_eq_append_conv)
    obtain w ws where w: "split_on d p = w # ws" by (meson neq_Nil_conv split_on_ne)
    moreover have "ws \<noteq> []" using True w join_split [of d p] split_on_pieces [of w d p] by auto
    ultimately show ?thesis using Cons.IH [OF True] ne by auto
  next
    case False
    then have "c = d" using Cons.prems by simp
    then show ?thesis using False
      by (auto simp: split_on_free ends_with_iff Cons_eq_append_conv append_eq_Cons_conv)
  qed
qed simp

lemma split_on_two: "d \<in> set p \<Longrightarrow> \<exists>w v ws. split_on d p = w # v # ws"
  using join_split [of d p] split_on_pieces [of _ d p] split_on_ne [of d p]
  by (metis join.simps(2) list.set_intros(1) neq_Nil_conv)

lemma tool_pattern_glob: "tool_pattern_matches p n = glob p n"
proof (cases "CHR ''*'' \<in> set p")
  case False
  then show ?thesis by (simp add: tool_pattern_matches_def glob_pieces split_on_free) auto
next
  case True
  obtain w v ws where sp: "split_on (CHR ''*'') p = w # v # ws" using split_on_two [OF True] by blast
  let ?segs = "filter (\<lambda>s. s \<noteq> []) (w # v # ws)" and ?tail = "filter (\<lambda>s. s \<noteq> []) (v # ws)"
  let ?as = "\<not> starts_with ''*'' p" and ?ae = "\<not> ends_with ''*'' p"
  have w: "(w = []) = starts_with ''*'' p" using split_on_first_empty [OF sp] by simp
  have ae: "(last (v # ws) \<noteq> []) = ?ae" using split_on_last_empty [OF True] sp by simp
  have tail: "?tail \<noteq> [] \<or> \<not> ?ae" unfolding ae [symmetric] filter_empty_conv
    using last_in_set [of "v # ws", OF list.distinct(2)] by blast
  have "glob p n = (\<exists>r. n = w @ r \<and> (\<exists>m. suffix m r \<and> pieces_match (v # ws) m))"
    using sp by (auto simp: glob_pieces)
  also have "\<dots> = (\<exists>r. n = w @ r \<and> floats ?ae ?tail r)"
    unfolding pieces_floats [of "v # ws", simplified] ae [simplified, symmetric] by simp
  also have "\<dots> = tool_pattern_matches p n"
  proof (cases "w = []")
    case False
    have "match_segments ?as ?ae 1 (length ?tail) r ?tail = floats ?ae ?tail r" for r
      using match_floating [of 1 ?as ?tail ?ae "length ?tail" r] tail by simp
    then show ?thesis using True False sp w
      by (auto simp: tool_pattern_matches_def Let_def starts_with_iff)
  next
    case empty: True
    show ?thesis
    proof (cases "?tail = []")
      case True
      then show ?thesis using \<open>CHR ''*'' \<in> set p\<close> empty sp tail
        by (simp add: tool_pattern_matches_def Let_def)
    next
      case False
      then have "match_segments ?as ?ae 0 (length ?tail - 1) n ?tail = floats ?ae ?tail n"
        using match_floating [of 0 ?as ?tail ?ae "length ?tail - 1" n] tail w empty by simp
      then show ?thesis using \<open>CHR ''*'' \<in> set p\<close> empty sp False
        by (simp add: tool_pattern_matches_def Let_def)
    qed
  qed
  finally show ?thesis ..
qed

section \<open>Policy of an agent\<close>

record ToolDefinition =
  td_name :: string
  td_description :: string
  td_input_schema :: json

record ToolGroups =
  tg_git :: bool
  tg_tool_management :: bool
  tg_skill_editing :: bool
  tg_session_tools :: bool

record AgentToolPolicy =
  tp_allow :: "string list"
  tp_deny :: "string list"
  tp_allow_all :: bool
  tp_deny_all_others :: bool
  tp_groups :: ToolGroups

record ApprovalConfig =
  ac_enabled :: bool
  ac_require_for :: "string list"
  ac_require_for_categories :: "string list"
  ac_timeout_seconds :: nat

datatype ToolCategory = System | Destructive | External

fun category_str :: "ToolCategory \<Rightarrow> string" where
  "category_str System = ''system''"
| "category_str Destructive = ''destructive''"
| "category_str External = ''external''"

definition classify_tool :: "string \<Rightarrow> ToolCategory" where
  "classify_tool nm =
     (if nm \<in> {''code_exec'', ''process'', ''browser_action''} then System
      else if nm \<in> {''workspace_delete'', ''workspace_write'', ''workspace_edit'', ''workspace_rename''}
      then Destructive
      else if starts_with ''git_'' nm then System
      else External)"

definition needs_approval :: "ApprovalConfig option \<Rightarrow> string \<Rightarrow> bool" where
  "needs_approval approval nm =
     (case approval of
        None \<Rightarrow> False
      | Some a \<Rightarrow>
          ac_enabled a
          \<and> ((\<exists>t \<in> set (ac_require_for a). tool_pattern_matches t nm)
             \<or> (ac_require_for_categories a \<noteq> []
                \<and> category_str (classify_tool nm) \<in> set (ac_require_for_categories a))))"

definition SYSTEM_TOOL_NAMES :: "string list" where
  "SYSTEM_TOOL_NAMES =
     [''workspace_write'', ''workspace_read'', ''workspace_list'', ''workspace_edit'',
      ''workspace_delete'', ''workspace_rename'',
      ''web_fetch'', ''file_handler'', ''agent'', ''message'', ''cron'', ''code_exec'', ''browser_action'',
      ''git'', ''session'', ''skill'', ''skill_use'', ''canvas'', ''rich_card'',
      ''agents_list'', ''secret_set'', ''process'',
      ''apply_patch'', ''todo'', ''clarify'', ''code_orchestrate'', ''lsp'']"

text \<open>The closure of \<open>filter_tools_by_policy\<close>.\<close>

definition admits :: "AgentToolPolicy \<Rightarrow> bool \<Rightarrow> string \<Rightarrow> bool" where
  "admits policy memory_available nm =
     (if \<exists>d \<in> set (tp_deny policy). tool_pattern_matches d nm then False
      else if nm \<in> set SYSTEM_TOOL_NAMES then True
      else if nm = ''memory'' then memory_available
      else if starts_with ''tool_'' nm then True
      else if tp_allow_all policy then True
      else if tp_deny_all_others policy then \<exists>a \<in> set (tp_allow policy). tool_pattern_matches a nm
      else if tp_allow policy \<noteq> [] then \<exists>a \<in> set (tp_allow policy). tool_pattern_matches a nm
      else True)"

definition filter_tools_by_policy ::
  "ToolDefinition list \<Rightarrow> AgentToolPolicy option \<Rightarrow> bool \<Rightarrow> ToolDefinition list" where
  "filter_tools_by_policy tools policy memory_available =
     (case policy of
        None \<Rightarrow> tools
      | Some p \<Rightarrow> filter (\<lambda>t. admits p memory_available (td_name t)) tools)"

definition apply_tool_policy_override ::
  "ToolDefinition list \<Rightarrow> string list option \<Rightarrow> AgentToolPolicy \<Rightarrow> ToolDefinition list" where
  "apply_tool_policy_override tools base_deny override_policy =
     filter (\<lambda>t.
        if \<exists>d \<in> set (tp_deny override_policy). tool_pattern_matches d (td_name t) then False
        else if (case base_deny of None \<Rightarrow> False | Some bd \<Rightarrow> \<exists>d \<in> set bd. tool_pattern_matches d (td_name t))
        then False
        else if tp_allow override_policy \<noteq> []
        then \<exists>a \<in> set (tp_allow override_policy). tool_pattern_matches a (td_name t)
        else True) tools"

definition apply_global_block :: "ToolDefinition list \<Rightarrow> string list \<Rightarrow> ToolDefinition list" where
  "apply_global_block tools block =
     (if block = [] then tools else filter (\<lambda>t. td_name t \<notin> set block) tools)"

text \<open>\<open>clean_tool_params\<close>: \<open>serde_json\<close>'s \<open>Map::remove\<close> drops the member.\<close>

fun clean_tool_params :: "json \<Rightarrow> json" where
  "clean_tool_params (JObj ms) = JObj (filter (\<lambda>m. fst m \<noteq> ''_context'') ms)"
| "clean_tool_params j = j"

section \<open>The offered tools\<close>

definition static_core_tool_names :: "string list" where
  "static_core_tool_names =
     [''workspace_read'', ''workspace_write'', ''workspace_edit'', ''workspace_list'', ''code_exec'',
      ''memory'', ''agent'', ''skill_use'', ''web_fetch'', ''tool_use'']"

definition keep_in_native_partition ::
  "string \<Rightarrow> string list \<Rightarrow> string list \<Rightarrow> string list \<Rightarrow> bool" where
  "keep_in_native_partition nm core_names core_extra always_core \<longleftrightarrow>
     nm \<in> set core_names \<or> nm \<in> set core_extra \<or> nm \<in> set always_core"

text \<open>The tail of the tool assembly in \<open>context_builder.rs\<close>: policy, global block list, then
  the dispatcher's partition.  Without the dispatcher the ranking by embeddings may shorten the
  list; it is the argument \<open>select_top_k\<close> (with the fallback of \<open>fail_soft_enhancement\<close>
  included).\<close>

record dispatcher_config =
  dc_enabled :: bool
  dc_block :: "string list"
  dc_core_extra :: "string list"
  dc_always_core :: "string list"
  dc_max_tools :: "nat option"

definition assemble_tools ::
  "(ToolDefinition list \<Rightarrow> string \<Rightarrow> nat \<Rightarrow> ToolDefinition list) \<Rightarrow> dispatcher_config \<Rightarrow>
   AgentToolPolicy option \<Rightarrow> bool \<Rightarrow> string \<Rightarrow> ToolDefinition list \<Rightarrow> ToolDefinition list" where
  "assemble_tools select_top_k dc policy memory_available user_text tool_list =
     (let all_tools = apply_global_block (filter_tools_by_policy tool_list policy memory_available)
                        (dc_block dc)
      in if dc_enabled dc
         then filter (\<lambda>t. keep_in_native_partition (td_name t) static_core_tool_names
                            (dc_core_extra dc) (dc_always_core dc)) all_tools
         else case dc_max_tools dc of
                None \<Rightarrow> all_tools
              | Some max_k \<Rightarrow>
                  if max_k < length all_tools \<and> user_text \<noteq> [] then select_top_k all_tools user_text max_k
                  else all_tools)"

section \<open>The dispatcher\<close>

definition ascii_alpha :: "char \<Rightarrow> bool" where
  "ascii_alpha c \<longleftrightarrow> (let n = of_char c :: nat in (65 \<le> n \<and> n \<le> 90) \<or> (97 \<le> n \<and> n \<le> 122))"

definition ascii_alnum :: "char \<Rightarrow> bool" where
  "ascii_alnum c \<longleftrightarrow> ascii_alpha c \<or> (let n = of_char c :: nat in 48 \<le> n \<and> n \<le> 57)"

definition is_valid_tool_name :: "string \<Rightarrow> bool" where
  "is_valid_tool_name nm \<longleftrightarrow>
     nm \<noteq> [] \<and> length nm \<le> 64 \<and> ascii_alpha (hd nm)
     \<and> list_all (\<lambda>b. ascii_alnum b \<or> b = CHR ''_'' \<or> b = CHR ''-'') nm"

datatype RewriteResult =
    Direct ToolCall
  | Denied string string

definition deny_reason :: "string \<Rightarrow> AgentToolPolicy option \<Rightarrow> string list \<Rightarrow> string option" where
  "deny_reason nm policy extra_deny =
     (if (case policy of None \<Rightarrow> False | Some p \<Rightarrow> nm \<in> set (tp_deny p))
      then Some (''tool '' @ [CHR 0x27] @ nm @ [CHR 0x27] @ '' is denied by agent policy'')
      else if nm \<in> set extra_deny
      then Some (''tool '' @ [CHR 0x27] @ nm @ [CHR 0x27] @ '' is denied for subagents'')
      else None)"

text \<open>\<open>known_tools\<close> is the set of names the batch executor collects; the thought signature of a
  call, which the rewrite drops, is not part of \<^typ>\<open>ToolCall\<close>.\<close>

definition rewrite_one ::
  "ToolCall \<Rightarrow> AgentToolPolicy option \<Rightarrow> string list \<Rightarrow> string list \<Rightarrow> RewriteResult" where
  "rewrite_one tc policy known_tools extra_deny =
     (if tc_name tc \<noteq> ''tool_use''
      then (case deny_reason (tc_name tc) policy extra_deny of
              Some reason \<Rightarrow> Denied (tc_id tc) reason
            | None \<Rightarrow> Direct tc)
      else if Option.bind (json_get (tc_arguments tc) ''action'') as_str \<noteq> Some ''call'' then Direct tc
      else let inner_name = (case Option.bind (json_get (tc_arguments tc) ''name'') as_str of
                               Some n \<Rightarrow> n | None \<Rightarrow> []);
               inner_args = (case json_get (tc_arguments tc) ''arguments'' of
                               Some a \<Rightarrow> a | None \<Rightarrow> JObj [])
           in if \<not> is_valid_tool_name inner_name
              then Denied (tc_id tc) (''invalid tool name '' @ [CHR 0x27] @ inner_name @ [CHR 0x27])
              else if inner_name = ''tool_use''
              then Denied (tc_id tc) ''tool_use cannot dispatch to itself''
              else if inner_name \<notin> set known_tools
              then Denied (tc_id tc) (''tool '' @ [CHR 0x27] @ inner_name @ [CHR 0x27] @ '' not found'')
              else case deny_reason inner_name policy extra_deny of
                     Some reason \<Rightarrow> Denied (tc_id tc) reason
                   | None \<Rightarrow> Direct \<lparr>tc_id = tc_id tc, tc_name = inner_name, tc_arguments = inner_args\<rparr>)"

definition rewrite_tool_use_calls ::
  "ToolCall list \<Rightarrow> AgentToolPolicy option \<Rightarrow> string list \<Rightarrow> string list \<Rightarrow> RewriteResult list" where
  "rewrite_tool_use_calls calls policy known_tools extra_deny =
     map (\<lambda>tc. rewrite_one tc policy known_tools extra_deny) calls"

text \<open>The head of \<open>execute_tool_calls_partitioned\<close>: the known names, the rewrite, and the
  separation of the calls to run from the answers already given.\<close>

definition known_tools :: "string list \<Rightarrow> string list \<Rightarrow> ToolDefinition list \<Rightarrow> string list" where
  "known_tools all_sys yaml_names mcp = all_sys @ yaml_names @ map td_name mcp"

fun split_rewritten :: "RewriteResult list \<Rightarrow> ToolCall list \<times> (string \<times> string) list" where
  "split_rewritten [] = ([], [])"
| "split_rewritten (Direct tc # rs) = (let (d, n) = split_rewritten rs in (tc # d, n))"
| "split_rewritten (Denied i reason # rs) = (let (d, n) = split_rewritten rs in (d, (i, reason) # n))"

definition dispatch_batch ::
  "ToolCall list \<Rightarrow> AgentToolPolicy option \<Rightarrow> string list \<Rightarrow> string list \<Rightarrow>
   ToolCall list \<times> (string \<times> string) list" where
  "dispatch_batch calls policy known extra_deny =
     split_rewritten (rewrite_tool_use_calls calls policy known extra_deny)"

text \<open>The catalogue behind \<open>tool_use(action="search")\<close> and \<open>"describe"\<close>.  A YAML or capability
  tool is its definition with its \<open>required_base\<close> flag.\<close>

definition CAPABILITY_TOOL_NAMES :: "string list" where
  "CAPABILITY_TOOL_NAMES =
     [''generate_image'', ''synthesize_speech'', ''search_web'', ''transcribe_audio'', ''analyze_image'']"

definition is_capability_tool :: "string \<Rightarrow> bool" where
  "is_capability_tool nm \<longleftrightarrow> nm \<in> set CAPABILITY_TOOL_NAMES"

definition build_extension_tool_list ::
  "bool \<Rightarrow> string list \<Rightarrow> string list \<Rightarrow> string list \<Rightarrow> string list \<Rightarrow> (ToolDefinition \<times> bool) list \<Rightarrow>
   (ToolDefinition \<times> bool) list \<Rightarrow> ToolDefinition list \<Rightarrow> ToolDefinition list" where
  "build_extension_tool_list is_base_agent deny promoted always_core all_sys yaml capability mcp =
     (let sys = map (\<lambda>n. \<lparr>td_name = n, td_description = [], td_input_schema = JObj []\<rparr>)
                  (filter (\<lambda>n. n \<notin> set static_core_tool_names \<and> n \<notin> set deny \<and> n \<notin> set promoted) all_sys);
          ok = (\<lambda>(t, required_base). (\<not> required_base \<or> is_base_agent)
                  \<and> td_name t \<notin> set deny \<and> td_name t \<notin> set promoted);
          ym = map fst (filter (\<lambda>y. ok y \<and> \<not> is_capability_tool (td_name (fst y))) yaml);
          cap = map fst (filter ok capability);
          mc = filter (\<lambda>t. td_name t \<notin> set deny \<and> td_name t \<notin> set promoted) mcp
      in sort_key td_name (filter (\<lambda>t. td_name t \<notin> set always_core) (sys @ ym @ cap @ mc)))"

definition find_extension_tool ::
  "string \<Rightarrow> bool \<Rightarrow> string list \<Rightarrow> string list \<Rightarrow> string list \<Rightarrow> string list \<Rightarrow> (ToolDefinition \<times> bool) list \<Rightarrow>
   (ToolDefinition \<times> bool) list \<Rightarrow> ToolDefinition list \<Rightarrow> ToolDefinition option" where
  "find_extension_tool nm is_base_agent deny promoted always_core all_sys yaml capability mcp =
     find (\<lambda>t. td_name t = nm)
       (build_extension_tool_list is_base_agent deny promoted always_core all_sys yaml capability mcp)"

section \<open>Subagents\<close>

definition SUBAGENT_DENIED_TOOLS :: "string list" where
  "SUBAGENT_DENIED_TOOLS =
     [''workspace_delete'', ''workspace_rename'', ''cron'', ''secret_set'', ''process'', ''code_exec'',
      ''generate_image'', ''synthesize_speech'', ''analyze_image'', ''transcribe_audio'', ''search_web'',
      ''clarify'']"

definition runtime_subagent_denylist :: "string list \<Rightarrow> string list" where
  "runtime_subagent_denylist blocked_tools_extra =
     foldl (\<lambda>denied extra. if extra \<in> set denied then denied else denied @ [extra])
       SUBAGENT_DENIED_TOOLS blocked_tools_extra"

text \<open>The carve-out for base agents in \<open>run_subagent\<close> and
  \<open>internal_tool_definitions_for_subagent\<close>.\<close>

definition denied_for_subagent :: "bool \<Rightarrow> string list \<Rightarrow> string list" where
  "denied_for_subagent subagent_is_base blocked_tools_extra =
     (let denied = runtime_subagent_denylist blocked_tools_extra
      in if subagent_is_base then filter (\<lambda>t. t \<noteq> ''code_exec'') denied else denied)"

definition filter_for_subagent ::
  "ToolDefinition list \<Rightarrow> string list \<Rightarrow> string list option \<Rightarrow> ToolDefinition list" where
  "filter_for_subagent all_tools denied_tools allowed_tools =
     (let safe = filter (\<lambda>t. td_name t \<notin> set denied_tools) all_tools
      in case allowed_tools of
           Some whitelist \<Rightarrow> filter (\<lambda>t. td_name t \<in> set whitelist) safe
         | None \<Rightarrow> safe)"

definition dispatch_for_subagent_decision :: "bool \<Rightarrow> bool \<Rightarrow> bool option \<Rightarrow> bool" where
  "dispatch_for_subagent_decision subagent_is_base parent_enabled parent_override =
     (if subagent_is_base then False
      else case parent_override of Some b \<Rightarrow> b | None \<Rightarrow> parent_enabled)"

definition internal_tool_definitions_for_subagent ::
  "ToolDefinition list \<Rightarrow> string list \<Rightarrow> bool \<Rightarrow> bool option \<Rightarrow> string list option \<Rightarrow> bool \<Rightarrow>
   ToolDefinition list" where
  "internal_tool_definitions_for_subagent internal blocked_tools_extra parent_enabled parent_override
     allowed_tools subagent_is_base =
     (let denied = denied_for_subagent subagent_is_base blocked_tools_extra;
          tools = (if dispatch_for_subagent_decision subagent_is_base parent_enabled parent_override
                   then filter (\<lambda>t. td_name t \<in> set static_core_tool_names) internal
                   else internal)
      in filter_for_subagent tools denied allowed_tools)"

fun always_core_subagent_loop ::
  "string list \<Rightarrow> ToolDefinition list \<Rightarrow> ToolDefinition list \<Rightarrow> string list \<Rightarrow> string list \<Rightarrow>
   ToolDefinition list" where
  "always_core_subagent_loop [] yaml mcp denied seen = []"
| "always_core_subagent_loop (nm # ns) yaml mcp denied seen =
     (if nm \<in> set denied \<or> nm \<in> set seen then always_core_subagent_loop ns yaml mcp denied seen
      else case find (\<lambda>t. td_name t = nm) yaml of
             Some y \<Rightarrow> y # always_core_subagent_loop ns yaml mcp denied (nm # seen)
           | None \<Rightarrow>
               (case find (\<lambda>t. td_name t = nm) mcp of
                  Some m \<Rightarrow> m # always_core_subagent_loop ns yaml mcp denied (nm # seen)
                | None \<Rightarrow> always_core_subagent_loop ns yaml mcp denied seen))"

definition always_core_subagent_defs ::
  "string list \<Rightarrow> ToolDefinition list \<Rightarrow> ToolDefinition list \<Rightarrow> string list \<Rightarrow> ToolDefinition list" where
  "always_core_subagent_defs always_core yaml mcp denied = always_core_subagent_loop always_core yaml mcp denied []"

text \<open>The tool list of \<open>run_subagent\<close>: the internal tools already filtered, then the YAML and MCP
  tools (or, with the dispatcher, the \<open>always_core\<close> ones), then the subagent's own policy.\<close>

definition subagent_tools ::
  "ToolDefinition list \<Rightarrow> ToolDefinition list \<Rightarrow> ToolDefinition list \<Rightarrow> string list \<Rightarrow> bool \<Rightarrow> bool option \<Rightarrow>
   string list option \<Rightarrow> bool \<Rightarrow> string list \<Rightarrow> AgentToolPolicy option \<Rightarrow> bool \<Rightarrow> ToolDefinition list" where
  "subagent_tools internal yaml mcp blocked_tools_extra parent_enabled parent_override allowed_tools
     subagent_is_base always_core policy memory_available =
     (let dispatch = dispatch_for_subagent_decision subagent_is_base parent_enabled parent_override;
          available = internal_tool_definitions_for_subagent internal blocked_tools_extra parent_enabled
                        parent_override allowed_tools subagent_is_base;
          denied = denied_for_subagent subagent_is_base blocked_tools_extra;
          ok = filter (\<lambda>t. td_name t \<notin> set denied);
          more = (if \<not> dispatch then ok yaml @ ok mcp
                  else if always_core \<noteq> [] then always_core_subagent_defs always_core yaml mcp denied
                  else [])
      in filter_tools_by_policy (available @ more) policy memory_available)"

section \<open>Patterns mean what they say\<close>

text \<open>C38. The matcher of tool patterns, which walks the literal segments of a pattern and takes
  the leftmost occurrence of each, accepts exactly the names of the glob: \<open>*\<close> matches any run of
  characters and everything else itself.  No backtracking is needed, and no match is lost.\<close>

theorem tool_pattern_matches_is_glob: "tool_pattern_matches p n = glob p n"
  by (rule tool_pattern_glob)

lemma pattern_literal: "CHR ''*'' \<notin> set p \<Longrightarrow> tool_pattern_matches p n = (p = n)"
  by (simp add: tool_pattern_matches_def)

lemma pattern_prefix: "CHR ''*'' \<notin> set p \<Longrightarrow> tool_pattern_matches (p @ ''*'') n = starts_with p n"
  by (auto simp: tool_pattern_glob glob_pieces split_on_append starts_with_iff)

lemma pattern_self: "CHR ''*'' \<notin> set p \<Longrightarrow> tool_pattern_matches p p"
  by (simp add: pattern_literal)

section \<open>Offered tools\<close>

lemma filter_tools_sub: "set (filter_tools_by_policy ts p mem) \<subseteq> set ts"
  by (auto simp: filter_tools_by_policy_def split: option.splits)

lemma admits_not_denied: "admits p mem n \<Longrightarrow> d \<in> set (tp_deny p) \<Longrightarrow> \<not> glob d n"
  by (auto simp: admits_def tool_pattern_glob split: if_splits)

text \<open>C17. Whatever the dispatcher's configuration and however the ranking picks among the tools it
  is given, a tool offered to the model is one of the assembled tools, matches no pattern of the
  agent's deny list, core tools included, and is not on the global block list; and with the
  dispatcher on it belongs to the static core or was promoted by name.\<close>

theorem offered_tools_respect_policy:
  assumes top_k: "\<And>ts u k. set (select_top_k ts u k) \<subseteq> set ts"
    and t: "t \<in> set (assemble_tools select_top_k dc policy mem user_text tools)"
  shows "t \<in> set tools \<and> td_name t \<notin> set (dc_block dc)
         \<and> (\<forall>p. policy = Some p \<longrightarrow> admits p mem (td_name t) \<and> (\<forall>d \<in> set (tp_deny p). \<not> glob d (td_name t)))
         \<and> (dc_enabled dc \<longrightarrow> td_name t \<in> set static_core_tool_names \<union> set (dc_core_extra dc) \<union> set (dc_always_core dc))"
proof -
  let ?f = "filter_tools_by_policy tools policy mem"
  have "t \<in> set (apply_global_block ?f (dc_block dc))"
    using t top_k by (auto simp: assemble_tools_def Let_def split: if_splits option.splits)
  then have f: "t \<in> set ?f" "td_name t \<notin> set (dc_block dc)"
    by (auto simp: apply_global_block_def split: if_splits)
  have "policy = Some p \<longrightarrow> admits p mem (td_name t)" for p
    using f(1) by (auto simp: filter_tools_by_policy_def)
  moreover have "dc_enabled dc \<longrightarrow>
      td_name t \<in> set static_core_tool_names \<union> set (dc_core_extra dc) \<union> set (dc_always_core dc)"
    using t by (auto simp: assemble_tools_def keep_in_native_partition_def)
  ultimately show ?thesis using f filter_tools_sub [of tools policy mem] admits_not_denied by blast
qed

definition mk_tool :: "string \<Rightarrow> ToolDefinition" where
  "mk_tool n = \<lparr>td_name = n, td_description = [], td_input_schema = JObj []\<rparr>"

definition all_groups :: ToolGroups where
  "all_groups = \<lparr>tg_git = True, tg_tool_management = True, tg_skill_editing = True, tg_session_tools = True\<rparr>"

definition deny_policy :: "string list \<Rightarrow> AgentToolPolicy" where
  "deny_policy ds = \<lparr>tp_allow = [], tp_deny = ds, tp_allow_all = False, tp_deny_all_others = False,
                     tp_groups = all_groups\<rparr>"

definition plain_dispatcher :: "bool \<Rightarrow> dispatcher_config" where
  "plain_dispatcher e = \<lparr>dc_enabled = e, dc_block = [''canvas''], dc_core_extra = [], dc_always_core = [],
                         dc_max_tools = None\<rparr>"

theorem offered_tools_respect_policy_witness:
  "mk_tool ''code_exec'' \<in> set (assemble_tools (\<lambda>ts u k. take k ts) (plain_dispatcher True)
        (Some (deny_policy [''workspace_*''])) True ''hi''
        (map mk_tool [''code_exec'', ''workspace_write'', ''cron'', ''canvas'']))
   \<and> td_name (mk_tool ''code_exec'') \<notin> set (dc_block (plain_dispatcher True))"
proof -
  have m: "mk_tool ''code_exec'' \<in> set (assemble_tools (\<lambda>ts u k. take k ts) (plain_dispatcher True)
        (Some (deny_policy [''workspace_*''])) True ''hi''
        (map mk_tool [''code_exec'', ''workspace_write'', ''cron'', ''canvas'']))"
    by code_simp
  show ?thesis
    using offered_tools_respect_policy [of "\<lambda>ts u k. take k ts", OF set_take_subset m] m by blast
qed

text \<open>A job's override only removes tools, and the deny lists of the job and of the agent both
  hold for what is left.\<close>

lemma override_narrows:
  "t \<in> set (apply_tool_policy_override ts bd ov) \<Longrightarrow>
     t \<in> set ts \<and> (\<forall>d \<in> set (tp_deny ov). \<not> glob d (td_name t))
     \<and> (\<forall>ds. bd = Some ds \<longrightarrow> (\<forall>d \<in> set ds. \<not> glob d (td_name t)))
     \<and> (tp_allow ov = [] \<or> (\<exists>a \<in> set (tp_allow ov). glob a (td_name t)))"
  by (auto simp: apply_tool_policy_override_def tool_pattern_glob split: if_splits)

section \<open>Dispatched calls\<close>

lemma deny_reason_None:
  "deny_reason n policy extra = None \<longleftrightarrow>
     (\<forall>p. policy = Some p \<longrightarrow> n \<notin> set (tp_deny p)) \<and> n \<notin> set extra"
  by (auto simp: deny_reason_def split: option.splits)

lemma deny_reason_SomeD:
  "deny_reason n policy extra = Some r \<Longrightarrow> n \<in> set extra \<or> (\<exists>p. policy = Some p \<and> n \<in> set (tp_deny p))"
  by (auto simp: deny_reason_def split: option.splits if_splits)

text \<open>Whether a call asks the dispatcher to run another tool, and the call it stands for.\<close>

definition is_dispatch :: "ToolCall \<Rightarrow> bool" where
  "is_dispatch tc \<longleftrightarrow> tc_name tc = ''tool_use''
     \<and> Option.bind (json_get (tc_arguments tc) ''action'') as_str = Some ''call''"

definition effective_call :: "ToolCall \<Rightarrow> ToolCall" where
  "effective_call tc =
     (if is_dispatch tc
      then \<lparr>tc_id = tc_id tc,
            tc_name = (case Option.bind (json_get (tc_arguments tc) ''name'') as_str of Some n \<Rightarrow> n | None \<Rightarrow> []),
            tc_arguments = (case json_get (tc_arguments tc) ''arguments'' of Some a \<Rightarrow> a | None \<Rightarrow> JObj [])\<rparr>
      else tc)"

definition gate_open :: "ToolCall \<Rightarrow> AgentToolPolicy option \<Rightarrow> string list \<Rightarrow> string list \<Rightarrow> bool" where
  "gate_open tc policy known extra \<longleftrightarrow>
     (let n = tc_name (effective_call tc)
      in (n = ''tool_use'' \<longrightarrow> \<not> is_dispatch tc)
         \<and> (is_dispatch tc \<longrightarrow> is_valid_tool_name n \<and> n \<in> set known)
         \<and> (n \<noteq> ''tool_use'' \<longrightarrow> n \<notin> set extra \<and> (\<forall>p. policy = Some p \<longrightarrow> n \<notin> set (tp_deny p))))"

lemma effective_call_id [simp]: "tc_id (effective_call tc) = tc_id tc"
  by (simp add: effective_call_def)

lemma rewrite_one_cases:
  "rewrite_one tc policy known extra =
     (if gate_open tc policy known extra then Direct (effective_call tc)
      else Denied (tc_id tc) (case rewrite_one tc policy known extra of Denied i r \<Rightarrow> r | Direct t \<Rightarrow> []))"
  by (cases "is_dispatch tc")
     (auto simp: rewrite_one_def gate_open_def effective_call_def Let_def deny_reason_None is_dispatch_def
           split: option.splits dest!: deny_reason_SomeD)

lemma rewrite_one_Direct: "rewrite_one tc policy known extra = Direct t
    \<longleftrightarrow> gate_open tc policy known extra \<and> t = effective_call tc"
  using rewrite_one_cases [of tc policy known extra] by (auto split: if_splits)

lemma rewrite_one_Denied: "\<not> gate_open tc policy known extra \<Longrightarrow>
    \<exists>r. rewrite_one tc policy known extra = Denied (tc_id tc) r"
  using rewrite_one_cases [of tc policy known extra] by auto

lemma dispatch_batch_Cons:
  "dispatch_batch (tc # tcs) policy known extra =
     (let (d, n) = dispatch_batch tcs policy known extra
      in case rewrite_one tc policy known extra of
           Direct t \<Rightarrow> (t # d, n) | Denied i r \<Rightarrow> (d, (i, r) # n))"
  by (cases "rewrite_one tc policy known extra")
     (simp_all add: dispatch_batch_def rewrite_tool_use_calls_def split_beta)

text \<open>The runtime gate, for a whole batch: the calls that are run are exactly those whose
  effective call (the call itself, or the one a \<open>tool_use(action="call")\<close> stands for) passes the
  gate, in their order and with their ids; every other call is answered with a refusal under its
  own id, so each call of the batch is run or refused and none is both.\<close>

theorem dispatch_batch_gate:
  "fst (dispatch_batch calls policy known extra)
     = map effective_call (filter (\<lambda>tc. gate_open tc policy known extra) calls)
   \<and> map fst (snd (dispatch_batch calls policy known extra))
     = map tc_id (filter (\<lambda>tc. \<not> gate_open tc policy known extra) calls)"
proof (induction calls)
  case Nil
  then show ?case by (simp add: dispatch_batch_def rewrite_tool_use_calls_def)
next
  case (Cons tc tcs)
  show ?case
  proof (cases "gate_open tc policy known extra")
    case True
    then have "rewrite_one tc policy known extra = Direct (effective_call tc)"
      by (simp add: rewrite_one_Direct)
    then show ?thesis using Cons True
      by (auto simp: dispatch_batch_Cons split_beta split: prod.splits)
  next
    case False
    then obtain r where "rewrite_one tc policy known extra = Denied (tc_id tc) r"
      using rewrite_one_Denied by blast
    then show ?thesis using Cons False
      by (auto simp: dispatch_batch_Cons split_beta split: prod.splits)
  qed
qed

lemma dispatched_gate:
  assumes "t \<in> set (fst (dispatch_batch calls policy known extra))"
  shows "\<exists>tc \<in> set calls. t = effective_call tc \<and> gate_open tc policy known extra"
  using assms
proof (induction calls)
  case (Cons tc tcs)
  then show ?case
    by (auto simp: dispatch_batch_Cons rewrite_one_Direct split_beta split: prod.splits RewriteResult.splits)
qed (simp add: dispatch_batch_def rewrite_tool_use_calls_def)

section \<open>Subagents stay confined\<close>

lemma denylist_set:
  "set (runtime_subagent_denylist extra) = set SUBAGENT_DENIED_TOOLS \<union> set extra"
proof -
  have "set (foldl (\<lambda>denied e. if e \<in> set denied then denied else denied @ [e]) acc xs) = set acc \<union> set xs"
    for acc xs :: "string list"
    by (induction xs arbitrary: acc) auto
  then show ?thesis by (simp add: runtime_subagent_denylist_def)
qed

text \<open>The tools a subagent must not have.\<close>

definition withheld :: "bool \<Rightarrow> string list \<Rightarrow> string \<Rightarrow> bool" where
  "withheld is_base extra n \<longleftrightarrow>
     (n \<in> set SUBAGENT_DENIED_TOOLS \<or> n \<in> set extra) \<and> \<not> (is_base \<and> n = ''code_exec'')"

lemma denied_for_subagent_mem: "n \<in> set (denied_for_subagent is_base extra) \<longleftrightarrow> withheld is_base extra n"
  by (auto simp: denied_for_subagent_def withheld_def Let_def denylist_set)

lemma find_name: "find (\<lambda>t. td_name t = n) ts = Some t \<Longrightarrow> td_name t = n"
  by (auto simp: find_Some_iff)

lemma always_core_loop_ok:
  "t \<in> set (always_core_subagent_loop ns yaml mcp denied seen) \<Longrightarrow>
     td_name t \<notin> set denied \<and> td_name t \<in> set ns"
  by (induction ns yaml mcp denied seen rule: always_core_subagent_loop.induct)
     (auto split: if_splits option.splits dest: find_name)

lemma subagent_visible:
  assumes "t \<in> set (subagent_tools internal yaml mcp extra en ov allowed is_base always_core policy mem)"
  shows "td_name t \<notin> set (denied_for_subagent is_base extra)"
proof -
  have "t \<in> set (internal_tool_definitions_for_subagent internal extra en ov allowed is_base) \<Longrightarrow> ?thesis"
    by (auto simp: internal_tool_definitions_for_subagent_def filter_for_subagent_def Let_def
             split: option.splits if_splits)
  then show ?thesis
    using assms filter_tools_sub
    by (fastforce simp: subagent_tools_def Let_def always_core_subagent_defs_def
                  dest: always_core_loop_ok split: if_splits)
qed



section \<open>Where the gate and the filter differ\<close>

text \<open>The filter of the offered tools reads the deny list as globs, the runtime gate compares
  names: a tool denied by a glob is hidden from the model but still dispatched when it is called,
  directly or through \<open>tool_use\<close>.\<close>

lemma glob_deny_not_enforced:
  fixes c
  defines "pol \<equiv> Some (deny_policy [''workspace_*''])"
  assumes "c = \<lparr>tc_id = ''1'', tc_name = ''workspace_delete'', tc_arguments = JObj []\<rparr>"
  shows "filter_tools_by_policy [mk_tool ''workspace_delete''] pol True = []
         \<and> dispatch_batch [c] pol [''workspace_delete''] [] = ([c], [])"
  unfolding pol_def assms(2) by code_simp

text \<open>On the deny list itself the two agree: a literal pattern of the list hides the tool and
  refuses the call.\<close>

lemma literal_deny_agrees:
  assumes "\<forall>d \<in> set (tp_deny p). CHR ''*'' \<notin> set d" "tc_name tc \<noteq> ''tool_use''"
    and "\<exists>d \<in> set (tp_deny p). glob d (tc_name tc)"
  shows "\<not> gate_open tc (Some p) known extra"
proof -
  have "effective_call tc = tc" using assms(2) by (simp add: effective_call_def is_dispatch_def)
  moreover have "tc_name tc \<in> set (tp_deny p)"
    using assms(1,3) by (metis pattern_literal tool_pattern_glob)
  ultimately show ?thesis using assms(2) by (auto simp: gate_open_def Let_def)
qed

text \<open>The catalogue lists the capability tools of the agent's profile and tells the model to call
  them through \<open>tool_use\<close>; the names the batch executor knows do not include them, so such a call
  is refused as not found unless a YAML file of the same name exists.\<close>

lemma capability_tool_unreachable:
  assumes "n \<in> set CAPABILITY_TOOL_NAMES" "n \<notin> set all_sys" "n \<notin> set yaml_names"
    "n \<notin> td_name ` set mcp"
    and c: "c = \<lparr>tc_id = i, tc_name = ''tool_use'',
              tc_arguments = JObj [(''action'', JStr ''call''), (''name'', JStr n)]\<rparr>"
  shows "dispatch_batch [c] policy (known_tools all_sys yaml_names mcp) extra
           = ([], [(i, ''tool '' @ [CHR 0x27] @ n @ [CHR 0x27] @ '' not found'')])"
proof -
  have "is_valid_tool_name n \<and> n \<noteq> ''tool_use''"
    using assms(1) unfolding CAPABILITY_TOOL_NAMES_def
    by (auto simp: is_valid_tool_name_def ascii_alnum_def ascii_alpha_def Let_def)
  moreover have "n \<notin> set (known_tools all_sys yaml_names mcp)"
    using assms(2-4) by (auto simp: known_tools_def)
  ultimately show ?thesis
    by (simp add: dispatch_batch_def rewrite_tool_use_calls_def rewrite_one_def c)
qed

lemma capability_tool_listed:
  "find_extension_tool ''search_web'' False [] [] [] [''cron''] [] [(mk_tool ''search_web'', False)] []
     = Some (mk_tool ''search_web'')"
  by code_simp

end
