(* ===== verification/Approvals.thy ===== *)
theory Approvals
  imports Tool_Policy
begin

text \<open>
  Approval of tool calls by a person: the tables \<open>pending_approvals\<close> and
  \<open>approval_allowlist\<close> (\<open>opex-db/src/approvals.rs\<close>), the manager that creates a request and waits
  for its decision (\<open>agent/approval_manager.rs\<close>), the handler that records a decision and wakes
  the waiting call (\<open>agent/pipeline/approval.rs\<close>) and the endpoint in front of it.

  The manager, the decision handlers and the pruning of waiters run concurrently; they are the
  steps of one machine, cut where the code awaits.  Its invariant gives the safety of the scheme:
  a request is decided at most once, and a call goes ahead only with the decision of a person.
  The audit records, the broadcasts to the web client and the notification rows change nothing
  the machine reads and are left out; the events on the chat stream are kept.
\<close>

section \<open>Table of requests\<close>

record PendingApproval =
  pa_id :: uuid
  pa_agent_id :: string
  pa_session_id :: "uuid option"
  pa_tool_name :: string
  pa_tool_args :: json
  pa_status :: string
  pa_requested_at :: timestamp
  pa_resolved_at :: "timestamp option"
  pa_resolved_by :: "string option"
  pa_context :: json

datatype ApprovalError =
    ApNotFound uuid
  | ApAlreadyResolved uuid string
  | ApDb string

text \<open>\<open>id\<close> and \<open>requested_at\<close> are the defaults the database fills in.\<close>

definition create_approval ::
  "uuid \<Rightarrow> timestamp \<Rightarrow> string \<Rightarrow> uuid option \<Rightarrow> string \<Rightarrow> json \<Rightarrow> json \<Rightarrow> PendingApproval list \<Rightarrow>
   PendingApproval list" where
  "create_approval i now agent session_id tool_name tool_args ctx rows =
     rows @ [\<lparr>pa_id = i, pa_agent_id = agent, pa_session_id = session_id, pa_tool_name = tool_name,
              pa_tool_args = tool_args, pa_status = ''pending'', pa_requested_at = now,
              pa_resolved_at = None, pa_resolved_by = None, pa_context = ctx\<rparr>]"

definition get_approval :: "uuid \<Rightarrow> PendingApproval list \<Rightarrow> PendingApproval option" where
  "get_approval i rows = find (\<lambda>r. pa_id r = i) rows"

definition resolve_approval_strict ::
  "timestamp \<Rightarrow> uuid \<Rightarrow> string \<Rightarrow> string \<Rightarrow> PendingApproval list \<Rightarrow>
   (ApprovalError + unit) \<times> PendingApproval list" where
  "resolve_approval_strict now i status resolved_by rows =
     (case get_approval i rows of
        None \<Rightarrow> (Inl (ApNotFound i), rows)
      | Some r \<Rightarrow>
          if pa_status r \<noteq> ''pending'' then (Inl (ApAlreadyResolved i (pa_status r)), rows)
          else (Inr (), map (\<lambda>r. if pa_id r = i
                               then r\<lparr>pa_status := status, pa_resolved_at := Some now,
                                      pa_resolved_by := Some resolved_by\<rparr>
                               else r) rows))"

definition list_pending :: "string \<Rightarrow> PendingApproval list \<Rightarrow> PendingApproval list" where
  "list_pending agent rows =
     take 200 (order_desc pa_requested_at
       (filter (\<lambda>r. pa_agent_id r = agent \<and> pa_status r = ''pending'') rows))"

definition list_all_pending :: "PendingApproval list \<Rightarrow> PendingApproval list" where
  "list_all_pending rows =
     take 200 (order_desc pa_requested_at (filter (\<lambda>r. pa_status r = ''pending'') rows))"

section \<open>Allowlist\<close>

record AllowlistEntry =
  al_id :: uuid
  al_agent_id :: string
  al_tool_pattern :: string
  al_created_at :: timestamp
  al_created_by :: "string option"

text \<open>SQL \<open>LIKE\<close>: \<open>%\<close> is any run, \<open>_\<close> any one character, the backslash makes the next one
  literal.  The texts matched are valid tool names, thus ASCII, so a character is a byte; a pattern
  with a trailing backslash, for which PostgreSQL raises an error, matches nothing here and the
  error is the failed query of \<open>check_allowlist\<close>'s caller.\<close>

fun sql_like :: "string \<Rightarrow> string \<Rightarrow> bool" where
  "sql_like [] t = (t = [])"
| "sql_like (c # p) [] = (c = CHR ''%'' \<and> sql_like p [])"
| "sql_like (c # p) (d # t) =
     (if c = CHR ''%'' then sql_like p (d # t) \<or> sql_like (c # p) t
      else if c = CHR ''_'' then sql_like p t
      else if c = CHR 0x5C then (case p of [] \<Rightarrow> False | e # q \<Rightarrow> e = d \<and> sql_like q t)
      else c = d \<and> sql_like p t)"

definition like_pattern :: "string \<Rightarrow> string" where
  "like_pattern p = map (\<lambda>c. if c = CHR ''*'' then CHR ''%'' else c) p"

definition check_allowlist :: "string \<Rightarrow> string \<Rightarrow> AllowlistEntry list \<Rightarrow> bool" where
  "check_allowlist agent tool_name entries \<longleftrightarrow>
     (\<exists>e \<in> set entries. al_agent_id e = agent
        \<and> (al_tool_pattern e = tool_name \<or> sql_like (like_pattern (al_tool_pattern e)) tool_name))"

definition list_allowlist :: "string \<Rightarrow> AllowlistEntry list \<Rightarrow> AllowlistEntry list" where
  "list_allowlist agent entries =
     take 200 (order_desc al_created_at (filter (\<lambda>e. al_agent_id e = agent) entries))"

definition add_to_allowlist ::
  "uuid \<Rightarrow> timestamp \<Rightarrow> string \<Rightarrow> string \<Rightarrow> AllowlistEntry list \<Rightarrow> AllowlistEntry list" where
  "add_to_allowlist i now agent tool_pattern entries =
     entries @ [\<lparr>al_id = i, al_agent_id = agent, al_tool_pattern = tool_pattern, al_created_at = now,
                 al_created_by = None\<rparr>]"

definition remove_from_allowlist :: "uuid \<Rightarrow> AllowlistEntry list \<Rightarrow> bool \<times> AllowlistEntry list" where
  "remove_from_allowlist i entries =
     (\<exists>e \<in> set entries. al_id e = i, filter (\<lambda>e. al_id e \<noteq> i) entries)"

section \<open>Requests, waiters and decisions\<close>

datatype ApprovalResult =
    RApproved
  | RApprovedWithModifiedArgs json
  | RRejected string

datatype ApprovalOutcome =
    OApproved
  | OApprovedWithModifiedArgs json
  | ORejected string
  | OCancelled
  | OTimedOut nat

text \<open>What the manager's loop does with a delivered result.\<close>

fun outcome_of :: "string \<Rightarrow> ApprovalResult \<Rightarrow> ApprovalOutcome" where
  "outcome_of tool RApproved = OApproved"
| "outcome_of tool (RApprovedWithModifiedArgs a) = OApprovedWithModifiedArgs a"
| "outcome_of tool (RRejected reason) =
     ORejected (''Tool `'' @ tool @ ''` was rejected: '' @ reason)"

text \<open>The receiving end of a waiter's \<open>oneshot\<close> channel.\<close>

datatype slot = SEmpty | SSent ApprovalResult | SDropped

text \<open>Where a call of \<open>request_approval\<close> is: notifying the channel (no waiter yet), waiting since
  an instant, past its deadline with the row already decided by another, or returned.\<close>

datatype phase =
    PNotifying
  | PWaiting instant
  | PRaced
  | PReturned ApprovalOutcome

record request =
  rq_tool :: string
  rq_args :: json
  rq_session :: "uuid option"
  rq_timeout :: nat
  rq_phase :: phase

datatype approval_action = AApproved | ARejected | ATimeoutRejected

datatype sse_event =
    ApprovalNeeded uuid string json "64 word"
  | ApprovalResolved uuid approval_action "json option"

text \<open>\<open>wakes\<close> are decisions that are committed and not yet handed to the waiter (the handler
  first publishes them on every stream); \<open>resolutions\<close> is the history of the decisions the table
  accepted; \<open>sse\<close> the events put on the streams, with their session.\<close>

record approval_world =
  aw_rows :: "PendingApproval list"
  aw_waiters :: "uuid \<rightharpoonup> instant"
  aw_slots :: "uuid \<Rightarrow> slot"
  aw_requests :: "uuid \<rightharpoonup> request"
  aw_wakes :: "(uuid \<times> ApprovalResult) list"
  aw_resolutions :: "(uuid \<times> string \<times> json option) list"
  aw_sse :: "(uuid \<times> sse_event) list"

text \<open>A decision at the table, with the history kept.\<close>

definition decide ::
  "timestamp \<Rightarrow> uuid \<Rightarrow> string \<Rightarrow> string \<Rightarrow> json option \<Rightarrow> approval_world \<Rightarrow>
   (ApprovalError + unit) \<times> approval_world" where
  "decide now i status who modified w =
     (case resolve_approval_strict now i status who (aw_rows w) of
        (Inl e, rows) \<Rightarrow> (Inl e, w)
      | (Inr _, rows) \<Rightarrow>
          (Inr (), w\<lparr>aw_rows := rows, aw_resolutions := aw_resolutions w @ [(i, status, modified)]\<rparr>))"

definition set_phase :: "uuid \<Rightarrow> phase \<Rightarrow> approval_world \<Rightarrow> approval_world" where
  "set_phase i ph w =
     (case aw_requests w i of
        None \<Rightarrow> w
      | Some q \<Rightarrow> w\<lparr>aw_requests := (aw_requests w)(i \<mapsto> q\<lparr>rq_phase := ph\<rparr>)\<rparr>)"

definition drop_waiter :: "uuid \<Rightarrow> approval_world \<Rightarrow> approval_world" where
  "drop_waiter i w = w\<lparr>aw_waiters := (aw_waiters w)(i := None)\<rparr>"

text \<open>Steps 1 and 2 of \<open>request_approval\<close>: the row; \<open>sid\<close> is the session id parsed from the
  context.  A failed insert returns \<open>Rejected\<close> and leaves no trace.  Ids are random UUIDs: the
  step is taken with one that was never used.\<close>

definition begin_request ::
  "uuid \<Rightarrow> timestamp \<Rightarrow> string \<Rightarrow> uuid option \<Rightarrow> string \<Rightarrow> json \<Rightarrow> json \<Rightarrow> nat \<Rightarrow> approval_world \<Rightarrow> approval_world"
where
  "begin_request i now agent sid tool args ctx timeout_secs w =
     w\<lparr>aw_rows := create_approval i now agent sid tool args ctx (aw_rows w),
       aw_requests := (aw_requests w)(i \<mapsto> \<lparr>rq_tool = tool, rq_args = args, rq_session = sid,
                                            rq_timeout = timeout_secs, rq_phase = PNotifying\<rparr>)\<rparr>"

text \<open>Steps 3 and 4, after the channel answered or its five seconds passed: the waiter is entered,
  the session's own stream gets the event, and the wait begins.\<close>

definition await_decision :: "uuid \<Rightarrow> instant \<Rightarrow> uuid list \<Rightarrow> approval_world \<Rightarrow> approval_world" where
  "await_decision i now streams w =
     (case aw_requests w i of
        Some q \<Rightarrow>
          if rq_phase q = PNotifying
          then set_phase i (PWaiting now)
                 (w\<lparr>aw_waiters := (aw_waiters w)(i \<mapsto> now),
                    aw_slots := (aw_slots w)(i := SEmpty),
                    aw_sse := aw_sse w @
                      (case rq_session q of
                         Some s \<Rightarrow> if s \<in> set streams
                                   then [(s, ApprovalNeeded i (rq_tool q) (clean_tool_params (rq_args q))
                                              (of_nat (rq_timeout q) * 1000))]
                                   else []
                       | None \<Rightarrow> [])\<rparr>)
          else w
      | None \<Rightarrow> w)"

text \<open>\<open>resolve_approval\<close>, up to the wake-up: the decision is committed and published to every live
  stream.\<close>

definition result_of :: "bool \<Rightarrow> string \<Rightarrow> json option \<Rightarrow> ApprovalResult" where
  "result_of approved who modified =
     (if approved then (case modified of Some a \<Rightarrow> RApprovedWithModifiedArgs a | None \<Rightarrow> RApproved)
      else RRejected (''rejected by '' @ who))"

definition resolve_approval ::
  "timestamp \<Rightarrow> uuid list \<Rightarrow> uuid \<Rightarrow> bool \<Rightarrow> string \<Rightarrow> json option \<Rightarrow> approval_world \<Rightarrow>
   (ApprovalError + unit) \<times> approval_world" where
  "resolve_approval now streams i approved who modified w =
     (case decide now i (if approved then ''approved'' else ''rejected'') who modified w of
        (Inl e, w') \<Rightarrow> (Inl e, w')
      | (Inr _, w') \<Rightarrow>
          (Inr (), w'\<lparr>aw_sse := aw_sse w' @ map (\<lambda>s. (s, ApprovalResolved i
                           (if approved then AApproved else ARejected) modified)) streams,
                      aw_wakes := aw_wakes w' @ [(i, result_of approved who modified)]\<rparr>))"

text \<open>The last step of \<open>resolve_approval\<close>: the waiter, if there is one, is taken out and sent the
  result.\<close>

definition wake :: "nat \<Rightarrow> approval_world \<Rightarrow> approval_world" where
  "wake k w =
     (if k < length (aw_wakes w)
      then let (i, r) = aw_wakes w ! k;
               w1 = w\<lparr>aw_wakes := take k (aw_wakes w) @ drop (Suc k) (aw_wakes w)\<rparr>
           in case aw_waiters w i of
                Some _ \<Rightarrow> (drop_waiter i w1)\<lparr>aw_slots := (aw_slots w1)(i := SSent r)\<rparr>
              | None \<Rightarrow> w1
      else w)"

text \<open>\<open>prune_stale\<close>: dropping a waiter drops its sender.\<close>

definition stale :: "instant \<Rightarrow> instant \<Rightarrow> bool" where
  "stale now created \<longleftrightarrow> 600 < now - created"

definition prune_stale :: "instant \<Rightarrow> approval_world \<Rightarrow> approval_world" where
  "prune_stale now w =
     w\<lparr>aw_waiters := (\<lambda>i. case aw_waiters w i of
                            Some c \<Rightarrow> if stale now c then None else Some c | None \<Rightarrow> None),
       aw_slots := (\<lambda>i. case aw_waiters w i of
                            Some c \<Rightarrow> if stale now c then SDropped else aw_slots w i
                          | None \<Rightarrow> aw_slots w i)\<rparr>"

text \<open>The three ways out of the wait.  Cancellation is polled first; the timer of
  \<open>tokio::time::timeout\<close> is looked at only when the channel has nothing.  \<open>reached\<close> is whether the
  statement reaches the database.\<close>

definition give_up :: "timestamp \<Rightarrow> bool \<Rightarrow> uuid \<Rightarrow> approval_world \<Rightarrow> approval_world" where
  "give_up now reached i w =
     set_phase i (PReturned OCancelled)
       (let w1 = drop_waiter i w in if reached then snd (decide now i ''cancelled'' ''system'' None w1) else w1)"

definition cancel_request :: "timestamp \<Rightarrow> bool \<Rightarrow> uuid \<Rightarrow> approval_world \<Rightarrow> approval_world" where
  "cancel_request now reached i w =
     (case aw_requests w i of
        Some q \<Rightarrow> (case rq_phase q of PWaiting _ \<Rightarrow> give_up now reached i w | _ \<Rightarrow> w)
      | None \<Rightarrow> w)"

definition receive :: "timestamp \<Rightarrow> bool \<Rightarrow> uuid \<Rightarrow> approval_world \<Rightarrow> approval_world" where
  "receive now reached i w =
     (case aw_requests w i of
        Some q \<Rightarrow>
          (case rq_phase q of
             PWaiting _ \<Rightarrow>
               (case aw_slots w i of
                  SSent r \<Rightarrow> set_phase i (PReturned (outcome_of (rq_tool q) r)) w
                | SDropped \<Rightarrow> give_up now reached i w
                | SEmpty \<Rightarrow> w)
           | _ \<Rightarrow> w)
      | None \<Rightarrow> w)"

definition timed_out :: "uuid list \<Rightarrow> uuid \<Rightarrow> request \<Rightarrow> approval_world \<Rightarrow> approval_world" where
  "timed_out streams i q w =
     set_phase i (PReturned (OTimedOut (rq_timeout q)))
       (w\<lparr>aw_sse := aw_sse w @
            (case rq_session q of
               Some s \<Rightarrow> if s \<in> set streams then [(s, ApprovalResolved i ATimeoutRejected None)] else []
             | None \<Rightarrow> [])\<rparr>)"

definition expire ::
  "timestamp \<Rightarrow> instant \<Rightarrow> uuid list \<Rightarrow> bool \<Rightarrow> uuid \<Rightarrow> approval_world \<Rightarrow> approval_world" where
  "expire now clock streams reached i w =
     (case aw_requests w i of
        Some q \<Rightarrow>
          (case rq_phase q of
             PWaiting since \<Rightarrow>
               if aw_slots w i = SEmpty \<and> since + rq_timeout q \<le> clock
               then let (was_pending, w1) =
                          (if reached
                           then (case decide now i ''timeout'' ''system'' None w of
                                   (Inl _, w') \<Rightarrow> (False, w') | (Inr _, w') \<Rightarrow> (True, w'))
                           else (False, w));
                        w2 = drop_waiter i w1
                    in if was_pending then timed_out streams i q w2 else set_phase i PRaced w2
               else w
           | _ \<Rightarrow> w)
      | None \<Rightarrow> w)"

text \<open>After losing the race the row is read again: an approval is honoured.\<close>

definition honour ::
  "uuid list \<Rightarrow> bool \<Rightarrow> uuid \<Rightarrow> approval_world \<Rightarrow> approval_world" where
  "honour streams reached i w =
     (case aw_requests w i of
        Some q \<Rightarrow>
          if rq_phase q = PRaced
          then (case (if reached then get_approval i (aw_rows w) else None) of
                  Some r \<Rightarrow> if pa_status r = ''approved'' then set_phase i (PReturned OApproved) w
                            else timed_out streams i q w
                | None \<Rightarrow> timed_out streams i q w)
          else w
      | None \<Rightarrow> w)"

text \<open>Deleting a session deletes its requests (\<open>ON DELETE CASCADE\<close>).\<close>

definition delete_session_approvals :: "uuid \<Rightarrow> approval_world \<Rightarrow> approval_world" where
  "delete_session_approvals sid w =
     w\<lparr>aw_rows := filter (\<lambda>r. pa_session_id r \<noteq> Some sid) (aw_rows w)\<rparr>"

datatype approval_event =
    EBegin uuid timestamp string "uuid option" string json json nat
  | EAwait uuid instant "uuid list"
  | EResolve timestamp "uuid list" uuid bool string "json option"
  | EWake nat
  | EPrune instant
  | ECancel timestamp bool uuid
  | EReceive timestamp bool uuid
  | EExpire timestamp instant "uuid list" bool uuid
  | EHonour "uuid list" bool uuid
  | EDeleteSession uuid

definition fresh_id :: "uuid \<Rightarrow> approval_world \<Rightarrow> bool" where
  "fresh_id i w \<longleftrightarrow>
     aw_requests w i = None \<and> i \<notin> pa_id ` set (aw_rows w) \<and> i \<notin> fst ` set (aw_resolutions w)
     \<and> i \<notin> fst ` set (aw_wakes w)"

fun approval_step :: "approval_world \<Rightarrow> approval_event \<Rightarrow> approval_world" where
  "approval_step w (EBegin i now agent sid tool args ctx t) =
     (if fresh_id i w then begin_request i now agent sid tool args ctx t w else w)"
| "approval_step w (EAwait i now streams) = await_decision i now streams w"
| "approval_step w (EResolve now streams i approved who modified) =
     snd (resolve_approval now streams i approved who modified w)"
| "approval_step w (EWake k) = wake k w"
| "approval_step w (EPrune now) = prune_stale now w"
| "approval_step w (ECancel now ok i) = cancel_request now ok i w"
| "approval_step w (EReceive now ok i) = receive now ok i w"
| "approval_step w (EExpire now clock streams ok i) = expire now clock streams ok i w"
| "approval_step w (EHonour streams ok i) = honour streams ok i w"
| "approval_step w (EDeleteSession sid) = delete_session_approvals sid w"

definition no_approvals :: approval_world where
  "no_approvals = \<lparr>aw_rows = [], aw_waiters = Map.empty, aw_slots = (\<lambda>_. SEmpty), aw_requests = Map.empty,
                   aw_wakes = [], aw_resolutions = [], aw_sse = []\<rparr>"

definition approval_run :: "approval_event list \<Rightarrow> approval_world" where
  "approval_run es = foldl approval_step no_approvals es"

section \<open>Decisions at the table\<close>

lemma get_approval_Some: "get_approval i rows = Some r \<Longrightarrow> r \<in> set rows \<and> pa_id r = i"
  by (auto simp: get_approval_def find_Some_iff)

lemma get_approval_None: "get_approval i rows = None \<longleftrightarrow> i \<notin> pa_id ` set rows"
  by (auto simp: get_approval_def find_None_iff)

lemma get_approval_distinct:
  "\<lbrakk>distinct (map pa_id rows); r \<in> set rows\<rbrakk> \<Longrightarrow> get_approval (pa_id r) rows = Some r"
  by (induction rows) (auto simp: get_approval_def)

text \<open>Competing decisions are serialised by the row lock, so they are a sequence.\<close>

fun resolve_all ::
  "uuid \<Rightarrow> (timestamp \<times> string \<times> string) list \<Rightarrow> PendingApproval list \<Rightarrow> (ApprovalError + unit) list" where
  "resolve_all i [] rows = []"
| "resolve_all i ((now, st, who) # as) rows =
     (let (r, rows') = resolve_approval_strict now i st who rows in r # resolve_all i as rows')"

lemma get_after_resolve:
  assumes "get_approval i rows = Some r" "pa_status r = ''pending''"
  shows "get_approval i (snd (resolve_approval_strict now i st who rows))
           = Some (r\<lparr>pa_status := st, pa_resolved_at := Some now, pa_resolved_by := Some who\<rparr>)"
proof -
  let ?u = "\<lambda>r. if pa_id r = i then r\<lparr>pa_status := st, pa_resolved_at := Some now, pa_resolved_by := Some who\<rparr> else r"
  have "find (\<lambda>r. pa_id r = i) (map ?u rows) = map_option ?u (find (\<lambda>r. pa_id r = i) rows)"
    by (induction rows) auto
  moreover have "pa_id r = i" using get_approval_Some assms(1) by blast
  ultimately show ?thesis using assms by (simp add: resolve_approval_strict_def get_approval_def)
qed

lemma resolve_all_decided:
  assumes "get_approval i rows = Some r" "pa_status r \<noteq> ''pending''"
  shows "resolve_all i as rows = replicate (length as) (Inl (ApAlreadyResolved i (pa_status r)))"
  using assms
  by (induction i as rows rule: resolve_all.induct) (auto simp: resolve_approval_strict_def)

text \<open>C13. Exactly one of any number of competing decisions on a pending request wins, the first
  to take the row lock; all others are told the status it set.  The table then holds the winner's
  status and name.\<close>

theorem one_decision_wins:
  assumes "get_approval i rows = Some r" "pa_status r = ''pending''" "st \<noteq> ''pending''"
  shows "resolve_all i ((now, st, who) # as) rows
           = Inr () # replicate (length as) (Inl (ApAlreadyResolved i st))
         \<and> get_approval i (snd (resolve_approval_strict now i st who rows))
           = Some (r\<lparr>pa_status := st, pa_resolved_at := Some now, pa_resolved_by := Some who\<rparr>)"
proof -
  let ?rows = "snd (resolve_approval_strict now i st who rows)"
  have g: "get_approval i ?rows = Some (r\<lparr>pa_status := st, pa_resolved_at := Some now, pa_resolved_by := Some who\<rparr>)"
    by (rule get_after_resolve [OF assms(1,2)])
  have "fst (resolve_approval_strict now i st who rows) = Inr ()"
    using assms(1,2) by (simp add: resolve_approval_strict_def)
  then show ?thesis
    using g resolve_all_decided [OF g, of as] assms(3) by (simp add: split_beta Let_def)
qed

definition sample_rows :: "PendingApproval list" where
  "sample_rows = create_approval 7 100 ''main'' None ''code_exec'' (JObj []) JNull []"

theorem one_decision_wins_witness:
  "resolve_all 7 [(101, ''approved'', ''ann''), (102, ''rejected'', ''bob''), (103, ''timeout'', ''system'')]
     sample_rows
   = [Inr (), Inl (ApAlreadyResolved 7 ''approved''), Inl (ApAlreadyResolved 7 ''approved'')]"
proof -
  have "get_approval 7 sample_rows = Some (hd sample_rows)" "pa_status (hd sample_rows) = ''pending''"
    "''approved'' \<noteq> ''pending''"
    by (simp_all add: sample_rows_def create_approval_def get_approval_def)
  from one_decision_wins [OF this, of 101 "''ann''" "[(102, ''rejected'', ''bob''), (103, ''timeout'', ''system'')]"]
  show ?thesis by simp
qed

section \<open>The invariant\<close>

text \<open>Table and history agree: no id is decided twice, a pending row is not decided, a decided
  one carries the status it was decided with.\<close>

definition table_ok :: "PendingApproval list \<Rightarrow> (uuid \<times> string \<times> json option) list \<Rightarrow> bool" where
  "table_ok rows res \<longleftrightarrow>
     distinct (map fst res) \<and> distinct (map pa_id rows)
     \<and> (\<forall>r \<in> set rows. pa_status r = ''pending'' \<longrightarrow> pa_id r \<notin> fst ` set res)
     \<and> (\<forall>r \<in> set rows. pa_status r \<noteq> ''pending'' \<longrightarrow> (\<exists>m. (pa_id r, pa_status r, m) \<in> set res))"

text \<open>A result stands for a decision.\<close>

fun agrees :: "ApprovalResult \<Rightarrow> string \<Rightarrow> json option \<Rightarrow> bool" where
  "agrees RApproved st m \<longleftrightarrow> st = ''approved'' \<and> m = None"
| "agrees (RApprovedWithModifiedArgs a) st m \<longleftrightarrow> st = ''approved'' \<and> m = Some a"
| "agrees (RRejected _) st m \<longleftrightarrow> st = ''rejected''"

definition backed :: "(uuid \<times> string \<times> json option) list \<Rightarrow> uuid \<Rightarrow> ApprovalResult \<Rightarrow> bool" where
  "backed res i r \<longleftrightarrow> (\<exists>st m. (i, st, m) \<in> set res \<and> agrees r st m)"

fun outcome_backed :: "(uuid \<times> string \<times> json option) list \<Rightarrow> uuid \<Rightarrow> ApprovalOutcome \<Rightarrow> bool" where
  "outcome_backed res i OApproved \<longleftrightarrow> (\<exists>m. (i, ''approved'', m) \<in> set res)"
| "outcome_backed res i (OApprovedWithModifiedArgs a) \<longleftrightarrow> (i, ''approved'', Some a) \<in> set res"
| "outcome_backed res i (ORejected _) \<longleftrightarrow> (\<exists>m. (i, ''rejected'', m) \<in> set res)"
| "outcome_backed res i _ \<longleftrightarrow> True"

fun phase_ok :: "(uuid \<times> string \<times> json option) list \<Rightarrow> uuid \<Rightarrow> phase \<Rightarrow> bool" where
  "phase_ok res i (PReturned out) = outcome_backed res i out"
| "phase_ok res i _ = True"

definition approvals_ok :: "approval_world \<Rightarrow> bool" where
  "approvals_ok w \<longleftrightarrow>
     table_ok (aw_rows w) (aw_resolutions w)
     \<and> (\<forall>(i, r) \<in> set (aw_wakes w). backed (aw_resolutions w) i r)
     \<and> (\<forall>i r. aw_slots w i = SSent r \<longrightarrow> backed (aw_resolutions w) i r)
     \<and> (\<forall>i q. aw_requests w i = Some q \<longrightarrow> phase_ok (aw_resolutions w) i (rq_phase q))"

lemma backed_more [intro]: "backed res i r \<Longrightarrow> backed (res @ xs) i r"
  by (auto simp: backed_def)

lemma outcome_backed_more: "outcome_backed res i out \<Longrightarrow> outcome_backed (res @ xs) i out"
  by (cases out) auto

lemma phase_ok_more [intro]: "phase_ok res i ph \<Longrightarrow> phase_ok (res @ xs) i ph"
  by (cases ph) (auto intro: outcome_backed_more)

lemma backed_outcome: "backed res i r \<Longrightarrow> outcome_backed res i (outcome_of tool r)"
  by (cases r) (auto simp: backed_def)

lemma table_ok_pending:
  assumes "table_ok rows res" "get_approval i rows = Some r" "pa_status r = ''pending''"
  shows "i \<notin> fst ` set res"
  using assms get_approval_Some [OF assms(2)] unfolding table_ok_def by blast

lemma table_ok_resolve:
  assumes ok: "table_ok rows res" and st: "st \<noteq> ''pending''"
    and r: "resolve_approval_strict now i st who rows = (Inr (), rows')"
  shows "table_ok rows' (res @ [(i, st, m)])"
proof -
  obtain r0 where g: "get_approval i rows = Some r0" "pa_status r0 = ''pending''"
    using r by (auto simp: resolve_approval_strict_def split: option.splits if_splits)
  have new: "i \<notin> fst ` set res" by (rule table_ok_pending [OF ok g])
  let ?u = "\<lambda>r. if pa_id r = i then r\<lparr>pa_status := st, pa_resolved_at := Some now, pa_resolved_by := Some who\<rparr> else r"
  have rows': "rows' = map ?u rows" using r g by (simp add: resolve_approval_strict_def)
  have ids: "map pa_id rows' = map pa_id rows" unfolding rows' by (simp add: comp_def)
  have other: "r \<in> set rows \<and> pa_id r \<noteq> i" if "r \<in> set rows'" "\<not> (pa_id r = i \<and> pa_status r = st)" for r
    using that unfolding rows' by (auto split: if_splits)
  have "pa_id r \<notin> fst ` set (res @ [(i, st, m)])" if "r \<in> set rows'" "pa_status r = ''pending''" for r
    using ok that other [of r] st unfolding table_ok_def by simp
  moreover have "\<exists>m'. (pa_id r, pa_status r, m') \<in> set (res @ [(i, st, m)])"
    if "r \<in> set rows'" "pa_status r \<noteq> ''pending''" for r
    using ok that other [of r] unfolding table_ok_def by (cases "pa_id r = i \<and> pa_status r = st") auto
  ultimately show ?thesis
    using ok new unfolding table_ok_def ids by simp
qed

lemma decide_cases:
  obtains (refused) e where "decide now i st who m w = (Inl e, w)"
  | (made) rows where "resolve_approval_strict now i st who (aw_rows w) = (Inr (), rows)"
      "decide now i st who m w
         = (Inr (), w\<lparr>aw_rows := rows, aw_resolutions := aw_resolutions w @ [(i, st, m)]\<rparr>)"
  by (cases "resolve_approval_strict now i st who (aw_rows w)"; cases "fst (resolve_approval_strict now i st who (aw_rows w))")
     (auto simp: decide_def)

lemma decide_ok:
  assumes "approvals_ok w" "st \<noteq> ''pending''"
  shows "approvals_ok (snd (decide now i st who m w))"
proof (cases rule: decide_cases [where now = now and i = i and st = st and who = who and m = m and w = w])
  case (made rows)
  then show ?thesis
    using assms(1) table_ok_resolve [OF _ assms(2) made(1)]
    by (fastforce simp: approvals_ok_def)
qed (use assms in simp)

lemma decide_frame [simp]:
  "aw_waiters (snd (decide now i st who m w)) = aw_waiters w"
  "aw_slots (snd (decide now i st who m w)) = aw_slots w"
  "aw_requests (snd (decide now i st who m w)) = aw_requests w"
  "aw_wakes (snd (decide now i st who m w)) = aw_wakes w"
  "aw_sse (snd (decide now i st who m w)) = aw_sse w"
  by (cases rule: decide_cases [where now = now and i = i and st = st and who = who and m = m and w = w]; simp)+

lemma decide_backs:
  "decide now i st who m w = (Inr (), w') \<Longrightarrow> (i, st, m) \<in> set (aw_resolutions w')"
  by (cases rule: decide_cases [where now = now and i = i and st = st and who = who and m = m and w = w]) auto

lemma approvals_ok_waiters [simp]: "approvals_ok (w\<lparr>aw_waiters := f\<rparr>) = approvals_ok w"
  by (simp add: approvals_ok_def)

lemma approvals_ok_sse [simp]: "approvals_ok (w\<lparr>aw_sse := l\<rparr>) = approvals_ok w"
  by (simp add: approvals_ok_def)

lemma drop_waiter_ok [simp]: "approvals_ok (drop_waiter i w) = approvals_ok w"
  by (simp add: drop_waiter_def)

lemma set_phase_ok:
  "\<lbrakk>approvals_ok w; phase_ok (aw_resolutions w) i ph\<rbrakk> \<Longrightarrow> approvals_ok (set_phase i ph w)"
  by (auto simp: approvals_ok_def set_phase_def split: option.splits)

lemma slot_ok:
  "\<lbrakk>approvals_ok w; \<And>r. s = SSent r \<Longrightarrow> backed (aw_resolutions w) i r\<rbrakk>
     \<Longrightarrow> approvals_ok (w\<lparr>aw_slots := (aw_slots w)(i := s)\<rparr>)"
  by (auto simp: approvals_ok_def)

lemma begin_ok:
  assumes "approvals_ok w" "fresh_id i w"
  shows "approvals_ok (begin_request i now agent sid tool args ctx t w)"
  using assms
  by (auto simp: approvals_ok_def begin_request_def create_approval_def table_ok_def fresh_id_def)

lemma await_ok: "approvals_ok w \<Longrightarrow> approvals_ok (await_decision i now streams w)"
  by (auto simp: await_decision_def approvals_ok_def set_phase_def split: option.splits)

lemma resolve_ok:
  assumes "approvals_ok w"
  shows "approvals_ok (snd (resolve_approval now streams i approved who modified w))"
proof -
  let ?st = "if approved then ''approved'' else ''rejected''"
  obtain res w' where d: "decide now i ?st who modified w = (res, w')" by fastforce
  have ok: "approvals_ok w'" using decide_ok [OF assms, of ?st now i who modified] d by simp
  show ?thesis
  proof (cases res)
    case (Inr u)
    then have "(i, ?st, modified) \<in> set (aw_resolutions w')" using decide_backs d by simp
    then have "backed (aw_resolutions w') i (result_of approved who modified)"
      by (auto simp: backed_def result_of_def split: option.splits)
    then show ?thesis using ok d Inr by (auto simp: resolve_approval_def approvals_ok_def)
  qed (use ok d in \<open>simp add: resolve_approval_def\<close>)
qed

lemma wake_ok:
  assumes "approvals_ok w"
  shows "approvals_ok (wake k w)"
proof (cases "k < length (aw_wakes w)")
  case True
  obtain i r where ir: "aw_wakes w ! k = (i, r)" by fastforce
  let ?w1 = "w\<lparr>aw_wakes := take k (aw_wakes w) @ drop (Suc k) (aw_wakes w)\<rparr>"
  have "backed (aw_resolutions w) i r" using assms nth_mem [OF True] ir by (auto simp: approvals_ok_def)
  moreover have w1: "approvals_ok ?w1"
    using assms by (auto simp: approvals_ok_def dest: in_set_takeD in_set_dropD)
  ultimately show ?thesis
    using True ir slot_ok [of "drop_waiter i ?w1" "SSent r" i]
    by (simp add: wake_def drop_waiter_def Let_def split: option.split)
qed (use assms in \<open>simp add: wake_def\<close>)

lemma prune_ok: "approvals_ok w \<Longrightarrow> approvals_ok (prune_stale now w)"
  by (auto simp: approvals_ok_def prune_stale_def split: option.splits if_splits)

lemma give_up_ok: "approvals_ok w \<Longrightarrow> approvals_ok (give_up now ok i w)"
  by (auto simp: give_up_def Let_def intro!: set_phase_ok decide_ok)

lemma timed_out_ok: "approvals_ok w \<Longrightarrow> approvals_ok (timed_out streams i q w)"
  by (simp add: timed_out_def set_phase_ok)

lemma receive_ok:
  assumes "approvals_ok w"
  shows "approvals_ok (receive now ok i w)"
proof -
  have "backed (aw_resolutions w) i r" if "aw_slots w i = SSent r" for r
    using assms that by (auto simp: approvals_ok_def)
  then show ?thesis
    using assms
    by (auto simp: receive_def give_up_ok intro!: set_phase_ok backed_outcome
             split: option.splits phase.splits slot.splits)
qed

lemma expire_ok:
  assumes "approvals_ok w"
  shows "approvals_ok (expire now clock streams ok i w)"
proof -
  have "approvals_ok (snd (decide now i ''timeout'' ''system'' None w))"
    by (rule decide_ok [OF assms]) simp
  then show ?thesis
    using assms
    by (auto simp: expire_def Let_def timed_out_ok split_beta intro!: set_phase_ok
             split: option.splits phase.splits sum.splits prod.splits)
qed

lemma honour_ok:
  assumes "approvals_ok w"
  shows "approvals_ok (honour streams ok i w)"
proof -
  have "\<exists>m. (i, ''approved'', m) \<in> set (aw_resolutions w)"
    if "get_approval i (aw_rows w) = Some r" "pa_status r = ''approved''" for r
  proof -
    have "r \<in> set (aw_rows w)" "pa_id r = i" using get_approval_Some [OF that(1)] by auto
    moreover have "pa_status r \<noteq> ''pending''" using that(2) by simp
    ultimately have "\<exists>m. (pa_id r, pa_status r, m) \<in> set (aw_resolutions w)"
      using assms unfolding approvals_ok_def table_ok_def by blast
    then show ?thesis using that(2) \<open>pa_id r = i\<close> by simp
  qed
  then show ?thesis
    using assms by (auto simp: honour_def timed_out_ok intro!: set_phase_ok split: option.splits)
qed

lemma delete_ok: "approvals_ok w \<Longrightarrow> approvals_ok (delete_session_approvals sid w)"
  by (auto simp: approvals_ok_def delete_session_approvals_def table_ok_def distinct_map_filter)

lemma approval_step_ok: "approvals_ok w \<Longrightarrow> approvals_ok (approval_step w e)"
  by (cases e) (auto simp: begin_ok await_ok resolve_ok wake_ok prune_ok receive_ok expire_ok honour_ok
                           delete_ok cancel_request_def give_up_ok split: option.splits phase.splits)

interpretation approvals: step_machine approval_step approvals_ok
  by unfold_locales (rule approval_step_ok)

lemma approval_run_ok: "approvals_ok (approval_run es)"
  unfolding approval_run_def
  by (rule approvals.run_inv) (simp add: approvals_ok_def no_approvals_def table_ok_def)

section \<open>Who decided\<close>

text \<open>The decision a step may put into the table.\<close>

fun decides :: "approval_event \<Rightarrow> uuid \<times> string \<times> json option \<Rightarrow> bool" where
  "decides (EResolve now streams i approved who m) d \<longleftrightarrow>
     d = (i, if approved then ''approved'' else ''rejected'', m)"
| "decides (ECancel now ok i) d \<longleftrightarrow> d = (i, ''cancelled'', None)"
| "decides (EReceive now ok i) d \<longleftrightarrow> d = (i, ''cancelled'', None)"
| "decides (EExpire now clock streams ok i) d \<longleftrightarrow> d = (i, ''timeout'', None)"
| "decides _ d \<longleftrightarrow> False"

lemma decide_resolutions:
  "d \<in> set (aw_resolutions (snd (decide now i st who m w))) \<Longrightarrow>
     d \<in> set (aw_resolutions w) \<or> d = (i, st, m)"
  by (cases rule: decide_cases [where now = now and i = i and st = st and who = who and m = m and w = w]) auto

lemma resolutions_frame [simp]:
  "aw_resolutions (set_phase i ph w) = aw_resolutions w"
  "aw_resolutions (drop_waiter i w) = aw_resolutions w"
  "aw_resolutions (timed_out streams i q w) = aw_resolutions w"
  "aw_resolutions (begin_request i now agent sid tool args ctx t w) = aw_resolutions w"
  "aw_resolutions (await_decision i clock streams w) = aw_resolutions w"
  "aw_resolutions (wake k w) = aw_resolutions w"
  "aw_resolutions (prune_stale clock w) = aw_resolutions w"
  "aw_resolutions (honour streams ok i w) = aw_resolutions w"
  "aw_resolutions (delete_session_approvals sess w) = aw_resolutions w"
  by (auto simp: set_phase_def drop_waiter_def timed_out_def begin_request_def await_decision_def wake_def
        prune_stale_def honour_def delete_session_approvals_def Let_def split: option.split prod.split)

lemma give_up_resolutions:
  "d \<in> set (aw_resolutions (give_up now ok i w)) \<Longrightarrow>
     d \<in> set (aw_resolutions w) \<or> d = (i, ''cancelled'', None)"
  by (auto simp: give_up_def Let_def split: if_splits dest: decide_resolutions)

lemma expire_resolutions:
  assumes "d \<in> set (aw_resolutions (expire now clock streams ok i w))"
  shows "d \<in> set (aw_resolutions w) \<or> d = (i, ''timeout'', None)"
proof -
  have "aw_resolutions (expire now clock streams ok i w)
          \<in> {aw_resolutions w, aw_resolutions (snd (decide now i ''timeout'' ''system'' None w))}"
    by (auto simp: expire_def Let_def split_beta split: option.splits phase.splits sum.splits prod.splits)
  then show ?thesis using assms decide_resolutions [of d now i "''timeout''" "''system''" None w] by auto
qed

lemma resolve_resolutions:
  assumes "d \<in> set (aw_resolutions (snd (resolve_approval now streams i approved who m w)))"
  shows "d \<in> set (aw_resolutions w) \<or> d = (i, if approved then ''approved'' else ''rejected'', m)"
proof -
  let ?st = "if approved then ''approved'' else ''rejected''"
  have "aw_resolutions (snd (resolve_approval now streams i approved who m w))
          = aw_resolutions (snd (decide now i ?st who m w))"
    by (auto simp: resolve_approval_def split: sum.splits prod.splits)
  then show ?thesis using assms decide_resolutions by simp
qed

lemma step_resolutions:
  "d \<in> set (aw_resolutions (approval_step w e)) \<Longrightarrow> d \<in> set (aw_resolutions w) \<or> decides e d"
proof (cases e)
  case (EReceive now ok i)
  assume "d \<in> set (aw_resolutions (approval_step w e))"
  then show ?thesis using EReceive
    by (auto simp: receive_def split: option.splits phase.splits slot.splits dest: give_up_resolutions)
qed (auto simp: cancel_request_def split: option.splits phase.splits if_splits
          dest: give_up_resolutions expire_resolutions resolve_resolutions)

definition decided_by :: "approval_event list \<Rightarrow> approval_world \<Rightarrow> bool" where
  "decided_by es w \<longleftrightarrow> (\<forall>d \<in> set (aw_resolutions w). \<exists>e \<in> set es. decides e d)"

interpretation decisions: history_machine approval_step "\<lambda>e. [e]" decided_by
  by unfold_locales (auto simp: decided_by_def dest!: step_resolutions)

lemma run_decided_by: "decided_by es (approval_run es)"
  using decisions.run_tracks [of "[]" no_approvals es]
  by (simp add: approval_run_def decided_by_def no_approvals_def)

lemma decides_approved:
  "decides e (i, ''approved'', m) \<Longrightarrow> \<exists>now streams who. e = EResolve now streams i True who m"
  by (cases e) (auto split: if_splits)

lemma returned_approved:
  assumes "aw_requests (approval_run es) i = Some q" "rq_phase q = PReturned out"
    and "out \<in> {OApproved, OApprovedWithModifiedArgs a}"
  shows "(\<exists>now streams who m. EResolve now streams i True who m \<in> set es
            \<and> (i, ''approved'', m) \<in> set (aw_resolutions (approval_run es))
            \<and> (out = OApprovedWithModifiedArgs a \<longrightarrow> m = Some a))
         \<and> distinct (map fst (aw_resolutions (approval_run es)))"
proof -
  let ?w = "approval_run es"
  have ok: "approvals_ok ?w" by (rule approval_run_ok)
  then have "outcome_backed (aw_resolutions ?w) i out"
    using assms(1,2) by (fastforce simp: approvals_ok_def)
  then obtain m where m: "(i, ''approved'', m) \<in> set (aw_resolutions ?w)"
    "out = OApprovedWithModifiedArgs a \<longrightarrow> m = Some a"
    using assms(3) by auto
  obtain e where e: "e \<in> set es" "decides e (i, ''approved'', m)"
    using run_decided_by [of es] m(1) by (auto simp: decided_by_def)
  obtain now streams who where "e = EResolve now streams i True who m"
    using decides_approved [OF e(2)] by blast
  then have "\<exists>now streams who m. EResolve now streams i True who m \<in> set es
            \<and> (i, ''approved'', m) \<in> set (aw_resolutions ?w)
            \<and> (out = OApprovedWithModifiedArgs a \<longrightarrow> m = Some a)"
    using e(1) m by blast
  then show ?thesis using ok by (simp add: approvals_ok_def table_ok_def)
qed


definition approved_events :: "approval_event list" where
  "approved_events =
     [EBegin 1 0 ''main'' (Some 9) ''code_exec'' (JObj []) JNull 300, EAwait 1 5 [9],
      EResolve 20 [9] 1 True ''ann'' (Some (JObj [(''code'', JStr ''1'')])), EResolve 21 [9] 1 False ''bob'' None,
      EWake 0, EReceive 22 True 1]"

lemma approved_events_run:
  "map_option rq_phase (aw_requests (approval_run approved_events) 1)
     = Some (PReturned (OApprovedWithModifiedArgs (JObj [(''code'', JStr ''1'')])))"
  by code_simp


section \<open>Every wait ends\<close>

text \<open>C33. A wait is never stuck: once the deadline has passed, a result, a lost sender or the timer
  ends it, whether or not the database can be reached.  And an approval that is in the table by
  then is honoured even when it was never delivered to the waiter.\<close>

theorem approval_wait_ends:
  assumes "aw_requests w i = Some q" "rq_phase q = PWaiting since" "since + rq_timeout q \<le> clock"
    and w'_def: "w' = honour streams ok i (expire now clock streams ok i (receive now ok i w))"
  shows "(\<exists>out. map_option rq_phase (aw_requests w' i) = Some (PReturned out))
         \<and> (\<forall>r. ok \<and> aw_slots w i = SEmpty \<and> get_approval i (aw_rows w) = Some r \<and> pa_status r = ''approved''
             \<longrightarrow> map_option rq_phase (aw_requests w' i) = Some (PReturned OApproved))"
proof (cases "aw_slots w i")
  case (SSent r)
  then show ?thesis using assms(1,2) unfolding w'_def
    by (simp add: receive_def set_phase_def expire_def honour_def)
next
  case SDropped
  then show ?thesis using assms(1,2) unfolding w'_def
    by (simp add: receive_def give_up_def set_phase_def expire_def honour_def drop_waiter_def Let_def)
next
  case SEmpty
  then have recv: "receive now ok i w = w" using assms(1,2) by (simp add: receive_def)
  have raced: "expire now clock streams ok i w = set_phase i PRaced (drop_waiter i w)
        \<or> (\<exists>rows res. expire now clock streams ok i w
             = timed_out streams i q (drop_waiter i (w\<lparr>aw_rows := rows, aw_resolutions := res\<rparr>)) \<and>
             (\<forall>r. get_approval i (aw_rows w) = Some r \<longrightarrow> pa_status r = ''pending''))"
    using assms(1-3) SEmpty
    by (cases rule: decide_cases [where now = now and i = i and st = "''timeout''" and who = "''system''"
                                    and m = None and w = w])
       (auto simp: expire_def Let_def resolve_approval_strict_def split: option.splits if_splits)
  then show ?thesis
  proof
    assume "expire now clock streams ok i w = set_phase i PRaced (drop_waiter i w)"
    then show ?thesis using assms(1) unfolding w'_def recv
      by (auto simp: set_phase_def honour_def drop_waiter_def timed_out_def split: option.split)
  next
    assume "\<exists>rows res. expire now clock streams ok i w
             = timed_out streams i q (drop_waiter i (w\<lparr>aw_rows := rows, aw_resolutions := res\<rparr>)) \<and>
             (\<forall>r. get_approval i (aw_rows w) = Some r \<longrightarrow> pa_status r = ''pending'')"
    then show ?thesis using assms(1) unfolding w'_def recv
      by (auto simp: set_phase_def honour_def drop_waiter_def timed_out_def)
  qed
qed

definition waiting_world :: approval_world where
  "waiting_world = approval_run
     [EBegin 1 0 ''main'' (Some 9) ''code_exec'' (JObj []) JNull 300, EResolve 2 [9] 1 True ''ann'' None,
      EWake 0, EAwait 1 5 [9]]"

theorem approval_wait_ends_witness:
  "map_option rq_phase (aw_requests
       (honour [9] True 1 (expire 400 305 [9] True 1 (receive 400 True 1 waiting_world))) 1)
     = Some (PReturned OApproved)"
proof -
  have "map_option rq_phase (aw_requests waiting_world 1) = Some (PWaiting 5)"
    "map_option rq_timeout (aw_requests waiting_world 1) = Some 300"
    "aw_slots waiting_world 1 = SEmpty"
    "map_option pa_status (get_approval 1 (aw_rows waiting_world)) = Some ''approved''"
    by code_simp+
  then obtain q r where "aw_requests waiting_world 1 = Some q" "rq_phase q = PWaiting 5" "5 + rq_timeout q \<le> 305"
    and r: "aw_slots waiting_world 1 = SEmpty" "get_approval 1 (aw_rows waiting_world) = Some r"
    "pa_status r = ''approved''"
    by auto
  from approval_wait_ends [OF this(1-3) refl, of "[9]" True 400] r show ?thesis by blast
qed

section \<open>Three weak spots\<close>

text \<open>The waiter is entered only after the channel has been notified, which may take five seconds.
  A decision taken in that time finds no waiter: the call learns of it only when its own timeout
  expires.\<close>

lemma fast_decision_not_delivered:
  "aw_waiters waiting_world 1 \<noteq> None \<and> aw_wakes waiting_world = []
   \<and> map_option rq_phase (aw_requests (receive 6 True 1 waiting_world) 1) = Some (PWaiting 5)"
  by code_simp

text \<open>When such a decision carried changed arguments they are lost: the late reader sees only the
  status of the row and lets the call run with its original arguments.\<close>

lemma late_approval_drops_modified_args:
  "let w = approval_run
        [EBegin 1 0 ''main'' None ''code_exec'' (JObj []) JNull 300,
         EResolve 2 [] 1 True ''ann'' (Some (JObj [(''code'', JStr ''1'')])), EWake 0, EAwait 1 5 [],
         EExpire 400 305 [] True 1, EHonour [] True 1]
   in map_option rq_phase (aw_requests w 1) = Some (PReturned OApproved)
      \<and> aw_resolutions w = [(1, ''approved'', Some (JObj [(''code'', JStr ''1'')]))]"
  by code_simp

text \<open>Every incoming message prunes waiters older than ten minutes, also those whose configured
  timeout is longer: the request is cancelled while the person still had time to answer.\<close>

lemma prune_cuts_long_timeouts:
  "let w = approval_run
        [EBegin 1 0 ''main'' None ''code_exec'' (JObj []) JNull 1200, EAwait 1 0 [], EPrune 601, EReceive 601 True 1]
   in map_option rq_phase (aw_requests w 1) = Some (PReturned OCancelled)
      \<and> map pa_status (aw_rows w) = [''cancelled'']"
  by code_simp

section \<open>The allowlist and the endpoint\<close>

text \<open>A glob of the allowlist admits what it says, as long as it has no backslash.\<close>

lemma like_percent: "sql_like p t \<Longrightarrow> sql_like (CHR ''%'' # p) t"
  by (cases t) auto

lemma like_pattern_Cons [simp]:
  "like_pattern [] = []"
  "like_pattern (c # p) = (if c = CHR ''*'' then CHR ''%'' else c) # like_pattern p"
  by (simp_all add: like_pattern_def)

lemma allowlist_admits_glob:
  assumes "CHR 0x5C \<notin> set p" "glob p n"
  shows "sql_like (like_pattern p) n"
  using assms
proof (induction p n rule: glob.induct)
  case (3 c p d n)
  then have bs: "c \<noteq> CHR 0x5C" "CHR 0x5C \<notin> set p" by auto
  consider "c = CHR ''*''" "glob p (d # n)" | "c = CHR ''*''" "glob (c # p) n"
    | "c \<noteq> CHR ''*''" "c = d" "glob p n"
    using "3.prems"(2) by (metis glob.simps(3))
  then show ?case
  proof cases
    case 1
    then show ?thesis using "3.IH"(1) bs by simp
  next
    case 2
    then show ?thesis using "3.IH"(2) bs by simp
  next
    case c: 3
    then have "sql_like (like_pattern p) n" using "3.IH"(3) bs by simp
    then show ?thesis using c(1,2) bs(1) like_percent by simp
  qed
qed simp_all

text \<open>It admits more: an underscore, which nearly every tool name has, stands for any character, so
  an entry admits tools whose name differs from it.\<close>

lemma allowlist_underscore_is_wildcard:
  "check_allowlist ''main'' ''web-fetch'' (add_to_allowlist 1 0 ''main'' ''web_fetch'' [])
   \<and> \<not> glob ''web_fetch'' ''web-fetch''"
  by code_simp

text \<open>The error text of \<open>resolve_approval\<close>; \<open>show_id\<close> prints a UUID.\<close>

fun approval_error_text :: "(uuid \<Rightarrow> string) \<Rightarrow> ApprovalError \<Rightarrow> string" where
  "approval_error_text show_id (ApNotFound i) = ''approval '' @ show_id i @ '' not found''"
| "approval_error_text show_id (ApAlreadyResolved i st) =
     ''approval '' @ show_id i @ '' already resolved (status='' @ st @ '')''"
| "approval_error_text show_id (ApDb e) = ''resolve_approval_strict DB error''"

text \<open>\<open>POST /api/approvals/{id}/resolve\<close>: the status code and the new state.\<close>

definition api_resolve_approval ::
  "(uuid \<Rightarrow> string) \<Rightarrow> timestamp \<Rightarrow> uuid list \<Rightarrow> string list \<Rightarrow> uuid \<Rightarrow> json \<Rightarrow> approval_world \<Rightarrow>
   nat \<times> approval_world" where
  "api_resolve_approval show_id now streams agents i body w =
     (let status = (case Option.bind (json_get body ''status'') as_str of Some s \<Rightarrow> s | None \<Rightarrow> []);
          resolved_by = (case Option.bind (json_get body ''resolved_by'') as_str of Some s \<Rightarrow> s | None \<Rightarrow> ''api'');
          modified_input = (case json_get body ''modified_input'' of
                              Some v \<Rightarrow> if v = JNull then None else Some v | None \<Rightarrow> None)
      in if status \<noteq> ''approved'' \<and> status \<noteq> ''rejected'' then (400, w)
         else case get_approval i (aw_rows w) of
                None \<Rightarrow> (404, w)
              | Some a \<Rightarrow>
                  if pa_agent_id a \<in> set agents
                  then (case resolve_approval now streams i (status = ''approved'') resolved_by modified_input w of
                          (Inr _, w') \<Rightarrow> (200, w')
                        | (Inl e, w') \<Rightarrow>
                            (let msg = approval_error_text show_id e
                             in if contains_str ''already resolved'' msg then (409, w')
                                else if contains_str ''not found'' msg then (404, w')
                                else (500, w')))
                  else (404, w))"

lemma contains_str_append: "contains_str p (a @ p @ b)"
proof (induction a)
  case Nil
  have "starts_with p (p @ b)" by (auto simp: starts_with_iff)
  then show ?case by (cases "p @ b") simp_all
qed simp



end
