(* ===== verification/Hooks.thy ===== *)
theory Hooks
  imports Cli_Runner Tool_Policy
begin

text \<open>
  The hooks around messages and tool calls (\<open>agent/hooks.rs\<close>): the synchronous handlers, the
  decision webhooks with their time budget and failure modes, and the provenance marker put on
  text that comes from a webhook.  The regular expressions of tool matchers, the HTTP client, the
  clock and the deserialisation of a response are arguments.  Fire-and-forget webhooks alter
  nothing and are left out.
\<close>

section \<open>Handlers\<close>

datatype HookEvent =
    BeforeMessage
  | AfterResponse
  | BeforeToolCall string string
  | AfterToolResult string string nat
  | OnError

datatype HookAction = HContinue | HBlock string

type_synonym hook_handler = "HookEvent \<Rightarrow> HookAction"

fun fire :: "(string \<times> hook_handler) list \<Rightarrow> HookEvent \<Rightarrow> HookAction" where
  "fire [] ev = HContinue"
| "fire ((nm, h) # hs) ev = (case h ev of HContinue \<Rightarrow> fire hs ev | act \<Rightarrow> act)"

definition logging_hook :: hook_handler where
  "logging_hook ev = HContinue"

fun block_tools_hook :: "string list \<Rightarrow> hook_handler" where
  "block_tools_hook blocked (BeforeToolCall agent tool) =
     (if tool \<in> set blocked then HBlock (''tool '' @ [CHR 0x27] @ tool @ [CHR 0x27] @ '' is blocked by policy'')
      else HContinue)"
| "block_tools_hook blocked _ = HContinue"

fun event_tool_name :: "HookEvent \<Rightarrow> string option" where
  "event_tool_name (BeforeToolCall agent tool) = Some tool"
| "event_tool_name (AfterToolResult agent tool ms) = Some tool"
| "event_tool_name _ = None"

fun event_name :: "HookEvent \<Rightarrow> string" where
  "event_name BeforeMessage = ''BeforeMessage''"
| "event_name AfterResponse = ''AfterResponse''"
| "event_name (BeforeToolCall _ _) = ''BeforeToolCall''"
| "event_name (AfterToolResult _ _ _) = ''AfterToolResult''"
| "event_name OnError = ''OnError''"

section \<open>Decision webhooks\<close>

datatype FailureMode = FOpen | FClosed
datatype WebhookMode = WAsync | WDecision

record WebhookConfig =
  wh_url :: string
  wh_events :: "string list"
  wh_mode :: WebhookMode
  wh_tool_matcher :: "string option"
  wh_on_failure :: FailureMode
  wh_timeout_ms :: nat
  wh_allow_internal :: bool

record CompiledWebhook =
  cw_cfg :: WebhookConfig
  cw_matcher :: "(string \<Rightarrow> bool) option"

record HookRegistry =
  hr_handlers :: "(string \<times> hook_handler) list"
  hr_http_client :: bool
  hr_http_client_internal :: bool
  hr_webhooks :: "CompiledWebhook list"
  hr_total_webhook_timeout_ms :: nat
  hr_on_chain_timeout :: FailureMode

definition new_registry :: HookRegistry where
  "new_registry = \<lparr>hr_handlers = [], hr_http_client = False, hr_http_client_internal = False,
                   hr_webhooks = [], hr_total_webhook_timeout_ms = 10000, hr_on_chain_timeout = FOpen\<rparr>"

definition register_hook :: "string \<Rightarrow> hook_handler \<Rightarrow> HookRegistry \<Rightarrow> HookRegistry" where
  "register_hook nm h r = r\<lparr>hr_handlers := hr_handlers r @ [(nm, h)]\<rparr>"

text \<open>\<open>compile\<close> is \<open>Regex::new\<close>, \<open>built\<close> whether the plain client could be built.\<close>

definition set_webhooks ::
  "(string \<Rightarrow> (string \<Rightarrow> bool) option) \<Rightarrow> bool \<Rightarrow> WebhookConfig list \<Rightarrow> HookRegistry \<Rightarrow> HookRegistry" where
  "set_webhooks compile built whs r =
     (let needs_internal = (\<exists>w \<in> set whs. wh_allow_internal w \<and> wh_mode w = WDecision)
      in r\<lparr>hr_http_client := True,
           hr_http_client_internal := (needs_internal \<and> built),
           hr_webhooks := map (\<lambda>cfg. \<lparr>cw_cfg = cfg,
                                      cw_matcher = Option.bind (wh_tool_matcher cfg) compile\<rparr>) whs\<rparr>)"

definition set_webhook_chain_budget :: "nat option \<Rightarrow> FailureMode \<Rightarrow> HookRegistry \<Rightarrow> HookRegistry" where
  "set_webhook_chain_budget budget on_chain r =
     r\<lparr>hr_total_webhook_timeout_ms := (case budget of Some t \<Rightarrow> t | None \<Rightarrow> 10000),
       hr_on_chain_timeout := on_chain\<rparr>"

definition webhook_chain_exceeded :: "nat \<Rightarrow> nat \<Rightarrow> bool" where
  "webhook_chain_exceeded elapsed_ms budget_ms \<longleftrightarrow> budget_ms \<noteq> 0 \<and> budget_ms \<le> elapsed_ms"

text \<open>The marker of text that comes from a webhook: \<open>[hook\<close>, a zero-width space, the colon.\<close>

definition hook_provenance :: "string \<Rightarrow> string \<Rightarrow> string" where
  "hook_provenance host body =
     ''[hook:'' @ host @ ''] '' @ replace_all ''[hook:'' (''[hook'' @ utf8 [226, 128, 139] @ '':'') body"

datatype HookDecision =
    DContinue
  | DBlock string
  | DModifyArgs json
  | DInjectContext string
  | DTransformResult string

record WebhookResponse =
  wr_decision :: "string option"
  wr_reason :: "string option"
  wr_inject_context :: "string option"
  wr_modified_args :: "json option"
  wr_transformed_result :: "string option"

fun is_object :: "json \<Rightarrow> bool" where
  "is_object (JObj ms) = True"
| "is_object _ = False"

text \<open>\<open>parse_decision\<close>, from the deserialised body (\<^const>\<open>None\<close> when it is not valid).\<close>

definition parse_decision :: "WebhookResponse option \<Rightarrow> HookEvent \<Rightarrow> HookDecision" where
  "parse_decision resp ev =
     (case resp of
        None \<Rightarrow> DContinue
      | Some r \<Rightarrow>
          if wr_decision r = Some ''block''
          then DBlock (case wr_reason r of Some s \<Rightarrow> s | None \<Rightarrow> ''blocked by hook'')
          else case (wr_modified_args r, ev) of
                 (Some a, BeforeToolCall _ _) \<Rightarrow>
                   if is_object a then DModifyArgs a else DContinue
               | _ \<Rightarrow>
                 (case (wr_transformed_result r, ev) of
                    (Some s, AfterToolResult _ _ _) \<Rightarrow> DTransformResult s
                  | _ \<Rightarrow> (case (wr_inject_context r, ev) of
                            (Some s, BeforeMessage) \<Rightarrow> DInjectContext s
                          | _ \<Rightarrow> DContinue)))"

text \<open>\<open>obj.insert(k, v)\<close> and \<open>v[k] = x\<close> on an object.\<close>

fun obj_insert :: "string \<Rightarrow> json \<Rightarrow> (string \<times> json) list \<Rightarrow> (string \<times> json) list" where
  "obj_insert k v [] = [(k, v)]"
| "obj_insert k v ((k', v') # ms) = (if k' = k then (k, v) # ms else (k', v') # obj_insert k v ms)"

fun json_set :: "string \<Rightarrow> json \<Rightarrow> json \<Rightarrow> json" where
  "json_set k v (JObj ms) = JObj (obj_insert k v ms)"
| "json_set k v j = j"

fun event_agent :: "HookEvent \<Rightarrow> string" where
  "event_agent (BeforeToolCall agent tool) = agent"
| "event_agent (AfterToolResult agent tool ms) = agent"
| "event_agent _ = []"

definition decision_request :: "HookEvent \<Rightarrow> json \<Rightarrow> json" where
  "decision_request ev cur_extra =
     (let base = [(''event'', JStr (event_name ev)), (''agent'', JStr (event_agent ev))]
                 @ (case event_tool_name ev of Some t \<Rightarrow> [(''tool_name'', JStr t)] | None \<Rightarrow> [])
      in JObj (case cur_extra of
                 JObj ex \<Rightarrow> foldl (\<lambda>obj (k, v). obj_insert k v obj) base ex
               | _ \<Rightarrow> base))"

text \<open>What the loop carries: the data shown to the next webhook, and what was decided so far.\<close>

record decision_acc =
  da_extra :: json
  da_modified :: "json option"
  da_transformed :: "string option"
  da_injected :: "string list"

definition decision_tail :: "decision_acc \<Rightarrow> HookDecision" where
  "decision_tail acc =
     (case da_modified acc of
        Some v \<Rightarrow> DModifyArgs v
      | None \<Rightarrow>
          (case da_transformed acc of
             Some s \<Rightarrow> DTransformResult s
           | None \<Rightarrow> if da_injected acc \<noteq> [] then DInjectContext (join [CHR 0x0A] (da_injected acc))
                     else DContinue))"

text \<open>Whether a compiled webhook is consulted for an event.\<close>

definition webhook_applies :: "HookRegistry \<Rightarrow> HookEvent \<Rightarrow> CompiledWebhook \<Rightarrow> bool" where
  "webhook_applies r ev cw \<longleftrightarrow>
     wh_mode (cw_cfg cw) = WDecision
     \<and> event_name ev \<in> set (wh_events (cw_cfg cw))
     \<and> (case cw_matcher cw of
          None \<Rightarrow> True
        | Some re \<Rightarrow> (case event_tool_name ev of Some t \<Rightarrow> re t | None \<Rightarrow> False))
     \<and> (if wh_allow_internal (cw_cfg cw) then hr_http_client_internal r else hr_http_client r)"

text \<open>\<open>elapsed\<close> is the time spent when the webhook with this index is reached, \<open>post\<close> the answer
  (status and body) within the webhook's timeout, capped at thirty seconds.\<close>

fun decision_loop ::
  "HookRegistry \<Rightarrow> HookEvent \<Rightarrow> (nat \<Rightarrow> nat) \<Rightarrow> (WebhookConfig \<Rightarrow> nat \<Rightarrow> json \<Rightarrow> (nat \<times> string) option) \<Rightarrow>
   (string \<Rightarrow> WebhookResponse option) \<Rightarrow> (string \<Rightarrow> string) \<Rightarrow> nat \<Rightarrow> CompiledWebhook list \<Rightarrow> decision_acc \<Rightarrow>
   HookDecision" where
  "decision_loop r ev elapsed post from_str url_host k [] acc = decision_tail acc"
| "decision_loop r ev elapsed post from_str url_host k (cw # cws) acc =
     (if \<not> webhook_applies r ev cw then decision_loop r ev elapsed post from_str url_host (Suc k) cws acc
      else if webhook_chain_exceeded (elapsed k) (hr_total_webhook_timeout_ms r)
      then (case hr_on_chain_timeout r of
              FOpen \<Rightarrow> decision_tail acc
            | FClosed \<Rightarrow> DBlock ''webhook chain budget exceeded'')
      else case post (cw_cfg cw) (min (wh_timeout_ms (cw_cfg cw)) 30000) (decision_request ev (da_extra acc)) of
             None \<Rightarrow>
               (case wh_on_failure (cw_cfg cw) of
                  FOpen \<Rightarrow> decision_loop r ev elapsed post from_str url_host (Suc k) cws acc
                | FClosed \<Rightarrow> DBlock ''hook unavailable'')
           | Some (status, body) \<Rightarrow>
               (case parse_decision (from_str body) ev of
                  DBlock reason \<Rightarrow> DBlock reason
                | DModifyArgs v \<Rightarrow>
                    decision_loop r ev elapsed post from_str url_host (Suc k) cws
                      (acc\<lparr>da_extra := json_set ''tool_input'' v (da_extra acc), da_modified := Some v\<rparr>)
                | DTransformResult s \<Rightarrow>
                    (let tagged = hook_provenance (url_host (wh_url (cw_cfg cw))) s
                     in decision_loop r ev elapsed post from_str url_host (Suc k) cws
                          (acc\<lparr>da_extra := json_set ''result'' (JStr tagged) (da_extra acc),
                               da_transformed := Some tagged\<rparr>))
                | DInjectContext s \<Rightarrow>
                    decision_loop r ev elapsed post from_str url_host (Suc k) cws
                      (acc\<lparr>da_injected := da_injected acc
                             @ [hook_provenance (url_host (wh_url (cw_cfg cw))) s]\<rparr>)
                | DContinue \<Rightarrow> decision_loop r ev elapsed post from_str url_host (Suc k) cws acc))"

definition fire_decision ::
  "HookRegistry \<Rightarrow> HookEvent \<Rightarrow> (nat \<Rightarrow> nat) \<Rightarrow> (WebhookConfig \<Rightarrow> nat \<Rightarrow> json \<Rightarrow> (nat \<times> string) option) \<Rightarrow>
   (string \<Rightarrow> WebhookResponse option) \<Rightarrow> (string \<Rightarrow> string) \<Rightarrow> json \<Rightarrow> HookDecision" where
  "fire_decision r ev elapsed post from_str url_host extra =
     decision_loop r ev elapsed post from_str url_host 0 (hr_webhooks r)
       \<lparr>da_extra = extra, da_modified = None, da_transformed = None, da_injected = []\<rparr>"

section \<open>Handlers decide by the first that objects\<close>

lemma fire_blocks_iff: "fire hs ev \<noteq> HContinue \<longleftrightarrow> (\<exists>nh \<in> set hs. snd nh ev \<noteq> HContinue)"
  by (induction hs ev rule: fire.induct) (auto split: HookAction.splits)

lemma block_tools_effective:
  assumes "(nm, block_tools_hook blocked) \<in> set hs" "tool \<in> set blocked"
  shows "\<exists>reason. fire hs (BeforeToolCall agent tool) = HBlock reason"
proof -
  have "fire hs (BeforeToolCall agent tool) \<noteq> HContinue"
    unfolding fire_blocks_iff using assms by force
  then show ?thesis by (cases "fire hs (BeforeToolCall agent tool)") auto
qed

section \<open>A veto always holds\<close>

text \<open>A webhook vetoes an event when whatever it is asked, it answers with a block, or fails and
  was configured to fail closed.\<close>

definition vetoes ::
  "HookEvent \<Rightarrow> (WebhookConfig \<Rightarrow> nat \<Rightarrow> json \<Rightarrow> (nat \<times> string) option) \<Rightarrow> (string \<Rightarrow> WebhookResponse option) \<Rightarrow>
   CompiledWebhook \<Rightarrow> bool" where
  "vetoes ev post from_str cw \<longleftrightarrow>
     (\<forall>t j. case post (cw_cfg cw) t j of
              None \<Rightarrow> wh_on_failure (cw_cfg cw) = FClosed
            | Some (status, body) \<Rightarrow> \<exists>reason. parse_decision (from_str body) ev = DBlock reason)"

lemma decision_loop_veto:
  assumes "cw \<in> set cws" "webhook_applies r ev cw" "vetoes ev post from_str cw"
    and "\<And>k. \<not> webhook_chain_exceeded (elapsed k) (hr_total_webhook_timeout_ms r) \<or> hr_on_chain_timeout r = FClosed"
  shows "\<exists>reason. decision_loop r ev elapsed post from_str url_host k cws acc = DBlock reason"
  using assms(1)
proof (induction cws arbitrary: k acc)
  case (Cons c cws)
  show ?case
  proof (cases "c = cw")
    case True
    have "case post (cw_cfg cw) (min (wh_timeout_ms (cw_cfg cw)) 30000) (decision_request ev (da_extra acc)) of
              None \<Rightarrow> wh_on_failure (cw_cfg cw) = FClosed
            | Some (status, body) \<Rightarrow> \<exists>reason. parse_decision (from_str body) ev = DBlock reason"
      using assms(3) unfolding vetoes_def by blast
    then show ?thesis
      using True assms(2) assms(4) [of k]
      by (auto split: option.splits prod.splits FailureMode.splits)
  next
    case False
    then have "cw \<in> set cws" using Cons.prems by simp
    then have IH: "\<exists>reason. decision_loop r ev elapsed post from_str url_host k' cws acc' = DBlock reason" for k' acc'
      by (rule Cons.IH)
    then show ?thesis
      using assms(4) [of k]
      by (auto simp: Let_def split: option.split prod.split FailureMode.split HookDecision.split)
  qed
qed simp

text \<open>A veto holds wherever the webhook stands in the list and whatever the others answer: if a
  webhook that applies to the event vetoes it, the decision is to block.  The one exception is the
  time budget of the chain, when that is configured to fail open.\<close>

theorem webhook_veto_blocks:
  assumes "cw \<in> set (hr_webhooks r)" "webhook_applies r ev cw" "vetoes ev post from_str cw"
    and "\<And>k. \<not> webhook_chain_exceeded (elapsed k) (hr_total_webhook_timeout_ms r) \<or> hr_on_chain_timeout r = FClosed"
  shows "\<exists>reason. fire_decision r ev elapsed post from_str url_host extra = DBlock reason"
  unfolding fire_decision_def by (rule decision_loop_veto [OF assms])

definition guard_hook :: WebhookConfig where
  "guard_hook = \<lparr>wh_url = ''http://guard/'', wh_events = [''BeforeToolCall''], wh_mode = WDecision,
                 wh_tool_matcher = None, wh_on_failure = FClosed, wh_timeout_ms = 3000, wh_allow_internal = False\<rparr>"

definition guarded_registry :: HookRegistry where
  "guarded_registry = set_webhooks (\<lambda>_. None) True [guard_hook\<lparr>wh_on_failure := FOpen\<rparr>, guard_hook] new_registry"

theorem webhook_veto_blocks_witness:
  "\<exists>reason. fire_decision guarded_registry (BeforeToolCall ''main'' ''code_exec'') (\<lambda>k. k) (\<lambda>c t j. None)
      (\<lambda>_. None) (\<lambda>u. u) (JObj []) = DBlock reason"
proof -
  have 1: "\<lparr>cw_cfg = guard_hook, cw_matcher = None\<rparr> \<in> set (hr_webhooks guarded_registry)"
    by (simp add: guarded_registry_def set_webhooks_def guard_hook_def)
  have 2: "webhook_applies guarded_registry (BeforeToolCall ''main'' ''code_exec'')
             \<lparr>cw_cfg = guard_hook, cw_matcher = None\<rparr>"
    by (simp add: webhook_applies_def guard_hook_def guarded_registry_def set_webhooks_def)
  have 3: "vetoes (BeforeToolCall ''main'' ''code_exec'') (\<lambda>c t j. None) (\<lambda>_. None)
             \<lparr>cw_cfg = guard_hook, cw_matcher = None\<rparr>"
    by (simp add: vetoes_def guard_hook_def)
  have 4: "\<not> webhook_chain_exceeded ((\<lambda>k. 0) k) (hr_total_webhook_timeout_ms guarded_registry)
            \<or> hr_on_chain_timeout guarded_registry = FClosed" for k
    by (auto simp: webhook_chain_exceeded_def)
  have "fire_decision guarded_registry (BeforeToolCall ''main'' ''code_exec'') (\<lambda>k. k) (\<lambda>c t j. None)
          (\<lambda>_. None) (\<lambda>u. u) (JObj [])
        = fire_decision guarded_registry (BeforeToolCall ''main'' ''code_exec'') (\<lambda>k. 0) (\<lambda>c t j. None)
          (\<lambda>_. None) (\<lambda>u. u) (JObj [])"
    by (simp add: fire_decision_def guarded_registry_def set_webhooks_def new_registry_def
                  webhook_chain_exceeded_def guard_hook_def)
  then show ?thesis using webhook_veto_blocks [OF 1 2 3 4] by simp
qed

text \<open>An answer is an answer whatever its HTTP status: a webhook that fails closed and replies with
  a server error whose body is not a decision lets the event pass.\<close>

lemma http_error_fails_open:
  "fire_decision guarded_registry (BeforeToolCall ''main'' ''code_exec'') (\<lambda>k. 0)
     (\<lambda>c t j. Some (500, ''Internal Server Error'')) (\<lambda>_. None) (\<lambda>u. u) (JObj []) = DContinue"
  by (simp add: fire_decision_def guarded_registry_def set_webhooks_def new_registry_def
                webhook_chain_exceeded_def guard_hook_def parse_decision_def decision_tail_def)

section \<open>Decisions fit the event\<close>

fun fits :: "HookEvent \<Rightarrow> HookDecision \<Rightarrow> bool" where
  "fits ev DContinue \<longleftrightarrow> True"
| "fits ev (DBlock _) \<longleftrightarrow> True"
| "fits ev (DModifyArgs a) \<longleftrightarrow> (\<exists>agent tool. ev = BeforeToolCall agent tool) \<and> is_object a"
| "fits ev (DTransformResult s) \<longleftrightarrow>
     (\<exists>agent tool ms. ev = AfterToolResult agent tool ms) \<and> (\<exists>host body. s = hook_provenance host body)"
| "fits ev (DInjectContext s) \<longleftrightarrow> ev = BeforeMessage \<and> s \<noteq> []"

lemma parse_decision_kind:
  "parse_decision resp ev = DModifyArgs a \<Longrightarrow> (\<exists>agent tool. ev = BeforeToolCall agent tool) \<and> is_object a"
  "parse_decision resp ev = DTransformResult s \<Longrightarrow> \<exists>agent tool ms. ev = AfterToolResult agent tool ms"
  "parse_decision resp ev = DInjectContext s \<Longrightarrow> ev = BeforeMessage"
  by (auto simp: parse_decision_def split: option.splits if_splits HookEvent.splits)

definition acc_fits :: "HookEvent \<Rightarrow> decision_acc \<Rightarrow> bool" where
  "acc_fits ev acc \<longleftrightarrow>
     (\<forall>a. da_modified acc = Some a \<longrightarrow> fits ev (DModifyArgs a))
     \<and> (\<forall>s. da_transformed acc = Some s \<longrightarrow> fits ev (DTransformResult s))
     \<and> (\<forall>s \<in> set (da_injected acc). ev = BeforeMessage \<and> s \<noteq> [])"

lemma join_nonempty: "ws \<noteq> [] \<Longrightarrow> \<forall>w \<in> set ws. w \<noteq> [] \<Longrightarrow> join sep ws \<noteq> []"
  by (induction sep ws rule: join.induct) auto

lemma decision_tail_fits: "acc_fits ev acc \<Longrightarrow> fits ev (decision_tail acc)"
  by (auto simp: decision_tail_def acc_fits_def join_nonempty neq_Nil_conv split: option.splits)

lemma acc_fits_modified:
  "acc_fits ev acc \<Longrightarrow> parse_decision resp ev = DModifyArgs v \<Longrightarrow>
     acc_fits ev (acc\<lparr>da_extra := x, da_modified := Some v\<rparr>)"
  by (auto simp: acc_fits_def dest: parse_decision_kind)

lemma acc_fits_transformed:
  "acc_fits ev acc \<Longrightarrow> parse_decision resp ev = DTransformResult s \<Longrightarrow>
     acc_fits ev (acc\<lparr>da_extra := x, da_transformed := Some (hook_provenance h b)\<rparr>)"
  by (auto simp: acc_fits_def dest: parse_decision_kind)

lemma acc_fits_injected:
  "acc_fits ev acc \<Longrightarrow> parse_decision resp ev = DInjectContext s \<Longrightarrow>
     acc_fits ev (acc\<lparr>da_injected := da_injected acc @ [hook_provenance h b]\<rparr>)"
  by (auto simp: acc_fits_def hook_provenance_def dest: parse_decision_kind)

lemmas acc_fits_steps = acc_fits_modified acc_fits_transformed acc_fits_injected

lemma decision_loop_fits:
  "acc_fits ev acc \<Longrightarrow> fits ev (decision_loop r ev elapsed post from_str url_host k cws acc)"
proof (induction cws arbitrary: k acc)
  case (Cons cw cws)
  have IH: "acc_fits ev a \<Longrightarrow> fits ev (decision_loop r ev elapsed post from_str url_host j cws a)" for j a
    by (rule Cons.IH)
  note tail = decision_tail_fits [OF Cons.prems] and steps = acc_fits_steps [OF Cons.prems]
  show ?case
    by (simp add: Let_def tail IH Cons.prems steps
          split: option.split prod.split FailureMode.split HookDecision.split)
qed (simp add: decision_tail_fits)

text \<open>A decision always fits its event: only a tool call can have its arguments replaced, and
  only by an object; only a tool result can be rewritten, and then it carries the provenance
  marker of a webhook; context is injected only before a message.  So no webhook can slip
  unmarked text into the conversation through a tool result.\<close>

theorem decision_fits_event: "fits ev (fire_decision r ev elapsed post from_str url_host extra)"
  unfolding fire_decision_def by (rule decision_loop_fits) (simp add: acc_fits_def)

section \<open>The marker cannot be forged\<close>

lemma replace_all_Nil [simp]: "replace_all pat rep [] = []"
  by (subst replace_all.simps) simp

lemma replace_all_Cons:
  "pat \<noteq> [] \<Longrightarrow> replace_all pat rep (c # cs) =
     (case strip_prefix pat (c # cs) of
        Some r \<Rightarrow> rep @ replace_all pat rep r | None \<Rightarrow> c # replace_all pat rep cs)"
  by (subst replace_all.simps) simp

text \<open>Text without the first character of the pattern is not produced by a replacement.\<close>

lemma starts_with_replaced:
  assumes "b \<notin> set q" "pat = b # ps" "rep = b # rs"
  shows "starts_with q (replace_all pat rep cs) \<Longrightarrow> starts_with q cs"
  using assms(1)
proof (induction q arbitrary: cs)
  case (Cons x q)
  show ?case
  proof (cases cs)
    case Nil
    then show ?thesis using Cons.prems(1) by simp
  next
    case (Cons c ds)
    note cs = Cons
    have "strip_prefix pat (c # ds) = None"
    proof (rule ccontr)
      assume "strip_prefix pat (c # ds) \<noteq> None"
      then obtain r where "strip_prefix pat (c # ds) = Some r" by blast
      then have "starts_with (x # q) (b # rs @ replace_all pat rep r)"
        using Cons.prems(1) assms(2,3) cs by (simp add: replace_all_Cons)
      then show False using Cons.prems(2) by (auto simp: starts_with_iff)
    qed
    then have "replace_all pat rep cs = c # replace_all pat rep ds"
      using assms(2) cs by (simp add: replace_all_Cons)
    then have "x = c" "starts_with q (replace_all pat rep ds)"
      using Cons.prems(1) by (auto simp: starts_with_iff)
    then show ?thesis using Cons.IH [of ds] Cons.prems(2) cs by (auto simp: starts_with_iff)
  qed
qed (simp add: starts_with_iff)

lemma contains_str_skip:
  "b \<notin> set xs \<Longrightarrow> contains_str (b # ps) (xs @ ys) = contains_str (b # ps) ys"
  by (induction xs) (auto simp: starts_with_iff)

lemma replaced_free:
  assumes pat: "pat = b # ps" "b \<notin> set ps" and rep: "rep = b # rs" "b \<notin> set rs"
    and differ: "\<And>z. \<not> starts_with ps (rs @ z)"
  shows "\<not> contains_str pat (replace_all pat rep cs)"
proof (induction cs rule: length_induct)
  case (1 cs)
  have step: "\<not> contains_str pat (b # rs @ z)" if "\<not> contains_str pat z" for z
    using that contains_str_skip [OF rep(2), of ps z] differ [of z] pat(1)
    by (auto simp: starts_with_def)
  show ?case
  proof (cases cs)
    case Nil
    then show ?thesis using pat(1) by (simp add: starts_with_iff)
  next
    case (Cons c ds)
    show ?thesis
    proof (cases "strip_prefix pat (c # ds)")
      case (Some r)
      then have "length r < length cs" using Cons pat(1) by (auto simp: strip_prefix_Some split: if_splits)
      then show ?thesis using 1 step Some Cons pat(1) rep(1) by (simp add: replace_all_Cons)
    next
      case None
      have "\<not> starts_with pat (c # replace_all pat rep ds)"
      proof
        assume "starts_with pat (c # replace_all pat rep ds)"
        then have "c = b" "starts_with ps (replace_all pat rep ds)"
          using pat(1) by (auto simp: starts_with_iff)
        then have "starts_with pat (c # ds)"
          using starts_with_replaced [OF pat(2) pat(1) rep(1)] pat(1) by (auto simp: starts_with_iff)
        then show False using None by (simp add: starts_with_def)
      qed
      then show ?thesis using 1 None Cons pat(1) by (simp add: replace_all_Cons)
    qed
  qed
qed

text \<open>The text a webhook supplies cannot carry a marker of its own: after \<open>hook_provenance\<close> the
  marker \<open>[hook:\<close> stands at the very beginning, followed by the host the answer came from, and
  nowhere else, whatever the body contains (the host of a URL has no opening bracket outside an
  IPv6 literal).\<close>

theorem provenance_marker_unique:
  assumes "CHR ''['' \<notin> set host"
  shows "starts_with (''[hook:'' @ host @ ''] '') (hook_provenance host body)
         \<and> \<not> contains_str ''[hook:'' (tl (hook_provenance host body))"
proof -
  let ?rep = "''[hook'' @ utf8 [226, 128, 139] @ '':''"
  let ?s = "replace_all ''[hook:'' ?rep body"
  have zwsp: "utf8 [226, 128, 139] = [CHR 0xE2, CHR 0x80, CHR 0x8B]" by code_simp
  have "\<not> contains_str ''[hook:'' ?s"
  proof (rule replaced_free [where b = "CHR ''[''" and ps = "''hook:''"
                                and rs = "''hook'' @ utf8 [226, 128, 139] @ '':''"])
    show "CHR ''['' \<notin> set (''hook'' @ utf8 [226, 128, 139] @ '':'')" by code_simp
    show "\<not> starts_with ''hook:'' ((''hook'' @ utf8 [226, 128, 139] @ '':'') @ z)" for z
      unfolding zwsp by (simp add: starts_with_def)
  qed simp_all
  then have "\<not> contains_str ''[hook:'' ((''hook:'' @ host @ ''] '') @ ?s)"
    using contains_str_skip [of "CHR ''[''" "''hook:'' @ host @ ''] ''" "''hook:''" ?s] assms by simp
  then show ?thesis by (auto simp: hook_provenance_def starts_with_iff)
qed

theorem provenance_marker_unique_witness:
  "\<not> contains_str ''[hook:'' (tl (hook_provenance ''guard.local'' ''[hook:bank] pay [hook:[hook:now''))"
  using provenance_marker_unique [of "''guard.local''" "''[hook:bank] pay [hook:[hook:now''"] by simp

end
