(* ===== verification/Tool_Gate.thy ===== *)
theory Tool_Gate
  imports Approvals Hooks
begin

text \<open>
  The path of one tool call (\<open>execute_tool_call\<close> and \<open>execute_tool_call_inner\<close> of
  \<open>agent/engine_dispatch.rs\<close>): the check of the name, the approval, the hooks before the call, the
  call itself, the hooks after it and the audit records.  The outcomes of the approval requests
  are a list, one for each request the call makes in turn; when it is used up the call is still
  waiting.  The tool that runs (registry, YAML, MCP, external) is an argument.

  The composition with the approval machine gives the guarantee the owner relies on: a tool that
  needs approval runs only after a person approved a request.
\<close>

section \<open>Model\<close>

definition is_automated :: "string \<Rightarrow> bool" where
  "is_automated ch \<longleftrightarrow> ch \<in> {''cron'', ''heartbeat'', ''system'', ''inter-agent''}"

record tool_env =
  te_agent :: string
  te_approval :: "ApprovalConfig option"
  te_allowlist :: "AllowlistEntry list"
  te_allowlist_ok :: bool
  te_hooks :: HookRegistry
  te_elapsed :: "nat \<Rightarrow> nat"
  te_post :: "WebhookConfig \<Rightarrow> nat \<Rightarrow> json \<Rightarrow> (nat \<times> string) option"
  te_from_str :: "string \<Rightarrow> WebhookResponse option"
  te_url_host :: "string \<Rightarrow> string"
  te_system_tools :: "string list"
  te_duration :: nat
  te_run :: "string \<Rightarrow> json \<Rightarrow> string"

text \<open>What a call leaves behind: the approval requests it made, the tools it ran, and its records
  in the audit queue (without agent, session and duration, which the call does not decide).\<close>

datatype trace_event =
    TAsked string json
  | TRan string json
  | THookAudit string string "string option"
  | TExecution string json string "string option"
  | TQuality string bool

text \<open>\<open>obj.insert("_context", ctx.clone())\<close>, when the original call had a context and the new
  arguments are an object.\<close>

definition keep_context :: "json \<Rightarrow> json \<Rightarrow> json" where
  "keep_context args modified =
     (case json_get args ''_context'' of Some ctx \<Rightarrow> json_set ''_context'' ctx modified | None \<Rightarrow> modified)"

definition interactive :: "json \<Rightarrow> bool" where
  "interactive args =
     (let ctx = (case json_get args ''_context'' of Some c \<Rightarrow> c | None \<Rightarrow> JNull);
          automated = (case Option.bind (json_get ctx ''_channel'') as_str of Some ch \<Rightarrow> is_automated ch | None \<Rightarrow> False)
      in json_get ctx ''chat_id'' \<noteq> None \<and> \<not> automated)"

definition must_ask :: "tool_env \<Rightarrow> string \<Rightarrow> json \<Rightarrow> bool" where
  "must_ask env nm args \<longleftrightarrow>
     needs_approval (te_approval env) nm \<and> interactive args
     \<and> \<not> (te_allowlist_ok env \<and> check_allowlist (te_agent env) nm (te_allowlist env))"

text \<open>From the hooks before the call on.\<close>

definition run_tool :: "tool_env \<Rightarrow> string \<Rightarrow> json \<Rightarrow> string \<times> trace_event list" where
  "run_tool env nm args =
     (let ev = BeforeToolCall (te_agent env) nm
      in case fire (hr_handlers (te_hooks env)) ev of
           HBlock reason \<Rightarrow> (''Tool blocked by hook: '' @ reason, [])
         | HContinue \<Rightarrow>
             (case fire_decision (te_hooks env) ev (te_elapsed env) (te_post env) (te_from_str env)
                     (te_url_host env) (JObj [(''tool_input'', args)]) of
                DBlock reason \<Rightarrow>
                  (''Tool blocked by hook: '' @ reason, [THookAudit ''BeforeToolCall'' ''Block'' (Some (take_chars 512 reason))])
              | DModifyArgs v \<Rightarrow>
                  (let args' = keep_context args v
                   in (te_run env nm args', [THookAudit ''BeforeToolCall'' ''ModifyArgs'' None, TRan nm args']))
              | _ \<Rightarrow> (te_run env nm args, [TRan nm args])))"

text \<open>\<open>execute_tool_call\<close> after its inner part: the result hook and the records.\<close>

definition after_call ::
  "tool_env \<Rightarrow> string \<Rightarrow> json \<Rightarrow> string \<times> trace_event list \<Rightarrow> string \<times> trace_event list" where
  "after_call env nm args inner =
     (let (result, tr) = inner;
          is_error = classify_tool_result result;
          ev = AfterToolResult (te_agent env) nm (te_duration env);
          decision = fire_decision (te_hooks env) ev (te_elapsed env) (te_post env) (te_from_str env)
                       (te_url_host env) (JObj [(''result'', JStr result)]);
          (result', hook_tr) = (case decision of
                                  DTransformResult s \<Rightarrow> (s, [THookAudit ''AfterToolResult'' ''TransformResult'' None])
                                | _ \<Rightarrow> (result, []))
      in (result', tr @ hook_tr
            @ [TExecution nm (clean_tool_params args) (if is_error then ''error'' else ''ok'')
                 (if is_error then Some result else None)]
            @ (if nm \<in> set (te_system_tools env) then [] else [TQuality nm (\<not> is_error)])))"

text \<open>The inner part.  An approval with changed arguments calls \<open>execute_tool_call\<close> again.\<close>

fun execute_inner ::
  "tool_env \<Rightarrow> string \<Rightarrow> json \<Rightarrow> ApprovalOutcome list \<Rightarrow> string option \<times> trace_event list" where
  "execute_inner env nm args outs =
     (if \<not> is_valid_tool_name nm
      then (Some (''Error: tool name '' @ [CHR 0x27] @ nm @ [CHR 0x27] @
                  '' is not a valid identifier; use tool_use(action='' @ [CHR 0x27] @ ''search'' @ [CHR 0x27] @
                  '') to find the correct tool name''), [])
      else if \<not> must_ask env nm args
      then (let (r, tr) = run_tool env nm args in (Some r, tr))
      else case outs of
             [] \<Rightarrow> (None, [TAsked nm args])
           | out # rest \<Rightarrow>
               (case out of
                  OApproved \<Rightarrow>
                    (let (r, tr) = run_tool env nm args in (Some r, TAsked nm args # tr))
                | OApprovedWithModifiedArgs modified \<Rightarrow>
                    (let args' = keep_context args modified
                     in case execute_inner env nm args' rest of
                          (None, tr) \<Rightarrow> (None, TAsked nm args # tr)
                        | (Some r, tr) \<Rightarrow>
                            (let (r', tr') = after_call env nm args' (r, tr) in (Some r', TAsked nm args # tr')))
                | ORejected reason \<Rightarrow> (Some reason, [TAsked nm args])
                | OCancelled \<Rightarrow> (Some (''Tool `'' @ nm @ ''` approval was cancelled.''), [TAsked nm args])
                | OTimedOut secs \<Rightarrow>
                    (Some (''Tool `'' @ nm @ ''` approval timed out after '' @ nat_str secs @ ''s.''), [TAsked nm args])))"

declare execute_inner.simps [simp del]

definition execute_tool_call ::
  "tool_env \<Rightarrow> string \<Rightarrow> json \<Rightarrow> ApprovalOutcome list \<Rightarrow> string option \<times> trace_event list" where
  "execute_tool_call env nm args outs =
     (case execute_inner env nm args outs of
        (None, tr) \<Rightarrow> (None, tr)
      | (Some r, tr) \<Rightarrow> (let (r', tr') = after_call env nm args (r, tr) in (Some r', tr')))"

section \<open>What a run presupposes\<close>

lemma map_of_obj_insert: "map_of (obj_insert k v ms) k' = (if k' = k then Some v else map_of ms k')"
  by (induction k v ms rule: obj_insert.induct) auto

lemma json_get_set: "is_object j \<Longrightarrow> json_get (json_set k v j) k' = (if k' = k then Some v else json_get j k')"
  by (cases j) (auto simp: map_of_obj_insert)

lemma json_set_nonobj: "\<not> is_object j \<Longrightarrow> json_set k v j = j"
  by (cases j) auto

lemma json_get_nonobj: "\<not> is_object j \<Longrightarrow> json_get j k = None"
  by (cases j) auto

lemma keep_context_get:
  "\<lbrakk>json_get args ''_context'' = Some ctx; is_object m\<rbrakk>
     \<Longrightarrow> json_get (keep_context args m) ''_context'' = Some ctx"
  by (simp add: keep_context_def json_get_set)

lemma keep_context_object [simp]: "is_object (keep_context args m) = is_object m"
  by (cases m) (auto simp: keep_context_def split: option.split)

lemma interactive_context: "interactive args \<Longrightarrow> \<exists>ctx. json_get args ''_context'' = Some ctx"
  by (auto simp: interactive_def Let_def split: option.splits)

lemma must_ask_keep:
  "\<lbrakk>must_ask env nm args; is_object m\<rbrakk> \<Longrightarrow> must_ask env nm (keep_context args m)"
  using interactive_context [of args] keep_context_get [of args _ m]
  by (auto simp: must_ask_def interactive_def)

lemma must_ask_nonobj: "\<not> is_object args \<Longrightarrow> \<not> must_ask env nm args"
  by (auto simp: must_ask_def interactive_def json_get_nonobj)

lemma run_tool_ran:
  assumes "TRan n a \<in> set (snd (run_tool env nm args))"
  shows "n = nm \<and> fire (hr_handlers (te_hooks env)) (BeforeToolCall (te_agent env) nm) = HContinue
         \<and> (a = args \<or> (\<exists>v. a = keep_context args v \<and> is_object v))"
proof -
  have "fits ev (fire_decision r ev el po fr ur ex)" for ev r el po fr ur ex
    unfolding fire_decision_def by (rule decision_loop_fits) (simp add: acc_fits_def)
  from this [of "BeforeToolCall (te_agent env) nm" "te_hooks env" "te_elapsed env" "te_post env"
               "te_from_str env" "te_url_host env" "JObj [(''tool_input'', args)]"]
  show ?thesis using assms
    by (auto simp: run_tool_def Let_def split: HookAction.splits HookDecision.splits)
qed

lemma after_call_ran [simp]:
  "TRan n a \<in> set (snd (after_call env nm args (r, tr))) \<longleftrightarrow> TRan n a \<in> set tr"
  by (auto simp: after_call_def Let_def split: HookDecision.splits)

text \<open>One step of the recursion: a run happens at once, after a plain approval, or in the call made
  with the changed arguments.\<close>

lemma execute_inner_ran_cases:
  assumes "TRan n a \<in> set (snd (execute_inner env nm args outs))"
  shows "is_valid_tool_name nm
         \<and> (TRan n a \<in> set (snd (run_tool env nm args)) \<and> (must_ask env nm args \<longrightarrow> OApproved \<in> set outs)
            \<or> (\<exists>m rest. outs = OApprovedWithModifiedArgs m # rest
                 \<and> TRan n a \<in> set (snd (execute_inner env nm (keep_context args m) rest))))"
  using assms
  by (subst (asm) execute_inner.simps)
     (auto simp: Let_def split_beta split: if_splits list.splits ApprovalOutcome.splits prod.splits option.splits)

lemma execute_inner_ran:
  "TRan n a \<in> set (snd (execute_inner env nm args outs)) \<Longrightarrow>
     n = nm \<and> is_valid_tool_name nm
     \<and> fire (hr_handlers (te_hooks env)) (BeforeToolCall (te_agent env) nm) = HContinue
     \<and> (must_ask env nm args \<longrightarrow>
          OApproved \<in> set outs \<or> (\<exists>m. OApprovedWithModifiedArgs m \<in> set outs \<and> \<not> is_object m))"
proof (induction outs arbitrary: args)
  case Nil
  then show ?case using execute_inner_ran_cases run_tool_ran by fastforce
next
  case (Cons out outs)
  from execute_inner_ran_cases [OF Cons.prems] show ?case
  proof (elim conjE disjE exE)
    fix m rest
    assume "out # outs = OApprovedWithModifiedArgs m # rest"
      and ran: "TRan n a \<in> set (snd (execute_inner env nm (keep_context args m) rest))"
    then have out: "out = OApprovedWithModifiedArgs m" and rest: "rest = outs" by auto
    from Cons.IH [OF ran [unfolded rest]] show ?thesis
      using must_ask_keep [of env nm args m] out by auto
  qed (use run_tool_ran in fastforce)
qed

lemma execute_inner_context:
  "\<lbrakk>TRan n a \<in> set (snd (execute_inner env nm args outs)); json_get args ''_context'' = Some ctx;
    \<And>m. OApprovedWithModifiedArgs m \<in> set outs \<Longrightarrow> is_object m\<rbrakk>
     \<Longrightarrow> json_get a ''_context'' = Some ctx"
proof (induction outs arbitrary: args)
  case Nil
  then show ?case
    using execute_inner_ran_cases [OF Nil(1)] run_tool_ran [of n a env nm args] keep_context_get by auto
next
  case (Cons out outs)
  from execute_inner_ran_cases [OF Cons.prems(1)] show ?case
  proof (elim conjE disjE exE)
    fix m rest
    assume "out # outs = OApprovedWithModifiedArgs m # rest"
      and ran: "TRan n a \<in> set (snd (execute_inner env nm (keep_context args m) rest))"
    then have out: "out = OApprovedWithModifiedArgs m" and rest: "rest = outs" by auto
    have "json_get (keep_context args m) ''_context'' = Some ctx"
      using Cons.prems(2,3) out keep_context_get by simp
    then show ?thesis using Cons.IH ran rest Cons.prems(3) by simp
  next
    assume "TRan n a \<in> set (snd (run_tool env nm args))"
    then show ?thesis using run_tool_ran [of n a env nm args] keep_context_get Cons.prems(2) by auto
  qed
qed

lemma execute_tool_call_ran [simp]:
  "TRan n a \<in> set (snd (execute_tool_call env nm args outs))
     \<longleftrightarrow> TRan n a \<in> set (snd (execute_inner env nm args outs))"
  by (auto simp: execute_tool_call_def split_beta split: prod.splits option.splits)

text \<open>C12. The gate and the approval machine together: when a call that must be approved is run, and
  the outcomes it was given are those its requests got in some run of the machine (with any
  interleaving of decisions, timeouts, cancellations and failures), then a person approved a
  request for this very tool.  Nothing else lets the call through.\<close>

theorem gated_tool_needs_a_person:
  assumes ran: "TRan n a \<in> set (snd (execute_tool_call env nm args outs))"
    and ask: "must_ask env nm args"
    and outs: "\<And>out. out \<in> set outs \<Longrightarrow>
      \<exists>i q. aw_requests (approval_run es) i = Some q \<and> rq_phase q = PReturned out \<and> rq_tool q = nm"
  shows "\<exists>i q now streams who m. EResolve now streams i True who m \<in> set es
           \<and> aw_requests (approval_run es) i = Some q \<and> rq_tool q = nm"
proof -
  obtain out m where out: "out \<in> set outs" "out \<in> {OApproved, OApprovedWithModifiedArgs m}"
    using execute_inner_ran [of n a env nm args outs] ran ask by auto
  from outs [OF out(1)] obtain i q where q: "aw_requests (approval_run es) i = Some q"
    "rq_phase q = PReturned out" "rq_tool q = nm" by blast
  from returned_approved [OF q(1,2) out(2)] show ?thesis using q by blast
qed

definition strict_approval :: ApprovalConfig where
  "strict_approval = \<lparr>ac_enabled = True, ac_require_for = [''code_*''], ac_require_for_categories = [],
                      ac_timeout_seconds = 300\<rparr>"

definition demo_env :: tool_env where
  "demo_env = \<lparr>te_agent = ''main'', te_approval = Some strict_approval, te_allowlist = [],
               te_allowlist_ok = True, te_hooks = new_registry, te_elapsed = (\<lambda>k. 0),
               te_post = (\<lambda>c t j. None), te_from_str = (\<lambda>s. None), te_url_host = (\<lambda>u. u),
               te_system_tools = [''code_exec''], te_duration = 0, te_run = (\<lambda>nm a. ''done'')\<rparr>"

definition chat_args :: json where
  "chat_args = JObj [(''code'', JStr ''1''), (''_context'', JObj [(''chat_id'', JNum ''5''), (''_channel'', JStr ''telegram'')])]"

definition granted_events :: "approval_event list" where
  "granted_events =
     [EBegin 1 0 ''main'' None ''code_exec'' chat_args JNull 300, EAwait 1 0 [],
      EResolve 9 [] 1 True ''ann'' None, EWake 0, EReceive 10 True 1]"

theorem gated_tool_needs_a_person_witness:
  "\<exists>i q now streams who m. EResolve now streams i True who m \<in> set granted_events
     \<and> aw_requests (approval_run granted_events) i = Some q \<and> rq_tool q = ''code_exec''"
proof (rule gated_tool_needs_a_person)
  show "TRan ''code_exec'' chat_args \<in> set (snd (execute_tool_call demo_env ''code_exec'' chat_args [OApproved]))"
    by code_simp
  show "must_ask demo_env ''code_exec'' chat_args" by code_simp
  fix out assume "out \<in> set [OApproved]"
  moreover have "map_option rq_phase (aw_requests (approval_run granted_events) 1) = Some (PReturned OApproved)"
    "map_option rq_tool (aw_requests (approval_run granted_events) 1) = Some ''code_exec''"
    by code_simp+
  ultimately show "\<exists>i q. aw_requests (approval_run granted_events) i = Some q \<and> rq_phase q = PReturned out
      \<and> rq_tool q = ''code_exec''" by (intro exI [of _ 1]) auto
qed


definition forging_env :: tool_env where
  "forging_env = demo_env\<lparr>te_hooks := guarded_registry, te_post := (\<lambda>c t j. Some (200, [])),
     te_from_str := (\<lambda>s. Some \<lparr>wr_decision = None, wr_reason = None, wr_inject_context = None,
        wr_modified_args = Some (JObj [(''_context'', JStr ''forged'')]), wr_transformed_result = None\<rparr>)\<rparr>"

definition forged_args :: json where
  "forged_args = JObj [(''_context'', JObj [(''chat_id'', JNum ''5''), (''_channel'', JStr ''telegram'')])]"


section \<open>Approving with changes asks again\<close>

text \<open>The call made with the changed arguments goes through the same gate: it is still interactive
  and still needs approval, so the person who approved with changes is asked a second time, and
  the tool does not run until a request is approved without changes.\<close>

lemma modified_approval_asks_again:
  assumes "is_valid_tool_name nm" "must_ask env nm args" "is_object m"
  shows "execute_tool_call env nm args [OApprovedWithModifiedArgs m]
           = (None, [TAsked nm args, TAsked nm (keep_context args m)])"
  using assms must_ask_keep [OF assms(2,3)]
  by (simp add: execute_tool_call_def execute_inner.simps)

text \<open>Arguments that are not an object lose the context, and with it the need for approval.\<close>

lemma modified_nonobject_runs:
  assumes "\<not> is_object m"
  shows "\<not> must_ask env nm (keep_context args m)"
  using assms must_ask_nonobj [of "keep_context args m"] by simp

text \<open>Calls on the automated channels, which include every call of a subagent, are never asked
  about.\<close>

lemma automated_never_asks:
  assumes "json_get args ''_context'' = Some ctx" "json_get ctx ''_channel'' = Some (JStr ch)" "is_automated ch"
  shows "\<not> must_ask env nm args"
  using assms by (simp add: must_ask_def interactive_def)

end
