(* ===== verification/Gateway_Auth.thy ===== *)
theory Gateway_Auth
  imports Opex_Prelude
begin

text \<open>
  The front door of the HTTP gateway: the rate limiters (\<open>opex-gateway-util/src/rate_limiter.rs\<close>,
  \<open>gateway/csp_core.rs\<close>), the one-time tickets of WebSocket connections
  (\<open>gateway/handlers/auth.rs\<close>) and the middleware that decides whether a request is served
  (\<open>gateway/middleware.rs\<close>).

  Instants are milliseconds of a clock that does not go backwards; a limiter's map is a partial
  function from the text of the client address.  Counters are natural numbers: a \<open>u32\<close> would need
  four thousand million requests within a window to wrap.  The fixed windows of the two request
  limiters are instances of one locale, which bounds what any interval of a minute lets through.
\<close>

section \<open>Clock\<close>

definition secs :: "nat \<Rightarrow> nat" where
  "secs n = n * 1000"

definition elapsed_secs :: "nat \<Rightarrow> nat" where
  "elapsed_secs ms = ms div 1000"

section \<open>Lockout after failed authentication\<close>

record AuthRateLimiter =
  al_max_attempts :: nat
  al_lockout_secs :: nat
  al_state :: "string \<rightharpoonup> nat \<times> instant \<times> instant option"

definition new_auth_limiter :: "nat \<Rightarrow> nat \<Rightarrow> AuthRateLimiter" where
  "new_auth_limiter max_attempts lockout_secs =
     \<lparr>al_max_attempts = max_attempts, al_lockout_secs = lockout_secs, al_state = Map.empty\<rparr>"

definition is_locked :: "instant \<Rightarrow> string \<Rightarrow> AuthRateLimiter \<Rightarrow> bool" where
  "is_locked now ip l =
     (case al_state l ip of Some (_, _, Some locked_until) \<Rightarrow> now < locked_until | _ \<Rightarrow> False)"

definition auth_record_failure :: "instant \<Rightarrow> string \<Rightarrow> AuthRateLimiter \<Rightarrow> AuthRateLimiter" where
  "auth_record_failure now ip l =
     (let e0 = (case al_state l ip of Some e \<Rightarrow> e | None \<Rightarrow> (0, now, None));
          (n, first, locked) =
            (if snd (snd e0) = None \<and> al_lockout_secs l < elapsed_secs (now - fst (snd e0)) then (0, now, None) else e0);
          e = (if al_max_attempts l \<le> Suc n then (Suc n, first, Some (now + secs (al_lockout_secs l)))
               else (Suc n, first, locked))
      in l\<lparr>al_state := (al_state l)(ip \<mapsto> e)\<rparr>)"

definition auth_record_success :: "string \<Rightarrow> AuthRateLimiter \<Rightarrow> AuthRateLimiter" where
  "auth_record_success ip l = l\<lparr>al_state := (al_state l)(ip := None)\<rparr>"

definition sweep_auth :: "instant \<Rightarrow> AuthRateLimiter \<Rightarrow> AuthRateLimiter" where
  "sweep_auth now l =
     l\<lparr>al_state := (\<lambda>ip. case al_state l ip of
          None \<Rightarrow> None
        | Some (n, first_fail, locked_until) \<Rightarrow>
            if (case locked_until of Some u \<Rightarrow> u \<le> now
                | None \<Rightarrow> secs (al_lockout_secs l) \<le> now - first_fail)
            then None else Some (n, first_fail, locked_until))\<rparr>"

section \<open>Requests per minute\<close>

record RequestRateLimiter =
  rl_max_per_minute :: nat
  rl_state :: "string \<rightharpoonup> nat \<times> instant"

text \<open>\<open>check\<close>: \<open>Inl\<close> is the number of seconds after which to try again.\<close>

definition check_request ::
  "instant \<Rightarrow> string \<Rightarrow> RequestRateLimiter \<Rightarrow> (nat + unit) \<times> RequestRateLimiter" where
  "check_request now ip l =
     (let (n, start) = (case rl_state l ip of Some e \<Rightarrow> e | None \<Rightarrow> (0, now));
          (n', start') = (if secs 60 \<le> now - start then (0, now) else (n, start));
          l' = l\<lparr>rl_state := (rl_state l)(ip \<mapsto> (Suc n', start'))\<rparr>
      in if rl_max_per_minute l < Suc n' then (Inl (60 - elapsed_secs (now - start')), l')
         else (Inr (), l'))"

definition sweep_requests :: "instant \<Rightarrow> RequestRateLimiter \<Rightarrow> RequestRateLimiter" where
  "sweep_requests now l =
     l\<lparr>rl_state := (\<lambda>ip. case rl_state l ip of
          None \<Rightarrow> None
        | Some (n, start) \<Rightarrow> if secs 60 \<le> now - start then None else Some (n, start))\<rparr>"

section \<open>Reports of content-security violations\<close>

definition CSP_REPORT_PER_IP_RPM :: nat where "CSP_REPORT_PER_IP_RPM = 30"
definition CSP_REPORT_IDLE_EVICT_SECS :: nat where "CSP_REPORT_IDLE_EVICT_SECS = 300"

record Bucket =
  bk_tokens :: nat
  bk_window_start :: instant
  bk_last_seen :: instant

definition csp_check ::
  "instant \<Rightarrow> 'ip \<Rightarrow> ('ip \<rightharpoonup> Bucket) \<Rightarrow> bool \<times> ('ip \<rightharpoonup> Bucket)" where
  "csp_check now ip buckets =
     (let kept = (\<lambda>k. case buckets k of
                        Some b \<Rightarrow> if now - bk_last_seen b < secs CSP_REPORT_IDLE_EVICT_SECS then Some b else None
                      | None \<Rightarrow> None);
          e0 = (case kept ip of Some b \<Rightarrow> b
                | None \<Rightarrow> \<lparr>bk_tokens = 0, bk_window_start = now, bk_last_seen = now\<rparr>);
          e1 = (if secs 60 \<le> now - bk_window_start e0 then e0\<lparr>bk_tokens := 0, bk_window_start := now\<rparr> else e0);
          e2 = e1\<lparr>bk_last_seen := now\<rparr>
      in if CSP_REPORT_PER_IP_RPM \<le> bk_tokens e2 then (False, kept(ip \<mapsto> e2))
         else (True, kept(ip \<mapsto> e2\<lparr>bk_tokens := Suc (bk_tokens e2)\<rparr>)))"

section \<open>Tickets\<close>

definition TICKET_TTL_SECS :: nat where "TICKET_TTL_SECS = 30"

type_synonym tickets = "string \<rightharpoonup> instant"

definition api_create_ws_ticket :: "instant \<Rightarrow> string \<Rightarrow> tickets \<Rightarrow> tickets" where
  "api_create_ws_ticket now ticket store =
     (\<lambda>t. case store t of
            Some created \<Rightarrow> if elapsed_secs (now - created) < TICKET_TTL_SECS then Some created else None
          | None \<Rightarrow> None)(ticket \<mapsto> now)"

definition validate_ws_ticket :: "instant \<Rightarrow> string \<Rightarrow> tickets \<Rightarrow> bool \<times> tickets" where
  "validate_ws_ticket now ticket store =
     (case store ticket of
        Some created \<Rightarrow> (elapsed_secs (now - created) < TICKET_TTL_SECS, store(ticket := None))
      | None \<Rightarrow> (False, store))"

section \<open>Middleware\<close>

text \<open>A request: path and query of its URI, the text of its \<open>authorization\<close> header, the address of
  its peer when the connection is known.\<close>

record http_request =
  hq_path :: string
  hq_query :: "string option"
  hq_authorization :: "string option"
  hq_peer :: "string option"

definition extract_client_ip :: "http_request \<Rightarrow> string" where
  "extract_client_ip req = (case hq_peer req of Some ip \<Rightarrow> ip | None \<Rightarrow> ''unknown'')"

definition is_loopback :: "string \<Rightarrow> bool" where
  "is_loopback ip \<longleftrightarrow> ip = ''127.0.0.1'' \<or> ip = ''::1'' \<or> starts_with ''::ffff:127.'' ip"

text \<open>\<open>str::parse::<u8>\<close>: an optional plus sign, digits, at most 255.\<close>

definition parse_u8 :: "string \<Rightarrow> nat option" where
  "parse_u8 s =
     (let ds = (case s of c # cs \<Rightarrow> if c = CHR ''+'' then cs else s | [] \<Rightarrow> [])
      in if ds \<noteq> [] \<and> list_all (\<lambda>c. 48 \<le> (of_char c :: nat) \<and> (of_char c :: nat) \<le> 57) ds \<and> digits_val ds < 256
         then Some (digits_val ds) else None)"

definition is_docker_gateway :: "string \<Rightarrow> bool" where
  "is_docker_gateway ip0 =
     (let ip = (case strip_prefix ''::ffff:'' ip0 of Some r \<Rightarrow> r | None \<Rightarrow> ip0)
      in case split_on (CHR ''.'') ip of
           [a, b, c, d] \<Rightarrow>
             a = ''172''
             \<and> (let n = (case parse_u8 b of Some n \<Rightarrow> n | None \<Rightarrow> 0) in 16 \<le> n \<and> n \<le> 31)
             \<and> parse_u8 c \<noteq> None \<and> parse_u8 d \<noteq> None
         | _ \<Rightarrow> False)"

definition valid_bearer :: "http_request \<Rightarrow> string \<Rightarrow> bool" where
  "valid_bearer req expected_token =
     (case Option.bind (hq_authorization req) (strip_prefix ''Bearer '') of
        Some t \<Rightarrow> t = expected_token | None \<Rightarrow> False)"

definition PUBLIC_EXACT :: "string list" where
  "PUBLIC_EXACT = [''/health'', ''/api/oauth/callback'', ''/api/triggers/email/push'', ''/api/csp-report'']"

definition PUBLIC_PREFIX :: "string list" where
  "PUBLIC_PREFIX = [''/webhook/'', ''/api/uploads/'', ''/workspace-files/'', ''/api/shares/'']"

definition LOOPBACK_EXACT :: "string list" where
  "LOOPBACK_EXACT = [''/health'', ''/api/vision/analyze'', ''/api/internal/infra-event'',
     ''/api/sandbox/tool-call'', ''/api/sandbox/tool-search'']"

definition LOOPBACK_PREFIX :: "string list" where
  "LOOPBACK_PREFIX = [''/api/uploads/'']"

fun ticket_loop :: "instant \<Rightarrow> string list \<Rightarrow> tickets \<Rightarrow> bool \<times> tickets" where
  "ticket_loop now [] store = (False, store)"
| "ticket_loop now (pair # pairs) store =
     (case strip_prefix ''ticket='' pair of
        Some val \<Rightarrow>
          (let (ok, store') = validate_ws_ticket now val store
           in if ok then (True, store') else ticket_loop now pairs store')
      | None \<Rightarrow> ticket_loop now pairs store)"

definition is_static_asset :: "string \<Rightarrow> bool" where
  "is_static_asset path \<longleftrightarrow>
     starts_with ''/_next/'' path \<or> ends_with ''.js'' path \<or> ends_with ''.css'' path
     \<or> ends_with ''.png'' path \<or> ends_with ''.jpg'' path \<or> ends_with ''.ico'' path \<or> ends_with ''.svg'' path
     \<or> ends_with ''.woff2'' path"

datatype verdict = Served | Unauthorized | TooManyRequests

definition auth_middleware ::
  "instant \<Rightarrow> string \<Rightarrow> http_request \<Rightarrow> AuthRateLimiter \<Rightarrow> tickets \<Rightarrow> verdict \<times> AuthRateLimiter \<times> tickets"
where
  "auth_middleware now expected_token req lim store =
     (let path = hq_path req;
          client_ip = extract_client_ip req
      in if path \<in> set PUBLIC_EXACT \<or> (\<exists>p \<in> set PUBLIC_PREFIX. starts_with p path) then (Served, lim, store)
         else if is_loopback client_ip
                 \<and> (path \<in> set LOOPBACK_EXACT \<or> (\<exists>p \<in> set LOOPBACK_PREFIX. starts_with p path))
         then (Served, lim, store)
         else if is_docker_gateway client_ip
                 \<and> (path = ''/api/sandbox/tool-call'' \<or> path = ''/api/sandbox/tool-search'')
         then (Served, lim, store)
         else if valid_bearer req expected_token then (Served, auth_record_success client_ip lim, store)
         else
           let (ticket_ok, store') =
                 (if starts_with ''/ws'' path
                  then (case hq_query req of
                          Some q \<Rightarrow> ticket_loop now (split_on (CHR ''&'') q) store
                        | None \<Rightarrow> (False, store))
                  else (False, store))
           in if ticket_ok then (Served, auth_record_success client_ip lim, store')
              else if \<not> is_loopback client_ip \<and> is_locked now client_ip lim then (TooManyRequests, lim, store')
              else if \<not> is_loopback client_ip \<and> \<not> is_static_asset path \<and> \<not> starts_with ''/api/setup/'' path
              then (Unauthorized, auth_record_failure now client_ip lim, store')
              else (Unauthorized, lim, store'))"

definition request_rate_limit_middleware ::
  "instant \<Rightarrow> string \<Rightarrow> http_request \<Rightarrow> RequestRateLimiter \<Rightarrow> (nat + unit) \<times> RequestRateLimiter" where
  "request_rate_limit_middleware now expected_token req lim =
     (let path = hq_path req; client_ip = extract_client_ip req
      in if path = ''/health'' then (Inr (), lim)
         else if starts_with ''/ws'' path then (Inr (), lim)
         else if is_loopback client_ip then (Inr (), lim)
         else if valid_bearer req expected_token then (Inr (), lim)
         else check_request now client_ip lim)"

definition webhook_rate_limit_middleware ::
  "instant \<Rightarrow> http_request \<Rightarrow> RequestRateLimiter \<Rightarrow> (nat + unit) \<times> RequestRateLimiter" where
  "webhook_rate_limit_middleware now req lim =
     (let client_ip = extract_client_ip req
      in if \<not> starts_with ''/webhook/'' (hq_path req) then (Inr (), lim)
         else if is_loopback client_ip then (Inr (), lim)
         else check_request now client_ip lim)"

text \<open>\<open>parse_ip\<close> is the parser of addresses; the answer is the refusal.\<close>

definition csp_report_rate_limit_middleware ::
  "(string \<Rightarrow> 'ip option) \<Rightarrow> instant \<Rightarrow> http_request \<Rightarrow> ('ip \<rightharpoonup> Bucket) \<Rightarrow> bool \<times> ('ip \<rightharpoonup> Bucket)" where
  "csp_report_rate_limit_middleware parse_ip now req buckets =
     (let client_ip = extract_client_ip req
      in if hq_path req \<noteq> ''/api/csp-report'' then (True, buckets)
         else if is_loopback client_ip then (True, buckets)
         else case parse_ip client_ip of
                None \<Rightarrow> (True, buckets)
              | Some ip \<Rightarrow> csp_check now ip buckets)"

text \<open>An answer 500 is replaced: status, type of the content, the other headers and the body.\<close>

record http_response =
  hs_status :: nat
  hs_headers :: "(string \<times> string) list"
  hs_body :: string

definition sanitize_internal_error :: "http_response \<Rightarrow> http_response" where
  "sanitize_internal_error r =
     (if hs_status r \<noteq> 500 then r
      else r\<lparr>hs_headers := filter (\<lambda>h. fst h \<noteq> ''content-length'' \<and> fst h \<noteq> ''content-type'') (hs_headers r)
                          @ [(''content-type'', ''application/json'')],
             hs_body := [CHR 0x7B, CHR 0x22] @ ''error'' @ [CHR 0x22, CHR 0x3A, CHR 0x22]
                        @ ''internal server error'' @ [CHR 0x22, CHR 0x7D]\<rparr>)"

section \<open>Fixed windows\<close>

lemma length_filter_filter: "length (filter P (filter Q xs)) \<le> length (filter P xs)"
  by (induction xs) auto

lemma length_by_class:
  assumes "finite S" "f ` set xs \<subseteq> S"
  shows "length xs = (\<Sum>c\<in>S. length (filter (\<lambda>x. f x = c) xs))"
  using assms(2)
proof (induction xs)
  case (Cons x xs)
  have "(\<Sum>c\<in>S. length (filter (\<lambda>y. f y = c) (x # xs)))
      = (\<Sum>c\<in>S. (if f x = c then 1 else 0) + length (filter (\<lambda>y. f y = c) xs))"
    by (rule sum.cong) auto
  also have "\<dots> = 1 + (\<Sum>c\<in>S. length (filter (\<lambda>y. f y = c) xs))"
    using assms(1) Cons.prems by (simp add: sum.distrib)
  finally show ?case using Cons by simp
qed simp

text \<open>Starts of windows that are a window apart: an interval of one window meets at most two of
  them.\<close>

lemma two_windows:
  fixes S :: "nat set"
  assumes "finite S" and apart: "\<And>a b. a \<in> S \<Longrightarrow> b \<in> S \<Longrightarrow> a < b \<Longrightarrow> a + W \<le> b"
    and lo: "\<And>a. a \<in> S \<Longrightarrow> t < a + W" and hi: "\<And>a. a \<in> S \<Longrightarrow> a < t + W"
  shows "card S \<le> 2"
proof (rule ccontr)
  assume "\<not> card S \<le> 2"
  then obtain T where T: "T \<subseteq> S" "card T = 3" by (metis not_less_eq_eq numeral_2_eq_2 numeral_3_eq_3 obtain_subset_with_card_n)
  then have fin: "finite T" using assms(1) finite_subset by blast
  define a where "a = Min T"
  define c where "c = Max T"
  have ne: "T \<noteq> {}" using T by auto
  have ac: "a \<in> T" "c \<in> T" using fin ne by (auto simp: a_def c_def)
  have "\<exists>b \<in> T. b \<noteq> a \<and> b \<noteq> c"
  proof (rule ccontr)
    assume "\<not> (\<exists>b \<in> T. b \<noteq> a \<and> b \<noteq> c)"
    then have "T \<subseteq> {a, c}" by auto
    then have "card T \<le> 2" using card_mono [of "{a, c}" T] card_insert_le_m1 [of 2 "{c}" a] by simp
    then show False using T(2) by simp
  qed
  then obtain b where b: "b \<in> T" "b \<noteq> a" "b \<noteq> c" by blast
  then have "a < b" "b < c" using fin by (auto simp: a_def c_def order.strict_iff_order)
  then have "a + W \<le> b" "b + W \<le> c" using apart ac b(1) T(1) by blast+
  moreover have "t < a + W" "c < t + W" using lo hi ac T(1) by blast+
  ultimately show False by simp
qed

text \<open>The times at which a run of a limiter lets a key through.\<close>

fun passes ::
  "('s \<Rightarrow> 'e \<Rightarrow> 's) \<Rightarrow> ('s \<Rightarrow> 'e \<Rightarrow> 'k option) \<Rightarrow> ('e \<Rightarrow> nat) \<Rightarrow> 'k \<Rightarrow> 's \<Rightarrow> 'e list \<Rightarrow> nat list" where
  "passes step admitted time k s [] = []"
| "passes step admitted time k s (e # es) =
     (if admitted s e = Some k then [time e] else []) @ passes step admitted time k (step s e) es"

text \<open>A limiter with fixed windows: \<open>window s k\<close> is what a key has used of its current window and
  when that began, \<open>admitted s e\<close> the key an event lets through.\<close>

locale fixed_window =
  fixes step :: "'s \<Rightarrow> 'e \<Rightarrow> 's"
    and window :: "'s \<Rightarrow> 'k \<Rightarrow> (nat \<times> nat) option"
    and admitted :: "'s \<Rightarrow> 'e \<Rightarrow> 'k option"
    and time :: "'e \<Rightarrow> nat"
    and W limit :: nat
    and valid :: "nat \<Rightarrow> 's \<Rightarrow> bool"
  assumes W_pos: "0 < W"
    and step_valid: "\<lbrakk>valid now s; now \<le> time e\<rbrakk> \<Longrightarrow> valid (time e) (step s e)"
    and admit: "\<lbrakk>valid now s; now \<le> time e; admitted s e = Some k\<rbrakk> \<Longrightarrow>
      \<exists>n st. window (step s e) k = Some (Suc n, st) \<and> Suc n \<le> limit \<and> time e < st + W
             \<and> (window s k = Some (n, st) \<or> n = 0 \<and> st = time e
                  \<and> (\<forall>m st'. window s k = Some (m, st') \<longrightarrow> st' + W \<le> time e))"
    and keep: "\<lbrakk>valid now s; now \<le> time e; admitted s e \<noteq> Some k\<rbrakk> \<Longrightarrow>
      window (step s e) k = window s k
      \<or> window (step s e) k \<in> {None, Some (0, time e)}
          \<and> (\<forall>m st'. window s k = Some (m, st') \<longrightarrow> st' + W \<le> time e)"
begin

text \<open>The times at which a key was let through, each with the start of its window.\<close>

fun log :: "'k \<Rightarrow> 's \<Rightarrow> 'e list \<Rightarrow> (nat \<times> nat) list" where
  "log k s [] = []"
| "log k s (e # es) =
     (if admitted s e = Some k then [(time e, snd (the (window (step s e) k)))] else []) @ log k (step s e) es"

lemma passes_log: "passes step admitted time k s es = map fst (log k s es)"
  by (induction es arbitrary: s) auto

text \<open>What the log has of a window: every entry lies in its window, no window has more than the
  limit, windows are a window apart.\<close>

definition log_fits :: "(nat \<times> nat) list \<Rightarrow> bool" where
  "log_fits hs \<longleftrightarrow>
     (\<forall>x st. (x, st) \<in> set hs \<longrightarrow> st \<le> x \<and> x < st + W)
     \<and> (\<forall>st. length (filter (\<lambda>p. snd p = st) hs) \<le> limit)
     \<and> (\<forall>a b. a \<in> snd ` set hs \<longrightarrow> b \<in> snd ` set hs \<longrightarrow> a < b \<longrightarrow> a + W \<le> b)"

definition current :: "(nat \<times> nat) option \<Rightarrow> (nat \<times> nat) list \<Rightarrow> nat \<Rightarrow> bool" where
  "current w hs now \<longleftrightarrow>
     (case w of
        None \<Rightarrow> \<forall>st. st \<in> snd ` set hs \<longrightarrow> st + W \<le> now
      | Some (n, st) \<Rightarrow> st \<le> now \<and> length (filter (\<lambda>p. snd p = st) hs) = n
                        \<and> (\<forall>st'. st' \<in> snd ` set hs \<longrightarrow> st' = st \<or> st' + W \<le> st))"

definition tracked :: "'k \<Rightarrow> (nat \<times> nat) list \<Rightarrow> 's \<Rightarrow> nat \<Rightarrow> bool" where
  "tracked k hs s now \<longleftrightarrow> valid now s \<and> log_fits hs \<and> current (window s k) hs now"

lemma current_later: "\<lbrakk>current w hs now; now \<le> later\<rbrakk> \<Longrightarrow> current w hs later"
  by (force simp: current_def split: option.splits)

lemma expired_windows:
  assumes "current w hs now" "now \<le> later" "\<forall>m st'. w = Some (m, st') \<longrightarrow> st' + W \<le> later"
    and "st \<in> snd ` set hs"
  shows "st + W \<le> later"
proof (cases w)
  case None
  then have "st + W \<le> now" using assms(1,4) by (simp add: current_def)
  then show ?thesis using assms(2) by simp
next
  case (Some p)
  obtain n st0 where p: "p = (n, st0)" by (cases p)
  have "st = st0 \<or> st + W \<le> st0" using assms(1,4) Some p by (simp add: current_def)
  moreover have "st0 + W \<le> later" using assms(3) Some p by simp
  ultimately show ?thesis by auto
qed

lemma expired_fresh:
  assumes "current w hs now" "now \<le> later" "\<forall>m st'. w = Some (m, st') \<longrightarrow> st' + W \<le> later"
  shows "current None hs later" "current (Some (0, later)) hs later"
proof -
  note old = expired_windows [OF assms]
  show "current None hs later" using old by (simp add: current_def)
  have "filter (\<lambda>p. snd p = later) hs = []"
  proof (rule ccontr)
    assume "filter (\<lambda>p. snd p = later) hs \<noteq> []"
    then obtain p where "p \<in> set hs" "snd p = later" by (auto simp: filter_empty_conv)
    then have "later + W \<le> later" using old [of later] by force
    then show False using W_pos by simp
  qed
  then show "current (Some (0, later)) hs later" using old by (simp add: current_def)
qed

lemma tracked_idle:
  assumes "tracked k hs s now" "now \<le> time e" "admitted s e \<noteq> Some k"
  shows "tracked k hs (step s e) (time e)"
proof -
  have s: "valid now s" "log_fits hs" "current (window s k) hs now" using assms(1) by (auto simp: tracked_def)
  have "current (window (step s e) k) hs (time e)"
    using keep [OF s(1) assms(2,3)] current_later [OF s(3) assms(2)] expired_fresh [OF s(3) assms(2)] by auto
  then show ?thesis using step_valid [OF s(1) assms(2)] s(2) by (simp add: tracked_def)
qed

lemma log_fits_snoc:
  assumes "log_fits hs" "current (Some (n, st)) hs now" "Suc n \<le> limit" "now < st + W"
  shows "log_fits (hs @ [(now, st)])" "current (Some (Suc n, st)) (hs @ [(now, st)]) now"
proof -
  have c: "st \<le> now" "length (filter (\<lambda>p. snd p = st) hs) = n"
    and others: "\<And>b. b \<in> snd ` set hs \<Longrightarrow> b = st \<or> b + W \<le> st"
    using assms(2) by (auto simp: current_def)
  have lim: "length (filter (\<lambda>p. snd p = b) (hs @ [(now, st)])) \<le> limit" for b
    using assms(1,3) c(2) by (cases "b = st") (auto simp: log_fits_def)
  have apart: "a + W \<le> b" if "a \<in> insert st (snd ` set hs)" "b \<in> insert st (snd ` set hs)" "a < b" for a b
  proof (cases "a \<in> snd ` set hs \<and> b \<in> snd ` set hs")
    case True
    then show ?thesis using assms(1) that(3) unfolding log_fits_def by blast
  next
    case False
    then have "a = st \<or> b = st" using that(1,2) by blast
    then show ?thesis
      using that others [of a] others [of b] by (metis insertE add_leD1 order.asym order.strict_trans2 order_less_irrefl)
  qed
  show "log_fits (hs @ [(now, st)])"
    using assms(1,4) c(1) lim apart unfolding log_fits_def by auto
  show "current (Some (Suc n, st)) (hs @ [(now, st)]) now"
    using c others by (auto simp: current_def)
qed

lemma tracked_admit:
  assumes "tracked k hs s now" "now \<le> time e" "admitted s e = Some k"
  shows "tracked k (hs @ [(time e, snd (the (window (step s e) k)))]) (step s e) (time e)"
proof -
  have s: "valid now s" "log_fits hs" "current (window s k) hs now" using assms(1) by (auto simp: tracked_def)
  obtain n st where w: "window (step s e) k = Some (Suc n, st)" "Suc n \<le> limit" "time e < st + W"
    and c: "window s k = Some (n, st) \<or> n = 0 \<and> st = time e
              \<and> (\<forall>m st'. window s k = Some (m, st') \<longrightarrow> st' + W \<le> time e)"
    using admit [OF s(1) assms(2,3)] by blast
  have "current (Some (n, st)) hs (time e)"
    using c current_later [OF s(3) assms(2)] expired_fresh(2) [OF s(3) assms(2)] by auto
  from log_fits_snoc [OF s(2) this w(2,3)] show ?thesis
    using step_valid [OF s(1) assms(2)] w(1) by (simp add: tracked_def)
qed

lemma tracked_run:
  "\<lbrakk>tracked k hs s now; sorted (now # map time es)\<rbrakk> \<Longrightarrow> log_fits (hs @ log k s es)"
proof (induction es arbitrary: hs s now)
  case Nil
  then show ?case by (simp add: tracked_def)
next
  case (Cons e es)
  have now: "now \<le> time e" and sorted: "sorted (time e # map time es)" using Cons.prems(2) by auto
  show ?case
  proof (cases "admitted s e = Some k")
    case True
    from Cons.IH [OF tracked_admit [OF Cons.prems(1) now True] sorted] True show ?thesis by simp
  next
    case False
    from Cons.IH [OF tracked_idle [OF Cons.prems(1) now False] sorted] False show ?thesis by simp
  qed
qed

text \<open>The bound: never more than twice the limit in an interval as long as a window.\<close>

lemma interval_bound:
  assumes "valid now s" "window s k = None" "sorted (now # map time es)"
  shows "length (filter (\<lambda>x. t \<le> x \<and> x < t + W) (passes step admitted time k s es)) \<le> 2 * limit"
proof -
  have "tracked k [] s now" using assms(1,2) by (simp add: tracked_def log_fits_def current_def)
  from tracked_run [OF this assms(3)] have fits: "log_fits (log k s es)" by simp
  define hs where "hs = filter (\<lambda>p. t \<le> fst p \<and> fst p < t + W) (log k s es)"
  have len: "length (filter (\<lambda>x. t \<le> x \<and> x < t + W) (passes step admitted time k s es)) = length hs"
    by (simp add: hs_def passes_log filter_map comp_def)
  let ?S = "snd ` set hs"
  have sub: "set hs \<subseteq> set (log k s es)" by (auto simp: hs_def)
  have win: "a < t + W \<and> t < a + W" if a: "a \<in> ?S" for a
  proof -
    obtain x where x: "(x, a) \<in> set hs" using a by auto
    then have "t \<le> x" "x < t + W" by (auto simp: hs_def)
    moreover have "a \<le> x" "x < a + W" using x sub fits unfolding log_fits_def by blast+
    ultimately show ?thesis by simp
  qed
  have "card ?S \<le> 2"
  proof (rule two_windows [where W = W and t = t])
    show "a + W \<le> b" if "a \<in> ?S" "b \<in> ?S" "a < b" for a b
      using fits that sub unfolding log_fits_def by blast
  qed (use win in auto)
  moreover have "length (filter (\<lambda>p. snd p = c) hs) \<le> limit" for c
  proof -
    have "length (filter (\<lambda>p. snd p = c) hs) \<le> length (filter (\<lambda>p. snd p = c) (log k s es))"
      unfolding hs_def by (rule length_filter_filter)
    then show ?thesis using fits unfolding log_fits_def by (meson le_trans)
  qed
  moreover have "length hs = (\<Sum>c\<in>?S. length (filter (\<lambda>p. snd p = c) hs))"
    by (rule length_by_class) auto
  ultimately have "length hs \<le> card ?S * limit"
    using sum_bounded_above [of ?S "\<lambda>c. length (filter (\<lambda>p. snd p = c) hs)" limit] by simp
  then show ?thesis using mult_le_mono1 [OF \<open>card ?S \<le> 2\<close>, of limit] len by linarith
qed

end

section \<open>The limiters have fixed windows\<close>

text \<open>What happens to the limiter of requests: a request goes through its middleware, or the
  background task sweeps.\<close>

datatype limiter_event = Arrives instant http_request | Sweeps instant

fun event_time :: "limiter_event \<Rightarrow> instant" where
  "event_time (Arrives now req) = now"
| "event_time (Sweeps now) = now"

fun limiter_step :: "string \<Rightarrow> RequestRateLimiter \<Rightarrow> limiter_event \<Rightarrow> RequestRateLimiter" where
  "limiter_step token l (Arrives now req) = snd (request_rate_limit_middleware now token req l)"
| "limiter_step token l (Sweeps now) = sweep_requests now l"

definition counted :: "string \<Rightarrow> http_request \<Rightarrow> bool" where
  "counted token req \<longleftrightarrow>
     hq_path req \<noteq> ''/health'' \<and> \<not> starts_with ''/ws'' (hq_path req)
     \<and> \<not> is_loopback (extract_client_ip req) \<and> \<not> valid_bearer req token"

fun limiter_admits :: "string \<Rightarrow> RequestRateLimiter \<Rightarrow> limiter_event \<Rightarrow> string option" where
  "limiter_admits token l (Arrives now req) =
     (if counted token req \<and> fst (request_rate_limit_middleware now token req l) = Inr ()
      then Some (extract_client_ip req) else None)"
| "limiter_admits token l (Sweeps now) = None"

lemma request_middleware_cases:
  "request_rate_limit_middleware now token req l =
     (if counted token req then check_request now (extract_client_ip req) l else (Inr (), l))"
  by (simp add: request_rate_limit_middleware_def counted_def Let_def)

definition request_window :: "RequestRateLimiter \<Rightarrow> string \<Rightarrow> (nat \<times> nat) option" where
  "request_window l ip = map_option (\<lambda>(n, start). (min n (rl_max_per_minute l), start)) (rl_state l ip)"

lemma secs_60 [simp]: "secs 60 = 60000"
  by (simp add: secs_def)

lemma check_request_admit:
  assumes "fst (check_request now ip l) = Inr ()"
  shows "\<exists>n st. request_window (snd (check_request now ip l)) ip = Some (Suc n, st)
           \<and> Suc n \<le> rl_max_per_minute l \<and> now < st + 60000
           \<and> (request_window l ip = Some (n, st) \<or> n = 0 \<and> st = now
                \<and> (\<forall>m st'. request_window l ip = Some (m, st') \<longrightarrow> st' + 60000 \<le> now))"
proof (cases "rl_state l ip")
  case None
  then show ?thesis using assms by (auto simp: check_request_def request_window_def Let_def split: if_splits)
next
  case (Some e)
  obtain n st where e: "e = (n, st)" by (cases e)
  show ?thesis
  proof (cases "60000 \<le> now - st")
    case True
    then show ?thesis using assms Some e by (auto simp: check_request_def request_window_def Let_def split: if_splits)
  next
    case False
    then show ?thesis using assms Some e by (auto simp: check_request_def request_window_def Let_def split: if_splits)
  qed
qed

lemma check_request_keep:
  assumes "fst (check_request now ip l) \<noteq> Inr ()"
  shows "request_window (snd (check_request now ip l)) ip = request_window l ip
         \<or> request_window (snd (check_request now ip l)) ip = Some (0, now)
           \<and> (\<forall>m st'. request_window l ip = Some (m, st') \<longrightarrow> st' + 60000 \<le> now)"
proof (cases "rl_state l ip")
  case None
  then show ?thesis using assms by (auto simp: check_request_def request_window_def Let_def split: if_splits)
next
  case (Some e)
  obtain n st where e: "e = (n, st)" by (cases e)
  show ?thesis
  proof (cases "60000 \<le> now - st")
    case True
    then show ?thesis using assms Some e by (auto simp: check_request_def request_window_def Let_def split: if_splits)
  next
    case False
    then show ?thesis using assms Some e by (auto simp: check_request_def request_window_def Let_def split: if_splits)
  qed
qed

lemma check_request_frame:
  "rl_max_per_minute (snd (check_request now ip l)) = rl_max_per_minute l"
  "k \<noteq> ip \<Longrightarrow> rl_state (snd (check_request now ip l)) k = rl_state l k"
  by (simp_all add: check_request_def Let_def split: prod.split)

lemma sweep_requests_window:
  "request_window (sweep_requests now l) k = request_window l k
   \<or> request_window (sweep_requests now l) k = None
     \<and> (\<forall>m st. request_window l k = Some (m, st) \<longrightarrow> st + 60000 \<le> now)"
proof (cases "\<exists>n st. rl_state l k = Some (n, st) \<and> 60000 \<le> now - st")
  case False
  then have "rl_state (sweep_requests now l) k = rl_state l k"
    by (cases "rl_state l k") (auto simp: sweep_requests_def)
  then show ?thesis by (simp add: request_window_def sweep_requests_def)
qed (auto simp: sweep_requests_def request_window_def)

interpretation requests: fixed_window "limiter_step token" request_window "limiter_admits token" event_time
    60000 M "\<lambda>now l. rl_max_per_minute l = M"
  for token M
proof unfold_locales
  show "(0::nat) < 60000" by simp
next
  fix now e and s :: RequestRateLimiter assume "rl_max_per_minute s = M"
  then show "rl_max_per_minute (limiter_step token s e) = M"
    by (cases e) (auto simp: request_middleware_cases check_request_frame sweep_requests_def)
next
  fix now e k and s :: RequestRateLimiter
  assume "rl_max_per_minute s = M" "limiter_admits token s e = Some k"
  then show "\<exists>n st. request_window (limiter_step token s e) k = Some (Suc n, st) \<and> Suc n \<le> M \<and> event_time e < st + 60000
      \<and> (request_window s k = Some (n, st) \<or> n = 0 \<and> st = event_time e
           \<and> (\<forall>m st'. request_window s k = Some (m, st') \<longrightarrow> st' + 60000 \<le> event_time e))"
    using check_request_admit by (cases e) (auto simp: request_middleware_cases split: if_splits)
next
  fix now e k and s :: RequestRateLimiter
  assume "rl_max_per_minute s = M" and no: "limiter_admits token s e \<noteq> Some k"
  show "request_window (limiter_step token s e) k = request_window s k
      \<or> request_window (limiter_step token s e) k \<in> {None, Some (0, event_time e)}
        \<and> (\<forall>m st'. request_window s k = Some (m, st') \<longrightarrow> st' + 60000 \<le> event_time e)"
  proof (cases e)
    case (Arrives t req)
    show ?thesis
    proof (cases "counted token req \<and> k = extract_client_ip req")
      case True
      then have "fst (check_request t k s) \<noteq> Inr ()"
        using no Arrives by (auto simp: request_middleware_cases)
      from check_request_keep [OF this] show ?thesis using True Arrives by (auto simp: request_middleware_cases)
    next
      case False
      then show ?thesis
        using Arrives by (auto simp: request_middleware_cases request_window_def check_request_frame)
    qed
  next
    case (Sweeps t)
    then show ?thesis using sweep_requests_window [of t s k] by auto
  qed
qed

text \<open>The limiter of violation reports has the same windows; its entries are forgotten after five
  idle minutes, which is longer than a window.\<close>

definition csp_window :: "('ip \<rightharpoonup> Bucket) \<Rightarrow> 'ip \<Rightarrow> (nat \<times> nat) option" where
  "csp_window b ip = map_option (\<lambda>e. (bk_tokens e, bk_window_start e)) (b ip)"

definition csp_seen :: "nat \<Rightarrow> ('ip \<rightharpoonup> Bucket) \<Rightarrow> bool" where
  "csp_seen now b \<longleftrightarrow> (\<forall>ip e. b ip = Some e \<longrightarrow> bk_window_start e \<le> bk_last_seen e \<and> bk_last_seen e \<le> now)"

definition csp_step :: "('ip \<rightharpoonup> Bucket) \<Rightarrow> instant \<times> 'ip \<Rightarrow> ('ip \<rightharpoonup> Bucket)" where
  "csp_step b e = snd (csp_check (fst e) (snd e) b)"

definition csp_admits :: "('ip \<rightharpoonup> Bucket) \<Rightarrow> instant \<times> 'ip \<Rightarrow> 'ip option" where
  "csp_admits b e = (if fst (csp_check (fst e) (snd e) b) then Some (snd e) else None)"

lemmas csp_defs = csp_check_def csp_window_def csp_step_def csp_admits_def Let_def
  CSP_REPORT_PER_IP_RPM_def CSP_REPORT_IDLE_EVICT_SECS_def secs_def

lemma csp_seen_step: "\<lbrakk>csp_seen now b; now \<le> t\<rbrakk> \<Longrightarrow> csp_seen t (csp_step b (t, ip))"
  unfolding csp_seen_def
  by (force simp: csp_defs split: option.splits if_splits)

lemma csp_own_admit:
  assumes "csp_admits b (t, ip) = Some ip" "csp_seen now b"
  shows "\<exists>n st. csp_window (csp_step b (t, ip)) ip = Some (Suc n, st) \<and> Suc n \<le> CSP_REPORT_PER_IP_RPM
           \<and> t < st + 60000
           \<and> (csp_window b ip = Some (n, st) \<or> n = 0 \<and> st = t
                \<and> (\<forall>m st'. csp_window b ip = Some (m, st') \<longrightarrow> st' + 60000 \<le> t))"
proof (cases "b ip")
  case (Some e)
  then have "bk_window_start e \<le> bk_last_seen e" using assms(2) by (auto simp: csp_seen_def)
  then show ?thesis using Some assms(1) by (auto simp: csp_defs split: if_splits)
qed (use assms(1) in \<open>auto simp: csp_defs\<close>)

lemma csp_own_keep:
  assumes "csp_admits b (t, ip) \<noteq> Some ip"
  shows "csp_window (csp_step b (t, ip)) ip = csp_window b ip"
  using assms by (cases "b ip") (auto simp: csp_defs split: if_splits)

lemma csp_other_keep:
  assumes "k \<noteq> ip" "csp_seen now b"
  shows "csp_window (csp_step b (t, ip)) k = csp_window b k
         \<or> csp_window (csp_step b (t, ip)) k = None
           \<and> (\<forall>m st. csp_window b k = Some (m, st) \<longrightarrow> st + 60000 \<le> t)"
proof (cases "b k")
  case (Some e)
  then have "bk_window_start e \<le> bk_last_seen e" using assms(2) by (auto simp: csp_seen_def)
  then show ?thesis using Some assms(1) by (auto simp: csp_defs)
qed (use assms(1) in \<open>auto simp: csp_defs\<close>)

interpretation reports: fixed_window csp_step csp_window csp_admits fst 60000 CSP_REPORT_PER_IP_RPM csp_seen
proof unfold_locales
  show "(0::nat) < 60000" by simp
next
  fix now and b :: "'b \<rightharpoonup> Bucket" and e :: "nat \<times> 'b"
  assume "csp_seen now b" "now \<le> fst e"
  then show "csp_seen (fst e) (csp_step b e)" using csp_seen_step [of now b "fst e" "snd e"] by simp
next
  fix now k and b :: "'b \<rightharpoonup> Bucket" and e :: "nat \<times> 'b"
  assume "csp_seen now b" and k: "csp_admits b e = Some k"
  moreover have "snd e = k" using k by (simp add: csp_admits_def split: if_splits)
  ultimately show "\<exists>n st. csp_window (csp_step b e) k = Some (Suc n, st) \<and> Suc n \<le> CSP_REPORT_PER_IP_RPM
      \<and> fst e < st + 60000
      \<and> (csp_window b k = Some (n, st) \<or> n = 0 \<and> st = fst e
           \<and> (\<forall>m st'. csp_window b k = Some (m, st') \<longrightarrow> st' + 60000 \<le> fst e))"
    using csp_own_admit [of b "fst e" k now] by (cases e) simp
next
  fix now k and b :: "'b \<rightharpoonup> Bucket" and e :: "nat \<times> 'b"
  assume "csp_seen now b" "csp_admits b e \<noteq> Some k"
  then show "csp_window (csp_step b e) k = csp_window b k
      \<or> csp_window (csp_step b e) k \<in> {None, Some (0, fst e)}
        \<and> (\<forall>m st'. csp_window b k = Some (m, st') \<longrightarrow> st' + 60000 \<le> fst e)"
    using csp_own_keep [of b "fst e" k] csp_other_keep [of k "snd e" now b "fst e"]
    by (cases e; cases "k = snd e") auto
qed

lemma csp_reports_bounded:
  assumes "sorted (map fst es)"
  shows "length (filter (\<lambda>x. t \<le> x \<and> x < t + 60000) (passes csp_step csp_admits fst ip Map.empty es))
         \<le> 2 * CSP_REPORT_PER_IP_RPM"
  using reports.interval_bound [of 0 Map.empty ip es t] assms by (simp add: csp_seen_def csp_window_def)

text \<open>An internal error does not show through: two such answers with the same other headers look the
  same to the client.\<close>

lemma internal_error_hidden:
  assumes "hs_status r = 500" "hs_status r' = 500"
    and "filter (\<lambda>h. fst h \<noteq> ''content-length'' \<and> fst h \<noteq> ''content-type'') (hs_headers r)
       = filter (\<lambda>h. fst h \<noteq> ''content-length'' \<and> fst h \<noteq> ''content-type'') (hs_headers r')"
  shows "sanitize_internal_error r = sanitize_internal_error (r' :: http_response)"
  using assms by (simp add: sanitize_internal_error_def)

section \<open>Who is let in\<close>

text \<open>What opens the door without a credential, the pairs of the query of a WebSocket connection, and
  the tickets that are still good.\<close>

definition open_path :: "http_request \<Rightarrow> bool" where
  "open_path req \<longleftrightarrow>
     hq_path req \<in> set PUBLIC_EXACT \<or> (\<exists>p \<in> set PUBLIC_PREFIX. starts_with p (hq_path req))
     \<or> is_loopback (extract_client_ip req)
         \<and> (hq_path req \<in> set LOOPBACK_EXACT \<or> (\<exists>p \<in> set LOOPBACK_PREFIX. starts_with p (hq_path req)))
     \<or> is_docker_gateway (extract_client_ip req)
         \<and> (hq_path req = ''/api/sandbox/tool-call'' \<or> hq_path req = ''/api/sandbox/tool-search'')"

definition fresh_ticket :: "instant \<Rightarrow> tickets \<Rightarrow> string \<Rightarrow> bool" where
  "fresh_ticket now store t \<longleftrightarrow> (\<exists>created. store t = Some created \<and> now < created + 30000)"

definition query_pairs :: "http_request \<Rightarrow> string list" where
  "query_pairs req =
     (if starts_with ''/ws'' (hq_path req)
      then (case hq_query req of Some q \<Rightarrow> split_on (CHR ''&'') q | None \<Rightarrow> []) else [])"

definition shows_ticket :: "instant \<Rightarrow> tickets \<Rightarrow> string list \<Rightarrow> bool" where
  "shows_ticket now store pairs \<longleftrightarrow> list_ex (\<lambda>pair. case strip_prefix ''ticket='' pair of Some t \<Rightarrow> fresh_ticket now store t | None \<Rightarrow> False) pairs"

lemma fresh_secs: "elapsed_secs (now - created) < TICKET_TTL_SECS \<longleftrightarrow> now < created + 30000"
  unfolding elapsed_secs_def TICKET_TTL_SECS_def by (auto simp: div_less_iff_less_mult)

lemma validate_ticket_cases:
  "fst (validate_ws_ticket now t store) = fresh_ticket now store t"
  "snd (validate_ws_ticket now t store) = store(t := None)"
  by (auto simp: validate_ws_ticket_def fresh_ticket_def fresh_secs split: option.splits)

lemma shows_ticket_iff:
  "shows_ticket now store pairs \<longleftrightarrow>
     (\<exists>pair t. pair \<in> set pairs \<and> strip_prefix ''ticket='' pair = Some t \<and> fresh_ticket now store t)"
  by (induction pairs) (auto simp: shows_ticket_def split: option.splits)

lemma shows_dead_ticket:
  "\<not> fresh_ticket now store v \<Longrightarrow> shows_ticket now (store(v := None)) pairs = shows_ticket now store pairs"
proof -
  assume v: "\<not> fresh_ticket now store v"
  have "fresh_ticket now (store(v := None)) t = fresh_ticket now store t" for t
    using v by (cases "t = v") (simp_all add: fresh_ticket_def)
  then show ?thesis by (simp add: shows_ticket_def cong: option.case_cong)
qed

lemma ticket_loop_served: "fst (ticket_loop now pairs store) = shows_ticket now store pairs"
proof (induction pairs arbitrary: store)
  case (Cons pair pairs)
  have step: "shows_ticket now store (pair # pairs) \<longleftrightarrow>
      (case strip_prefix ''ticket='' pair of Some t \<Rightarrow> fresh_ticket now store t | None \<Rightarrow> False)
      \<or> shows_ticket now store pairs"
    by (simp add: shows_ticket_def)
  show ?case
  proof (cases "strip_prefix ''ticket='' pair")
    case None
    then show ?thesis using Cons.IH step by simp
  next
    case (Some v)
    have "validate_ws_ticket now v store = (fresh_ticket now store v, store(v := None))"
      by (simp add: prod_eq_iff validate_ticket_cases del: fun_upd_apply)
    then have "fst (ticket_loop now (pair # pairs) store) =
        (if fresh_ticket now store v then True else fst (ticket_loop now pairs (store(v := None))))"
      using Some by simp
    then show ?thesis
      unfolding Cons.IH step using Some shows_dead_ticket [of now store v pairs] by simp
  qed
qed (simp add: shows_ticket_def)

lemma if_thrice: "(if a then x else if b then x else if c then x else y) = (if a \<or> b \<or> c then x else y)"
  by simp

lemma auth_middleware_cases:
  "auth_middleware now token req lim store =
     (let ip = extract_client_ip req; store' = snd (ticket_loop now (query_pairs req) store) in
      if open_path req then (Served, lim, store)
      else if valid_bearer req token then (Served, auth_record_success ip lim, store)
      else if shows_ticket now store (query_pairs req) then (Served, auth_record_success ip lim, store')
      else if \<not> is_loopback ip \<and> is_locked now ip lim then (TooManyRequests, lim, store')
      else if \<not> is_loopback ip \<and> \<not> is_static_asset (hq_path req) \<and> \<not> starts_with ''/api/setup/'' (hq_path req)
      then (Unauthorized, auth_record_failure now ip lim, store')
      else (Unauthorized, lim, store'))"
proof -
  have loop: "(if starts_with ''/ws'' (hq_path req)
       then (case hq_query req of Some q \<Rightarrow> ticket_loop now (split_on (CHR ''&'') q) store | None \<Rightarrow> (False, store))
       else (False, store)) = (shows_ticket now store (query_pairs req), snd (ticket_loop now (query_pairs req) store))"
    using ticket_loop_served [of now "query_pairs req" store]
    by (cases "hq_query req"; cases "starts_with ''/ws'' (hq_path req)")
      (simp_all add: query_pairs_def prod_eq_iff shows_ticket_def)
  show ?thesis
    unfolding auth_middleware_def Let_def loop open_path_def prod.case by (simp only: if_thrice disj_assoc)
qed

text \<open>C15. A request is served exactly when its path is open to everyone, when it comes from the machine
  itself or from the bridge of the containers and asks for one of their few paths, when it carries
  the expected token, or when it opens a WebSocket with a ticket that was issued less than thirty
  seconds ago and not used since; in particular nothing the rate limiter holds can keep a valid
  token out.\<close>

theorem auth_middleware_served:
  "fst (auth_middleware now token req lim store) = Served \<longleftrightarrow>
     open_path req \<or> valid_bearer req token
     \<or> (\<exists>pair t. pair \<in> set (query_pairs req) \<and> strip_prefix ''ticket='' pair = Some t \<and> fresh_ticket now store t)"
  unfolding shows_ticket_iff [symmetric] by (simp add: auth_middleware_cases Let_def)


definition outside_get :: "instant \<Rightarrow> limiter_event" where
  "outside_get now = Arrives now \<lparr>hq_path = ''/api/agents'', hq_query = None, hq_authorization = None,
     hq_peer = Some ''9.9.9.9''\<rparr>"


section \<open>Tickets are one-time\<close>

text \<open>The door of the server: its limiter and its tickets.  A request that is let through to the path
  of the tickets (a POST) gets one, \<open>new_ticket\<close>, the text that the generator drew.\<close>

datatype door_event = Visits instant http_request string | SweepsAuth instant

type_synonym door = "AuthRateLimiter \<times> tickets"

fun door_step :: "string \<Rightarrow> door \<Rightarrow> door_event \<Rightarrow> door" where
  "door_step token (lim, store) (Visits now req new_ticket) =
     (case auth_middleware now token req lim store of
        (v, lim', store') \<Rightarrow>
          (lim', if v = Served \<and> hq_path req = ''/api/auth/ws-ticket'' then api_create_ws_ticket now new_ticket store'
                 else store'))"
| "door_step token (lim, store) (SweepsAuth now) = (sweep_auth now lim, store)"

fun asks_ticket :: "string \<Rightarrow> door_event \<Rightarrow> bool" where
  "asks_ticket token (Visits now req t) = (hq_path req = ''/api/auth/ws-ticket'' \<and> valid_bearer req token)"
| "asks_ticket token (SweepsAuth now) = False"

fun by_ticket :: "string \<Rightarrow> door \<Rightarrow> door_event \<Rightarrow> bool" where
  "by_ticket token (lim, store) (Visits now req t) =
     (\<not> open_path req \<and> \<not> valid_bearer req token \<and> fst (auth_middleware now token req lim store) = Served)"
| "by_ticket token (lim, store) (SweepsAuth now) = False"

fun ticket_visits :: "string \<Rightarrow> door \<Rightarrow> door_event list \<Rightarrow> nat" where
  "ticket_visits token d [] = 0"
| "ticket_visits token d (e # es) =
     (if by_ticket token d e then 1 else 0) + ticket_visits token (door_step token d e) es"

lemma ticket_loop_dom: "dom (snd (ticket_loop now pairs store)) \<subseteq> dom store"
proof (induction pairs arbitrary: store)
  case (Cons pair pairs)
  show ?case
  proof (cases "strip_prefix ''ticket='' pair")
    case (Some v)
    have "validate_ws_ticket now v store = (fresh_ticket now store v, store(v := None))"
      by (simp add: prod_eq_iff validate_ticket_cases del: fun_upd_apply)
    moreover have "dom (store(v := None)) \<subseteq> dom store" by auto
    ultimately show ?thesis using Some Cons.IH [of "store(v := None)"] by (auto simp del: fun_upd_apply)
  qed (use Cons.IH in simp)
qed simp

lemma ticket_loop_consumes:
  "fst (ticket_loop now pairs store) \<Longrightarrow> dom (snd (ticket_loop now pairs store)) \<subset> dom store"
proof (induction pairs arbitrary: store)
  case (Cons pair pairs)
  show ?case
  proof (cases "strip_prefix ''ticket='' pair")
    case (Some v)
    have v: "validate_ws_ticket now v store = (fresh_ticket now store v, store(v := None))"
      by (simp add: prod_eq_iff validate_ticket_cases del: fun_upd_apply)
    have sub: "dom (store(v := None)) \<subseteq> dom store" by auto
    show ?thesis
    proof (cases "fresh_ticket now store v")
      case True
      then have "v \<in> dom store" by (auto simp: fresh_ticket_def)
      then have "dom (store(v := None)) \<subset> dom store" unfolding dom_fun_upd by auto
      then show ?thesis using True Some v by (simp del: fun_upd_apply dom_fun_upd)
    next
      case False
      then have "fst (ticket_loop now pairs (store(v := None)))" using Cons.prems Some v by (simp del: fun_upd_apply)
      from Cons.IH [OF this] sub show ?thesis using False Some v by (auto simp del: fun_upd_apply)
    qed
  qed (use Cons in simp)
qed simp

lemma auth_store_dom:
  "dom (snd (snd (auth_middleware now token req lim store))) \<subseteq> dom store"
  by (simp add: auth_middleware_cases Let_def ticket_loop_dom)

lemma create_ticket_dom: "dom (api_create_ws_ticket now t store) \<subseteq> insert t (dom store)"
  by (auto simp: api_create_ws_ticket_def split: option.splits if_splits)

lemma ticket_path_closed:
  assumes "hq_path req = ''/api/auth/ws-ticket''"
  shows "\<not> open_path req" "query_pairs req = []"
  using assms
  by (simp_all add: open_path_def query_pairs_def PUBLIC_EXACT_def PUBLIC_PREFIX_def LOOPBACK_EXACT_def
      LOOPBACK_PREFIX_def starts_with_def)

lemma door_step_tickets:
  assumes "finite (dom (snd d))"
  shows "finite (dom (snd (door_step token d e)))
       \<and> card (dom (snd (door_step token d e))) + (if by_ticket token d e then 1 else 0)
         \<le> card (dom (snd d)) + (if asks_ticket token e then 1 else 0)"
proof -
  obtain lim store where d: "d = (lim, store)" by (cases d)
  then have fin: "finite (dom store)" using assms by simp
  show ?thesis
  proof (cases e)
    case (SweepsAuth now)
    then show ?thesis using d fin by simp
  next
    case (Visits now req t)
    obtain v lim' store' where a: "auth_middleware now token req lim store = (v, lim', store')"
      by (cases "auth_middleware now token req lim store") auto
    have sub: "dom store' \<subseteq> dom store" using auth_store_dom [of now token req lim store] a by simp
    then have fin': "finite (dom store')" and le: "card (dom store') \<le> card (dom store)"
      using fin by (auto intro: finite_subset card_mono)
    show ?thesis
    proof (cases "hq_path req = ''/api/auth/ws-ticket''")
      case True
      note closed = ticket_path_closed [OF True]
      have v: "v = Served \<longleftrightarrow> valid_bearer req token"
        using auth_middleware_cases [of now token req lim store] closed a
        by (auto simp: Let_def shows_ticket_def split: if_splits)
      have "card (insert t (dom store')) \<le> Suc (card (dom store))"
        using le fin' by (simp add: card_insert_if)
      then have "card (dom (api_create_ws_ticket now t store')) \<le> Suc (card (dom store))"
        using card_mono [OF _ create_ticket_dom [of now t store']] fin' by (meson finite_insert le_trans)
      moreover have "finite (dom (api_create_ws_ticket now t store'))"
        using create_ticket_dom fin' by (meson finite_insert finite_subset)
      ultimately show ?thesis using True Visits d a v fin' le by auto
    next
      case False
      have "card (dom store') < card (dom store)" if "by_ticket token d e"
      proof -
        have "shows_ticket now store (query_pairs req)" "store' = snd (ticket_loop now (query_pairs req) store)"
          using that Visits d a auth_middleware_cases [of now token req lim store]
          by (auto simp: Let_def split: if_splits)
        then have "dom store' \<subset> dom store" using ticket_loop_consumes ticket_loop_served by simp
        then show ?thesis using fin by (simp add: psubset_card_mono)
      qed
      then show ?thesis using False Visits d a fin' le by auto
    qed
  qed
qed

text \<open>C34. In any run of the server that starts without tickets, the connections let in by a ticket are at
  most as many as the requests for a ticket that carried the expected token: no ticket opens the
  door twice.\<close>

theorem ticket_visits_bounded:
  "ticket_visits token (lim, Map.empty) es \<le> length (filter (asks_ticket token) es)"
proof -
  have "ticket_visits token d es \<le> card (dom (snd d)) + length (filter (asks_ticket token) es)"
    if "finite (dom (snd d))" for d
    using that
  proof (induction es arbitrary: d)
    case (Cons e es)
    from door_step_tickets [OF Cons.prems, of token e] Cons.IH [of "door_step token d e"]
    show ?case by (auto split: if_splits)
  qed simp
  from this [of "(lim, Map.empty)"] show ?thesis by simp
qed

section \<open>Lockout\<close>

lemma auth_failure_frame [simp]:
  "al_max_attempts (auth_record_failure t ip l) = al_max_attempts l"
  "al_lockout_secs (auth_record_failure t ip l) = al_lockout_secs l"
  by (simp_all add: auth_record_failure_def Let_def split: prod.split)

lemma auth_failure_counts:
  assumes "al_state l ip = Some (n, t0, None)" "t \<le> t0 + secs (al_lockout_secs l)"
  shows "al_state (auth_record_failure t ip l) ip =
     Some (Suc n, t0, if al_max_attempts l \<le> Suc n then Some (t + secs (al_lockout_secs l)) else None)"
proof -
  have "(t - t0) div 1000 \<le> al_lockout_secs l"
    using assms(2) unfolding secs_def by (metis add.commute div_le_mono le_diff_conv nonzero_mult_div_cancel_right zero_neq_numeral)
  then show ?thesis using assms(1) by (auto simp: auth_record_failure_def elapsed_secs_def Let_def)
qed

lemma failures_lock:
  "\<lbrakk>al_state l ip = Some (n, t0, None); n + length ts = al_max_attempts l; ts \<noteq> [];
    \<And>t. t \<in> set ts \<Longrightarrow> t \<le> t0 + secs (al_lockout_secs l)\<rbrakk> \<Longrightarrow>
   al_state (foldl (\<lambda>l t. auth_record_failure t ip l) l ts) ip =
     Some (al_max_attempts l, t0, Some (last ts + secs (al_lockout_secs l)))"
proof (induction ts arbitrary: n l)
  case (Cons t ts)
  have t: "al_state (auth_record_failure t ip l) ip =
     Some (Suc n, t0, if al_max_attempts l \<le> Suc n then Some (t + secs (al_lockout_secs l)) else None)"
    using Cons.prems by (intro auth_failure_counts) auto
  show ?case
  proof (cases "ts = []")
    case True
    then show ?thesis using t Cons.prems(2) by simp
  next
    case False
    then have "\<not> al_max_attempts l \<le> Suc n" using Cons.prems(2) by (cases ts) auto
    then show ?thesis
      using Cons.IH [of "auth_record_failure t ip l" "Suc n"] Cons.prems t False by simp
  qed
qed simp

lemma first_failure:
  assumes "al_state l ip = None"
  shows "al_state (auth_record_failure t ip l) ip =
     Some (1, t, if al_max_attempts l \<le> 1 then Some (t + secs (al_lockout_secs l)) else None)"
  using assms by (auto simp: auth_record_failure_def elapsed_secs_def Let_def)

lemma sorted_le_last: "\<lbrakk>sorted xs; x \<in> set xs\<rbrakk> \<Longrightarrow> x \<le> last xs"
  by (induction xs) (auto split: if_splits)

lemma lockout_state:
  assumes "al_state l ip = None" "ts \<noteq> []" "length ts = al_max_attempts l" "sorted ts"
    and "last ts \<le> hd ts + secs (al_lockout_secs l)"
  shows "al_state (foldl (\<lambda>l t. auth_record_failure t ip l) l ts) ip =
     Some (al_max_attempts l, hd ts, Some (last ts + secs (al_lockout_secs l)))"
proof -
  obtain t ts' where ts: "ts = t # ts'" using assms(2) by (cases ts) auto
  show ?thesis
  proof (cases "ts' = []")
    case True
    then show ?thesis using ts assms(3) first_failure [OF assms(1), of t] by simp
  next
    case False
    have up: "x \<le> t + secs (al_lockout_secs l)" if "x \<in> set ts'" for x
    proof -
      have "x \<le> last ts'" using assms(4) that ts by (auto intro: sorted_le_last)
      then show ?thesis using assms(5) ts False by simp
    qed
    have "\<not> al_max_attempts l \<le> 1" using False assms(3) ts by (cases ts') auto
    then have s: "al_state (auth_record_failure t ip l) ip = Some (1, t, None)"
      using first_failure [OF assms(1), of t] by simp
    from failures_lock [OF s, of ts'] show ?thesis using up False assms(3) ts by simp
  qed
qed

text \<open>After as many failures as the limiter allows, all within the length of a lockout, every
  request of the address that does not authenticate is answered with 429 until the lockout has
  passed since the last of them.\<close>

theorem lockout_answers_429:
  assumes "al_state lim ip = None" "ts \<noteq> []" "length ts = al_max_attempts lim" "sorted ts"
    and "last ts \<le> hd ts + secs (al_lockout_secs lim)" "now < last ts + secs (al_lockout_secs lim)"
    and "extract_client_ip req = ip" "\<not> is_loopback ip"
    and "fst (auth_middleware now token req (foldl (\<lambda>l t. auth_record_failure t ip l) lim ts) store) \<noteq> Served"
  shows "fst (auth_middleware now token req (foldl (\<lambda>l t. auth_record_failure t ip l) lim ts) store) = TooManyRequests"
proof -
  have "is_locked now ip (foldl (\<lambda>l t. auth_record_failure t ip l) lim ts)"
    using lockout_state [OF assms(1-5)] assms(6) by (simp add: is_locked_def)
  then show ?thesis using assms(7-9) by (auto simp: auth_middleware_cases Let_def split: if_splits)
qed

definition wrong_token :: "string \<Rightarrow> http_request" where
  "wrong_token path = \<lparr>hq_path = path, hq_query = None, hq_authorization = Some ''Bearer guess'',
     hq_peer = Some ''9.9.9.9''\<rparr>"

lemma wrong_token_not_served:
  assumes "path = ''/api/agents''"
  shows "fst (auth_middleware now ''secret'' (wrong_token path) lim store) \<noteq> Served"
  using assms
  by (simp add: auth_middleware_cases Let_def wrong_token_def open_path_def PUBLIC_EXACT_def PUBLIC_PREFIX_def
      starts_with_def extract_client_ip_def is_loopback_def is_docker_gateway_def valid_bearer_def
      shows_ticket_def query_pairs_def)

theorem lockout_answers_429_witness:
  "fst (auth_middleware 30999 ''secret'' (wrong_token ''/api/agents'')
     (foldl (\<lambda>l t. auth_record_failure t ''9.9.9.9'' l) (new_auth_limiter 2 30) [0, 1000]) Map.empty) = TooManyRequests"
  by (rule lockout_answers_429 [OF _ _ _ _ _ _ _ _ wrong_token_not_served])
    (simp_all add: new_auth_limiter_def secs_def extract_client_ip_def wrong_token_def is_loopback_def starts_with_def)

text \<open>The failure that follows a lockout locks again at once, although the lockout has expired: only
  the sweep forgets an expired lockout, and a failure is only counted afresh when there was none.\<close>

lemma expired_lockout_relocks:
  assumes "al_state l ip = Some (n, t0, Some until)" "al_max_attempts l \<le> Suc n" "until \<le> now"
    and "t < now + secs (al_lockout_secs l)"
  shows "\<not> is_locked now ip l" "is_locked t ip (auth_record_failure now ip l)"
  using assms by (auto simp: is_locked_def auth_record_failure_def Let_def)

text \<open>A wrong token on a path that ends like a static file is never counted, so it can be tried without
  end.\<close>

lemma asset_paths_escape_lockout:
  assumes "\<not> is_loopback (extract_client_ip req)" "is_static_asset (hq_path req)"
    and "fst (auth_middleware now token req lim store) = Unauthorized"
  shows "fst (snd (auth_middleware now token req lim store)) = lim"
  using assms by (auto simp: auth_middleware_cases Let_def split: if_splits)

lemma asset_path_example:
  "fst (auth_middleware now ''secret'' (wrong_token ''/api/agents/a.js'') (new_auth_limiter 1 30) store) = Unauthorized"
  by (simp add: auth_middleware_cases Let_def wrong_token_def open_path_def PUBLIC_EXACT_def PUBLIC_PREFIX_def
      starts_with_def extract_client_ip_def is_loopback_def is_docker_gateway_def valid_bearer_def
      shows_ticket_def query_pairs_def is_locked_def new_auth_limiter_def)

end
