(* ===== verification/Channel_Access.thy ===== *)
theory Channel_Access
  imports Approvals Gateway_Auth "HOL-Library.AList"
begin

text \<open>
  Who may talk to an agent on a chat channel: the allowed users and the pairing codes
  (\<open>db/access.rs\<close>), the guard with its protection against guessed codes (\<open>channels/access.rs\<close>), the
  endpoints and channel messages that use it (\<open>gateway/handlers/access.rs\<close>,
  \<open>channel_ws/inline.rs\<close>), the button by which the owner decides an approval, and the throttle of
  webhook secrets (\<open>gateway/handlers/webhooks.rs\<close>).

  Timestamps and instants are milliseconds.  A flag \<open>reached\<close> says whether the database answered a
  statement; a statement that fails changes nothing.  The two protections against guessing share
  one contract, the locale \<open>failure_lockout\<close>, which rests on \<open>fixed_window\<close>.
\<close>

section \<open>Tables\<close>

record AllowedUser =
  au_agent_id :: string
  au_channel_user_id :: string
  au_display_name :: "string option"
  au_approved_by :: string
  au_approved_at :: timestamp

record PairingCode =
  pc_code :: string
  pc_agent_id :: string
  pc_channel_user_id :: string
  pc_display_name :: "string option"
  pc_created_at :: timestamp

definition is_user_allowed :: "string \<Rightarrow> string \<Rightarrow> AllowedUser list \<Rightarrow> bool" where
  "is_user_allowed agent user rows = list_ex (\<lambda>r. au_agent_id r = agent \<and> au_channel_user_id r = user) rows"

definition add_allowed_user ::
  "timestamp \<Rightarrow> string \<Rightarrow> string \<Rightarrow> string option \<Rightarrow> string \<Rightarrow> AllowedUser list \<Rightarrow> AllowedUser list" where
  "add_allowed_user utc agent user nm approver rows =
     (if is_user_allowed agent user rows then rows
      else rows @ [\<lparr>au_agent_id = agent, au_channel_user_id = user, au_display_name = nm,
                    au_approved_by = approver, au_approved_at = utc\<rparr>])"

definition remove_allowed_user :: "string \<Rightarrow> string \<Rightarrow> AllowedUser list \<Rightarrow> bool \<times> AllowedUser list" where
  "remove_allowed_user agent user rows =
     (is_user_allowed agent user rows,
      filter (\<lambda>r. \<not> (au_agent_id r = agent \<and> au_channel_user_id r = user)) rows)"

definition list_allowed_users :: "string \<Rightarrow> AllowedUser list \<Rightarrow> AllowedUser list" where
  "list_allowed_users agent rows = sort_key au_approved_at (filter (\<lambda>r. au_agent_id r = agent) rows)"

definition code_row :: "string \<Rightarrow> string \<Rightarrow> PairingCode \<Rightarrow> bool" where
  "code_row agent code r \<longleftrightarrow> pc_agent_id r = agent \<and> pc_code r = code"

text \<open>The primary key is the pair of agent and code; a conflict rolls the transaction back.\<close>

definition store_pairing_code ::
  "timestamp \<Rightarrow> string \<Rightarrow> string \<Rightarrow> string \<Rightarrow> string option \<Rightarrow> PairingCode list \<Rightarrow> PairingCode list option" where
  "store_pairing_code utc agent code user nm rows =
     (let rows1 = filter (\<lambda>r. \<not> (pc_agent_id r = agent \<and> pc_channel_user_id r = user)) rows
      in if list_ex (code_row agent code) rows1 then None
         else Some (rows1 @ [\<lparr>pc_code = code, pc_agent_id = agent, pc_channel_user_id = user,
                              pc_display_name = nm, pc_created_at = utc\<rparr>]))"

definition take_pairing_code ::
  "timestamp \<Rightarrow> string \<Rightarrow> string \<Rightarrow> PairingCode list \<Rightarrow> (string \<times> string option \<times> bool) option \<times> PairingCode list" where
  "take_pairing_code utc agent code rows =
     (case find (code_row agent code) rows of
        None \<Rightarrow> (None, rows)
      | Some r \<Rightarrow> (Some (pc_channel_user_id r, pc_display_name r, 301000 \<le> utc - pc_created_at r),
                   filter (\<lambda>r. \<not> code_row agent code r) rows))"

definition remove_pairing_code :: "string \<Rightarrow> string \<Rightarrow> PairingCode list \<Rightarrow> bool \<times> PairingCode list" where
  "remove_pairing_code agent code rows =
     (list_ex (code_row agent code) rows, filter (\<lambda>r. \<not> code_row agent code r) rows)"

definition list_pairing_codes ::
  "timestamp \<Rightarrow> bool \<Rightarrow> string \<Rightarrow> PairingCode list \<Rightarrow> PairingCode list \<times> PairingCode list" where
  "list_pairing_codes utc reached agent rows =
     (sort_key pc_created_at (filter (\<lambda>r. pc_agent_id r = agent \<and> utc - 300000 < pc_created_at r) rows),
      if reached then filter (\<lambda>r. \<not> pc_created_at r \<le> utc - 300000) rows else rows)"

section \<open>Guessed codes\<close>

definition MAX_PAIRING_FAILURES :: nat where "MAX_PAIRING_FAILURES = 10"
definition PAIRING_FAILURE_WINDOW :: nat where "PAIRING_FAILURE_WINDOW = secs (5 * 60)"
definition PAIRING_LOCKOUT_DURATION :: nat where "PAIRING_LOCKOUT_DURATION = secs (15 * 60)"

record PairingAttempt =
  pt_fail_count :: nat
  pt_first_failure :: instant
  pt_locked_until :: "instant option"

type_synonym attempts = "string \<rightharpoonup> PairingAttempt"

definition pairing_lockout_remaining :: "instant \<Rightarrow> string \<Rightarrow> attempts \<Rightarrow> nat option" where
  "pairing_lockout_remaining now agent att =
     (case att agent of
        Some e \<Rightarrow> (case pt_locked_until e of
                    Some u \<Rightarrow> if now < u then Some (elapsed_secs (u - now)) else None
                  | None \<Rightarrow> None)
      | None \<Rightarrow> None)"

definition sweep_stale_pairing_entries :: "instant \<Rightarrow> attempts \<Rightarrow> attempts" where
  "sweep_stale_pairing_entries now att =
     (\<lambda>a. case att a of
            Some e \<Rightarrow> if (case pt_locked_until e of Some t \<Rightarrow> now < t | None \<Rightarrow> False)
                         \<or> now - pt_first_failure e \<le> PAIRING_FAILURE_WINDOW
                      then Some e else None
          | None \<Rightarrow> None)"

definition record_pairing_failure :: "instant \<Rightarrow> string \<Rightarrow> attempts \<Rightarrow> attempts" where
  "record_pairing_failure now agent att0 =
     (let att = sweep_stale_pairing_entries now att0;
          fresh = \<lparr>pt_fail_count = 0, pt_first_failure = now, pt_locked_until = None\<rparr>;
          e0 = (case att agent of Some e \<Rightarrow> e | None \<Rightarrow> fresh);
          e1 = (if PAIRING_FAILURE_WINDOW < now - pt_first_failure e0 then fresh else e0);
          e2 = e1\<lparr>pt_fail_count := Suc (pt_fail_count e1)\<rparr>;
          e3 = (if MAX_PAIRING_FAILURES \<le> pt_fail_count e2
                then e2\<lparr>pt_locked_until := Some (now + PAIRING_LOCKOUT_DURATION)\<rparr> else e2)
      in att(agent \<mapsto> e3))"

definition clear_pairing_failures :: "instant \<Rightarrow> string \<Rightarrow> attempts \<Rightarrow> attempts" where
  "clear_pairing_failures now agent att =
     (case att agent of
        Some e \<Rightarrow> att(agent \<mapsto> \<lparr>pt_fail_count = 0, pt_first_failure = now, pt_locked_until = None\<rparr>)
      | None \<Rightarrow> att)"

section \<open>Guard\<close>

record AccessGuard =
  ag_agent_id :: string
  ag_owner_id :: "string option"
  ag_restricted :: bool

text \<open>The tables, the counters of the process and the guards of the running agents.\<close>

record access_world =
  xw_allowed :: "AllowedUser list"
  xw_codes :: "PairingCode list"
  xw_attempts :: attempts
  xw_guards :: "string \<rightharpoonup> AccessGuard"

definition is_owner :: "AccessGuard \<Rightarrow> string \<Rightarrow> bool" where
  "is_owner g user \<longleftrightarrow> ag_owner_id g = Some user"

definition is_allowed :: "bool \<Rightarrow> AccessGuard \<Rightarrow> string \<Rightarrow> access_world \<Rightarrow> bool" where
  "is_allowed reached g user w \<longleftrightarrow>
     \<not> ag_restricted g \<or> is_owner g user \<or> reached \<and> is_user_allowed (ag_agent_id g) user (xw_allowed w)"

text \<open>\<open>code\<close> is the random code; it is returned whether or not it could be stored.\<close>

definition create_pairing_code ::
  "timestamp \<Rightarrow> bool \<Rightarrow> string \<Rightarrow> AccessGuard \<Rightarrow> string \<Rightarrow> string option \<Rightarrow> access_world \<Rightarrow> string \<times> access_world" where
  "create_pairing_code utc reached code g user nm w =
     (code, case (if reached then store_pairing_code utc (ag_agent_id g) code user nm (xw_codes w) else None) of
              Some rows \<Rightarrow> w\<lparr>xw_codes := rows\<rparr> | None \<Rightarrow> w)"

definition approve_pairing ::
  "timestamp \<Rightarrow> instant \<Rightarrow> bool \<Rightarrow> bool \<Rightarrow> AccessGuard \<Rightarrow> string \<Rightarrow> string \<Rightarrow> access_world \<Rightarrow>
   (bool \<times> string) \<times> access_world" where
  "approve_pairing utc now took added g code approver w =
     (let agent = ag_agent_id g
      in case pairing_lockout_remaining now agent (xw_attempts w) of
           Some remaining \<Rightarrow> ((False, ''locked_out:'' @ nat_str remaining), w)
         | None \<Rightarrow>
             let (result, w1) =
               (if \<not> took then ((False, ''db_error''), w)
                else case take_pairing_code utc agent code (xw_codes w) of
                       (None, rows) \<Rightarrow> ((False, ''not_found''), w\<lparr>xw_codes := rows\<rparr>)
                     | (Some (user, nm, True), rows) \<Rightarrow> ((False, ''expired''), w\<lparr>xw_codes := rows\<rparr>)
                     | (Some (user, nm, False), rows) \<Rightarrow>
                         (let display = (case nm of Some n \<Rightarrow> n | None \<Rightarrow> user)
                          in if added
                             then ((True, display), w\<lparr>xw_codes := rows,
                                     xw_allowed := add_allowed_user utc agent user nm approver (xw_allowed w)\<rparr>)
                             else ((False, display), w\<lparr>xw_codes := rows\<rparr>)))
             in (result, w1\<lparr>xw_attempts := (if fst result then clear_pairing_failures now agent (xw_attempts w1)
                                            else record_pairing_failure now agent (xw_attempts w1))\<rparr>))"

definition reject_pairing :: "bool \<Rightarrow> AccessGuard \<Rightarrow> string \<Rightarrow> access_world \<Rightarrow> bool \<times> access_world" where
  "reject_pairing reached g code w =
     (if reached then (let (removed, rows) = remove_pairing_code (ag_agent_id g) code (xw_codes w)
                       in (removed, w\<lparr>xw_codes := rows\<rparr>))
      else (False, w))"

definition pending_pairings_list ::
  "timestamp \<Rightarrow> bool \<Rightarrow> bool \<Rightarrow> AccessGuard \<Rightarrow> access_world \<Rightarrow> PairingCode list \<times> access_world" where
  "pending_pairings_list utc reached cleaned g w =
     (if reached then (let (codes, rows) = list_pairing_codes utc cleaned (ag_agent_id g) (xw_codes w)
                       in (codes, w\<lparr>xw_codes := rows\<rparr>))
      else ([], w))"

section \<open>Messages of a channel adapter\<close>

datatype channel_outbound =
    AccessResult bool bool
  | PairingCodeSent string
  | PairingResult bool "string option"
  | OutError string
  | OutDone string

definition handle_access_check :: "bool \<Rightarrow> string \<Rightarrow> string \<Rightarrow> access_world \<Rightarrow> channel_outbound" where
  "handle_access_check reached agent_name user w =
     (case xw_guards w agent_name of
        Some g \<Rightarrow> AccessResult (is_allowed reached g user w) (is_owner g user)
      | None \<Rightarrow> AccessResult False False)"

definition handle_pairing_create ::
  "timestamp \<Rightarrow> bool \<Rightarrow> string \<Rightarrow> string \<Rightarrow> string \<Rightarrow> string option \<Rightarrow> access_world \<Rightarrow> channel_outbound \<times> access_world"
where
  "handle_pairing_create utc reached code agent_name user nm w =
     (case xw_guards w agent_name of
        Some g \<Rightarrow> (let (c, w') = create_pairing_code utc reached code g user nm w in (PairingCodeSent c, w'))
      | None \<Rightarrow> (PairingCodeSent ''000000'', w))"

definition handle_pairing_approve ::
  "timestamp \<Rightarrow> instant \<Rightarrow> bool \<Rightarrow> bool \<Rightarrow> string \<Rightarrow> string \<Rightarrow> access_world \<Rightarrow> channel_outbound \<times> access_world"
where
  "handle_pairing_approve utc now took added agent_name code w =
     (case xw_guards w agent_name of
        Some g \<Rightarrow> (let ((ok, info), w') = approve_pairing utc now took added g code ''owner'' w
                   in (PairingResult ok (Some info), w'))
      | None \<Rightarrow> (PairingResult False (Some ''no access guard''), w))"

definition handle_pairing_reject ::
  "bool \<Rightarrow> string \<Rightarrow> string \<Rightarrow> access_world \<Rightarrow> channel_outbound \<times> access_world" where
  "handle_pairing_reject reached agent_name code w =
     (PairingResult True None,
      case xw_guards w agent_name of Some g \<Rightarrow> snd (reject_pairing reached g code w) | None \<Rightarrow> w)"

text \<open>What of an \<open>IncomingMessageDto\<close> the handlers of buttons read.\<close>

record IncomingMessageDto =
  im_user_id :: string
  im_text :: "string option"
  im_context :: json

definition is_callback :: "IncomingMessageDto \<Rightarrow> bool" where
  "is_callback msg \<longleftrightarrow> json_get (im_context msg) ''is_callback'' = Some (JBool True)"

definition approval_matches :: "IncomingMessageDto \<Rightarrow> bool" where
  "approval_matches msg \<longleftrightarrow>
     is_callback msg
     \<and> (let t = (case im_text msg of Some t \<Rightarrow> t | None \<Rightarrow> [])
        in starts_with ''approve:'' t \<or> starts_with ''reject:'' t)"

text \<open>Whether the message was consumed, what is sent, and the approvals.  \<open>parse_id\<close> reads a UUID and
  \<open>show_id\<close> writes one; \<open>err_text\<close> is the text of an error.\<close>

definition handle_approval_callback ::
  "(string \<Rightarrow> uuid option) \<Rightarrow> (uuid \<Rightarrow> string) \<Rightarrow> timestamp \<Rightarrow> uuid list \<Rightarrow> string \<Rightarrow> IncomingMessageDto \<Rightarrow>
   access_world \<Rightarrow> approval_world \<Rightarrow> bool \<times> channel_outbound list \<times> approval_world" where
  "handle_approval_callback parse_id show_id now streams agent_name msg xw w =
     (if \<not> approval_matches msg then (False, [], w)
      else
        let txt = (case im_text msg of Some t \<Rightarrow> t | None \<Rightarrow> [])
        in case (case strip_prefix ''approve:'' txt of Some s \<Rightarrow> Some s | None \<Rightarrow> strip_prefix ''reject:'' txt) of
             None \<Rightarrow> (False, [], w)
           | Some id_str \<Rightarrow>
               let approved = starts_with ''approve:'' txt;
                   owner = (case xw_guards xw agent_name of Some g \<Rightarrow> is_owner g (im_user_id msg) | None \<Rightarrow> False)
               in if \<not> owner then (True, [OutError ''Only the owner can approve or reject tool calls.''], w)
                  else case parse_id id_str of
                         None \<Rightarrow> (True, [], w)
                       | Some i \<Rightarrow>
                           (case resolve_approval now streams i approved (im_user_id msg) None w of
                              (Inr _, w') \<Rightarrow>
                                (True, [OutDone ((if approved then [CHR 0xE2, CHR 0x9C, CHR 0x85] @ '' Approved''
                                                  else [CHR 0xE2, CHR 0x9D, CHR 0x8C] @ '' Rejected'')
                                                 @ '' '' @ id_str)], w')
                            | (Inl e, w') \<Rightarrow>
                                (True, [OutError (''Failed to resolve approval: '' @ approval_error_text show_id e)], w')))"

section \<open>Endpoints\<close>

definition api_access_pending ::
  "timestamp \<Rightarrow> bool \<Rightarrow> bool \<Rightarrow> string \<Rightarrow> access_world \<Rightarrow> nat \<times> PairingCode list \<times> access_world" where
  "api_access_pending utc reached cleaned agent w =
     (case xw_guards w agent of
        None \<Rightarrow> (404, [], w)
      | Some g \<Rightarrow> (200, pending_pairings_list utc reached cleaned g w))"

definition api_access_approve ::
  "timestamp \<Rightarrow> instant \<Rightarrow> bool \<Rightarrow> bool \<Rightarrow> string \<Rightarrow> string \<Rightarrow> access_world \<Rightarrow> (nat \<times> string) \<times> access_world" where
  "api_access_approve utc now took added agent code w =
     (case xw_guards w agent of
        None \<Rightarrow> ((404, ''access control not configured for this agent''), w)
      | Some g \<Rightarrow>
          (let approver = (case ag_owner_id g of Some owner \<Rightarrow> owner | None \<Rightarrow> ''ui'');
               ((success, info), w') = approve_pairing utc now took added g code approver w
           in ((if success then 200 else 400, info), w')))"

definition api_access_reject :: "bool \<Rightarrow> string \<Rightarrow> string \<Rightarrow> access_world \<Rightarrow> nat \<times> bool \<times> access_world" where
  "api_access_reject reached agent code w =
     (case xw_guards w agent of
        None \<Rightarrow> (404, False, w)
      | Some g \<Rightarrow> (200, reject_pairing reached g code w))"

definition api_access_list_users :: "bool \<Rightarrow> string \<Rightarrow> access_world \<Rightarrow> nat \<times> AllowedUser list" where
  "api_access_list_users reached agent w =
     (case xw_guards w agent of
        None \<Rightarrow> (404, [])
      | Some g \<Rightarrow> if reached then (200, list_allowed_users agent (xw_allowed w)) else (500, []))"

definition api_access_remove_user :: "bool \<Rightarrow> string \<Rightarrow> string \<Rightarrow> access_world \<Rightarrow> nat \<times> bool \<times> access_world" where
  "api_access_remove_user reached agent user w =
     (case xw_guards w agent of
        None \<Rightarrow> (404, False, w)
      | Some g \<Rightarrow>
          if reached then (let (deleted, rows) = remove_allowed_user agent user (xw_allowed w)
                           in (200, deleted, w\<lparr>xw_allowed := rows\<rparr>))
          else (500, False, w))"

section \<open>Webhook secrets\<close>

definition WEBHOOK_AUTH_MAX_FAILURES :: nat where "WEBHOOK_AUTH_MAX_FAILURES = 5"
definition WEBHOOK_AUTH_WINDOW_SECS :: nat where "WEBHOOK_AUTH_WINDOW_SECS = 300"
definition WEBHOOK_AUTH_LOCKOUT_SECS :: nat where "WEBHOOK_AUTH_LOCKOUT_SECS = 600"

record WebhookAuthState =
  wa_failures :: nat
  wa_first_failure :: instant
  wa_locked_until :: "instant option"

type_synonym throttle = "(string \<times> WebhookAuthState) list"

definition throttle_key :: "string \<Rightarrow> string \<Rightarrow> string" where
  "throttle_key nm ip = nm @ [CHR 0x00] @ ip"

text \<open>\<open>Some\<close> is the refusal, with the seconds that remain.\<close>

definition webhook_auth_check :: "instant \<Rightarrow> string \<Rightarrow> string \<Rightarrow> throttle \<Rightarrow> nat option" where
  "webhook_auth_check now nm ip m =
     (case map_of m (throttle_key nm ip) of
        Some e \<Rightarrow> (case wa_locked_until e of
                    Some u \<Rightarrow> if now < u then Some (elapsed_secs (u - now)) else None
                  | None \<Rightarrow> None)
      | None \<Rightarrow> None)"

definition webhook_auth_failure :: "instant \<Rightarrow> string \<Rightarrow> string \<Rightarrow> throttle \<Rightarrow> throttle" where
  "webhook_auth_failure now nm ip m =
     (let k = throttle_key nm ip;
          fresh = \<lparr>wa_failures = 0, wa_first_failure = now, wa_locked_until = None\<rparr>;
          e0 = (case map_of m k of Some e \<Rightarrow> e | None \<Rightarrow> fresh);
          e1 = (if WEBHOOK_AUTH_WINDOW_SECS < elapsed_secs (now - wa_first_failure e0) then fresh else e0);
          e2 = e1\<lparr>wa_failures := Suc (wa_failures e1)\<rparr>;
          e3 = (if WEBHOOK_AUTH_MAX_FAILURES \<le> wa_failures e2
                then e2\<lparr>wa_locked_until := Some (now + secs WEBHOOK_AUTH_LOCKOUT_SECS)\<rparr> else e2);
          m1 = AList.update k e3 m
      in if 100 < length m1
         then filter (\<lambda>(_, v). (case wa_locked_until v of Some u \<Rightarrow> now < u | None \<Rightarrow> False)
                              \<or> elapsed_secs (now - wa_first_failure v) < 3600) m1
         else m1)"

definition webhook_auth_success :: "string \<Rightarrow> string \<Rightarrow> throttle \<Rightarrow> throttle" where
  "webhook_auth_success nm ip m = AList.delete (throttle_key nm ip) m"

definition webhook_auth_clear_all :: "string \<Rightarrow> throttle \<Rightarrow> throttle" where
  "webhook_auth_clear_all nm m = filter (\<lambda>(k, _). \<not> starts_with (nm @ [CHR 0x00]) k) m"

datatype WebhookType = Generic | Github

record WebhookRow =
  wr_id :: uuid
  wr_name :: string
  wr_agent_id :: string
  wr_secret :: "string option"
  wr_prompt_prefix :: "string option"
  wr_enabled :: bool
  wr_last_triggered_at :: "timestamp option"
  wr_trigger_count :: int
  wr_webhook_type :: WebhookType
  wr_event_filter :: "string list option"

text \<open>A delivery: the headers that are read, the query and the body (\<open>None\<close> when it cannot be
  read).\<close>

record delivery =
  dv_ip :: string
  dv_query :: "string option"
  dv_github_event :: "string option"
  dv_signature :: "string option"
  dv_authorization :: "string option"
  dv_body :: "string option"

datatype webhook_reply =
    WRefused nat
  | WFiltered
  | WHandled (wh_agent: string) (wh_text: string) (wh_async: bool)

record webhook_world =
  ww_rows :: "WebhookRow list"
  ww_throttle :: throttle

definition ww_failure :: "instant \<Rightarrow> string \<Rightarrow> string \<Rightarrow> webhook_world \<Rightarrow> webhook_world" where
  "ww_failure now nm ip w = w\<lparr>ww_throttle := webhook_auth_failure now nm ip (ww_throttle w)\<rparr>"

definition ww_success :: "string \<Rightarrow> string \<Rightarrow> webhook_world \<Rightarrow> webhook_world" where
  "ww_success nm ip w = w\<lparr>ww_throttle := webhook_auth_success nm ip (ww_throttle w)\<rparr>"

text \<open>The three stages of the handler: the token of a generic webhook, the signature and the filter
  of a GitHub webhook, the message for the agent.  The decoder of hexadecimal text, the HMAC, the
  text made of the body and the running agents are parameters.\<close>

definition webhook_token :: "instant \<Rightarrow> string \<Rightarrow> WebhookRow \<Rightarrow> delivery \<Rightarrow> webhook_world \<Rightarrow>
   webhook_reply option \<times> webhook_world" where
  "webhook_token now nm wh d w =
     (case (wr_webhook_type wh, wr_secret wh) of
        (Generic, Some expected) \<Rightarrow>
          if expected = [] then (None, w)
          else let auth = (case dv_authorization d of Some a \<Rightarrow> a | None \<Rightarrow> []);
                   provided = (case strip_prefix ''Bearer '' auth of Some p \<Rightarrow> p | None \<Rightarrow> auth)
               in if provided \<noteq> expected then (Some (WRefused 401), ww_failure now nm (dv_ip d) w)
                  else (None, ww_success nm (dv_ip d) w)
      | _ \<Rightarrow> (None, w))"

definition webhook_signature ::
  "(string \<Rightarrow> string option) \<Rightarrow> (string \<Rightarrow> string \<Rightarrow> string) \<Rightarrow> instant \<Rightarrow> string \<Rightarrow> WebhookRow \<Rightarrow> delivery \<Rightarrow>
   string \<Rightarrow> webhook_world \<Rightarrow> webhook_reply option \<times> webhook_world" where
  "webhook_signature hex_decode hmac now nm wh d body w =
     (case wr_webhook_type wh of
        Generic \<Rightarrow> (None, w)
      | Github \<Rightarrow>
          (case wr_secret wh of
             None \<Rightarrow> (Some (WRefused 500), w)
           | Some secret \<Rightarrow>
               if secret = [] then (Some (WRefused 500), w)
               else case dv_signature d of
                      None \<Rightarrow> (Some (WRefused 401), ww_failure now nm (dv_ip d) w)
                    | Some sig_header \<Rightarrow>
                        (let hex_sig = (case strip_prefix ''sha256='' sig_header of Some h \<Rightarrow> h | None \<Rightarrow> sig_header)
                         in case hex_decode hex_sig of
                              None \<Rightarrow> (Some (WRefused 401), ww_failure now nm (dv_ip d) w)
                            | Some expected \<Rightarrow>
                                if hmac secret body \<noteq> expected
                                then (Some (WRefused 401), ww_failure now nm (dv_ip d) w)
                                else
                                  let w' = ww_success nm (dv_ip d) w
                                  in case (dv_github_event d, wr_event_filter wh) of
                                       (Some event, Some filters) \<Rightarrow>
                                         if filters \<noteq> [] \<and> event \<notin> set filters then (Some WFiltered, w') else (None, w')
                                     | _ \<Rightarrow> (None, w'))))"

definition webhook_handler ::
  "(string \<Rightarrow> string option) \<Rightarrow> (string \<Rightarrow> string \<Rightarrow> string) \<Rightarrow> (WebhookRow \<Rightarrow> string option \<Rightarrow> string \<Rightarrow> string) \<Rightarrow>
   string list \<Rightarrow> bool \<Rightarrow> bool \<Rightarrow> timestamp \<Rightarrow> instant \<Rightarrow> string \<Rightarrow> delivery \<Rightarrow> webhook_world \<Rightarrow>
   webhook_reply \<times> webhook_world" where
  "webhook_handler hex_decode hmac summary running found counted_ok utc now nm d w =
     (let is_async = (case dv_query d of Some q \<Rightarrow> contains_str ''async=true'' q | None \<Rightarrow> False)
      in if webhook_auth_check now nm (dv_ip d) (ww_throttle w) \<noteq> None then (WRefused 429, w)
         else if \<not> found then (WRefused 500, w)
         else case find (\<lambda>r. wr_name r = nm \<and> wr_enabled r) (ww_rows w) of
                None \<Rightarrow> (WRefused 404, w)
              | Some wh \<Rightarrow>
                  (case webhook_token now nm wh d w of
                     (Some r, w1) \<Rightarrow> (r, w1)
                   | (None, w1) \<Rightarrow>
                       (case dv_body d of
                          None \<Rightarrow> (WRefused 400, w1)
                        | Some body \<Rightarrow>
                            (case webhook_signature hex_decode hmac now nm wh d body w1 of
                               (Some r, w2) \<Rightarrow> (r, w2)
                             | (None, w2) \<Rightarrow>
                                 let w3 = (if counted_ok
                                           then w2\<lparr>ww_rows := map (\<lambda>r. if wr_id r = wr_id wh
                                                     then r\<lparr>wr_trigger_count := wr_trigger_count r + 1,
                                                            wr_last_triggered_at := Some utc\<rparr> else r) (ww_rows w2)\<rparr>
                                           else w2);
                                     prefix = (case wr_prompt_prefix wh of Some p \<Rightarrow> p | None \<Rightarrow> []);
                                     body_text = summary wh (dv_github_event d) body;
                                     txt = (if prefix = [] then body_text else prefix @ [CHR 0x0A, CHR 0x0A] @ body_text)
                                 in if wr_agent_id wh \<notin> set running then (WRefused 404, w3)
                                    else (WHandled (wr_agent_id wh) txt is_async, w3)))))"

section \<open>Lockout after repeated failures\<close>

text \<open>An entry of a lockout: failures of the current window, its start, the end of the lockout.
  \<open>bump\<close> is what a failure makes of it.\<close>

type_synonym lock_entry = "nat \<times> nat \<times> nat option"

definition held :: "nat \<Rightarrow> nat option \<Rightarrow> bool" where
  "held now l = (case l of Some u \<Rightarrow> now < u | None \<Rightarrow> False)"

definition bump :: "nat \<Rightarrow> nat \<Rightarrow> nat \<Rightarrow> nat \<Rightarrow> lock_entry option \<Rightarrow> lock_entry" where
  "bump W L limit now old =
     (let (n, f, l) = (case old of
                         Some (n, f, l) \<Rightarrow> if W \<le> now - f then (0, now, None) else (n, f, l)
                       | None \<Rightarrow> (0, now, None))
      in (Suc n, f, if limit \<le> Suc n then Some (now + L) else l))"

definition barred :: "('s \<Rightarrow> 'k \<Rightarrow> lock_entry option) \<Rightarrow> nat \<Rightarrow> 'k \<Rightarrow> 's \<Rightarrow> bool" where
  "barred entry now k s = (case entry s k of Some (n, f, l) \<Rightarrow> held now l | None \<Rightarrow> False)"

text \<open>A failed attempt: turned away when the key is locked, counted otherwise.\<close>

definition try_once :: "('s \<Rightarrow> 'k \<Rightarrow> lock_entry option) \<Rightarrow> (nat \<Rightarrow> 'k \<Rightarrow> 's \<Rightarrow> 's) \<Rightarrow> 's \<Rightarrow> nat \<times> 'k \<Rightarrow> 's" where
  "try_once entry fail s e = (if barred entry (fst e) (snd e) s then s else fail (fst e) (snd e) s)"

definition tries :: "('s \<Rightarrow> 'k \<Rightarrow> lock_entry option) \<Rightarrow> 's \<Rightarrow> nat \<times> 'k \<Rightarrow> 'k option" where
  "tries entry s e = (if barred entry (fst e) (snd e) s then None else Some (snd e))"

definition entry_window :: "('s \<Rightarrow> 'k \<Rightarrow> lock_entry option) \<Rightarrow> 's \<Rightarrow> 'k \<Rightarrow> (nat \<times> nat) option" where
  "entry_window entry s k = map_option (\<lambda>(n, f, l). (n, f)) (entry s k)"

definition entry_ok :: "nat \<Rightarrow> nat \<Rightarrow> nat \<Rightarrow> lock_entry \<Rightarrow> bool" where
  "entry_ok L limit now e =
     (case e of (n, f, l) \<Rightarrow> f \<le> now \<and> n \<le> limit
        \<and> (if n < limit then l = None else (case l of Some u \<Rightarrow> f + L \<le> u | None \<Rightarrow> False)))"

lemma entry_ok_later: "\<lbrakk>entry_ok L limit now e; now \<le> t\<rbrakk> \<Longrightarrow> entry_ok L limit t e"
  by (auto simp: entry_ok_def split: prod.splits if_splits)

lemma bump_ok:
  assumes "\<And>e. old = Some e \<Longrightarrow> entry_ok L limit t e" "0 < limit" "W \<le> L" "0 < W"
    and free: "\<not> (case old of Some (n, f, l) \<Rightarrow> held t l | None \<Rightarrow> False)"
  shows "entry_ok L limit t (bump W L limit t old)
         \<and> (\<exists>n f l. bump W L limit t old = (Suc n, f, l) \<and> Suc n \<le> limit \<and> t < f + W
           \<and> (map_option (\<lambda>(n, f, l). (n, f)) old = Some (n, f)
              \<or> n = 0 \<and> f = t \<and> (\<forall>m f' l'. old = Some (m, f', l') \<longrightarrow> f' + W \<le> t)))"
proof (cases old)
  case None
  then show ?thesis using assms(2,4) by (auto simp: bump_def entry_ok_def)
next
  case (Some e)
  obtain n f l where e: "e = (n, f, l)" by (cases e) auto
  have ok: "entry_ok L limit t (n, f, l)" using assms(1) Some e by simp
  then have f: "f \<le> t" by (simp add: entry_ok_def)
  show ?thesis
  proof (cases "W \<le> t - f")
    case True
    then have "f + W \<le> t" using f by linarith
    then show ?thesis using assms(2,4) Some e True by (auto simp: bump_def entry_ok_def)
  next
    case False
    have n: "n < limit"
    proof (rule ccontr)
      assume "\<not> n < limit"
      then obtain u where u: "l = Some u" "f + L \<le> u" using ok by (auto simp: entry_ok_def split: option.splits)
      moreover have "u \<le> t" using free Some e u(1) by (simp add: held_def)
      ultimately show False using False assms(3) by linarith
    qed
    then have "l = None" using ok by (simp add: entry_ok_def)
    then show ?thesis using n f False Some e by (auto simp: bump_def entry_ok_def)
  qed
qed

text \<open>What the two protections against guessing promise: a failure bumps the entry of its key, and
  forgets at most entries whose window has passed and that are not locked.\<close>

locale failure_lockout =
  fixes entry :: "'s \<Rightarrow> 'k \<Rightarrow> lock_entry option"
    and fail :: "nat \<Rightarrow> 'k \<Rightarrow> 's \<Rightarrow> 's"
    and W L limit :: nat
    and wf :: "'s \<Rightarrow> bool"
  assumes positive: "0 < W" "W \<le> L" "0 < limit"
    and fail_wf: "wf s \<Longrightarrow> wf (fail now k s)"
    and own: "wf s \<Longrightarrow> entry (fail now k s) k = Some (bump W L limit now (entry s k))"
    and other: "\<lbrakk>wf s; k' \<noteq> k\<rbrakk> \<Longrightarrow> entry (fail now k s) k' = entry s k'
      \<or> entry (fail now k s) k' = None \<and> (\<forall>n f l. entry s k' = Some (n, f, l) \<longrightarrow> f + W \<le> now)"
begin

definition lawful :: "nat \<Rightarrow> 's \<Rightarrow> bool" where
  "lawful now s \<longleftrightarrow> wf s \<and> (\<forall>k e. entry s k = Some e \<longrightarrow> entry_ok L limit now e)"

lemma lawful_later: "\<lbrakk>lawful now s; now \<le> t\<rbrakk> \<Longrightarrow> lawful t s"
  unfolding lawful_def using entry_ok_later by blast

lemma bumped:
  assumes "lawful now s" "now \<le> t" "\<not> barred entry t k s"
  shows "entry_ok L limit t (bump W L limit t (entry s k))
         \<and> (\<exists>n f l. bump W L limit t (entry s k) = (Suc n, f, l) \<and> Suc n \<le> limit \<and> t < f + W
           \<and> (entry_window entry s k = Some (n, f)
              \<or> n = 0 \<and> f = t \<and> (\<forall>m f'. entry_window entry s k = Some (m, f') \<longrightarrow> f' + W \<le> t)))"
proof -
  have "entry_ok L limit t e" if "entry s k = Some e" for e
    using assms(1,2) that entry_ok_later unfolding lawful_def by blast
  from bump_ok [OF this positive(3) positive(2) positive(1)] assms(3)
  show ?thesis by (fastforce simp: barred_def entry_window_def)
qed

sublocale windows: fixed_window "try_once entry fail" "entry_window entry" "tries entry" fst W limit lawful
proof unfold_locales
  show "0 < W" by (rule positive(1))
next
  fix now s and e :: "nat \<times> 'k" assume lawful: "lawful now s" and t: "now \<le> fst e"
  show "lawful (fst e) (try_once entry fail s e)"
  proof (cases "barred entry (fst e) (snd e) s")
    case True
    then show ?thesis using lawful_later [OF lawful t] by (simp add: try_once_def)
  next
    case False
    have wf: "wf s" using lawful by (simp add: lawful_def)
    have "entry_ok L limit (fst e) x" if x: "entry (fail (fst e) (snd e) s) k = Some x" for k x
    proof (cases "k = snd e")
      case True
      then show ?thesis using x own [OF wf] bumped [OF lawful t False] by simp
    next
      case neq: False
      then have "entry s k = Some x" using x other [OF wf neq, of "fst e"] by auto
      then show ?thesis using lawful t entry_ok_later unfolding lawful_def by blast
    qed
    then show ?thesis using False fail_wf [OF wf] by (simp add: lawful_def try_once_def)
  qed
next
  fix now s k and e :: "nat \<times> 'k"
  assume lawful: "lawful now s" and t: "now \<le> fst e" and k: "tries entry s e = Some k"
  then have e: "snd e = k" "\<not> barred entry (fst e) k s" by (auto simp: tries_def split: if_splits)
  have "wf s" using lawful by (simp add: lawful_def)
  with own [OF this, of "fst e" k] bumped [OF lawful t e(2)]
  show "\<exists>n st. entry_window entry (try_once entry fail s e) k = Some (Suc n, st) \<and> Suc n \<le> limit \<and> fst e < st + W
      \<and> (entry_window entry s k = Some (n, st) \<or> n = 0 \<and> st = fst e
           \<and> (\<forall>m st'. entry_window entry s k = Some (m, st') \<longrightarrow> st' + W \<le> fst e))"
    using e by (fastforce simp: try_once_def entry_window_def)
next
  fix now s k and e :: "nat \<times> 'k"
  assume lawful: "lawful now s" and t: "now \<le> fst e" and k: "tries entry s e \<noteq> Some k"
  have wf: "wf s" using lawful by (simp add: lawful_def)
  show "entry_window entry (try_once entry fail s e) k = entry_window entry s k
      \<or> entry_window entry (try_once entry fail s e) k \<in> {None, Some (0, fst e)}
        \<and> (\<forall>m st'. entry_window entry s k = Some (m, st') \<longrightarrow> st' + W \<le> fst e)"
  proof (cases "barred entry (fst e) (snd e) s")
    case False
    then have "k \<noteq> snd e" using k by (auto simp: tries_def)
    from other [OF wf this, of "fst e"] False show ?thesis
      by (auto simp: try_once_def entry_window_def)
  qed (simp add: try_once_def)
qed

end

definition pairing_entry :: "attempts \<Rightarrow> string \<Rightarrow> lock_entry option" where
  "pairing_entry att a = map_option (\<lambda>e. (pt_fail_count e, pt_first_failure e, pt_locked_until e)) (att a)"

lemmas pairing_defs = record_pairing_failure_def sweep_stale_pairing_entries_def pairing_entry_def Let_def
  PAIRING_FAILURE_WINDOW_def PAIRING_LOCKOUT_DURATION_def MAX_PAIRING_FAILURES_def secs_def bump_def

lemma pairing_own:
  "pairing_entry (record_pairing_failure now a att) a = Some (bump 300001 900000 10 now (pairing_entry att a))"
  by (cases "att a") (auto simp: pairing_defs)

lemma pairing_other:
  assumes "k \<noteq> a"
  shows "pairing_entry (record_pairing_failure now a att) k = pairing_entry att k
         \<or> pairing_entry (record_pairing_failure now a att) k = None
           \<and> (\<forall>n f l. pairing_entry att k = Some (n, f, l) \<longrightarrow> f + 300001 \<le> now)"
  using assms by (cases "att k") (auto simp: pairing_defs)

interpretation pairing: failure_lockout pairing_entry record_pairing_failure 300001 900000 10 "\<lambda>_. True"
  by unfold_locales (use pairing_own pairing_other in auto)

definition throttle_entry :: "string \<Rightarrow> throttle \<Rightarrow> string \<Rightarrow> lock_entry option" where
  "throttle_entry nm m ip =
     map_option (\<lambda>e. (wa_failures e, wa_first_failure e, wa_locked_until e)) (map_of m (throttle_key nm ip))"

lemma map_of_filter_distinct:
  "distinct (map fst m) \<Longrightarrow>
   map_of (filter P m) k = (case map_of m k of Some v \<Rightarrow> if P (k, v) then Some v else None | None \<Rightarrow> None)"
  by (induction m) (auto simp: map_of_eq_None_iff image_iff split: option.splits)

lemma throttle_key_inj [simp]: "throttle_key nm a = throttle_key nm b \<longleftrightarrow> a = b"
  by (simp add: throttle_key_def)

lemma elapsed_less: "elapsed_secs x < n \<longleftrightarrow> x < n * 1000"
  by (simp add: elapsed_secs_def div_less_iff_less_mult)

lemma elapsed_greater: "n < elapsed_secs x \<longleftrightarrow> Suc n * 1000 \<le> x"
  unfolding elapsed_secs_def by (simp add: less_eq_div_iff_mult_less_eq Suc_le_eq [symmetric])

lemmas webhook_consts = WEBHOOK_AUTH_MAX_FAILURES_def WEBHOOK_AUTH_WINDOW_SECS_def WEBHOOK_AUTH_LOCKOUT_SECS_def

definition throttle_next :: "instant \<Rightarrow> WebhookAuthState option \<Rightarrow> WebhookAuthState" where
  "throttle_next now old =
     (let fresh = \<lparr>wa_failures = 0, wa_first_failure = now, wa_locked_until = None\<rparr>;
          e0 = (case old of Some e \<Rightarrow> e | None \<Rightarrow> fresh);
          e1 = (if 301000 \<le> now - wa_first_failure e0 then fresh else e0);
          e2 = e1\<lparr>wa_failures := Suc (wa_failures e1)\<rparr>
      in if 5 \<le> wa_failures e2 then e2\<lparr>wa_locked_until := Some (now + 600000)\<rparr> else e2)"

definition throttle_kept :: "instant \<Rightarrow> WebhookAuthState \<Rightarrow> bool" where
  "throttle_kept now v \<longleftrightarrow> held now (wa_locked_until v) \<or> now - wa_first_failure v < 3600000"

lemma webhook_auth_failure_eq:
  "webhook_auth_failure now nm ip m =
     (let m1 = AList.update (throttle_key nm ip) (throttle_next now (map_of m (throttle_key nm ip))) m
      in if 100 < length m1 then filter (\<lambda>(k, v). throttle_kept now v) m1 else m1)"
  unfolding webhook_auth_failure_def throttle_next_def throttle_kept_def held_def webhook_consts
    elapsed_greater elapsed_less secs_def
  by (simp add: Let_def)

lemma throttle_next_kept: "throttle_kept now (throttle_next now old)"
  by (auto simp: throttle_next_def throttle_kept_def Let_def held_def split: option.splits)

lemma throttle_lookup:
  assumes "distinct (map fst m)"
  shows "map_of (webhook_auth_failure now nm ip m) (throttle_key nm ip)
           = Some (throttle_next now (map_of m (throttle_key nm ip)))"
    and "k \<noteq> throttle_key nm ip \<Longrightarrow> map_of (webhook_auth_failure now nm ip m) k = map_of m k
         \<or> map_of (webhook_auth_failure now nm ip m) k = None
           \<and> (\<forall>v. map_of m k = Some v \<longrightarrow> \<not> throttle_kept now v)"
proof -
  have d: "distinct (map fst (AList.update (throttle_key nm ip) e m))" for e
    using assms by (rule distinct_update)
  show "map_of (webhook_auth_failure now nm ip m) (throttle_key nm ip)
           = Some (throttle_next now (map_of m (throttle_key nm ip)))"
    by (simp add: webhook_auth_failure_eq Let_def map_of_filter_distinct [OF d] update_conv' throttle_next_kept)
  show "k \<noteq> throttle_key nm ip \<Longrightarrow> map_of (webhook_auth_failure now nm ip m) k = map_of m k
         \<or> map_of (webhook_auth_failure now nm ip m) k = None
           \<and> (\<forall>v. map_of m k = Some v \<longrightarrow> \<not> throttle_kept now v)"
    by (auto simp: webhook_auth_failure_eq Let_def map_of_filter_distinct [OF d] update_conv' split: option.split)
qed

lemma throttle_distinct: "distinct (map fst m) \<Longrightarrow> distinct (map fst (webhook_auth_failure now nm ip m))"
  by (simp add: webhook_auth_failure_eq Let_def distinct_update distinct_map_filter)

interpretation webhooks: failure_lockout "throttle_entry nm" "\<lambda>now ip. webhook_auth_failure now nm ip"
    301000 600000 5 "\<lambda>m. distinct (map fst m)"
  for nm
proof unfold_locales
  fix now k and m :: throttle assume "distinct (map fst m)"
  then show "throttle_entry nm (webhook_auth_failure now nm k m) k = Some (bump 301000 600000 5 now (throttle_entry nm m k))"
    by (auto simp: throttle_entry_def throttle_lookup(1) throttle_next_def bump_def Let_def split: option.split)
next
  fix now and k k' :: string and m :: throttle assume "distinct (map fst m)" "k' \<noteq> k"
  from throttle_lookup(2) [OF this(1), of "throttle_key nm k'" nm k now] this(2)
  show "throttle_entry nm (webhook_auth_failure now nm k m) k' = throttle_entry nm m k'
      \<or> throttle_entry nm (webhook_auth_failure now nm k m) k' = None
        \<and> (\<forall>n f l. throttle_entry nm m k' = Some (n, f, l) \<longrightarrow> f + 301000 \<le> now)"
    by (auto simp: throttle_entry_def throttle_kept_def)
qed (auto intro: throttle_distinct)

section \<open>Codes cannot be guessed\<close>

text \<open>A call of \<open>approve_pairing\<close>: the two clocks, the two answers of the database, the code and the
  approver.\<close>

type_synonym guess = "timestamp \<times> instant \<times> bool \<times> bool \<times> string \<times> string"

fun guess_time :: "guess \<Rightarrow> instant" where
  "guess_time (utc, now, took, added, code, approver) = now"

fun guess_code :: "AccessGuard \<Rightarrow> access_world \<Rightarrow> guess \<Rightarrow> (bool \<times> string) \<times> access_world" where
  "guess_code g w (utc, now, took, added, code, approver) = approve_pairing utc now took added g code approver w"

text \<open>Whether all calls of a series fail, and when a code was looked up.\<close>

fun all_fail :: "AccessGuard \<Rightarrow> access_world \<Rightarrow> guess list \<Rightarrow> bool" where
  "all_fail g w [] = True"
| "all_fail g w (x # xs) = (\<not> fst (fst (guess_code g w x)) \<and> all_fail g (snd (guess_code g w x)) xs)"

fun looked_up :: "AccessGuard \<Rightarrow> access_world \<Rightarrow> guess list \<Rightarrow> instant list" where
  "looked_up g w [] = []"
| "looked_up g w (x # xs) =
     (if pairing_lockout_remaining (guess_time x) (ag_agent_id g) (xw_attempts w) = None then [guess_time x] else [])
     @ looked_up g (snd (guess_code g w x)) xs"

lemma pairing_barred:
  "pairing_lockout_remaining now a att = None \<longleftrightarrow> \<not> barred pairing_entry now a att"
  by (auto simp: pairing_lockout_remaining_def barred_def pairing_entry_def held_def split: option.split)

lemma failed_guess:
  assumes "\<not> fst (fst (guess_code g w x))"
  shows "xw_attempts (snd (guess_code g w x))
    = try_once pairing_entry record_pairing_failure (xw_attempts w) (guess_time x, ag_agent_id g)"
proof -
  obtain utc now took added code approver where x: "x = (utc, now, took, added, code, approver)" by (cases x) auto
  show ?thesis
  proof (cases "pairing_lockout_remaining now (ag_agent_id g) (xw_attempts w)")
    case None
    then show ?thesis using assms pairing_barred [of now "ag_agent_id g" "xw_attempts w"]
      by (auto simp: x approve_pairing_def Let_def try_once_def split: prod.splits option.splits bool.splits if_splits)
  next
    case (Some r)
    then show ?thesis using pairing_barred [of now "ag_agent_id g" "xw_attempts w"]
      by (simp add: x approve_pairing_def try_once_def)
  qed
qed

lemma looked_up_passes:
  "all_fail g w xs \<Longrightarrow>
   looked_up g w xs = passes (try_once pairing_entry record_pairing_failure) (tries pairing_entry) fst
     (ag_agent_id g) (xw_attempts w) (map (\<lambda>x. (guess_time x, ag_agent_id g)) xs)"
  by (induction xs arbitrary: w) (auto simp: failed_guess pairing_barred tries_def)

text \<open>C36. In any series of failing calls that approve a pairing code for an agent, at most twenty codes are
  looked up within any five minutes; all others are turned away.\<close>

theorem pairing_guesses_bounded:
  assumes "all_fail g w xs" "sorted (map guess_time xs)" "xw_attempts w = Map.empty"
  shows "length (filter (\<lambda>x. t \<le> x \<and> x \<le> t + PAIRING_FAILURE_WINDOW) (looked_up g w xs))
         \<le> 2 * MAX_PAIRING_FAILURES"
proof -
  have "pairing.lawful 0 Map.empty" "entry_window pairing_entry Map.empty (ag_agent_id g) = None"
    by (simp_all add: pairing.lawful_def pairing_entry_def entry_window_def)
  note bound = pairing.windows.interval_bound [OF this, of "map (\<lambda>x. (guess_time x, ag_agent_id g)) xs" t]
  have "(\<lambda>x. t \<le> x \<and> x \<le> t + PAIRING_FAILURE_WINDOW) = (\<lambda>x. t \<le> x \<and> x < t + 300001)"
    by (auto simp: PAIRING_FAILURE_WINDOW_def secs_def)
  then show ?thesis
    using bound assms by (simp add: looked_up_passes comp_def MAX_PAIRING_FAILURES_def)
qed

definition sample_guard :: AccessGuard where
  "sample_guard = \<lparr>ag_agent_id = ''main'', ag_owner_id = Some ''ann'', ag_restricted = True\<rparr>"

definition no_users :: access_world where
  "no_users = \<lparr>xw_allowed = [], xw_codes = [], xw_attempts = Map.empty, xw_guards = [''main'' \<mapsto> sample_guard]\<rparr>"

definition guesses :: "nat \<Rightarrow> guess list" where
  "guesses n = map (\<lambda>k. (0, 1000 * k, True, True, ''123456'', ''owner'')) [0..<n]"

theorem pairing_guesses_bounded_witness:
  "looked_up sample_guard no_users (guesses 11) = [0, 1000, 2000, 3000, 4000, 5000, 6000, 7000, 8000, 9000]
   \<and> length (filter (\<lambda>x. 0 \<le> x \<and> x \<le> 0 + PAIRING_FAILURE_WINDOW) (looked_up sample_guard no_users (guesses 11)))
     \<le> 2 * MAX_PAIRING_FAILURES"
proof -
  have "all_fail sample_guard no_users (guesses 11)" "sorted (map guess_time (guesses 11))"
    "looked_up sample_guard no_users (guesses 11) = [0, 1000, 2000, 3000, 4000, 5000, 6000, 7000, 8000, 9000]"
    by (simp_all add: guesses_def upt_rec no_users_def sample_guard_def approve_pairing_def take_pairing_code_def
        pairing_lockout_remaining_def pairing_defs)
  moreover have "xw_attempts no_users = Map.empty" by (simp add: no_users_def)
  ultimately show ?thesis using pairing_guesses_bounded [of sample_guard no_users "guesses 11" 0] by blast
qed

text \<open>A success starts the count again, so series of nine wrong codes and one right one never lock.\<close>

lemma nine_failures:
  assumes "att a = Some \<lparr>pt_fail_count = 0, pt_first_failure = now, pt_locked_until = None\<rparr>" "k \<le> 9"
  shows "((record_pairing_failure now a) ^^ k) att a
           = Some \<lparr>pt_fail_count = k, pt_first_failure = now, pt_locked_until = None\<rparr>"
  using assms(2)
proof (induction k)
  case 0
  then show ?case using assms(1) by simp
next
  case (Suc k)
  then show ?case by (auto simp: pairing_defs)
qed

lemma nine_plus_one_never_locks:
  assumes "att a = Some \<lparr>pt_fail_count = 0, pt_first_failure = now, pt_locked_until = None\<rparr>" "k \<le> 9"
  shows "pairing_lockout_remaining now a
     (((record_pairing_failure now a) ^^ k)
        (((\<lambda>x. clear_pairing_failures now a (((record_pairing_failure now a) ^^ 9) x)) ^^ n) att)) = None"
proof -
  let ?cycle = "\<lambda>x. clear_pairing_failures now a (((record_pairing_failure now a) ^^ 9) x)"
  have "(?cycle ^^ n) att a = Some \<lparr>pt_fail_count = 0, pt_first_failure = now, pt_locked_until = None\<rparr>"
  proof (induction n)
    case (Suc n)
    from nine_failures [of "(?cycle ^^ n) att" a now 9, OF this] show ?case
      by (simp add: clear_pairing_failures_def)
  qed (use assms(1) in simp)
  from nine_failures [of "(?cycle ^^ n) att" a now k, OF this assms(2)] show ?thesis
    by (simp add: pairing_lockout_remaining_def)
qed

section \<open>Only a code lets a user in\<close>

text \<open>Everything that changes the tables of access, in any order.\<close>

datatype access_event =
    XCreate timestamp bool string string string "string option"
  | XApprove timestamp instant bool bool string string
  | XApproveApi timestamp instant bool bool string string
  | XReject bool string string
  | XPending timestamp bool bool string
  | XRemove bool string string

fun access_step :: "access_world \<Rightarrow> access_event \<Rightarrow> access_world" where
  "access_step w (XCreate utc reached code agent user nm) = snd (handle_pairing_create utc reached code agent user nm w)"
| "access_step w (XApprove utc now took added agent code) = snd (handle_pairing_approve utc now took added agent code w)"
| "access_step w (XApproveApi utc now took added agent code) = snd (api_access_approve utc now took added agent code w)"
| "access_step w (XReject reached agent code) = snd (handle_pairing_reject reached agent code w)"
| "access_step w (XPending utc reached cleaned agent) = snd (snd (api_access_pending utc reached cleaned agent w))"
| "access_step w (XRemove reached agent user) = snd (snd (api_access_remove_user reached agent user w))"

text \<open>The guards belong to the agents under whose names they are registered.\<close>

definition guards_ok :: "access_world \<Rightarrow> bool" where
  "guards_ok w \<longleftrightarrow> (\<forall>a g. xw_guards w a = Some g \<longrightarrow> ag_agent_id g = a)"

definition issued :: "access_event list \<Rightarrow> PairingCode \<Rightarrow> bool" where
  "issued hs r \<longleftrightarrow>
     XCreate (pc_created_at r) True (pc_code r) (pc_agent_id r) (pc_channel_user_id r) (pc_display_name r) \<in> set hs"

definition admitted_by :: "access_event list \<Rightarrow> AllowedUser \<Rightarrow> bool" where
  "admitted_by hs u \<longleftrightarrow>
     (\<exists>before later r e utc now.
        hs = before @ e # later \<and> issued before r
        \<and> e \<in> {XApprove utc now True True (au_agent_id u) (pc_code r), XApproveApi utc now True True (au_agent_id u) (pc_code r)}
        \<and> pc_agent_id r = au_agent_id u \<and> pc_channel_user_id r = au_channel_user_id u
        \<and> utc - pc_created_at r < 301000)"

definition access_tracks :: "access_event list \<Rightarrow> access_world \<Rightarrow> bool" where
  "access_tracks hs w \<longleftrightarrow> guards_ok w \<and> list_all (issued hs) (xw_codes w) \<and> list_all (admitted_by hs) (xw_allowed w)"

lemma issued_more: "issued hs r \<Longrightarrow> issued (hs @ xs) r"
  by (simp add: issued_def)

lemma admitted_more: "admitted_by hs u \<Longrightarrow> admitted_by (hs @ xs) u"
  unfolding admitted_by_def by fastforce

lemma access_tracks_more: "access_tracks hs w \<Longrightarrow> access_tracks (hs @ xs) w"
  by (auto simp: access_tracks_def list_all_iff issued_more admitted_more)

lemma access_tracks_sub:
  assumes "access_tracks hs w" "set codes \<subseteq> set (xw_codes w)" "set users \<subseteq> set (xw_allowed w)"
  shows "access_tracks hs (w\<lparr>xw_codes := codes, xw_allowed := users, xw_attempts := att\<rparr>)"
  using assms by (auto simp: access_tracks_def guards_ok_def list_all_iff)

lemma find_code:
  "find (code_row agent code) rows = Some r \<Longrightarrow> r \<in> set rows \<and> pc_agent_id r = agent \<and> pc_code r = code"
  by (auto simp: find_Some_iff code_row_def)

lemma set_add_allowed:
  "u \<in> set (add_allowed_user utc agent user nm approver rows) \<Longrightarrow>
   u \<in> set rows \<or> au_agent_id u = agent \<and> au_channel_user_id u = user"
  by (auto simp: add_allowed_user_def split: if_splits)

text \<open>What \<open>approve_pairing\<close> does to the tables.\<close>

lemma approve_pairing_tables:
  assumes w'_def: "w' = snd (approve_pairing utc now took added g code approver w)"
  shows "xw_guards w' = xw_guards w \<and> set (xw_codes w') \<subseteq> set (xw_codes w)
     \<and> (xw_allowed w' = xw_allowed w
        \<or> took \<and> added \<and> (\<exists>r \<in> set (xw_codes w). pc_agent_id r = ag_agent_id g \<and> pc_code r = code
             \<and> utc - pc_created_at r < 301000
             \<and> xw_allowed w' = add_allowed_user utc (ag_agent_id g) (pc_channel_user_id r) (pc_display_name r)
                                 approver (xw_allowed w)))"
proof (cases "pairing_lockout_remaining now (ag_agent_id g) (xw_attempts w)")
  case None
  show ?thesis
  proof (cases "find (code_row (ag_agent_id g) code) (xw_codes w)")
    case nothing: None
    then show ?thesis using None by (auto simp: w'_def approve_pairing_def take_pairing_code_def Let_def)
  next
    case (Some r)
    from find_code [OF Some] show ?thesis using None Some
      by (auto simp: w'_def approve_pairing_def take_pairing_code_def Let_def split: bool.splits)
  qed
qed (simp add: w'_def approve_pairing_def)

lemma approve_tracks:
  assumes tr: "access_tracks hs w" and g: "ag_agent_id g = a"
    and e: "e \<in> {XApprove utc now took added a code, XApproveApi utc now took added a code}"
  shows "access_tracks (hs @ [e]) (snd (approve_pairing utc now took added g code approver w))"
proof -
  let ?w = "snd (approve_pairing utc now took added g code approver w)"
  note t = approve_pairing_tables [OF refl, of utc now took added g code approver w]
  have codes: "list_all (issued (hs @ [e])) (xw_codes ?w)"
    using t tr issued_more unfolding access_tracks_def list_all_iff by blast
  have "admitted_by (hs @ [e]) u" if u: "u \<in> set (xw_allowed ?w)" for u
  proof (cases "u \<in> set (xw_allowed w)")
    case True
    then show ?thesis using tr admitted_more unfolding access_tracks_def list_all_iff by blast
  next
    case False
    then obtain r where r: "r \<in> set (xw_codes w)" "pc_agent_id r = a" "pc_code r = code"
        "utc - pc_created_at r < 301000" "took" "added"
        "u \<in> set (add_allowed_user utc a (pc_channel_user_id r) (pc_display_name r) approver (xw_allowed w))"
      using t u g by auto
    have "issued hs r" using tr r(1) unfolding access_tracks_def list_all_iff by blast
    moreover have "au_agent_id u = a" "au_channel_user_id u = pc_channel_user_id r"
      using set_add_allowed [OF r(7)] False by auto
    ultimately show ?thesis unfolding admitted_by_def
      by (intro exI [of _ hs] exI [of _ "[]"] exI [of _ r] exI [of _ e] exI [of _ utc] exI [of _ now]) (use r e in auto)
  qed
  then show ?thesis using codes t tr by (simp add: access_tracks_def guards_ok_def list_all_iff)
qed

lemma create_tracks:
  assumes tr: "access_tracks hs w" and g: "ag_agent_id g = a"
  shows "access_tracks (hs @ [XCreate utc reached code a user nm])
           (snd (create_pairing_code utc reached code g user nm w))"
proof -
  let ?e = "XCreate utc reached code a user nm"
  have more: "access_tracks (hs @ [?e]) w" using tr by (rule access_tracks_more)
  show ?thesis
  proof (cases "if reached then store_pairing_code utc a code user nm (xw_codes w) else None")
    case None
    show ?thesis unfolding create_pairing_code_def snd_conv g None option.case by (rule more)
  next
    case (Some rows)
    then have r: "reached" "store_pairing_code utc a code user nm (xw_codes w) = Some rows"
      by (auto split: if_splits)
    have "x \<in> set (xw_codes w) \<or> x = \<lparr>pc_code = code, pc_agent_id = a, pc_channel_user_id = user,
                              pc_display_name = nm, pc_created_at = utc\<rparr>" if "x \<in> set rows" for x
      using r(2) that by (auto simp: store_pairing_code_def Let_def split: if_splits)
    then have "issued (hs @ [?e]) x" if "x \<in> set rows" for x
      using that more r(1) by (fastforce simp: access_tracks_def list_all_iff issued_def)
    then show ?thesis unfolding create_pairing_code_def snd_conv g Some option.case
      using more by (simp add: access_tracks_def guards_ok_def list_all_iff)
  qed
qed

lemma access_step_tracks: "access_tracks hs w \<Longrightarrow> access_tracks (hs @ [e]) (access_step w e)"
proof -
  assume tr: "access_tracks hs w"
  then have more: "access_tracks (hs @ [e]) w" by (rule access_tracks_more)
  have guard: "ag_agent_id g = a" if "xw_guards w a = Some g" for a g
    using tr that by (simp add: access_tracks_def guards_ok_def)
  show ?thesis
  proof (cases e)
    case (XCreate utc reached code agent user nm)
    then show ?thesis using more create_tracks [OF tr guard]
      by (auto simp: handle_pairing_create_def split: option.split prod.split) (metis snd_conv)
  next
    case (XApprove utc now took added agent code)
    then show ?thesis using more approve_tracks [OF tr guard]
      by (auto simp: handle_pairing_approve_def split: option.split prod.split) (metis insertI1 snd_conv)
  next
    case (XApproveApi utc now took added agent code)
    then show ?thesis using more approve_tracks [OF tr guard]
      by (auto simp: api_access_approve_def Let_def split: option.split prod.split) (metis insertI1 insertI2 snd_conv)+
  next
    case (XReject reached agent code)
    then show ?thesis using more
      by (auto simp: handle_pairing_reject_def reject_pairing_def remove_pairing_code_def access_tracks_def
          guards_ok_def list_all_iff split: option.split)
  next
    case (XPending utc reached cleaned agent)
    then show ?thesis using more
      by (auto simp: api_access_pending_def pending_pairings_list_def list_pairing_codes_def access_tracks_def
          guards_ok_def list_all_iff split: option.split)
  next
    case (XRemove reached agent user)
    then show ?thesis using more
      by (auto simp: api_access_remove_user_def remove_allowed_user_def access_tracks_def
          guards_ok_def list_all_iff split: option.split)
  qed
qed

interpretation access: history_machine access_step "\<lambda>e. [e]" access_tracks
  by unfold_locales (rule access_step_tracks)

text \<open>C18. However requests for codes, approvals by the channel or the web client, rejections, listings and
  removals follow each other, and whichever statements fail: a user is on the list of an agent only
  after a code was issued to that user for that agent and this code was approved afterwards, less
  than 301 seconds old.\<close>

theorem allowed_only_by_code:
  assumes "guards_ok w" "xw_codes w = []" "xw_allowed w = []"
    and "is_user_allowed agent user (xw_allowed (foldl access_step w es))"
  shows "\<exists>before later e code nm created utc now.
           es = before @ e # later
           \<and> XCreate created True code agent user nm \<in> set before
           \<and> e \<in> {XApprove utc now True True agent code, XApproveApi utc now True True agent code}
           \<and> utc - created < 301000"
proof -
  have "access_tracks [] w" using assms(1-3) by (simp add: access_tracks_def)
  from access.run_tracks [OF this, of es] have "access_tracks es (foldl access_step w es)" by simp
  moreover obtain u where "u \<in> set (xw_allowed (foldl access_step w es))" "au_agent_id u = agent"
      "au_channel_user_id u = user"
    using assms(4) by (auto simp: is_user_allowed_def list_ex_iff)
  ultimately have "admitted_by es u" "au_agent_id u = agent" "au_channel_user_id u = user"
    by (auto simp: access_tracks_def list_all_iff)
  then show ?thesis unfolding admitted_by_def issued_def by metis
qed

definition pairing_events :: "access_event list" where
  "pairing_events =
     [XCreate 0 True ''123456'' ''main'' ''bob'' None, XApprove 1000 1000 True True ''main'' ''654321'',
      XApproveApi 2000 2000 True True ''main'' ''123456'']"

theorem allowed_only_by_code_witness:
  "is_user_allowed ''main'' ''bob'' (xw_allowed (foldl access_step no_users pairing_events))
   \<and> (\<exists>before later e code nm created utc now.
           pairing_events = before @ e # later
           \<and> XCreate created True code ''main'' ''bob'' nm \<in> set before
           \<and> e \<in> {XApprove utc now True True ''main'' code, XApproveApi utc now True True ''main'' code}
           \<and> utc - created < 301000)"
proof -
  have run: "is_user_allowed ''main'' ''bob'' (xw_allowed (foldl access_step no_users pairing_events))"
    by (simp add: pairing_events_def no_users_def sample_guard_def handle_pairing_create_def create_pairing_code_def
        store_pairing_code_def handle_pairing_approve_def api_access_approve_def approve_pairing_def
        take_pairing_code_def pairing_lockout_remaining_def code_row_def add_allowed_user_def is_user_allowed_def
        pairing_defs)
  have "guards_ok no_users" "xw_codes no_users = []" "xw_allowed no_users = []"
    by (simp_all add: guards_ok_def no_users_def sample_guard_def)
  from allowed_only_by_code [OF this run] run show ?thesis by blast
qed

text \<open>A code that another user holds is announced to the second user although it was not stored; the
  owner who approves it lets the first one in.\<close>

lemma colliding_code_names_other_user:
  "let w = access_step no_users (XCreate 0 True ''123456'' ''main'' ''bob'' None);
       (out, w') = handle_pairing_create 1000 True ''123456'' ''main'' ''eve'' None w;
       w'' = access_step w' (XApprove 2000 2000 True True ''main'' ''123456'')
   in out = PairingCodeSent ''123456''
      \<and> is_user_allowed ''main'' ''bob'' (xw_allowed w'') \<and> \<not> is_user_allowed ''main'' ''eve'' (xw_allowed w'')"
  by (simp add: Let_def no_users_def sample_guard_def handle_pairing_create_def create_pairing_code_def
        store_pairing_code_def handle_pairing_approve_def approve_pairing_def
        take_pairing_code_def pairing_lockout_remaining_def code_row_def add_allowed_user_def is_user_allowed_def
        pairing_defs clear_pairing_failures_def)

section \<open>Buttons and deliveries\<close>

text \<open>A button changes the approvals only when the adapter marks the message as a button and its
  sender is the owner of the agent: then the decision is recorded under the owner's identifier,
  exactly as \<open>resolve_approval\<close> records it.\<close>

theorem approval_button_is_owners:
  assumes "handle_approval_callback parse_id show_id now streams agent msg xw w = (consumed, out, w')" "w' \<noteq> w"
  shows "is_callback msg
         \<and> (\<exists>g. xw_guards xw agent = Some g \<and> ag_owner_id g = Some (im_user_id msg))
         \<and> (\<exists>i approved txt id_str. im_text msg = Some txt \<and> parse_id id_str = Some i
              \<and> txt = (if approved then ''approve:'' else ''reject:'') @ id_str
              \<and> w' = snd (resolve_approval now streams i approved (im_user_id msg) None w))"
proof -
  define msg_text where "msg_text = (case im_text msg of Some t \<Rightarrow> t | None \<Rightarrow> [])"
  define rest where "rest = (case strip_prefix ''approve:'' msg_text of Some s \<Rightarrow> Some s | None \<Rightarrow> strip_prefix ''reject:'' msg_text)"
  define owner where "owner = (case xw_guards xw agent of Some g \<Rightarrow> is_owner g (im_user_id msg) | None \<Rightarrow> False)"
  note run = assms(1) [unfolded handle_approval_callback_def Let_def msg_text_def [symmetric] rest_def [symmetric]
      owner_def [symmetric]]
  have m: "approval_matches msg" using run assms(2) by (rule_tac ccontr) simp
  obtain id_str where r: "rest = Some id_str" using run assms(2) m by (cases rest) simp_all
  have mine: "owner" using run assms(2) m r by (rule_tac ccontr) simp
  obtain i where i: "parse_id id_str = Some i" using run assms(2) m r mine by (cases "parse_id id_str") simp_all
  have w': "w' = snd (resolve_approval now streams i (starts_with ''approve:'' msg_text) (im_user_id msg) None w)"
    using run m r mine i by (auto split: prod.splits sum.splits)
  have msg_text: "msg_text = (if starts_with ''approve:'' msg_text then ''approve:'' else ''reject:'') @ id_str"
    using r unfolding rest_def starts_with_def
    by (cases "strip_prefix ''approve:'' msg_text") (simp_all only: option.case strip_prefix_Some strip_prefix_append option.inject simp_thms
        if_True if_False option.distinct)
  have "im_text msg = Some msg_text" using msg_text by (cases "im_text msg") (auto simp: msg_text_def split: if_splits)
  moreover have "\<exists>g. xw_guards xw agent = Some g \<and> ag_owner_id g = Some (im_user_id msg)"
    using mine by (auto simp: owner_def is_owner_def split: option.splits)
  moreover have "is_callback msg" using m by (simp add: approval_matches_def)
  ultimately show ?thesis using i msg_text w' by blast
qed

definition button :: "string \<Rightarrow> IncomingMessageDto" where
  "button user = \<lparr>im_user_id = user, im_text = Some ''approve:7'', im_context = JObj [(''is_callback'', JBool True)]\<rparr>"

definition one_request :: approval_world where
  "one_request = no_approvals\<lparr>aw_rows := sample_rows\<rparr>"

theorem approval_button_is_owners_witness:
  "\<exists>consumed out w'. handle_approval_callback (\<lambda>s. Some 7) (\<lambda>i. ''7'') 101 [] ''main'' (button ''ann'') no_users one_request
       = (consumed, out, w')
     \<and> (\<exists>g. xw_guards no_users ''main'' = Some g \<and> ag_owner_id g = Some (im_user_id (button ''ann'')))"
proof -
  obtain c out w' where run: "handle_approval_callback (\<lambda>s. Some 7) (\<lambda>i. ''7'') 101 [] ''main'' (button ''ann'')
      no_users one_request = (c, out, w')"
    by (metis prod_cases3)
  have r: "aw_rows (snd (snd (handle_approval_callback (\<lambda>s. Some 7) (\<lambda>i. ''7'') 101 [] ''main'' (button ''ann'')
      no_users one_request))) \<noteq> aw_rows one_request"
    by (simp add: handle_approval_callback_def approval_matches_def is_callback_def button_def starts_with_def
        no_users_def sample_guard_def is_owner_def resolve_approval_def decide_def resolve_approval_strict_def
        one_request_def sample_rows_def create_approval_def get_approval_def Let_def)
  have "w' \<noteq> one_request"
  proof
    assume "w' = one_request"
    then show False using r run by simp
  qed
  from approval_button_is_owners [OF run this] run show ?thesis by blast
qed

text \<open>Which deliveries a webhook accepts.\<close>

definition token_ok :: "WebhookRow \<Rightarrow> delivery \<Rightarrow> bool" where
  "token_ok wh d \<longleftrightarrow>
     wr_secret wh = None \<or> wr_secret wh = Some []
     \<or> (let auth = (case dv_authorization d of Some a \<Rightarrow> a | None \<Rightarrow> [])
        in wr_secret wh = Some (case strip_prefix ''Bearer '' auth of Some p \<Rightarrow> p | None \<Rightarrow> auth))"

definition signature_ok :: "(string \<Rightarrow> string option) \<Rightarrow> (string \<Rightarrow> string \<Rightarrow> string) \<Rightarrow> WebhookRow \<Rightarrow> delivery \<Rightarrow> bool" where
  "signature_ok hex_decode hmac wh d \<longleftrightarrow>
     (\<exists>secret body h. wr_secret wh = Some secret \<and> secret \<noteq> [] \<and> dv_body d = Some body \<and> dv_signature d = Some h
        \<and> hex_decode (case strip_prefix ''sha256='' h of Some x \<Rightarrow> x | None \<Rightarrow> h) = Some (hmac secret body))"

lemma webhook_token_None:
  "fst (webhook_token now nm wh d w) = None \<longleftrightarrow> wr_webhook_type wh = Github \<or> token_ok wh d"
  by (cases "wr_webhook_type wh"; cases "wr_secret wh") (auto simp: webhook_token_def token_ok_def Let_def)

lemma webhook_signature_None:
  assumes "fst (webhook_signature hex_decode hmac now nm wh d body w) = None" "dv_body d = Some body"
    "wr_webhook_type wh = Github"
  shows "signature_ok hex_decode hmac wh d"
  using assms by (auto simp: webhook_signature_def signature_ok_def Let_def split: option.splits if_splits)

lemma webhook_token_not_handled: "webhook_token now nm wh d w = (Some r, w1) \<Longrightarrow> r = WRefused 401"
  by (auto simp: webhook_token_def Let_def split: WebhookType.splits option.splits if_splits)

lemma webhook_signature_not_handled:
  "webhook_signature hex_decode hmac now nm wh d body w = (Some r, w1) \<Longrightarrow> r \<noteq> WHandled a t b"
  by (auto simp: webhook_signature_def Let_def split: WebhookType.splits option.splits if_splits)

text \<open>C19. A delivery starts a turn only of the agent of an enabled webhook of that name, when the address is
  not locked out of it, and when it carries the token of a generic webhook that has one, or the
  HMAC of its body under the non-empty secret of a GitHub webhook.\<close>

theorem webhook_delivery_authentic:
  assumes "webhook_handler hex_decode hmac summary running found counted_ok utc now nm d w = (WHandled agent msg b, w')"
  shows "webhook_auth_check now nm (dv_ip d) (ww_throttle w) = None
         \<and> (\<exists>wh \<in> set (ww_rows w). wr_name wh = nm \<and> wr_enabled wh \<and> wr_agent_id wh = agent \<and> agent \<in> set running
              \<and> (case wr_webhook_type wh of Generic \<Rightarrow> token_ok wh d | Github \<Rightarrow> signature_ok hex_decode hmac wh d))"
proof -
  note run = assms [unfolded webhook_handler_def Let_def]
  have open': "webhook_auth_check now nm (dv_ip d) (ww_throttle w) = None" "found"
    using run by (auto split: if_splits)
  obtain wh where wh: "find (\<lambda>r. wr_name r = nm \<and> wr_enabled r) (ww_rows w) = Some wh"
    using run open' by (cases "find (\<lambda>r. wr_name r = nm \<and> wr_enabled r) (ww_rows w)") auto
  obtain w1 where w1: "webhook_token now nm wh d w = (None, w1)"
    using run open' wh webhook_token_not_handled [of now nm wh d w]
    by (cases "webhook_token now nm wh d w"; cases "fst (webhook_token now nm wh d w)") auto
  obtain body where body: "dv_body d = Some body" using run open' wh w1 by (cases "dv_body d") auto
  obtain w2 where w2: "webhook_signature hex_decode hmac now nm wh d body w1 = (None, w2)"
    using run open' wh w1 body webhook_signature_not_handled [of hex_decode hmac now nm wh d body w1]
    by (cases "webhook_signature hex_decode hmac now nm wh d body w1";
        cases "fst (webhook_signature hex_decode hmac now nm wh d body w1)") auto
  have agent: "wr_agent_id wh = agent" "agent \<in> set running"
    using run open' wh w1 body w2 by (auto split: if_splits)
  have row: "wh \<in> set (ww_rows w)" "wr_name wh = nm" "wr_enabled wh" using wh by (auto simp: find_Some_iff)
  have "case wr_webhook_type wh of Generic \<Rightarrow> token_ok wh d | Github \<Rightarrow> signature_ok hex_decode hmac wh d"
    using webhook_token_None [of now nm wh d w] w1 webhook_signature_None [of hex_decode hmac now nm wh d body w1] w2 body
    by (cases "wr_webhook_type wh") auto
  then show ?thesis using open' agent row by blast
qed

definition sample_hook :: WebhookRow where
  "sample_hook = \<lparr>wr_id = 1, wr_name = ''deploy'', wr_agent_id = ''main'', wr_secret = Some ''s3'',
     wr_prompt_prefix = None, wr_enabled = True, wr_last_triggered_at = None, wr_trigger_count = 0,
     wr_webhook_type = Generic, wr_event_filter = None\<rparr>"

definition sample_delivery :: delivery where
  "sample_delivery = \<lparr>dv_ip = ''9.9.9.9'', dv_query = None, dv_github_event = None, dv_signature = None,
     dv_authorization = Some ''Bearer s3'', dv_body = Some ''go''\<rparr>"

theorem webhook_delivery_authentic_witness:
  "\<exists>w'. webhook_handler (\<lambda>s. None) (\<lambda>k b. []) (\<lambda>wh e b. b) [''main''] True False 0 0 ''deploy'' sample_delivery
       \<lparr>ww_rows = [sample_hook], ww_throttle = []\<rparr> = (WHandled ''main'' ''go'' False, w')
     \<and> token_ok sample_hook sample_delivery"
proof -
  have run: "webhook_handler (\<lambda>s. None) (\<lambda>k b. []) (\<lambda>wh e b. b) [''main''] True False 0 0 ''deploy'' sample_delivery
       \<lparr>ww_rows = [sample_hook], ww_throttle = []\<rparr> = (WHandled ''main'' ''go'' False, \<lparr>ww_rows = [sample_hook], ww_throttle = []\<rparr>)"
    by (simp add: webhook_handler_def sample_delivery_def sample_hook_def webhook_auth_check_def webhook_token_def
        webhook_signature_def ww_success_def webhook_auth_success_def)
  from webhook_delivery_authentic [OF run] have "token_ok sample_hook sample_delivery"
    by (simp add: sample_hook_def)
  with run show ?thesis by blast
qed

text \<open>Wrong secrets: with the check in front, an address gets at most ten of them looked at within any five
  minutes, whatever other addresses do.\<close>

lemma webhook_barred: "webhook_auth_check now nm ip m = None \<longleftrightarrow> \<not> barred (throttle_entry nm) now ip m"
  by (auto simp: webhook_auth_check_def barred_def throttle_entry_def held_def split: option.split)

lemma webhook_guesses_bounded:
  assumes "sorted (map fst es)"
  shows "length (filter (\<lambda>x. t \<le> x \<and> x < t + 301000)
     (passes (\<lambda>m e. if webhook_auth_check (fst e) nm (snd e) m = None then webhook_auth_failure (fst e) nm (snd e) m else m)
        (\<lambda>m e. if webhook_auth_check (fst e) nm (snd e) m = None then Some (snd e) else None) fst ip [] es)) \<le> 10"
proof -
  have step: "(\<lambda>m e. if webhook_auth_check (fst e) nm (snd e) m = None then webhook_auth_failure (fst e) nm (snd e) m else m)
      = try_once (throttle_entry nm) (\<lambda>now ip. webhook_auth_failure now nm ip)"
    by (intro ext) (simp add: try_once_def webhook_barred)
  have adm: "(\<lambda>m e. if webhook_auth_check (fst e) nm (snd e) m = None then Some (snd e) else None) = tries (throttle_entry nm)"
    by (intro ext) (simp add: tries_def webhook_barred)
  have "webhooks.lawful nm 0 []" "entry_window (throttle_entry nm) [] ip = None"
    by (simp_all add: webhooks.lawful_def throttle_entry_def entry_window_def)
  from webhooks.windows.interval_bound [OF this, of es t] assms show ?thesis unfolding step adm by simp
qed

text \<open>Changing the secret of a webhook frees every address from its lockout.\<close>

lemma clear_all_frees: "webhook_auth_check now nm ip (webhook_auth_clear_all nm m) = None"
proof -
  have "map_of (webhook_auth_clear_all nm m) (throttle_key nm ip) = None"
    by (auto simp: webhook_auth_clear_all_def throttle_key_def map_of_eq_None_iff starts_with_iff)
  then show ?thesis by (simp add: webhook_auth_check_def)
qed

end
