(* ===== verification/Goals.thy ===== *)
theory Goals
  imports Soul_Text Session_Claims Cli_Runner
begin

text \<open>
  Standing goals: the table \<open>session_goals\<close> (\<open>db/session_goals.rs\<close>), the commands \<open>/goal\<close> and \<open>/subgoal\<close>
  (\<open>agent/goal/mod.rs\<close>, \<open>agent/pipeline/commands.rs\<close>), the driver that works on a goal in turns of its
  own (\<open>agent/goal/driver.rs\<close>, \<open>decompose.rs\<close>), its registry (\<open>agent/goal/pool.rs\<close>), and the resumption
  after a crash (\<open>main.rs\<close>).

  One turn of the driver is a function of the table and of what the world answers in it: the model,
  the judge, the database, the cancellation token, and what others write while the turn and the
  judge run.  Counters are integers; PostgreSQL refuses to count past its range.
\<close>

section \<open>Table\<close>

record GoalRow =
  g_session_id :: uuid
  g_goal_text :: string
  g_status :: string
  g_turn_count :: int
  g_max_turns :: int
  g_subgoals :: "string list"
  g_last_verdict :: "string option"
  g_consecutive_judge_failures :: int
  g_origin :: string
  g_current_chunk :: int
  g_decompose_failed :: bool
  g_cron_job_id :: "uuid option"
  g_day_plan_managed :: bool
  g_next_redrive_at :: "timestamp option"
  g_created_at :: timestamp
  g_updated_at :: timestamp

definition goal_is_running :: "GoalRow \<Rightarrow> bool" where
  "goal_is_running g \<longleftrightarrow> g_status g = ''active''"

definition budget_left :: "GoalRow \<Rightarrow> bool" where
  "budget_left g \<longleftrightarrow> g_turn_count g < g_max_turns g"

definition get_goal :: "uuid \<Rightarrow> GoalRow list \<Rightarrow> GoalRow option" where
  "get_goal sid gs = find (\<lambda>g. g_session_id g = sid) gs"

text \<open>An \<open>UPDATE\<close> of the goal of a session, which also sets \<open>updated_at\<close>.\<close>

definition update_goal :: "timestamp \<Rightarrow> uuid \<Rightarrow> (GoalRow \<Rightarrow> GoalRow) \<Rightarrow> GoalRow list \<Rightarrow> GoalRow list" where
  "update_goal now sid f gs = update_where (\<lambda>g. g_session_id g = sid) (\<lambda>g. (f g)\<lparr>g_updated_at := now\<rparr>) gs"

definition new_goal :: "timestamp \<Rightarrow> uuid \<Rightarrow> string \<Rightarrow> int \<Rightarrow> string \<Rightarrow> uuid option \<Rightarrow> GoalRow" where
  "new_goal now sid goal mx origin job =
     \<lparr>g_session_id = sid, g_goal_text = goal, g_status = ''active'', g_turn_count = 0, g_max_turns = mx,
      g_subgoals = [], g_last_verdict = None, g_consecutive_judge_failures = 0, g_origin = origin,
      g_current_chunk = 0, g_decompose_failed = False, g_cron_job_id = job, g_day_plan_managed = False,
      g_next_redrive_at = None, g_created_at = now, g_updated_at = now\<rparr>"

text \<open>The columns that every \<open>ON CONFLICT\<close> clause resets.\<close>

definition refresh_goal :: "string \<Rightarrow> int \<Rightarrow> GoalRow \<Rightarrow> GoalRow" where
  "refresh_goal goal mx g =
     g\<lparr>g_goal_text := goal, g_status := ''active'', g_turn_count := 0, g_max_turns := mx,
       g_last_verdict := None, g_consecutive_judge_failures := 0, g_decompose_failed := False\<rparr>"

definition upsert_goal :: "timestamp \<Rightarrow> uuid \<Rightarrow> string \<Rightarrow> int \<Rightarrow> GoalRow list \<Rightarrow> GoalRow list" where
  "upsert_goal now sid goal mx gs =
     (if get_goal sid gs = None then gs @ [new_goal now sid goal mx ''goal'' None]
      else update_goal now sid (refresh_goal goal mx) gs)"

definition upsert_cron_goal :: "timestamp \<Rightarrow> uuid \<Rightarrow> uuid \<Rightarrow> string \<Rightarrow> int \<Rightarrow> GoalRow list \<Rightarrow> GoalRow list" where
  "upsert_cron_goal now sid job goal mx gs =
     (let gs1 = update_where (\<lambda>g. g_cron_job_id g = Some job \<and> g_status g = ''active'' \<and> g_session_id g \<noteq> sid)
                  (\<lambda>g. g\<lparr>g_status := ''cleared'', g_updated_at := now\<rparr>) gs
      in if get_goal sid gs1 = None then gs1 @ [new_goal now sid goal mx ''cron'' (Some job)]
         else update_goal now sid (\<lambda>g. (refresh_goal goal mx g)\<lparr>g_origin := ''cron'', g_cron_job_id := Some job\<rparr>) gs1)"

definition upsert_initiative_goal_tx :: "timestamp \<Rightarrow> uuid \<Rightarrow> string \<Rightarrow> int \<Rightarrow> GoalRow list \<Rightarrow> GoalRow list" where
  "upsert_initiative_goal_tx now sid goal mx gs =
     (if get_goal sid gs = None then gs @ [new_goal now sid goal mx ''initiative'' None]
      else update_goal now sid (\<lambda>g. (refresh_goal goal mx g)\<lparr>g_origin := ''initiative''\<rparr>) gs)"

definition set_goal_status :: "timestamp \<Rightarrow> uuid \<Rightarrow> string \<Rightarrow> GoalRow list \<Rightarrow> GoalRow list" where
  "set_goal_status now sid status = update_goal now sid (\<lambda>g. g\<lparr>g_status := status\<rparr>)"

definition set_decompose_failed :: "timestamp \<Rightarrow> uuid \<Rightarrow> bool \<Rightarrow> GoalRow list \<Rightarrow> GoalRow list" where
  "set_decompose_failed now sid v = update_goal now sid (\<lambda>g. g\<lparr>g_decompose_failed := v\<rparr>)"

definition set_day_plan_managed_tx :: "timestamp \<Rightarrow> uuid \<Rightarrow> bool \<Rightarrow> GoalRow list \<Rightarrow> GoalRow list" where
  "set_day_plan_managed_tx now sid v = update_goal now sid (\<lambda>g. g\<lparr>g_day_plan_managed := v\<rparr>)"

definition bump_turn :: "timestamp \<Rightarrow> uuid \<Rightarrow> GoalRow list \<Rightarrow> GoalRow list" where
  "bump_turn now sid = update_goal now sid (\<lambda>g. g\<lparr>g_turn_count := g_turn_count g + 1\<rparr>)"

definition set_current_chunk :: "timestamp \<Rightarrow> uuid \<Rightarrow> int \<Rightarrow> GoalRow list \<Rightarrow> GoalRow list" where
  "set_current_chunk now sid n = update_goal now sid (\<lambda>g. g\<lparr>g_current_chunk := n\<rparr>)"

definition set_subgoals :: "timestamp \<Rightarrow> uuid \<Rightarrow> string list \<Rightarrow> GoalRow list \<Rightarrow> GoalRow list" where
  "set_subgoals now sid ss = update_goal now sid (\<lambda>g. g\<lparr>g_subgoals := ss\<rparr>)"

definition record_verdict :: "timestamp \<Rightarrow> uuid \<Rightarrow> string \<Rightarrow> bool \<Rightarrow> GoalRow list \<Rightarrow> GoalRow list" where
  "record_verdict now sid verdict judge_failed =
     update_goal now sid (\<lambda>g. g\<lparr>g_last_verdict := Some verdict,
       g_consecutive_judge_failures := (if judge_failed then g_consecutive_judge_failures g + 1 else 0)\<rparr>)"

definition try_cancel_goal ::
  "timestamp \<Rightarrow> uuid \<Rightarrow> string \<Rightarrow> session_row list \<Rightarrow> GoalRow list \<Rightarrow> bool \<times> GoalRow list" where
  "try_cancel_goal now sid agent ss gs =
     (let P = (\<lambda>g. g_session_id g = sid \<and> g_status g = ''active''
                   \<and> list_ex (\<lambda>s. s_id s = sid \<and> s_agent_id s = agent) ss)
      in (list_ex P gs, update_where P (\<lambda>g. g\<lparr>g_status := ''cancelled'', g_updated_at := now\<rparr>) gs))"

definition clear_goal :: "uuid \<Rightarrow> GoalRow list \<Rightarrow> GoalRow list" where
  "clear_goal sid gs = filter (\<lambda>g. g_session_id g \<noteq> sid) gs"

definition set_next_redrive_at :: "timestamp \<Rightarrow> uuid \<Rightarrow> int \<Rightarrow> GoalRow list \<Rightarrow> GoalRow list" where
  "set_next_redrive_at now sid seconds = update_goal now sid (\<lambda>g. g\<lparr>g_next_redrive_at := Some (now + seconds * 1000000)\<rparr>)"

text \<open>The joins with the session table: the goal with its session.\<close>

definition goal_sessions :: "session_row list \<Rightarrow> GoalRow list \<Rightarrow> (GoalRow \<times> session_row) list" where
  "goal_sessions ss gs =
     concat (map (\<lambda>s. map (\<lambda>g. (g, s)) (filter (\<lambda>g. g_session_id g = s_id s) gs)) ss)"

definition list_redrivable ::
  "timestamp \<Rightarrow> int \<Rightarrow> int \<Rightarrow> session_row list \<Rightarrow> GoalRow list \<Rightarrow> (uuid \<times> string \<times> string) list" where
  "list_redrivable now staleness_secs max_retries ss gs =
     map (\<lambda>(g, s). (g_session_id g, s_agent_id s, g_origin g))
       (sort_key (\<lambda>(g, s). s_last_message_at s)
         (filter (\<lambda>(g, s). g_status g = ''active'' \<and> g_origin g \<in> {''cron'', ''initiative''}
             \<and> s_run_status s \<in> {Some ''interrupted'', Some ''done''} \<and> s_retry_count s < max_retries
             \<and> (case g_next_redrive_at g of None \<Rightarrow> True | Some t \<Rightarrow> t \<le> now)
             \<and> now - staleness_secs * 1000000 < s_last_message_at s \<and> \<not> g_day_plan_managed g) (goal_sessions ss gs)))"

definition list_active_by_agent_and_origin ::
  "string \<Rightarrow> string \<Rightarrow> session_row list \<Rightarrow> GoalRow list \<Rightarrow> GoalRow list" where
  "list_active_by_agent_and_origin agent origin ss gs =
     map fst (sort_key (\<lambda>(g, s). - g_created_at g)
       (filter (\<lambda>(g, s). s_agent_id s = agent \<and> g_origin g = origin \<and> g_status g = ''active'') (goal_sessions ss gs)))"

definition list_stalled_goal_texts_by_agent ::
  "string \<Rightarrow> nat \<Rightarrow> session_row list \<Rightarrow> GoalRow list \<Rightarrow> string list" where
  "list_stalled_goal_texts_by_agent agent limit ss gs =
     take limit (map (\<lambda>(g, s). g_goal_text g) (sort_key (\<lambda>(g, s). - g_updated_at g)
       (filter (\<lambda>(g, s). s_agent_id s = agent \<and> g_origin g = ''initiative'' \<and> g_status g = ''paused''
           \<and> \<not> g_day_plan_managed g) (goal_sessions ss gs))))"

definition list_interrupted_interactive_goals ::
  "timestamp \<Rightarrow> int \<Rightarrow> session_row list \<Rightarrow> GoalRow list \<Rightarrow> (GoalRow \<times> session_row) list" where
  "list_interrupted_interactive_goals now staleness_secs ss gs =
     sort_key (\<lambda>(g, s). s_last_message_at s)
       (filter (\<lambda>(g, s). g_status g = ''active'' \<and> g_origin g = ''goal'' \<and> now - staleness_secs * 1000000 < s_last_message_at s)
         (goal_sessions ss gs))"

section \<open>Decisions\<close>

datatype Verdict = VDone | VContinue | VParseFail

text \<open>\<open>from_str\<close> is the JSON parser.\<close>

definition parse_judge_verdict :: "(string \<Rightarrow> json option) \<Rightarrow> string \<Rightarrow> Verdict" where
  "parse_judge_verdict from_str raw =
     (let cleaned = replace_all ''```'' [] (replace_all ''```json'' [] raw)
      in case (str_find [CHR 0x7B] cleaned, str_find [CHR 0x7D] (rev cleaned)) of
           (Some s, Some r) \<Rightarrow>
             (let e = length cleaned - 1 - r
              in if e < s then VParseFail
                 else case from_str (take (e + 1 - s) (drop s cleaned)) of
                        None \<Rightarrow> VParseFail
                      | Some v \<Rightarrow> (case json_get v ''done'' of
                                    Some (JBool True) \<Rightarrow> VDone
                                  | Some (JBool False) \<Rightarrow> VContinue
                                  | _ \<Rightarrow> VParseFail))
         | _ \<Rightarrow> VParseFail)"

fun numbered :: "nat \<Rightarrow> string list \<Rightarrow> string" where
  "numbered i [] = []"
| "numbered i (sg # sgs) = nat_str i @ ''. '' @ sg @ [CHR 0x0A] @ numbered (Suc i) sgs"

definition continuation_prompt :: "string \<Rightarrow> string list \<Rightarrow> string" where
  "continuation_prompt goal subgoals =
     ''[autonomous continuation] Keep working toward this goal:'' @ [CHR 0x0A] @ goal @ [CHR 0x0A]
     @ (if subgoals = [] then [] else [CHR 0x0A] @ ''Ranked criteria:'' @ [CHR 0x0A] @ numbered 1 subgoals)
     @ [CHR 0x0A] @ ''When the goal is fully achieved, state that explicitly. Otherwise take the next concrete step.''"

datatype GoalCmd = GSet string | GStatus | GPause | GResume | GClear

definition parse_goal_command :: "(string \<Rightarrow> string) \<Rightarrow> string \<Rightarrow> GoalCmd" where
  "parse_goal_command to_lowercase arg =
     (let a = trim arg; l = to_lowercase a
      in if l = [] \<or> l = ''status'' then GStatus
         else if l = ''pause'' then GPause
         else if l = ''resume'' then GResume
         else if l = ''clear'' then GClear
         else GSet a)"

datatype SubgoalCmd = SAdd string | SList | SRemove nat

text \<open>\<open>parse_usize\<close> is \<open>str::parse::<usize>\<close>.\<close>

definition parse_usize :: "string \<Rightarrow> nat option" where
  "parse_usize s =
     (let ds = (case s of c # cs \<Rightarrow> if c = CHR ''+'' then cs else s | [] \<Rightarrow> [])
      in if ds \<noteq> [] \<and> list_all (\<lambda>c. 48 \<le> (of_char c :: nat) \<and> (of_char c :: nat) \<le> 57) ds \<and> digits_val ds < 2 ^ 64
         then Some (digits_val ds) else None)"

definition parse_subgoal_command :: "string \<Rightarrow> SubgoalCmd" where
  "parse_subgoal_command arg =
     (let a = trim arg
      in if to_ascii_lowercase a = ''list'' then SList
         else case (case strip_prefix ''remove '' a of Some r \<Rightarrow> Some r | None \<Rightarrow> strip_prefix (''remove'' @ [CHR 0x09]) a) of
                Some rest \<Rightarrow> (case parse_usize (trim rest) of Some n \<Rightarrow> SRemove n | None \<Rightarrow> SAdd a)
              | None \<Rightarrow> SAdd a)"

datatype DriverAction = AContinue | ADone | APause string

definition next_action :: "GoalRow \<Rightarrow> Verdict \<Rightarrow> DriverAction" where
  "next_action row verdict =
     (if verdict = VDone then ADone
      else if \<not> budget_left row then APause ''budget''
      else if verdict = VContinue then AContinue
      else if 3 \<le> g_consecutive_judge_failures row + 1 then APause ''judge''
      else AContinue)"

definition MAX_CHUNKS :: nat where "MAX_CHUNKS = 8"
definition CHUNK_MAX_CHARS :: nat where "CHUNK_MAX_CHARS = 300"

record ChunkVerdict =
  cv_chunk_done :: bool
  cv_replan :: bool
  cv_parse_ok :: bool

definition parse_chunk_verdict :: "(string \<Rightarrow> json option) \<Rightarrow> string \<Rightarrow> ChunkVerdict" where
  "parse_chunk_verdict repair_json raw =
     (case repair_json raw of
        Some v \<Rightarrow> \<lparr>cv_chunk_done = (json_get v ''chunk_done'' = Some (JBool True)),
                   cv_replan = (json_get v ''replan'' = Some (JBool True)), cv_parse_ok = True\<rparr>
      | None \<Rightarrow> \<lparr>cv_chunk_done = False, cv_replan = False, cv_parse_ok = False\<rparr>)"

datatype DecomposeAction = ChContinue | ChAdvance | ChAdvanceAndReplan | ChDone | ChPause string

definition advance_decision :: "GoalRow \<Rightarrow> ChunkVerdict \<Rightarrow> nat \<Rightarrow> DecomposeAction" where
  "advance_decision row verdict chunks_len =
     (let current = nat (max (g_current_chunk row) 0)
      in if cv_chunk_done verdict \<and> chunks_len \<le> current + 1 then ChDone
         else if \<not> budget_left row then ChPause ''budget''
         else if cv_chunk_done verdict \<and> cv_replan verdict then ChAdvanceAndReplan
         else if cv_chunk_done verdict then ChAdvance
         else if \<not> cv_parse_ok verdict \<and> 3 \<le> g_consecutive_judge_failures row + 1 then ChPause ''judge''
         else ChContinue)"

datatype StepOutcome = Continuing | StepDone | StepPaused

fun step_of_decompose :: "DecomposeAction \<Rightarrow> StepOutcome" where
  "step_of_decompose ChDone = StepDone"
| "step_of_decompose (ChPause r) = StepPaused"
| "step_of_decompose _ = Continuing"

fun step_of_driver :: "DriverAction \<Rightarrow> StepOutcome" where
  "step_of_driver ADone = StepDone"
| "step_of_driver (APause r) = StepPaused"
| "step_of_driver AContinue = Continuing"

definition clean_chunks :: "(string \<Rightarrow> string) \<Rightarrow> string list \<Rightarrow> string list" where
  "clean_chunks to_lowercase raw =
     take MAX_CHUNKS (filter (\<lambda>c. c \<noteq> [])
       (map trim (List.map_filter (\<lambda>c. sanitize_soul_text to_lowercase c CHUNK_MAX_CHARS) raw)))"

text \<open>The answers of the model; \<open>None\<close> is an error of the provider.  \<open>repair_json\<close> is the tolerant parser
  of \<open>agent/json_repair.rs\<close>.\<close>

definition llm_json_list :: "(string \<Rightarrow> json option) \<Rightarrow> string option \<Rightarrow> string \<Rightarrow> string list" where
  "llm_json_list repair_json reply key =
     (case Option.bind reply repair_json of
        None \<Rightarrow> []
      | Some v \<Rightarrow> (case Option.bind (json_get v key) as_array of
                    Some a \<Rightarrow> List.map_filter as_str a | None \<Rightarrow> []))"

definition chunk_judge :: "(string \<Rightarrow> json option) \<Rightarrow> string option \<Rightarrow> ChunkVerdict" where
  "chunk_judge repair_json reply =
     (case reply of
        Some raw \<Rightarrow> parse_chunk_verdict repair_json raw
      | None \<Rightarrow> \<lparr>cv_chunk_done = False, cv_replan = False, cv_parse_ok = False\<rparr>)"

definition judge :: "(string \<Rightarrow> json option) \<Rightarrow> string option \<Rightarrow> Verdict" where
  "judge from_str reply = (case reply of Some raw \<Rightarrow> parse_judge_verdict from_str raw | None \<Rightarrow> VContinue)"

section \<open>One turn of the driver\<close>

text \<open>What the world does in a turn.  A field that ends in \<open>ok\<close> says that the database answered the
  statement; \<open>during\<close> and \<open>judging\<close> are what others write to the table while the planner or the turn, and
  while the judge run; \<open>cancel\<close> is the token before the loop, under the lock and after the turn.  The replies are
  those of the planner, the planner of what remains, the turn and the judge.\<close>

record turn_env =
  tv_now :: timestamp
  tv_locks :: bool
  tv_decompose :: bool
  tv_cancel0 :: bool
  tv_cancel1 :: bool
  tv_cancel2 :: bool
  tv_get_ok :: bool
  tv_pause_ok :: bool
  tv_flag_ok :: bool
  tv_subgoals_ok :: bool
  tv_chunk_ok :: bool
  tv_bump_ok :: bool
  tv_fresh_ok :: bool
  tv_verdict_ok :: bool
  tv_status_ok :: bool
  tv_to_lowercase :: "string \<Rightarrow> string"
  tv_from_str :: "string \<Rightarrow> json option"
  tv_repair_json :: "string \<Rightarrow> json option"
  tv_plan_reply :: "string option"
  tv_replan_reply :: "string option"
  tv_turn :: "string option"
  tv_judge_reply :: "string option"
  tv_during :: "GoalRow list \<Rightarrow> GoalRow list"
  tv_judging :: "GoalRow list \<Rightarrow> GoalRow list"

text \<open>A statement whose error is dropped.\<close>

definition tried :: "bool \<Rightarrow> (GoalRow list \<Rightarrow> GoalRow list) \<Rightarrow> GoalRow list \<Rightarrow> GoalRow list" where
  "tried ok f gs = (if ok then f gs else gs)"

definition pause_text :: "string \<Rightarrow> string" where
  "pause_text reason =
     utf8 [0xE2, 0x8F, 0xB8] @ (if reason = ''judge'' then '' Goal paused (judge unreliable). /goal resume to retry.''
                                else '' Goal paused (turn budget). /goal resume to continue.'')"

definition int_str :: "int \<Rightarrow> string" where
  "int_str n = (if n < 0 then ''-'' @ nat_str (nat (- n)) else nat_str (nat n))"

definition budget_text :: "GoalRow \<Rightarrow> string" where
  "budget_text row =
     utf8 [0xE2, 0x8F, 0xB8] @ '' Goal hit the turn budget ('' @ int_str (g_max_turns row) @ ''). /goal resume to continue.''"

definition complete_text :: string where
  "complete_text = utf8 [0xE2, 0x9C, 0x85] @ '' Goal complete.''"

text \<open>After the turn, on both branches: the turn is counted, its text delivered, and the row read again
  after the judge.\<close>

definition after_turn :: "turn_env \<Rightarrow> uuid \<Rightarrow> GoalRow \<Rightarrow> GoalRow list \<Rightarrow> GoalRow \<times> GoalRow list \<times> string list" where
  "after_turn v sid row gs =
     (let gs1 = tried (tv_bump_ok v) (bump_turn (tv_now v) sid) gs;
          out = (case tv_turn v of Some t \<Rightarrow> if trim t \<noteq> [] then [t] else [] | None \<Rightarrow> []);
          gs2 = tv_judging v gs1;
          fresh = (case (if tv_fresh_ok v then get_goal sid gs2 else None) of Some g \<Rightarrow> g | None \<Rightarrow> row)
      in (fresh, gs2, out))"

definition decompose_turn :: "turn_env \<Rightarrow> uuid \<Rightarrow> GoalRow \<Rightarrow> GoalRow list \<Rightarrow> StepOutcome \<times> GoalRow list \<times> string list" where
  "decompose_turn v sid row gs =
     (let current = nat (max (g_current_chunk row) 0); now = tv_now v
      in if tv_cancel1 v then (StepDone, gs, [])
         else
           let gs0 = tv_during v gs
           in if tv_cancel2 v then (StepDone, gs0, [])
              else
                let (fresh, gs1, out) = after_turn v sid row gs0;
                    cv = chunk_judge (tv_repair_json v) (tv_judge_reply v);
                    gs2 = tried (tv_verdict_ok v)
                            (record_verdict now sid (if cv_chunk_done cv then ''chunk_done'' else ''continue'') (\<not> cv_parse_ok cv)) gs1;
                    action = advance_decision fresh cv (length (g_subgoals fresh));
                    (gs3, out') =
                      (case action of
                         ChContinue \<Rightarrow> (gs2, out)
                       | ChAdvance \<Rightarrow> (tried (tv_chunk_ok v) (set_current_chunk now sid (g_current_chunk fresh + 1)) gs2, out)
                       | ChAdvanceAndReplan \<Rightarrow>
                           (let done' = take (current + 1) (g_subgoals fresh);
                                remaining = clean_chunks (tv_to_lowercase v)
                                  (llm_json_list (tv_repair_json v) (tv_replan_reply v) ''remaining'');
                                gs2' = (if remaining \<noteq> []
                                        then tried (tv_subgoals_ok v) (set_subgoals now sid (done' @ remaining)) gs2 else gs2)
                            in (tried (tv_chunk_ok v) (set_current_chunk now sid (g_current_chunk fresh + 1)) gs2', out))
                       | ChDone \<Rightarrow> (tried (tv_status_ok v) (set_goal_status now sid ''done'') gs2, out @ [complete_text])
                       | ChPause reason \<Rightarrow>
                           (tried (tv_status_ok v) (set_goal_status now sid ''paused'') gs2, out @ [pause_text reason]))
                in (step_of_decompose action, gs3, out'))"

definition flat_turn :: "turn_env \<Rightarrow> uuid \<Rightarrow> GoalRow \<Rightarrow> GoalRow list \<Rightarrow> StepOutcome \<times> GoalRow list \<times> string list" where
  "flat_turn v sid row gs =
     (let now = tv_now v
      in if tv_cancel1 v then (StepDone, gs, [])
         else
           let gs0 = tv_during v gs
           in if tv_cancel2 v then (StepDone, gs0, [])
              else
                let (fresh, gs1, out) = after_turn v sid row gs0;
                    verdict = judge (tv_from_str v) (tv_judge_reply v);
                    gs2 = tried (tv_verdict_ok v)
                            (record_verdict now sid (if verdict = VDone then ''done'' else ''continue'') (verdict = VParseFail)) gs1;
                    action = next_action fresh verdict;
                    (gs3, out') =
                      (case action of
                         ADone \<Rightarrow> (tried (tv_status_ok v) (set_goal_status now sid ''done'') gs2, out @ [complete_text])
                       | APause reason \<Rightarrow>
                           (tried (tv_status_ok v) (set_goal_status now sid ''paused'') gs2, out @ [pause_text reason])
                       | AContinue \<Rightarrow> (gs2, out))
                in (step_of_driver action, gs3, out'))"

definition is_decompose :: "turn_env \<Rightarrow> GoalRow \<Rightarrow> bool" where
  "is_decompose v row \<longleftrightarrow> g_origin row = ''initiative'' \<and> tv_decompose v \<and> \<not> g_decompose_failed row"

definition advance_one_chunk :: "turn_env \<Rightarrow> uuid \<Rightarrow> GoalRow list \<Rightarrow> StepOutcome \<times> GoalRow list \<times> string list" where
  "advance_one_chunk v sid gs =
     (if \<not> tv_locks v then (StepDone, gs, [])
      else case (if tv_get_ok v then get_goal sid gs else None) of
             None \<Rightarrow> (StepDone, gs, [])
           | Some row \<Rightarrow>
               let now = tv_now v;
                   chunks = clean_chunks (tv_to_lowercase v) (llm_json_list (tv_repair_json v) (tv_plan_reply v) ''chunks'')
               in if \<not> goal_is_running row then (StepDone, gs, [])
                  else if \<not> budget_left row
                  then (StepPaused, tried (tv_pause_ok v) (set_goal_status now sid ''paused'') gs, [budget_text row])
                  else if is_decompose v row \<and> g_subgoals row = []
                  then (let gs0 = tv_during v gs
                        in if chunks = []
                           then (Continuing,
                                 if tv_flag_ok v then set_decompose_failed now sid True gs0
                                 else tried (tv_bump_ok v) (bump_turn now sid) gs0, [])
                           else (Continuing,
                                 tried (tv_chunk_ok v) (set_current_chunk now sid 0)
                                   (tried (tv_subgoals_ok v) (set_subgoals now sid chunks) gs0), []))
                  else if is_decompose v row then decompose_turn v sid row gs
                  else flat_turn v sid row gs)"

text \<open>The loop: \<open>world k\<close> is what happens in turn \<open>k\<close>.  The result is the number of turns and the
  table; a driver that never stops has none.\<close>

partial_function (option) run_goal_driver ::
  "(nat \<Rightarrow> turn_env) \<Rightarrow> uuid \<Rightarrow> nat \<Rightarrow> GoalRow list \<Rightarrow> (nat \<times> GoalRow list) option" where
  "run_goal_driver world sid k gs =
     (if tv_cancel0 (world k) then Some (k, gs)
      else case advance_one_chunk (world k) sid gs of
             (Continuing, gs', out) \<Rightarrow> run_goal_driver world sid (Suc k) gs'
           | (StepDone, gs', out) \<Rightarrow> Some (Suc k, gs')
           | (StepPaused, gs', out) \<Rightarrow> Some (Suc k, gs'))"

section \<open>Registry of drivers\<close>

text \<open>A handle is the number of the driver it belongs to; the tokens that were cancelled and the
  drivers that ended are recorded.\<close>

record goal_pool =
  gp_handles :: "uuid \<rightharpoonup> nat"
  gp_cancelled :: "nat list"
  gp_finished :: "nat list"
  gp_next :: nat

definition pool_is_running :: "uuid \<Rightarrow> goal_pool \<Rightarrow> bool" where
  "pool_is_running sid p = (case gp_handles p sid of Some h \<Rightarrow> h \<notin> set (gp_finished p) | None \<Rightarrow> False)"

definition pool_stop :: "uuid \<Rightarrow> goal_pool \<Rightarrow> goal_pool" where
  "pool_stop sid p =
     (case gp_handles p sid of
        Some h \<Rightarrow> p\<lparr>gp_handles := (gp_handles p)(sid := None), gp_cancelled := h # gp_cancelled p\<rparr>
      | None \<Rightarrow> p)"

definition spawn_goal_driver :: "uuid \<Rightarrow> goal_pool \<Rightarrow> goal_pool" where
  "spawn_goal_driver sid p = p\<lparr>gp_handles := (gp_handles p)(sid \<mapsto> gp_next p), gp_next := Suc (gp_next p)\<rparr>"

text \<open>The end of \<open>run_goal_driver\<close>: the entry of the session is removed.\<close>

definition driver_exit :: "uuid \<Rightarrow> nat \<Rightarrow> goal_pool \<Rightarrow> goal_pool" where
  "driver_exit sid h p = p\<lparr>gp_handles := (gp_handles p)(sid := None), gp_finished := h # gp_finished p\<rparr>"

definition start_goal_driver :: "bool \<Rightarrow> uuid \<Rightarrow> goal_pool \<Rightarrow> bool \<times> goal_pool" where
  "start_goal_driver available sid p = (if available then (True, spawn_goal_driver sid (pool_stop sid p)) else (False, p))"

definition stop_goal_driver :: "bool \<Rightarrow> uuid \<Rightarrow> goal_pool \<Rightarrow> goal_pool" where
  "stop_goal_driver available sid p = (if available then pool_stop sid p else p)"

section \<open>Commands\<close>

text \<open>\<open>/goal\<close> and \<open>/subgoal\<close> in a session: the answer, the table, the registry.  \<open>reached\<close> are the answers
  of the database to the statements of the command, in their order.\<close>

fun goal_command ::
  "timestamp \<Rightarrow> bool \<Rightarrow> bool \<Rightarrow> bool \<Rightarrow> uuid \<Rightarrow> GoalCmd \<Rightarrow> GoalRow list \<Rightarrow> goal_pool \<Rightarrow> string \<times> GoalRow list \<times> goal_pool" where
  "goal_command now reached reached2 available sid (GSet goal) gs p =
     (if \<not> reached then (''Failed to set goal: '', gs, p)
      else let gs' = upsert_goal now sid goal 20 gs; (ok, p') = start_goal_driver available sid p
           in if \<not> ok then (''Goal saved, but the autonomous driver could not start here.'', gs', p')
              else (utf8 [0xF0, 0x9F, 0x8E, 0xAF] @ '' Goal set: '' @ goal @ [CHR 0x0A]
                    @ ''Working on it autonomously (max 20 turns). /goal status '' @ utf8 [0xC2, 0xB7] @ '' /goal pause ''
                    @ utf8 [0xC2, 0xB7] @ '' /goal clear.'', gs', p'))"
| "goal_command now reached reached2 available sid GStatus gs p =
     ((case (if reached then get_goal sid gs else None) of
         Some g \<Rightarrow> utf8 [0xF0, 0x9F, 0x8E, 0xAF] @ '' Goal: '' @ g_goal_text g @ [CHR 0x0A] @ ''Status: '' @ g_status g @ '' (''
                   @ int_str (g_turn_count g) @ ''/'' @ int_str (g_max_turns g) @ '' turns)''
                   @ (if g_subgoals g = [] then [] else [CHR 0x0A] @ ''Subgoals: '' @ join ''; '' (g_subgoals g))
       | None \<Rightarrow> ''No goal set. Use /goal <text>.''), gs, p)"
| "goal_command now reached reached2 available sid GPause gs p =
     (utf8 [0xE2, 0x8F, 0xB8] @ '' Goal paused. /goal resume to continue.'',
      tried reached (set_goal_status now sid ''paused'') gs, stop_goal_driver available sid p)"
| "goal_command now reached reached2 available sid GResume gs p =
     (let gs' = tried reached2 (set_decompose_failed now sid False) (tried reached (set_goal_status now sid ''active'') gs);
          (ok, p') = start_goal_driver available sid p
      in (if ok then utf8 [0xE2, 0x96, 0xB6] @ '' Goal resumed.'' else ''Could not resume the autonomous driver here.'', gs', p'))"
| "goal_command now reached reached2 available sid GClear gs p =
     (utf8 [0xF0, 0x9F, 0x97, 0x91] @ '' Goal cleared.'', tried reached (clear_goal sid) gs, stop_goal_driver available sid p)"

fun subgoal_command :: "timestamp \<Rightarrow> bool \<Rightarrow> bool \<Rightarrow> uuid \<Rightarrow> SubgoalCmd \<Rightarrow> GoalRow list \<Rightarrow> string \<times> GoalRow list" where
  "subgoal_command now found reached sid cmd gs =
     (case (if found then get_goal sid gs else None) of
        None \<Rightarrow> (''No active goal '' @ utf8 [0xE2, 0x80, 0x94] @ '' set one with /goal <text>.'', gs)
      | Some g \<Rightarrow>
          (let ss = g_subgoals g in
           case cmd of
             SAdd t \<Rightarrow> (''Added subgoal. '' @ nat_str (length ss + 1) @ '' total.'',
                        tried reached (set_subgoals now sid (ss @ [t])) gs)
           | SList \<Rightarrow> (if ss = [] then ''No subgoals.''
                       else join [CHR 0x0A] (map (\<lambda>(i, x). nat_str i @ ''. '' @ x) (zip [1..<length ss + 1] ss)), gs)
           | SRemove n \<Rightarrow>
               if 1 \<le> n \<and> n \<le> length ss
               then (''Removed subgoal '' @ nat_str n @ ''. '' @ nat_str (length ss - 1) @ '' left.'',
                     tried reached (set_subgoals now sid (take (n - 1) ss @ drop n ss)) gs)
               else (''No subgoal #'' @ nat_str n @ ''.'', gs)))"

datatype ProposalError = BaseAgent | ProposalDb

definition cancel_goal ::
  "timestamp \<Rightarrow> bool \<Rightarrow> bool \<Rightarrow> uuid \<Rightarrow> string \<Rightarrow> session_row list \<Rightarrow> GoalRow list \<Rightarrow> goal_pool
     \<Rightarrow> (ProposalError + bool) \<times> GoalRow list \<times> goal_pool" where
  "cancel_goal now base reached sid agent ss gs p =
     (if base then (Inl BaseAgent, gs, p)
      else if \<not> reached then (Inl ProposalDb, gs, p)
      else let (cancelled, gs') = try_cancel_goal now sid agent ss gs
           in (Inr cancelled, gs', if cancelled then pool_stop sid p else p))"

section \<open>Resumption after a crash\<close>

definition backoff_secs :: "int \<Rightarrow> int" where
  "backoff_secs retry = 60 * 2 ^ nat (min (max retry 0) 8)"

record redrive_world =
  rd_db :: db
  rd_goals :: "GoalRow list"
  rd_pool :: goal_pool
  rd_started :: "uuid list"

definition redrive_one :: "timestamp \<Rightarrow> string list \<Rightarrow> uuid \<times> string \<times> string \<Rightarrow> redrive_world \<Rightarrow> redrive_world" where
  "redrive_one now engines rg w =
     (case rg of (sid, agent, origin) \<Rightarrow>
        if agent \<notin> set engines then w
        else if pool_is_running sid (rd_pool w) then w
        else case claim_redrive sid 3 (rd_db w) of
               Inl e \<Rightarrow> w
             | Inr (None, d) \<Rightarrow> w\<lparr>rd_db := d\<rparr>
             | Inr (Some retry, d) \<Rightarrow>
                 w\<lparr>rd_db := d,
                   rd_goals := set_decompose_failed now sid False (set_next_redrive_at now sid (backoff_secs retry) (rd_goals w)),
                   rd_pool := spawn_goal_driver sid (rd_pool w), rd_started := rd_started w @ [sid]\<rparr>)"

definition resume_autonomous_goals :: "timestamp \<Rightarrow> bool \<Rightarrow> string list \<Rightarrow> redrive_world \<Rightarrow> redrive_world" where
  "resume_autonomous_goals now disabled engines w =
     (if disabled then w
      else fold (redrive_one now engines) (take 5 (list_redrivable now (6 * 3600) 3 (db.sessions (rd_db w)) (rd_goals w))) w)"

section \<open>Facts on the table\<close>

lemma get_goal_update:
  assumes "\<And>g. g_session_id (f g) = g_session_id g"
  shows "get_goal sid (update_goal now sid f gs)
           = map_option (\<lambda>g. (f g)\<lparr>g_updated_at := now\<rparr>) (get_goal sid gs)"
  using assms by (induction gs) (auto simp: get_goal_def update_goal_def)

lemma get_goal_update_other:
  assumes "sid \<noteq> k" "\<And>g. g_session_id (f g) = g_session_id g"
  shows "get_goal k (update_goal now sid f gs) = get_goal k gs"
  using assms by (induction gs) (auto simp: get_goal_def update_goal_def)

lemma get_goal_writers [simp]:
  "get_goal sid (set_goal_status now sid st gs)
     = map_option (\<lambda>g. g\<lparr>g_status := st, g_updated_at := now\<rparr>) (get_goal sid gs)"
  "get_goal sid (set_decompose_failed now sid b gs)
     = map_option (\<lambda>g. g\<lparr>g_decompose_failed := b, g_updated_at := now\<rparr>) (get_goal sid gs)"
  "get_goal sid (bump_turn now sid gs)
     = map_option (\<lambda>g. g\<lparr>g_turn_count := g_turn_count g + 1, g_updated_at := now\<rparr>) (get_goal sid gs)"
  "get_goal sid (set_current_chunk now sid n gs)
     = map_option (\<lambda>g. g\<lparr>g_current_chunk := n, g_updated_at := now\<rparr>) (get_goal sid gs)"
  "get_goal sid (set_subgoals now sid ss gs)
     = map_option (\<lambda>g. g\<lparr>g_subgoals := ss, g_updated_at := now\<rparr>) (get_goal sid gs)"
  "get_goal sid (record_verdict now sid t b gs)
     = map_option (\<lambda>g. g\<lparr>g_last_verdict := Some t,
         g_consecutive_judge_failures := (if b then g_consecutive_judge_failures g + 1 else 0), g_updated_at := now\<rparr>) (get_goal sid gs)"
  by (simp_all add: set_goal_status_def set_decompose_failed_def bump_turn_def set_current_chunk_def set_subgoals_def
      record_verdict_def get_goal_update)

section \<open>The driver ends\<close>

text \<open>A turn in which others leave the goal of the session alone and the two statements that make
  progress are answered; a turn in which nothing is cancelled and the reads and the status are answered.\<close>

definition leaves_goal :: "uuid \<Rightarrow> (GoalRow list \<Rightarrow> GoalRow list) \<Rightarrow> bool" where
  "leaves_goal sid f \<longleftrightarrow> (\<forall>gs. get_goal sid (f gs) = get_goal sid gs)"

definition steady :: "uuid \<Rightarrow> turn_env \<Rightarrow> bool" where
  "steady sid v \<longleftrightarrow> tv_bump_ok v \<and> tv_subgoals_ok v \<and> leaves_goal sid (tv_during v) \<and> leaves_goal sid (tv_judging v)"

definition answered :: "turn_env \<Rightarrow> bool" where
  "answered v \<longleftrightarrow> tv_locks v \<and> tv_get_ok v \<and> tv_pause_ok v \<and> tv_status_ok v
     \<and> \<not> tv_cancel0 v \<and> \<not> tv_cancel1 v \<and> \<not> tv_cancel2 v"

definition steps_left :: "GoalRow \<Rightarrow> nat" where
  "steps_left g = 2 * nat (g_max_turns g - g_turn_count g)
     + (if g_subgoals g = [] \<and> \<not> g_decompose_failed g then 1 else 0)"

text \<open>What a turn on \<open>row\<close> with outcome \<open>r\<close> leaves.\<close>

definition turn_leaves :: "turn_env \<Rightarrow> uuid \<Rightarrow> GoalRow \<Rightarrow> StepOutcome \<Rightarrow> GoalRow list \<Rightarrow> bool" where
  "turn_leaves v sid row r gs' \<longleftrightarrow>
     (\<exists>g'. get_goal sid gs' = Some g' \<and> g_max_turns g' = g_max_turns row
        \<and> g_turn_count g' \<le> g_turn_count row + (if budget_left row then 1 else 0)
        \<and> (if r = Continuing then g_status g' = g_status row \<and> steps_left g' < steps_left row
           else answered v \<longrightarrow> g_status g' = ''done'' \<or> g_status g' = ''paused''))"

text \<open>The row after a counted turn, whatever else was written to it.\<close>

definition counted :: "GoalRow \<Rightarrow> GoalRow \<Rightarrow> bool" where
  "counted row g \<longleftrightarrow> g_max_turns g = g_max_turns row \<and> g_turn_count g = g_turn_count row + 1 \<and> g_status g = g_status row
     \<and> (g_subgoals g = [] \<longleftrightarrow> g_subgoals row = []) \<and> g_decompose_failed g = g_decompose_failed row"

definition holds_counted :: "uuid \<Rightarrow> GoalRow \<Rightarrow> GoalRow list \<Rightarrow> bool" where
  "holds_counted sid row gs = (case get_goal sid gs of Some g \<Rightarrow> counted row g | None \<Rightarrow> False)"

lemma after_turn_counted:
  assumes "steady sid v" "get_goal sid gs = Some row" "after_turn v sid row gs = (fresh, gs1, out)"
  shows "holds_counted sid row gs1"
  using assms by (auto simp: after_turn_def Let_def steady_def leaves_goal_def tried_def holds_counted_def counted_def)

lemma counted_writers:
  assumes "holds_counted sid row gs"
  shows "holds_counted sid row (tried b (record_verdict now sid t f) gs)"
    "holds_counted sid row (tried b (set_current_chunk now sid n) gs)"
    "g_subgoals row \<noteq> [] \<Longrightarrow> ss \<noteq> [] \<Longrightarrow> holds_counted sid row (tried b (set_subgoals now sid ss) gs)"
  using assms by (simp_all add: tried_def holds_counted_def counted_def split: option.splits)

lemma counted_leaves:
  assumes "holds_counted sid row gs" "budget_left row"
  shows "turn_leaves v sid row Continuing gs"
    "r \<noteq> Continuing \<Longrightarrow> st = ''done'' \<or> st = ''paused'' \<Longrightarrow>
       turn_leaves v sid row r (tried (tv_status_ok v) (set_goal_status now sid st) gs)"
proof -
  obtain g where g: "get_goal sid gs = Some g" "counted row g"
    using assms(1) by (auto simp: holds_counted_def split: option.splits)
  have "nat (g_max_turns row - (g_turn_count row + 1)) < nat (g_max_turns row - g_turn_count row)"
    using assms(2) by (simp add: budget_left_def)
  then have less: "steps_left g < steps_left row" using g(2) by (simp add: counted_def steps_left_def)
  show "turn_leaves v sid row Continuing gs" using g less assms(2) by (simp add: turn_leaves_def counted_def)
  assume "r \<noteq> Continuing" "st = ''done'' \<or> st = ''paused''"
  then show "turn_leaves v sid row r (tried (tv_status_ok v) (set_goal_status now sid st) gs)"
    using g assms(2) by (simp add: turn_leaves_def counted_def tried_def answered_def)
qed

lemma cancelled_leaves:
  assumes "get_goal sid gs' = Some row" "\<not> answered v"
  shows "turn_leaves v sid row StepDone gs'"
  using assms by (auto simp: turn_leaves_def)

lemma flat_turn_leaves:
  assumes "steady sid v" "get_goal sid gs = Some row" "budget_left row" "flat_turn v sid row gs = (r, gs', out)"
  shows "turn_leaves v sid row r gs'"
proof (cases "tv_cancel1 v \<or> tv_cancel2 v")
  case True
  then have "r = StepDone" "get_goal sid gs' = Some row" "\<not> answered v"
    using assms by (auto simp: flat_turn_def Let_def steady_def leaves_goal_def answered_def split: if_splits)
  then show ?thesis using cancelled_leaves by simp
next
  case False
  obtain fresh gs1 o1 where a: "after_turn v sid row (tv_during v gs) = (fresh, gs1, o1)" by (metis prod_cases3)
  have "get_goal sid (tv_during v gs) = Some row" using assms(1,2) by (simp add: steady_def leaves_goal_def)
  note c = counted_leaves [OF counted_writers(1) [OF after_turn_counted [OF assms(1) this a]] assms(3)]
  show ?thesis using False assms(4) a
    by (auto simp: flat_turn_def Let_def c split: DriverAction.splits)
qed

lemma decompose_turn_leaves:
  assumes "steady sid v" "get_goal sid gs = Some row" "budget_left row" "g_subgoals row \<noteq> []"
    "decompose_turn v sid row gs = (r, gs', out)"
  shows "turn_leaves v sid row r gs'"
proof (cases "tv_cancel1 v \<or> tv_cancel2 v")
  case True
  then have "r = StepDone" "get_goal sid gs' = Some row" "\<not> answered v"
    using assms by (auto simp: decompose_turn_def Let_def steady_def leaves_goal_def answered_def split: if_splits)
  then show ?thesis using cancelled_leaves by simp
next
  case False
  obtain fresh gs1 o1 where a: "after_turn v sid row (tv_during v gs) = (fresh, gs1, o1)" by (metis prod_cases3)
  have "get_goal sid (tv_during v gs) = Some row" using assms(1,2) by (simp add: steady_def leaves_goal_def)
  note h = counted_writers(1) [OF after_turn_counted [OF assms(1) this a]]
  note go = h [THEN counted_leaves(1)] counted_writers(2) [OF h, THEN counted_leaves(1)]
    counted_writers(2) [OF counted_writers(3) [OF h assms(4)], THEN counted_leaves(1)]
  show ?thesis using False assms(3,5) a
    by (auto simp: decompose_turn_def Let_def go counted_leaves(2) [OF h] split: DecomposeAction.splits if_splits)
qed

lemma advance_leaves:
  assumes "steady sid v" "get_goal sid gs = Some row" "goal_is_running row" "tv_locks v" "tv_get_ok v"
    "advance_one_chunk v sid gs = (r, gs', out)"
  shows "turn_leaves v sid row r gs'"
proof -
  let ?chunks = "clean_chunks (tv_to_lowercase v) (llm_json_list (tv_repair_json v) (tv_plan_reply v) ''chunks'')"
  have kept: "get_goal sid (tv_during v gs) = Some row" "tv_bump_ok v" "tv_subgoals_ok v"
    using assms(1,2) by (simp_all add: steady_def leaves_goal_def)
  consider "\<not> budget_left row" | "budget_left row" "is_decompose v row" "g_subgoals row = []"
    | "budget_left row" "is_decompose v row" "g_subgoals row \<noteq> []" | "budget_left row" "\<not> is_decompose v row" by blast
  then show ?thesis
  proof cases
    case 1
    then have "r = StepPaused" "gs' = tried (tv_pause_ok v) (set_goal_status (tv_now v) sid ''paused'') gs"
      using assms(2-6) by (simp_all add: advance_one_chunk_def)
    then show ?thesis using 1 assms(2) by (simp add: turn_leaves_def tried_def answered_def)
  next
    case 2
    then have "\<not> g_decompose_failed row" "g_turn_count row < g_max_turns row"
      by (simp_all add: is_decompose_def budget_left_def)
    then show ?thesis using 2 kept assms(2-6)
      by (cases "?chunks = []"; cases "tv_flag_ok v"; cases "tv_chunk_ok v")
        (auto simp: advance_one_chunk_def tried_def turn_leaves_def steps_left_def Let_def)
  next
    case 3
    then have "decompose_turn v sid row gs = (r, gs', out)" using assms(2-6) by (simp add: advance_one_chunk_def)
    then show ?thesis using decompose_turn_leaves 3 assms(1,2) by blast
  next
    case 4
    then have "flat_turn v sid row gs = (r, gs', out)" using assms(2-6) by (simp add: advance_one_chunk_def)
    then show ?thesis using flat_turn_leaves 4 assms(1,2) by blast
  qed
qed

text \<open>How a driver that was started on \<open>row\<close> at step \<open>k\<close> ends.\<close>

definition ends_within :: "(nat \<Rightarrow> turn_env) \<Rightarrow> uuid \<Rightarrow> nat \<Rightarrow> GoalRow \<Rightarrow> (nat \<times> GoalRow list) option \<Rightarrow> bool" where
  "ends_within world sid k row res \<longleftrightarrow>
     (\<exists>n gs' g'. res = Some (n, gs') \<and> n \<le> k + steps_left row + 1 \<and> get_goal sid gs' = Some g'
        \<and> g_turn_count g' \<le> max (g_turn_count row) (g_max_turns row)
        \<and> ((\<forall>k. answered (world k)) \<longrightarrow> g_status g' = ''done'' \<or> g_status g' = ''paused''))"

lemma run_ends_within:
  assumes "\<And>k. steady sid (world k)" "get_goal sid gs = Some row" "goal_is_running row"
  shows "ends_within world sid k row (run_goal_driver world sid k gs)"
  using assms(2,3)
proof (induction "steps_left row" arbitrary: k gs row rule: less_induct)
  case less
  let ?v = "world k"
  obtain r gs' out where step: "advance_one_chunk ?v sid gs = (r, gs', out)" by (metis prod_cases3)
  consider "tv_cancel0 ?v" | "\<not> tv_cancel0 ?v" "\<not> (tv_locks ?v \<and> tv_get_ok ?v)" | "\<not> tv_cancel0 ?v" "tv_locks ?v" "tv_get_ok ?v"
    by blast
  then show ?case
  proof cases
    case 1
    then have "run_goal_driver world sid k gs = Some (k, gs)" by (simp add: run_goal_driver.simps [of world sid k gs])
    then show ?thesis using 1 less.prems by (auto simp: ends_within_def answered_def)
  next
    case 2
    then have "advance_one_chunk ?v sid gs = (StepDone, gs, [])" by (auto simp: advance_one_chunk_def)
    then have "run_goal_driver world sid k gs = Some (Suc k, gs)"
      using 2(1) by (simp add: run_goal_driver.simps [of world sid k gs])
    then show ?thesis using 2 less.prems by (auto simp: ends_within_def answered_def)
  next
    case 3
    have tl: "turn_leaves ?v sid row r gs'" using advance_leaves [OF assms(1) less.prems 3(2,3) step] .
    then obtain g' where g': "get_goal sid gs' = Some g'" "g_max_turns g' = g_max_turns row"
      "g_turn_count g' \<le> g_turn_count row + (if budget_left row then 1 else 0)"
      and out': "if r = Continuing then g_status g' = g_status row \<and> steps_left g' < steps_left row
           else answered ?v \<longrightarrow> g_status g' = ''done'' \<or> g_status g' = ''paused''"
      by (auto simp: turn_leaves_def)
    have turns: "g_turn_count g' \<le> max (g_turn_count row) (g_max_turns row)"
      using g'(3) by (auto simp: budget_left_def split: if_splits)
    show ?thesis
    proof (cases "r = Continuing")
      case True
      then have run: "run_goal_driver world sid k gs = run_goal_driver world sid (Suc k) gs'"
        using 3 step by (simp add: run_goal_driver.simps [of world sid k gs])
      have "ends_within world sid (Suc k) g' (run_goal_driver world sid (Suc k) gs')"
        using less.hyps [of g' gs' "Suc k"] True out' g'(1) less.prems(2) by (simp add: goal_is_running_def)
      then show ?thesis unfolding run ends_within_def using True out' turns g'(2) by fastforce
    next
      case False
      then have "run_goal_driver world sid k gs = Some (Suc k, gs')"
        using 3 step by (cases r) (simp_all add: run_goal_driver.simps [of world sid k gs])
      then show ?thesis using False out' turns g'(1) by (simp add: ends_within_def)
    qed
  qed
qed

text \<open>C20. A goal is worked on for a bounded number of steps: when the database counts the turns and stores
  the plan, and nobody else writes to the goal, then, whatever the model and the judge answer and whenever the driver is cancelled,
  the driver of an active goal stops after at most two steps for each turn left plus two, and the goal has never been
  charged more turns than its budget; and when nothing is cancelled and the remaining statements are
  answered, the goal is left done or paused, never active.\<close>

theorem goal_driver_ends:
  assumes "\<forall>k. steady sid (world k)" "get_goal sid gs = Some row" "g_status row = ''active''"
  shows "\<exists>n gs' g'. run_goal_driver world sid 0 gs = Some (n, gs')
     \<and> n \<le> 2 * nat (g_max_turns row - g_turn_count row) + 2 \<and> get_goal sid gs' = Some g'
     \<and> g_turn_count g' \<le> max (g_turn_count row) (g_max_turns row)
     \<and> ((\<forall>k. answered (world k)) \<longrightarrow> g_status g' \<in> {''done'', ''paused''})"
proof -
  have "ends_within world sid 0 row (run_goal_driver world sid 0 gs)"
    using run_ends_within assms by (simp add: goal_is_running_def)
  then show ?thesis by (fastforce simp: ends_within_def steps_left_def split: if_splits)
qed

text \<open>A world in which the judge is never satisfied.\<close>

definition idle_env :: turn_env where
  "idle_env = \<lparr>tv_now = 9, tv_locks = True, tv_decompose = True, tv_cancel0 = False, tv_cancel1 = False, tv_cancel2 = False,
     tv_get_ok = True, tv_pause_ok = True, tv_flag_ok = True, tv_subgoals_ok = True, tv_chunk_ok = True, tv_bump_ok = True,
     tv_fresh_ok = True, tv_verdict_ok = True, tv_status_ok = True, tv_to_lowercase = id, tv_from_str = (\<lambda>s. None),
     tv_repair_json = (\<lambda>s. None), tv_plan_reply = None, tv_replan_reply = None, tv_turn = Some ''working'',
     tv_judge_reply = None, tv_during = id, tv_judging = id\<rparr>"

theorem goal_driver_ends_witness:
  "(\<forall>k. answered ((\<lambda>_. idle_env) k)) \<and>
   (\<exists>n gs' g'. run_goal_driver (\<lambda>_. idle_env) 1 0 [new_goal 5 1 ''tidy up'' 2 ''initiative'' None] = Some (n, gs')
     \<and> n \<le> 6 \<and> get_goal 1 gs' = Some g' \<and> g_turn_count g' \<le> 2 \<and> g_status g' \<in> {''done'', ''paused''})"
proof -
  have "\<forall>k. steady 1 ((\<lambda>_. idle_env) k)" and a: "\<forall>k. answered ((\<lambda>_. idle_env) k)"
    by (simp_all add: steady_def answered_def leaves_goal_def idle_env_def)
  then show ?thesis
    using goal_driver_ends [of 1 "\<lambda>_. idle_env" "[new_goal 5 1 ''tidy up'' 2 ''initiative'' None]"
        "new_goal 5 1 ''tidy up'' 2 ''initiative'' None"]
    by (simp add: get_goal_def new_goal_def)
qed

section \<open>Resumption\<close>

lemma redrive_writers_other:
  assumes "k \<noteq> sid"
  shows "get_goal k (set_decompose_failed now sid b gs) = get_goal k gs"
    "get_goal k (set_next_redrive_at now sid n gs) = get_goal k gs"
  using assms by (simp_all add: set_decompose_failed_def set_next_redrive_at_def get_goal_update_other)

definition redriven :: "(uuid \<times> string \<times> string) list \<Rightarrow> redrive_world \<Rightarrow> redrive_world \<Rightarrow> bool" where
  "redriven xs w w' \<longleftrightarrow>
     (\<exists>ss. rd_started w' = rd_started w @ ss \<and> length ss \<le> length xs \<and> set ss \<subseteq> fst ` set xs
        \<and> (\<forall>k. k \<in> set ss \<longrightarrow> gp_handles (rd_pool w') k \<noteq> None)
        \<and> (\<forall>k. k \<notin> set ss \<longrightarrow> get_goal k (rd_goals w') = get_goal k (rd_goals w)
                 \<and> gp_handles (rd_pool w') k = gp_handles (rd_pool w) k))"

lemma redriven_refl: "redriven xs w w"
  by (simp add: redriven_def)

lemma redriven_claimed: "redriven xs w (w\<lparr>rd_db := d\<rparr>)"
  by (simp add: redriven_def)

lemma redriven_started:
  "redriven [(sid, agent, orig)] w (w\<lparr>rd_db := d,
     rd_goals := set_decompose_failed now sid False (set_next_redrive_at now sid n (rd_goals w)),
     rd_pool := spawn_goal_driver sid (rd_pool w), rd_started := rd_started w @ [sid]\<rparr>)"
  by (simp add: redriven_def redrive_writers_other spawn_goal_driver_def)

lemma redriven_one: "redriven [x] w (redrive_one now engines x w)"
  by (cases x) (simp add: redrive_one_def redriven_refl redriven_claimed redriven_started split: sum.split prod.split option.split)

lemma redriven_trans:
  assumes "redriven xs w w1" "redriven ys w1 w2"
  shows "redriven (xs @ ys) w w2"
proof -
  obtain ss where ss: "rd_started w1 = rd_started w @ ss" "length ss \<le> length xs" "set ss \<subseteq> fst ` set xs"
    "\<forall>k. k \<in> set ss \<longrightarrow> gp_handles (rd_pool w1) k \<noteq> None"
    "\<forall>k. k \<notin> set ss \<longrightarrow> get_goal k (rd_goals w1) = get_goal k (rd_goals w) \<and> gp_handles (rd_pool w1) k = gp_handles (rd_pool w) k"
    using assms(1) unfolding redriven_def by blast
  obtain ts where ts: "rd_started w2 = rd_started w1 @ ts" "length ts \<le> length ys" "set ts \<subseteq> fst ` set ys"
    "\<forall>k. k \<in> set ts \<longrightarrow> gp_handles (rd_pool w2) k \<noteq> None"
    "\<forall>k. k \<notin> set ts \<longrightarrow> get_goal k (rd_goals w2) = get_goal k (rd_goals w1) \<and> gp_handles (rd_pool w2) k = gp_handles (rd_pool w1) k"
    using assms(2) unfolding redriven_def by blast
  show ?thesis unfolding redriven_def
  proof (intro exI [of _ "ss @ ts"] conjI allI impI)
    show "set (ss @ ts) \<subseteq> fst ` set (xs @ ys)" using ss(3) ts(3) by auto
    fix k
    show "gp_handles (rd_pool w2) k \<noteq> None" if "k \<in> set (ss @ ts)" using that ss(4) ts(4,5) by (cases "k \<in> set ts") auto
    show "get_goal k (rd_goals w2) = get_goal k (rd_goals w)" "gp_handles (rd_pool w2) k = gp_handles (rd_pool w) k"
      if "k \<notin> set (ss @ ts)" using that ss(5) ts(5) by simp_all
  qed (use ss ts in simp_all)
qed

lemma redriven_fold: "redriven xs w (fold (redrive_one now engines) xs w)"
proof (induction xs arbitrary: w)
  case (Cons x xs)
  show ?case using redriven_trans [OF redriven_one Cons.IH] by simp
qed (simp add: redriven_refl)

lemma redrivable_goal:
  assumes "x \<in> set (list_redrivable now st mx ss gs)"
  obtains g s where "g \<in> set gs" "g_session_id g = fst x" "g_status g = ''active''" "g_origin g \<noteq> ''goal''" "\<not> g_day_plan_managed g"
    "s \<in> set ss" "s_id s = fst x" "s_retry_count s < mx" "now - st * 1000000 < s_last_message_at s"
  using assms by (auto simp: list_redrivable_def goal_sessions_def)

text \<open>C21. After a restart at most five goals are taken up again, each of them an active goal that an
  agent gave itself (a scheduled job or an approved initiative outside the day plan) in a session
  that was written to in the last six hours and was retried fewer than three times; a goal that a
  user set with \<open>/goal\<close> is never driven without being asked for, and no other goal and no other
  driver is touched.\<close>

theorem redrive_only_autonomous:
  assumes "rd_started w = []"
  shows "let w' = resume_autonomous_goals now disabled engines w
         in length (rd_started w') \<le> 5
            \<and> (\<forall>k. if k \<in> set (rd_started w')
                   then gp_handles (rd_pool w') k \<noteq> None
                     \<and> (\<exists>g \<in> set (rd_goals w). g_session_id g = k \<and> g_status g = ''active'' \<and> g_origin g \<noteq> ''goal''
                          \<and> \<not> g_day_plan_managed g)
                     \<and> (\<exists>s \<in> set (db.sessions (rd_db w)). s_id s = k \<and> s_retry_count s < 3
                          \<and> now - 6 * 3600 * 1000000 < s_last_message_at s)
                   else get_goal k (rd_goals w') = get_goal k (rd_goals w)
                     \<and> gp_handles (rd_pool w') k = gp_handles (rd_pool w) k)"
proof -
  let ?xs = "take 5 (list_redrivable now (6 * 3600) 3 (db.sessions (rd_db w)) (rd_goals w))"
  let ?w = "resume_autonomous_goals now disabled engines w"
  have "redriven ?xs w ?w" by (simp add: resume_autonomous_goals_def redriven_refl redriven_fold)
  then have started: "length (rd_started ?w) \<le> length ?xs" "set (rd_started ?w) \<subseteq> fst ` set ?xs"
    and registered: "k \<in> set (rd_started ?w) \<Longrightarrow> gp_handles (rd_pool ?w) k \<noteq> None"
    and other: "k \<notin> set (rd_started ?w) \<Longrightarrow> get_goal k (rd_goals ?w) = get_goal k (rd_goals w)
                 \<and> gp_handles (rd_pool ?w) k = gp_handles (rd_pool w) k" for k
    using assms by (auto simp: redriven_def)
  have "\<exists>g \<in> set (rd_goals w). g_session_id g = k \<and> g_status g = ''active'' \<and> g_origin g \<noteq> ''goal'' \<and> \<not> g_day_plan_managed g"
    and "\<exists>s \<in> set (db.sessions (rd_db w)). s_id s = k \<and> s_retry_count s < 3 \<and> now - 6 * 3600 * 1000000 < s_last_message_at s"
    if k: "k \<in> set (rd_started ?w)" for k
  proof -
    obtain x where x: "x \<in> set (list_redrivable now (6 * 3600) 3 (db.sessions (rd_db w)) (rd_goals w))" "fst x = k"
      using started(2) k by (auto dest!: in_set_takeD)
    show "\<exists>g \<in> set (rd_goals w). g_session_id g = k \<and> g_status g = ''active'' \<and> g_origin g \<noteq> ''goal'' \<and> \<not> g_day_plan_managed g"
      "\<exists>s \<in> set (db.sessions (rd_db w)). s_id s = k \<and> s_retry_count s < 3 \<and> now - 6 * 3600 * 1000000 < s_last_message_at s"
      using redrivable_goal [OF x(1)] x(2) by (metis mult.assoc)+
  qed
  then show ?thesis using started(1) registered other by (simp add: Let_def)
qed

definition redrive_example :: redrive_world where
  "redrive_example = \<lparr>rd_db = interrupted_example, rd_goals = [new_goal 0 1 ''report'' 9 ''cron'' None, new_goal 0 2 ''chat'' 9 ''goal'' None],
     rd_pool = \<lparr>gp_handles = Map.empty, gp_cancelled = [], gp_finished = [], gp_next = 0\<rparr>, rd_started = []\<rparr>"

theorem redrive_only_autonomous_witness:
  "rd_started redrive_example = []
   \<and> rd_started (resume_autonomous_goals 7 False [''a''] redrive_example) = [1]
   \<and> (\<exists>g \<in> set (rd_goals redrive_example). g_session_id g = 1 \<and> g_status g = ''active'' \<and> g_origin g \<noteq> ''goal'')"
proof -
  have s: "rd_started redrive_example = []" by (simp add: redrive_example_def)
  have r: "rd_started (resume_autonomous_goals 7 False [''a''] redrive_example) = [1]"
    by (simp add: resume_autonomous_goals_def list_redrivable_def goal_sessions_def redrive_one_def pool_is_running_def redrive_example_def
        interrupted_example_def new_goal_def new_session_row_def empty_db_def claim_redrive_def charge_retry_def i32_max_def)
  show ?thesis
    using redrive_only_autonomous [OF s, of 7 False "[''a'']", unfolded Let_def] r s
    by (metis list.set_intros(1))
qed

section \<open>Limits\<close>

text \<open>A goal that was paused because its turns are used up cannot be resumed: \<open>/goal resume\<close> sets it to
  active and leaves the counter, so the first step pauses it again, with the advice to resume.\<close>

lemma resume_cannot_extend:
  assumes "get_goal sid gs = Some g" "\<not> budget_left g" "tv_locks v" "tv_get_ok v" "tv_pause_ok v"
    "goal_command now True True True sid GResume gs p = (answer, gs', p')"
  shows "\<exists>gs'' g''. advance_one_chunk v sid gs' = (StepPaused, gs'', [budget_text g])
     \<and> get_goal sid gs'' = Some g'' \<and> g_status g'' = ''paused'' \<and> g_turn_count g'' = g_turn_count g"
proof -
  have "get_goal sid gs' = Some (g\<lparr>g_status := ''active'', g_decompose_failed := False, g_updated_at := now\<rparr>)"
    using assms(1,6) by (auto simp: tried_def start_goal_driver_def)
  then show ?thesis
    using assms(2-5) by (simp add: advance_one_chunk_def tried_def goal_is_running_def budget_left_def budget_text_def)
qed

text \<open>A new goal of a session that had one keeps the criteria, the position and the origin of the old
  goal, so the judge measures it by criteria of another goal.\<close>

lemma new_goal_keeps_criteria:
  assumes "get_goal sid gs = Some g"
  shows "\<exists>g'. get_goal sid (upsert_goal now sid goal mx gs) = Some g' \<and> g_goal_text g' = goal \<and> g_turn_count g' = 0
     \<and> g_subgoals g' = g_subgoals g \<and> g_current_chunk g' = g_current_chunk g \<and> g_origin g' = g_origin g"
  using assms by (simp add: upsert_goal_def get_goal_update refresh_goal_def)

text \<open>When the plan of an initiative is never stored, the driver never stops: the failure of the
  statement is dropped, no turn is counted, and the model is asked for the plan in every step.\<close>

definition plans_in_vain :: "uuid \<Rightarrow> turn_env \<Rightarrow> bool" where
  "plans_in_vain sid v \<longleftrightarrow> tv_locks v \<and> tv_get_ok v \<and> \<not> tv_cancel0 v \<and> tv_decompose v \<and> \<not> tv_subgoals_ok v
     \<and> leaves_goal sid (tv_during v)
     \<and> clean_chunks (tv_to_lowercase v) (llm_json_list (tv_repair_json v) (tv_plan_reply v) ''chunks'') \<noteq> []"

definition unplanned :: "uuid \<Rightarrow> GoalRow list \<Rightarrow> bool" where
  "unplanned sid gs \<longleftrightarrow> (case get_goal sid gs of
      Some g \<Rightarrow> goal_is_running g \<and> budget_left g \<and> g_origin g = ''initiative'' \<and> \<not> g_decompose_failed g \<and> g_subgoals g = []
    | None \<Rightarrow> False)"

lemma plans_in_vain_step:
  assumes "plans_in_vain sid v" "unplanned sid gs"
  shows "\<exists>gs'. advance_one_chunk v sid gs = (Continuing, gs', []) \<and> unplanned sid gs'"
  using assms
  by (cases "get_goal sid gs")
    (auto simp: plans_in_vain_def unplanned_def leaves_goal_def advance_one_chunk_def is_decompose_def tried_def Let_def
      goal_is_running_def budget_left_def)

lemma unplanned_never_returns:
  assumes "run_goal_driver world sid k gs = Some r" "\<forall>k. plans_in_vain sid (world k)"
  shows "\<not> unplanned sid gs"
proof -
  have "s = sid \<and> (\<forall>k. plans_in_vain sid (world k)) \<longrightarrow> \<not> unplanned sid gs"
    if "run_goal_driver world s k gs = Some y" for world s k gs y
  proof (rule run_goal_driver.raw_induct
      [where P = "\<lambda>world s _ gs _. s = sid \<and> (\<forall>k. plans_in_vain sid (world k)) \<longrightarrow> \<not> unplanned sid gs"])
    fix f world s k gs y
    assume IH: "\<And>world s k gs y. f world s k gs = Some y \<Longrightarrow>
        s = sid \<and> (\<forall>k. plans_in_vain sid (world k)) \<longrightarrow> \<not> unplanned sid gs"
      and res: "(if tv_cancel0 (world k) then Some (k, gs)
          else case advance_one_chunk (world k) s gs of
                 (Continuing, gs', out) \<Rightarrow> f world s (Suc k) gs'
               | (StepDone, gs', out) \<Rightarrow> Some (Suc k, gs')
               | (StepPaused, gs', out) \<Rightarrow> Some (Suc k, gs')) = Some y"
    show "s = sid \<and> (\<forall>k. plans_in_vain sid (world k)) \<longrightarrow> \<not> unplanned sid gs"
    proof (intro impI notI, elim conjE)
      assume h: "s = sid" "\<forall>k. plans_in_vain sid (world k)" "unplanned sid gs"
      then obtain gs' where "advance_one_chunk (world k) sid gs = (Continuing, gs', [])" "unplanned sid gs'"
        using plans_in_vain_step by blast
      moreover have "\<not> tv_cancel0 (world k)" using h(2) by (simp add: plans_in_vain_def)
      ultimately show False using IH [of world sid "Suc k" gs' y] res h by simp
    qed
  qed (fact that)
  then show ?thesis using assms by blast
qed

lemma unstored_plan_diverges:
  assumes "\<forall>k. plans_in_vain sid (world k)" "unplanned sid gs"
  shows "run_goal_driver world sid k gs = None"
  using unplanned_never_returns [OF _ assms(1)] assms(2) by (cases "run_goal_driver world sid k gs") blast+

text \<open>A driver that was stopped because a new goal was set removes, when its turn ends, the entry of its
  successor: the new driver runs and cannot be found, so \<open>/goal pause\<close> cancels nothing.\<close>

lemma old_driver_unregisters_successor:
  assumes "gp_handles p sid = Some h" "start_goal_driver True sid p = (ok, p')"
    "\<forall>n \<in> set (gp_cancelled p). n < gp_next p" "h < gp_next p"
  shows "gp_handles p' sid = Some (gp_next p) \<and> gp_next p \<notin> set (gp_cancelled (pool_stop sid (driver_exit sid h p')))
     \<and> \<not> pool_is_running sid (driver_exit sid h p')"
  using assms by (auto simp: start_goal_driver_def pool_stop_def spawn_goal_driver_def driver_exit_def pool_is_running_def)

text \<open>A goal that its owner cancels while the judge runs is overwritten by the verdict: the status is
  written without regard to the current one.\<close>

lemma cancelled_goal_overwritten:
  assumes "get_goal sid gs = Some row" "tv_during v = id" "tv_judging v = snd \<circ> try_cancel_goal t sid agent ss"
    "\<not> tv_cancel1 v" "\<not> tv_cancel2 v" "tv_status_ok v" "judge (tv_from_str v) (tv_judge_reply v) = VDone"
  shows "\<exists>gs' out g'. flat_turn v sid row gs = (StepDone, gs', out) \<and> get_goal sid gs' = Some g' \<and> g_status g' = ''done''"
proof -
  have kept: "get_goal sid (snd (try_cancel_goal t sid agent ss xs)) = None \<longleftrightarrow> get_goal sid xs = None" for xs
    by (induction xs) (auto simp: try_cancel_goal_def get_goal_def Let_def)
  obtain fresh gs1 out where a: "after_turn v sid row gs = (fresh, gs1, out)" by (metis prod_cases3)
  then have "gs1 = snd (try_cancel_goal t sid agent ss (tried (tv_bump_ok v) (bump_turn (tv_now v) sid) gs))"
    using assms(3) by (simp add: after_turn_def Let_def)
  then obtain g where "get_goal sid gs1 = Some g"
    using assms(1) kept by (cases "get_goal sid gs1") (simp_all add: tried_def split: if_splits)
  then show ?thesis
    using assms(2,4-7) a by (auto simp: flat_turn_def next_action_def tried_def Let_def)
qed

end
