(* ===== verification/Spec2Isabelle.thy ===== *)
theory Spec2Isabelle
  imports Session_Status Store_Machine Stream_Registry Tool_Loop Workspace Ssrf_Guard Cli_Runner Routing Turn_Layers
    Compression Tool_Gate Channel_Access Goals
begin

text \<open>
  OPEX: a verification library of the core of the agent server.

  The program.  OPEX (\<open>crates/opex-core\<close>, \<open>crates/opex-db\<close>, \<open>crates/opex-types\<close>) runs language-model
  agents.  A message of a user arrives on a channel and is attached to a session; the session is
  claimed, its transcript is read, and a turn runs: the model is called, the tools that it asks for
  are run, their results are added to the transcript, and the model is called again, until it gives
  an answer.  Around this loop stand retry and failover layers, a detector of loops, access control
  for the files and the addresses that tools may touch, and the recovery of turns that a crash or an
  abort cut off.  The library models these parts; each theory opens with the source files it
  translates, and every definition that models code keeps the name that the code has.

  \<^bold>\<open>Session store\<close> (\<open>opex-db/src/sessions.rs\<close>, \<open>session_status.rs\<close>, \<open>reentry_mode.rs\<close>,
  \<open>session_timeline.rs\<close>, the startup loop of \<open>opex-core/src/main.rs\<close>).
    \<^item> \<open>Session_Status\<close>: the enumerations \<open>SessionStatus\<close> and \<open>ReentryMode\<close> with their operations.
    \<^item> \<open>Db_Tables\<close>: the tables \<open>sessions\<close>, \<open>messages\<close> and \<open>session_timeline\<close> as lists of rows, and the
      SQL statements as functions on them, with keys, cascades, the trigger and the refusal of NUL
      bytes.  \<open>db_ok\<close> is the consistency of the tables, kept by every statement.
    \<^item> \<open>Session_Claims\<close>: finding, creating and claiming a session, the writers of \<open>run_status\<close>,
      retention.  Shown: chats are isolated, the lookup is stable, claims exclude each other, the
      retry of a claim succeeds, the per-agent cleanup keeps exactly the newest sessions.
    \<^item> \<open>Message_Store\<close>: saving, streaming, branching, trimming and mirroring messages.  Shown: a saved
      message is always persistable, the recursive branch query ends and returns the ancestors.
    \<^item> \<open>Session_Repair\<close>: ending a session, answering its open tool calls, the startup loop and the
      pruning of the timeline.  Shown: the repair is complete and atomic, the loops end, and the one
      kind of row for which the startup loop does not end.
    \<^item> \<open>Session_Paging\<close>: pages of sessions and transcripts, compression events, bookmarks.  Shown
      through the locale \<open>keyset\<close>: pages concatenate to the whole list.
    \<^item> \<open>Store_Machine\<close>: all operations above as one step relation \<open>db_step\<close>.  Shown by rule induction:
      every reachable state is consistent, the store refines the status machine, and the rows of a
      transcript are stable.

  \<^bold>\<open>Turns and streams\<close> (\<open>agent/session_manager.rs\<close>, \<open>gateway/stream_jobs.rs\<close>, \<open>gateway/stream_registry.rs\<close>,
  \<open>gateway/handlers/chat/stream.rs\<close>, \<open>opex-db/src/session_failures.rs\<close>).
    \<^item> \<open>Session_Guard\<close>: the guard that ends the session of a turn, stream jobs, failure log.  Shown (with
      \<open>history_machine\<close>): the status in which a session ends, for every sequence of calls and every
      failure of the database; a superseded turn writes nothing.
    \<^item> \<open>Stream_Registry\<close>: live streams, their replay buffers and readers.  Shown: late subscribers see
      everything, supersede hands the session over, the registry is bounded.

  \<^bold>\<open>Tool loop\<close> (\<open>agent/tool_loop.rs\<close>, \<open>agent/pipeline/parallel.rs\<close>, \<open>dispatch.rs\<close>).
    \<^item> \<open>Tool_Loop\<close>: the loop detector, its warm-up from the timeline and the sequential executor.  Shown:
      the detector refines a specification over the history of calls (locale \<open>history_machine\<close>,
      interpreted for the live detector and for the replay), a repeating batch is broken off, and
      the warm-up takes the same decisions.

  \<^bold>\<open>Files and addresses\<close> (\<open>agent/v4a_patch.rs\<close>, \<open>agent/workspace.rs\<close>, \<open>net/ssrf.rs\<close>).
    \<^item> \<open>V4A_Patch\<close>: parser and application of patches.  Shown: application implements a declarative
      relation, and the parser reads back what the printer wrote.
    \<^item> \<open>Workspace\<close>: path checks and file operations over a file tree with links.  Shown: what a write
      or a patch may change.
    \<^item> \<open>Ssrf_Guard\<close>: the address classes and the guarded clients (locale \<open>guarded_client\<close>).  Shown: the
      guarded client reaches public addresses only, whatever DNS answers.

  \<^bold>\<open>Model calls\<close> (\<open>agent/error_classify.rs\<close>, \<open>agent/providers/error.rs\<close>, \<open>agent/provider_cooldown.rs\<close>,
  \<open>agent/cli_backend/\<close>, \<open>agent/pipeline/llm_call.rs\<close>, \<open>agent/providers/routing.rs\<close>, \<open>agent/thinking.rs\<close>,
  \<open>agent/pipeline/behaviour.rs\<close> and \<open>execute.rs\<close>).
    \<^item> \<open>Llm_Errors\<close>, \<open>Cooldowns\<close>: the error values and the cooldown registry; the locales
      \<open>deadline_store\<close> and \<open>clearable_store\<close> state what a store of deadlines promises, and the
      registries of providers and of routes are interpretations.
    \<^item> \<open>Cli_Runner\<close>: the circuit breaker and the quoted command line of the CLI provider.
    \<^item> \<open>Llm_Call\<close>: budget check, overflow recovery, transient retry, deadline retry.  Shown: bounds on
      rounds, requests and delays, and what may be retried.
    \<^item> \<open>Routing\<close>: route selection and failover.  Shown: no route is tried after text was streamed, the
      cap bounds the calls.
    \<^item> \<open>Thinking\<close>: removal of thinking blocks from texts and streams.
    \<^item> \<open>Turn_Layers\<close>: the recovery layers of a turn.  Shown: they let only a bounded number of
      iterations pass without progress.

  \<^bold>\<open>Context of a model call\<close> (\<open>agent/history.rs\<close>, \<open>agent/compressor.rs\<close>, \<open>agent/pipeline/context.rs\<close>,
  \<open>commands.rs\<close>, the context part of \<open>llm_call.rs\<close>, \<open>db/compaction.rs\<close>).
    \<^item> \<open>Context_Window\<close>: double-precision rounding, the window of a model with its cache, truncation and
      replacement of tool results.  Shown: the hot path agrees with the discovery, a truncated result
      fits its budget, replacement keeps the recent results and the character count.
    \<^item> \<open>Compaction\<close>: compaction of a message list by a model, in a turn, after an overflow and in the
      \<open>/compact\<close> command, which rewrites the message table.  Shown: what is kept, that it fails open, the
      single progress header, what the command leaves, and the inputs for which the cut is wrong.
    \<^item> \<open>Compression\<close>: the compressor of a turn with its persisted state and the five phases of
      \<open>compress_messages\<close> over the session store.  Shown: the gate (interpretation \<open>results\<close> of
      \<open>history_machine\<close>), the pruning keeps content reachable, calls and results are paired, the last
      user message stays, exactly the rows of the middle are marked.

  \<^bold>\<open>Permission to run a tool\<close> (\<open>agent/pipeline/dispatch.rs\<close>, \<open>agent/dispatcher/\<close>, \<open>agent/subagent_runner.rs\<close>,
  \<open>agent/approval_manager.rs\<close>, \<open>opex-db/src/approvals.rs\<close>, \<open>agent/hooks.rs\<close>, \<open>agent/engine_dispatch.rs\<close>).
    \<^item> \<open>Tool_Policy\<close>: patterns, the tools that the model is offered, the dispatcher that rewrites
      \<open>tool_use\<close> calls and gates them, the tool list of a subagent.  Shown: the segment matcher is the
      glob, the list respects the policy, the gate decides every call of a batch exactly once,
      subagents are confined; and where the gate is weaker than the list.
    \<^item> \<open>Approvals\<close>: the table and the allowlist, and the life of a request as the machine
      \<open>approval_step\<close>, whose events are requests, decisions, wake-ups, timeouts, cancellations, pruning
      and failures of the database in any order (interpretations of \<open>step_machine\<close> and
      \<open>history_machine\<close>).  Shown: one decision wins, only an approval lets a call through, every wait
      ends, the codes of the endpoint.
    \<^item> \<open>Hooks\<close>: handlers and decision webhooks.  Shown: a veto blocks, decisions fit their event, the
      marker of provenance cannot be forged.
    \<^item> \<open>Tool_Gate\<close>: the path of one call through name check, approval, hooks and tool, composed with the
      machine of \<open>Approvals\<close>.  Shown: a gated tool runs only after a person approved it, and with the
      context of its call.

  \<^bold>\<open>Front door\<close> (\<open>gateway/middleware.rs\<close>, \<open>gateway/handlers/auth.rs\<close>, \<open>gateway/csp_core.rs\<close>,
  \<open>opex-gateway-util/src/rate_limiter.rs\<close>).
    \<^item> \<open>Gateway_Auth\<close>: limiters, tickets and middlewares.  Shown: who is served, tickets open once, the
      lockout, and through the locale \<open>fixed_window\<close> (interpreted for requests and for violation reports)
      that no interval of a minute lets more than twice the limit through.
    \<^item> \<open>Channel_Access\<close> (\<open>channels/access.rs\<close>, \<open>db/access.rs\<close>, \<open>gateway/handlers/access.rs\<close>,
      \<open>channel_ws/inline.rs\<close>, \<open>gateway/handlers/webhooks.rs\<close>): pairing of chat users, the approval button, and the
      authentication of webhook deliveries.  Shown: only a fresh code lets a user in (\<open>history_machine\<close>),
      a button acts for the owner only, a delivery is authentic, and, through the locale
      \<open>failure_lockout\<close>, a sublocale user of \<open>fixed_window\<close> interpreted for both, how many guesses are looked
      at.
    \<^item> \<open>Soul_Text\<close> (\<open>tools/content_security.rs\<close>, \<open>agent/soul/sanitize.rs\<close>): the scan for injected instructions and the
      cleaning of texts that enter prompts.  Shown: a cleaned text is short, on one line and free of
      special tokens; the lemmas after it show what the cleaning leaves.
    \<^item> \<open>Goals\<close> (\<open>db/session_goals.rs\<close>, \<open>agent/goal\<close>, \<open>/goal\<close> and \<open>/subgoal\<close> of \<open>agent/pipeline/commands.rs\<close>, \<open>cancel_goal\<close> of
      \<open>agents/initiative.rs\<close>, \<open>resume_autonomous_goals\<close> of \<open>main.rs\<close>): standing goals, which are cleaned plans
      (\<open>Soul_Text\<close>) worked on in turns of their own and resumed through the claims of \<open>Session_Claims\<close>.
      A step of the driver is a function of the table and of all that the world answers in it.  Shown:
      the driver ends within its budget and leaves the goal done or paused, by a measure that every
      continuing step decreases; a restart resumes autonomous goals only.  The section on limits proves
      where the code falls short, among them a driver that never ends.

  Shared material is in \<open>Opex_Prelude\<close>: the types, the part of Rust's string and integer API that the
  code uses, and the locales \<open>step_machine\<close> and \<open>history_machine\<close>.

  Conventions.  A Rust string is its list of UTF-8 bytes.  Errors are values of sum types.  Code that
  is not part of the repository is an argument of the definitions that use it: regular expressions,
  lower-casing of Unicode text, the text form of identifiers, the JSON parser, the ranking of tools, the
  client of webhooks, the body of a tool, the hash of a call or a
  text, the environment of a provider, the started process.  A finite \<open>f64\<close> is a rational number and
  every operation on it rounds to 53 bits.  Random identifiers and clocks are arguments too.

  Bounds and fuel.  The startup loop, the branch query, the pruning loop and the driver of a goal are partial functions into
  \<open>option\<close>, so that not returning is \<open>None\<close>, and their theorems prove \<open>Some\<close>.  The deadline retry
  recurses on what is left of \<open>MAX_TIMEOUT_RETRIES\<close> (10), the transient retry on its \<open>max_attempts\<close>
  (5); other loops are structural or have a measure.  The depth 20 of the session chain is the
  bound of the query itself.

  Not modelled.  HTTP handlers beyond those named above and request parsing, wire formats of the
  providers, the scheduler, the memory and embedding services, MCP, containers, the tools of the YAML
  layer and the user interface: they are glue around external services.  The concurrent branch of the tool executor, the forced
  last call of \<open>execute()\<close>, the emission to sinks, the prompts of the planner and the lock between a goal and
  the turns of its user are not modelled either.  A lost database connection is not modelled in the store: a failed statement leaves the
  tables as they were.
\<close>

end
